(* ===== verification/Prelude.thy ===== *)
theory Prelude
  imports Main "HOL-Library.Word"
begin

text \<open>
  What every component of the development shares: the machine types of
  libdevcore/Common.h as words, the exceptions of the C++ code as a datatype and
  results as sums, the collections of rewriting rules, and generic lemmas on
  lists and words.
\<close>

unbundle bit_operations_syntax

section \<open>Machine types\<close>

type_synonym byte = "8 word"
type_synonym bytes = "byte list"
type_synonym u64 = "64 word"
type_synonym u160 = "160 word"
type_synonym u256 = "256 word"

text \<open>\<open>size_t\<close> is modelled at 64 bits, the bound the code asserts statically.\<close>

type_synonym size_t = "64 word"

section \<open>Exceptions and results\<close>

text \<open>
  One constructor per exception class the modelled code throws. A function that may
  throw returns \<open>Inl\<close> the exception or \<open>Inr\<close> its result. \<open>UndefinedBehaviour\<close> stands for an
  unchecked access out of range, which C++ leaves undefined.
\<close>

datatype error =
    GenericException
  | InvalidAddress
  | BadHexCharacter
  | InvalidOpcode
  | InvalidDeposit
  | AssemblyException
  | OptimizerException
  | StackTooDeepException
  | ItemNotAvailableException
  | OutOfRange
  | UndefinedBehaviour
  | YulException
  | InternalCompilerError
  | TypeError

type_synonym 'a result = "error + 'a"

fun bind_result :: "'a result \<Rightarrow> ('a \<Rightarrow> 'b result) \<Rightarrow> 'b result" where
  "bind_result (Inl e) f = Inl e"
| "bind_result (Inr x) f = f x"

definition assertThrow :: "bool \<Rightarrow> error \<Rightarrow> 'a result \<Rightarrow> 'a result" where
  "assertThrow c e k = (if c then k else Inl e)"

lemma bind_result_Inr_iff:
  "bind_result r f = Inr y \<longleftrightarrow> (\<exists>x. r = Inr x \<and> f x = Inr y)"
  by (cases r) auto

lemma bind_result_cong [fundef_cong]:
  "r = r' \<Longrightarrow> (\<And>x. r' = Inr x \<Longrightarrow> f x = g x) \<Longrightarrow> bind_result r f = bind_result r' g"
  by (cases r') simp_all

fun mapResult :: "('a \<Rightarrow> 'b result) \<Rightarrow> 'a list \<Rightarrow> 'b list result" where
  "mapResult f [] = Inr []"
| "mapResult f (x # xs) = bind_result (f x) (\<lambda>y. bind_result (mapResult f xs) (\<lambda>ys. Inr (y # ys)))"

lemma mapResult_cong [fundef_cong]:
  "xs = ys \<Longrightarrow> (\<And>x. x \<in> set ys \<Longrightarrow> f x = g x) \<Longrightarrow> mapResult f xs = mapResult g ys"
  by (induction xs arbitrary: ys) auto

lemma mapResult_Inr_iff: "mapResult f xs = Inr ys \<longleftrightarrow> list_all2 (\<lambda>x y. f x = Inr y) xs ys"
  by (induction xs arbitrary: ys) (auto simp: bind_result_Inr_iff list_all2_Cons1)

lemma assertThrow_Inr_iff [simp]: "assertThrow c e k = Inr y \<longleftrightarrow> c \<and> k = Inr y"
  by (simp add: assertThrow_def)

lemma assertThrow_True [simp]: "assertThrow True e k = k"
  by (simp add: assertThrow_def)

lemma assertThrow_False [simp]: "assertThrow False e k = Inl e"
  by (simp add: assertThrow_def)

section \<open>Collections of rules\<close>

named_theorems svm_eval \<open>evaluation of single instructions\<close>
named_theorems word_bits \<open>facts on shifts and masks of 256-bit words\<close>

section \<open>Generic lemmas\<close>

lemma list_update_replicate_Suc:
  "i < n \<Longrightarrow> (replicate n x)[i := y] = replicate i x @ y # replicate (n - Suc i) x"
proof (induction n arbitrary: i)
  case 0
  then show ?case by simp
next
  case (Suc n)
  then show ?case by (cases i) auto
qed

lemma radix_less: "v < p \<Longrightarrow> d < m \<Longrightarrow> v * m + d < p * (m::nat)"
proof -
  assume "v < p" and d: "d < m"
  then have "Suc v * m \<le> p * m" by (intro mult_right_mono) simp_all
  with d show ?thesis by simp
qed

lemma mod_radix: "(v mod m * r + d) mod m = (v * r + d) mod (m::nat)"
  by (metis mod_add_left_eq mod_mult_left_eq)

lemma unat_word8_less [simp]: "unat (b :: byte) < 256"
  using unsigned_less [of b, where 'a=nat] by simp

lemma of_nat_unat_byte [simp]: "(of_nat (unat b) :: byte) = b"
  by simp

lemma unat_of_nat_byte: "unat (of_nat n :: byte) = n mod 256"
  by (simp add: unat_of_nat)

lemma unat_of_nat_u256: "unat (of_nat n :: u256) = n mod 2 ^ 256"
  by (simp add: unat_of_nat)

lemma byte_cases:
  assumes "\<And>n. n < 256 \<Longrightarrow> P (of_nat n :: byte)"
  shows "P b"
  using assms [of "unat b"] by simp

lemma unat_drop_bit: "unat (drop_bit n w) = unat w div 2 ^ n"
  unfolding unsigned_drop_bit_eq
  by (simp add: drop_bit_eq_div take_bit_nat_eq_self [OF unsigned_less])

lemma even_unat: "even (unat w) \<longleftrightarrow> even w"
  by transfer (simp add: even_nat_iff)

lemma ucast_all_ones [simp]: "(ucast (- 1 :: u256) :: size_t) = - 1"
  by (rule bit_word_eqI) (simp add: bit_simps)

end
