(* ===== verification/Common_Data.thy ===== *)
theory Common_Data
  imports Prelude
begin

text \<open>
  libdevcore/CommonData.h and CommonData.cpp, with the signed reading of 256-bit
  words and the exponentiation of libdevcore/Common.h: conversions between numbers,
  big-endian byte strings and hexadecimal text, and the list rewriting helpers
  \<open>iterateReplacing\<close> and \<open>iterateReplacingWindow\<close>.
\<close>

section \<open>Big-endian byte strings\<close>

text \<open>
  The templates run over unsigned types and over non-negative \<open>bigint\<close>; their loops
  only mask the low byte and shift right, so they compute the same on the natural
  number an unsigned value denotes. A caller with a \<open>u256\<close> passes \<open>unat\<close> of it.
\<close>

fun toBigEndianLoop :: "nat \<Rightarrow> nat \<Rightarrow> bytes \<Rightarrow> bytes" where
  "toBigEndianLoop 0 val out = out"
| "toBigEndianLoop (Suc i) val out =
     toBigEndianLoop i (val div 256) (out[i := of_nat (val mod 256)])"

definition toBigEndianInto :: "nat \<Rightarrow> bytes \<Rightarrow> bytes" where
  "toBigEndianInto val out = toBigEndianLoop (length out) val out"

definition fromBigEndian :: "bytes \<Rightarrow> 'a::len word" where
  "fromBigEndian bs = foldl (\<lambda>ret b. push_bit 8 ret OR ucast b) 0 bs"

definition toBigEndian :: "u256 \<Rightarrow> bytes" where
  "toBigEndian val = toBigEndianInto (unat val) (replicate 32 0)"

definition toBigEndian160 :: "u160 \<Rightarrow> bytes" where
  "toBigEndian160 val = toBigEndianInto (unat val) (replicate 20 0)"

fun bytesRequired :: "nat \<Rightarrow> nat" where
  "bytesRequired i = (if i = 0 then 0 else Suc (bytesRequired (i div 256)))"

declare bytesRequired.simps [simp del]

definition toCompactBigEndian :: "nat \<Rightarrow> nat \<Rightarrow> bytes" where
  "toCompactBigEndian val mn =
     toBigEndianInto val (replicate (max mn (bytesRequired val)) 0)"

text \<open>The value of a byte string, most significant byte first, without wrap-around.\<close>

definition beval :: "bytes \<Rightarrow> nat" where
  "beval bs = foldl (\<lambda>n b. n * 256 + unat b) 0 bs"

lemma beval_Nil [simp]: "beval [] = 0"
  by (simp add: beval_def)

lemma beval_snoc [simp]: "beval (bs @ [b]) = beval bs * 256 + unat b"
  by (simp add: beval_def)

lemma beval_bound: "beval bs < 256 ^ length bs"
proof (induction bs rule: rev_induct)
  case Nil
  then show ?case by simp
next
  case (snoc b bs)
  then show ?case using radix_less [OF snoc unat_word8_less [of b]] by (simp add: mult.commute)
qed

text \<open>What the loop writes: the \<open>n\<close> low bytes of a value, most significant first.\<close>

primrec be_digits :: "nat \<Rightarrow> nat \<Rightarrow> bytes" where
  "be_digits 0 val = []"
| "be_digits (Suc n) val = be_digits n (val div 256) @ [of_nat (val mod 256)]"

lemma length_be_digits [simp]: "length (be_digits n val) = n"
  by (induction n arbitrary: val) simp_all

lemma toBigEndianLoop_digits:
  "i \<le> length out \<Longrightarrow> toBigEndianLoop i val out = be_digits i val @ drop i out"
proof (induction i arbitrary: val out)
  case 0
  then show ?case by simp
next
  case (Suc i)
  then have "drop i (out[i := b]) = b # drop (Suc i) out" for b
    by (simp add: Cons_nth_drop_Suc [symmetric])
  with Suc show ?case by simp
qed

lemma toBigEndianInto_digits: "toBigEndianInto val out = be_digits (length out) val"
  by (simp add: toBigEndianInto_def toBigEndianLoop_digits)

lemma beval_be_digits: "beval (be_digits n val) = val mod 256 ^ n"
proof (induction n arbitrary: val)
  case 0
  then show ?case by simp
next
  case (Suc n)
  have "val mod (256 * 256 ^ n) = 256 * (val div 256 mod 256 ^ n) + val mod 256"
    by (rule mod_mult2_eq)
  with Suc show ?case by (simp add: unat_of_nat_byte mult.commute)
qed

lemma be_digits_beval: "be_digits (length bs) (beval bs) = bs"
proof (induction bs rule: rev_induct)
  case Nil
  then show ?case by simp
next
  case (snoc b bs)
  have "(beval bs * 256 + unat b) div 256 = beval bs"
    and "(beval bs * 256 + unat b) mod 256 = unat b"
    by (simp_all add: div_add1_eq)
  with snoc show ?case by simp
qed

lemma toBigEndian_digits: "toBigEndian val = be_digits 32 (unat val)"
  by (simp add: toBigEndian_def toBigEndianInto_digits)

lemma length_toBigEndian [simp]: "length (toBigEndian val) = 32"
  by (simp add: toBigEndian_digits)

section \<open>Reading big-endian bytes back\<close>

lemma unat_shift_or_byte:
  fixes r :: "'a::len word" and b :: byte
  assumes "8 \<le> LENGTH('a)"
  shows "unat (push_bit 8 r OR ucast b) = (unat r * 256 + unat b) mod 2 ^ LENGTH('a)"
proof -
  have "push_bit 8 r AND ucast b = 0"
    by (rule bit_eqI) (auto simp: bit_simps dest: bit_imp_le_length)
  then have "push_bit 8 r OR ucast b = push_bit 8 r + ucast b"
    by (simp add: disjunctive_add_eq_or)
  moreover have "(256::nat) \<le> 2 ^ LENGTH('a)"
    using power_increasing [OF assms, of "2::nat"] by simp
  then have "unat (ucast b :: 'a word) = unat b"
    by (simp add: unsigned_ucast_eq take_bit_nat_eq_self_iff less_le_trans [OF unat_word8_less])
  moreover have "unat (push_bit 8 r) = (unat r * 256) mod 2 ^ LENGTH('a)"
    unfolding unsigned_push_bit_eq by (simp add: push_bit_eq_mult take_bit_eq_mod)
  ultimately show ?thesis
    by (simp add: unat_word_ariths mod_add_left_eq)
qed

lemma unat_fromBigEndian:
  assumes "8 \<le> LENGTH('a)"
  shows "unat (fromBigEndian bs :: 'a::len word) = beval bs mod 2 ^ LENGTH('a)"
proof (induction bs rule: rev_induct)
  case Nil
  then show ?case by (simp add: fromBigEndian_def)
next
  case (snoc b bs)
  have "(fromBigEndian (bs @ [b]) :: 'a word) = push_bit 8 (fromBigEndian bs) OR ucast b"
    by (simp add: fromBigEndian_def)
  with snoc assms show ?case
    by (simp add: unat_shift_or_byte mod_radix)
qed

lemma fromBigEndian_toBigEndian: "(fromBigEndian (toBigEndian v) :: u256) = v"
proof -
  have "unat v < 256 ^ 32" using unsigned_less [of v, where 'a=nat] by simp
  then have "unat (fromBigEndian (toBigEndian v) :: u256) = unat v"
    by (simp add: unat_fromBigEndian toBigEndian_digits beval_be_digits)
  then show ?thesis by (simp only: word_unat_eq_iff)
qed

lemma toBigEndian_fromBigEndian:
  assumes "length bs = 32"
  shows "toBigEndian (fromBigEndian bs) = bs"
proof -
  have "beval bs < 2 ^ 256" using beval_bound [of bs] assms by simp
  then have "unat (fromBigEndian bs :: u256) = beval bs"
    by (simp add: unat_fromBigEndian)
  then show ?thesis using be_digits_beval [of bs] assms by (simp add: toBigEndian_digits)
qed

section \<open>Bytes needed for a value\<close>

lemma bytesRequired_0 [simp]: "bytesRequired 0 = 0"
  by (simp add: bytesRequired.simps)

lemma bytesRequired_pos: "0 < n \<Longrightarrow> bytesRequired n = Suc (bytesRequired (n div 256))"
  by (simp add: bytesRequired.simps)

lemma bytesRequired_eq_0 [simp]: "bytesRequired n = 0 \<longleftrightarrow> n = 0"
  by (cases "n = 0") (simp_all add: bytesRequired_pos)

lemma less_pow_bytesRequired: "n < 256 ^ bytesRequired n"
proof (induction n rule: bytesRequired.induct)
  case (1 n)
  show ?case
  proof (cases "n = 0")
    case True
    then show ?thesis by simp
  next
    case False
    with 1 have "n div 256 < 256 ^ bytesRequired (n div 256)" by simp
    with False show ?thesis
      by (simp add: bytesRequired_pos div_less_iff_less_mult mult.commute)
  qed
qed

lemma bytesRequired_le_iff: "bytesRequired n \<le> k \<longleftrightarrow> n < 256 ^ k"
proof (induction n arbitrary: k rule: bytesRequired.induct)
  case (1 n)
  show ?case
  proof (cases "n = 0 \<or> k = 0")
    case True
    then show ?thesis by (auto simp: bytesRequired_pos)
  next
    case False
    then obtain j where "k = Suc j" by (cases k) auto
    with 1 [of j] False show ?thesis
      by (simp add: bytesRequired_pos div_less_iff_less_mult mult.commute)
  qed
qed

lemma bytesRequired_mono: "m \<le> n \<Longrightarrow> bytesRequired m \<le> bytesRequired n"
  using less_pow_bytesRequired [of n] by (simp add: bytesRequired_le_iff)

lemma bytesRequired_u256: "bytesRequired (unat (v :: u256)) \<le> 32"
  using unsigned_less [of v, where 'a=nat] by (simp add: bytesRequired_le_iff)

lemma beval_toCompactBigEndian: "beval (toCompactBigEndian v mn) = v"
proof -
  have "256 ^ bytesRequired v \<le> (256::nat) ^ max mn (bytesRequired v)"
    by (rule power_increasing) simp_all
  with less_pow_bytesRequired [of v] have "v < 256 ^ max mn (bytesRequired v)"
    by (rule less_le_trans)
  then show ?thesis
    by (simp add: toCompactBigEndian_def toBigEndianInto_digits beval_be_digits)
qed

lemma length_toCompactBigEndian [simp]:
  "length (toCompactBigEndian v mn) = max mn (bytesRequired v)"
  by (simp add: toCompactBigEndian_def toBigEndianInto_digits)

section \<open>Hexadecimal text\<close>

datatype WhenError = DontThrow | Throw
datatype HexPrefix = DontAdd | Add
datatype HexCase = Lower | Upper | Mixed

text \<open>
  A stream with \<open>std::hex\<close>, \<open>setfill('0')\<close> and \<open>setw(2)\<close> writes a byte as two
  digits, in the case the stream is set to.
\<close>

definition hexDigit :: "bool \<Rightarrow> nat \<Rightarrow> char" where
  "hexDigit upper n =
     (if n < 10 then char_of (n + 48) else if upper then char_of (n + 55) else char_of (n + 87))"

definition hexByte :: "bool \<Rightarrow> byte \<Rightarrow> string" where
  "hexByte upper b = [hexDigit upper (unat b div 16), hexDigit upper (unat b mod 16)]"

fun toHexLoop :: "HexCase \<Rightarrow> int \<Rightarrow> bytes \<Rightarrow> string" where
  "toHexLoop c rix [] = []"
| "toHexLoop c rix (b # bs) =
     (case c of
        Upper \<Rightarrow> hexByte True b @ toHexLoop c rix bs
      | Mixed \<Rightarrow> hexByte (rix AND 2 \<noteq> 0) b @ toHexLoop c (rix - 1) bs
      | Lower \<Rightarrow> hexByte False b @ toHexLoop c rix bs)"

definition toHex :: "bytes \<Rightarrow> HexPrefix \<Rightarrow> HexCase \<Rightarrow> string" where
  "toHex data prefix c =
     (if prefix = Add then ''0x'' else []) @ toHexLoop c (int (length data) - 1) data"

definition fromHexChar :: "char \<Rightarrow> WhenError \<Rightarrow> int result" where
  "fromHexChar c w =
     (let i = of_char c :: nat in
      if 48 \<le> i \<and> i \<le> 57 then Inr (int i - 48)
      else if 97 \<le> i \<and> i \<le> 102 then Inr (int i - 97 + 10)
      else if 65 \<le> i \<and> i \<le> 70 then Inr (int i - 65 + 10)
      else if w = Throw then Inl BadHexCharacter
      else Inr (- 1))"

text \<open>
  The value of a character when errors are reported as \<open>-1\<close>. Reading a
  \<open>std::string\<close> at its size yields the zero character, which is what the second
  character of an incomplete pair would be. The index of the loop has 32 bits in the code;
  the strings are those shorter than that, on which it does not wrap around.
\<close>

definition hexValue :: "char \<Rightarrow> int" where
  "hexValue c = (case fromHexChar c DontThrow of Inl _ \<Rightarrow> - 1 | Inr v \<Rightarrow> v)"

fun fromHexPairs :: "string \<Rightarrow> WhenError \<Rightarrow> bytes \<Rightarrow> bytes result" where
  "fromHexPairs [] w ret = Inr ret"
| "fromHexPairs (c # cs) w ret =
     (let h = hexValue c;
          l = hexValue (case cs of [] \<Rightarrow> CHR 0x00 | d # _ \<Rightarrow> d)
      in if h \<noteq> - 1 \<and> l \<noteq> - 1 then fromHexPairs (tl cs) w (ret @ [of_int (h * 16 + l)])
         else if w = Throw then Inl BadHexCharacter
         else Inr [])"

definition fromHex :: "string \<Rightarrow> WhenError \<Rightarrow> bytes result" where
  "fromHex str w =
     (let s = (if 2 \<le> length str \<and> str ! 0 = CHR ''0'' \<and> str ! 1 = CHR ''x'' then 2 else 0)
      in if odd (length str) then
           (let h = hexValue (str ! s)
            in if h \<noteq> - 1 then fromHexPairs (drop (Suc s) str) w [of_int h]
               else if w = Throw then Inl BadHexCharacter
               else Inr [])
         else fromHexPairs (drop s str) w [])"

definition isHexDigit :: "char \<Rightarrow> bool" where
  "isHexDigit c \<longleftrightarrow> c \<in> set ''0123456789abcdefABCDEF''"

definition isValidHex :: "string \<Rightarrow> bool" where
  "isValidHex str =
     (if take 2 str \<noteq> ''0x'' then False
      else if \<not> list_all isHexDigit (drop 2 str) then False
      else True)"

definition isValidDecimal :: "string \<Rightarrow> bool" where
  "isValidDecimal str =
     (if str = [] then False
      else if str = ''0'' then True
      else if hd str = CHR ''0'' then False
      else if \<not> list_all (\<lambda>c. c \<in> set ''0123456789'') str then False
      else True)"

lemma of_char_hexDigit:
  "n < 16 \<Longrightarrow> (of_char (hexDigit u n) :: nat) =
     (if n < 10 then n + 48 else if u then n + 55 else n + 87)"
  by (simp add: hexDigit_def of_char_of)

lemma hexValue_hexDigit [simp]: "n < 16 \<Longrightarrow> hexValue (hexDigit u n) = int n"
  by (auto simp: hexValue_def fromHexChar_def of_char_hexDigit Let_def)

lemma hexDigit_not_x [simp]: "n < 16 \<Longrightarrow> hexDigit u n \<noteq> CHR ''x''"
proof
  assume "n < 16" "hexDigit u n = CHR ''x''"
  then have "(of_char (hexDigit u n) :: nat) = of_char CHR ''x''" by simp
  with \<open>n < 16\<close> show False by (simp add: of_char_hexDigit split: if_splits)
qed

lemma unat_byte_nibbles: "unat (b :: byte) div 16 < 16" "unat b mod 16 < 16"
  by (simp_all add: div_less_iff_less_mult)

lemma byte_nibbles [simp]:
  "(of_nat (unat b div 16) * 16 + of_nat (unat b mod 16) :: byte) = b"
proof -
  have "(of_nat (unat b div 16) * 16 + of_nat (unat b mod 16) :: byte) =
      of_nat (unat b div 16 * 16 + unat b mod 16)"
    by (simp only: of_nat_add of_nat_mult of_nat_numeral)
  then show ?thesis by (simp only: div_mult_mod_eq of_nat_unat_byte)
qed

lemma fromHexPairs_hexByte:
  "fromHexPairs (hexByte u b @ cs) w ret = fromHexPairs cs w (ret @ [b])"
  by (simp add: hexByte_def unat_byte_nibbles Let_def)

lemma toHexLoop_Cons:
  "\<exists>u. toHexLoop c rix (b # bs) = hexByte u b @ toHexLoop c (if c = Mixed then rix - 1 else rix) bs"
  by (cases c) auto

lemma length_toHexLoop [simp]: "length (toHexLoop c rix bs) = 2 * length bs"
  by (induction c rix bs rule: toHexLoop.induct) (auto simp: hexByte_def split: HexCase.splits)

lemma fromHexPairs_toHexLoop:
  "fromHexPairs (toHexLoop c rix bs) w ret = Inr (ret @ bs)"
proof (induction bs arbitrary: rix ret)
  case Nil
  then show ?case by simp
next
  case (Cons b bs)
  obtain u where "toHexLoop c rix (b # bs) =
      hexByte u b @ toHexLoop c (if c = Mixed then rix - 1 else rix) bs"
    using toHexLoop_Cons by blast
  then show ?case by (simp only: fromHexPairs_hexByte Cons.IH append_assoc append_Cons append_Nil)
qed

lemma toHexLoop_not_0x:
  "\<not> (2 \<le> length (toHexLoop c rix bs) \<and> toHexLoop c rix bs ! 0 = CHR ''0'' \<and>
      toHexLoop c rix bs ! 1 = CHR ''x'')"
proof (cases bs)
  case Nil
  then show ?thesis by simp
next
  case (Cons b bs')
  obtain u where "toHexLoop c rix (b # bs') =
      hexByte u b @ toHexLoop c (if c = Mixed then rix - 1 else rix) bs'"
    using toHexLoop_Cons by blast
  then show ?thesis
    using unat_byte_nibbles(2) [of b] by (simp only: Cons) (simp add: hexByte_def)
qed

lemma fromHex_toHex: "fromHex (toHex bs p c) w = Inr bs"
proof (cases p)
  case DontAdd
  then show ?thesis
    using toHexLoop_not_0x [of c "int (length bs) - 1" bs]
    by (auto simp: fromHex_def toHex_def fromHexPairs_toHexLoop Let_def)
next
  case Add
  then show ?thesis
    by (simp add: fromHex_def toHex_def fromHexPairs_toHexLoop Let_def)
qed

lemma isHexDigit_of_char:
  "isHexDigit c \<longleftrightarrow> (of_char c :: nat) \<in> {48..57} \<union> {97..102} \<union> {65..70}"
proof -
  have "isHexDigit c \<longleftrightarrow> (of_char c :: nat) \<in> of_char ` set ''0123456789abcdefABCDEF''"
    by (simp only: isHexDigit_def inj_image_mem_iff [OF inj_of_char])
  also have "\<dots> \<longleftrightarrow> (of_char c :: nat) \<in> {48..57} \<union> {97..102} \<union> {65..70}"
    by simp presburger
  finally show ?thesis .
qed

lemma hexValue_eq_minus1: "hexValue c = - 1 \<longleftrightarrow> \<not> isHexDigit c"
  by (auto simp: hexValue_def fromHexChar_def isHexDigit_of_char Let_def)

lemma not_isHexDigit_0: "hexValue CHR 0x00 = - 1"
  by (simp add: hexValue_def fromHexChar_def)

text \<open>Which strings are refused.\<close>

definition hexDigitsOf :: "string \<Rightarrow> string" where
  "hexDigitsOf str = (if take 2 str = ''0x'' then drop 2 str else str)"

lemma fromHexPairs_Throw_error:
  "even (length cs) \<Longrightarrow>
     fromHexPairs cs Throw ret = Inl BadHexCharacter \<longleftrightarrow> \<not> list_all isHexDigit cs"
proof (induction "length cs" arbitrary: cs ret rule: less_induct)
  case less
  show ?case
  proof (cases cs)
    case Nil
    then show ?thesis by simp
  next
    case (Cons c ds)
    with less.prems obtain d es where ds: "ds = d # es" by (cases ds) auto
    with Cons less.prems have "even (length es)" "length es < length cs" by simp_all
    from less.hyps [OF this(2,1)] Cons ds show ?thesis
      by (auto simp: Let_def hexValue_eq_minus1)
  qed
qed

lemma fromHexPairs_DontThrow:
  "fromHexPairs cs DontThrow ret =
     (case fromHexPairs cs Throw ret of Inl _ \<Rightarrow> Inr [] | Inr bs \<Rightarrow> Inr bs)"
  by (induction cs Throw ret rule: fromHexPairs.induct) (simp_all add: Let_def)

lemma fromHexPairs_Throw_cases:
  "(\<exists>bs. fromHexPairs cs Throw ret = Inr bs) \<or> fromHexPairs cs Throw ret = Inl BadHexCharacter"
  by (induction cs Throw ret rule: fromHexPairs.induct) (auto simp: Let_def)

lemma take2_0x: "take 2 str = ''0x'' \<longleftrightarrow> 2 \<le> length str \<and> str ! 0 = CHR ''0'' \<and> str ! 1 = CHR ''x''"
  by (cases str; cases "tl str") (auto simp: numeral_2_eq_2)

lemma fromHex_digits:
  "fromHex str w =
     (let ds = hexDigitsOf str
      in if odd (length ds) then
           (if isHexDigit (hd ds) then fromHexPairs (tl ds) w [of_int (hexValue (hd ds))]
            else if w = Throw then Inl BadHexCharacter
            else Inr [])
         else fromHexPairs ds w [])"
proof (cases "take 2 str = ''0x''")
  case True
  then have "2 \<le> length str" by (simp add: take2_0x)
  moreover from this have "odd (length str) \<Longrightarrow> 2 < length str"
    by (cases "length str = 2") auto
  moreover have "tl (drop 2 str) = drop 3 str"
    by (simp add: drop_Suc tl_drop numeral_2_eq_2 numeral_3_eq_3)
  ultimately show ?thesis using True
    by (auto simp: fromHex_def hexDigitsOf_def take2_0x Let_def hexValue_eq_minus1
        hd_drop_conv_nth)
next
  case False
  then have n: "(2 \<le> length str \<and> str ! 0 = CHR ''0'' \<and> str ! 1 = CHR ''x'') = False"
    by (simp only: take2_0x simp_thms)
  have d: "hexDigitsOf str = str" using False by (simp add: hexDigitsOf_def)
  show ?thesis
  proof (cases str)
    case Nil
    then show ?thesis by (simp add: fromHex_def hexDigitsOf_def)
  next
    case (Cons c cs)
    then show ?thesis
      unfolding fromHex_def Let_def n if_False d
      by (simp add: hexValue_eq_minus1 del: fromHexPairs.simps)
  qed
qed

lemma fromHex_Throw_error:
  "fromHex str Throw = Inl BadHexCharacter \<longleftrightarrow> \<not> list_all isHexDigit (hexDigitsOf str)"
  by (cases "hexDigitsOf str")
    (auto simp: fromHex_digits Let_def fromHexPairs_Throw_error simp del: fromHexPairs.simps)

lemma fromHex_DontThrow:
  "fromHex str DontThrow = (case fromHex str Throw of Inl _ \<Rightarrow> Inr [] | Inr bs \<Rightarrow> Inr bs)"
  by (simp add: fromHex_def Let_def fromHexPairs_DontThrow)

lemma fromHex_Throw_cases:
  "(\<exists>bs. fromHex str Throw = Inr bs) \<or> fromHex str Throw = Inl BadHexCharacter"
  by (simp add: fromHex_def Let_def fromHexPairs_Throw_cases)

lemma toHexLoop_digits: "list_all isHexDigit (toHexLoop c rix bs)"
proof (induction bs arbitrary: rix)
  case Nil
  then show ?case by simp
next
  case (Cons b bs)
  obtain u where "toHexLoop c rix (b # bs) =
      hexByte u b @ toHexLoop c (if c = Mixed then rix - 1 else rix) bs"
    using toHexLoop_Cons by blast
  moreover have "isHexDigit (hexDigit u n)" if "n < 16" for n
    using that hexValue_eq_minus1 [of "hexDigit u n"] by simp
  ultimately show ?case using Cons by (simp add: hexByte_def unat_byte_nibbles)
qed

lemma isValidHex_toHex: "isValidHex (toHex bs Add c)"
  by (simp add: isValidHex_def toHex_def toHexLoop_digits)

section \<open>Signed reading and exponentiation of 256-bit words\<close>

text \<open>\<open>s256\<close> is a sign and a 256-bit magnitude; every value below stays within it.\<close>

definition u2s :: "u256 \<Rightarrow> int" where
  "u2s u = (if bit u 255 then - (2 ^ 256 - uint u) else uint u)"

definition s2u :: "int \<Rightarrow> u256" where
  "s2u u = (if 0 \<le> u then word_of_int u else word_of_int (2 ^ 256 + u))"

function exp256Loop :: "u256 \<Rightarrow> u256 \<Rightarrow> u256 \<Rightarrow> u256" where
  "exp256Loop res base ex =
     (if ex = 0 then res
      else exp256Loop (if bit ex 0 then res * base else res) (base * base) (drop_bit 1 ex))"
  by pat_completeness auto
termination
proof (relation "measure (\<lambda>(res, base, ex). unat ex)")
  fix res base ex :: u256
  assume "ex \<noteq> 0"
  then have "0 < unat ex" by (simp add: unat_gt_0)
  then show "((if bit ex 0 then res * base else res, base * base, drop_bit 1 ex), res, base, ex)
      \<in> measure (\<lambda>(res, base, ex). unat ex)"
    using unat_drop_bit [of 1 ex] by simp
qed simp

declare exp256Loop.simps [simp del]

definition exp256 :: "u256 \<Rightarrow> u256 \<Rightarrow> u256" where
  "exp256 base ex = exp256Loop 1 base ex"

lemma u2s_sint: "u2s u = sint u"
proof -
  have "bit (uint u) 255 = bit u 255" by (simp add: bit_uint_iff)
  moreover have "take_bit 256 (uint u) = uint u"
    using unsigned_less [of u, where 'a=int] by (intro take_bit_int_eq_self) simp_all
  ultimately show ?thesis
    by (simp add: u2s_def sint_uint signed_take_bit_eq_take_bit_minus)
qed

lemma s2u_word_of_int: "s2u i = word_of_int i"
  by (simp add: s2u_def)

lemma s2u_u2s [simp]: "s2u (u2s u) = u"
  by (simp add: u2s_sint s2u_word_of_int)

lemma exp256Loop_eq: "exp256Loop res base ex = res * base ^ unat ex"
proof (induction res base ex rule: exp256Loop.induct)
  case (1 res base ex)
  show ?case
  proof (cases "ex = 0")
    case True
    then show ?thesis by (simp add: exp256Loop.simps)
  next
    case False
    define k where "k = unat ex div 2"
    have u: "unat (drop_bit (Suc 0) ex) = k"
      using unat_drop_bit [of 1 ex] by (simp add: k_def)
    have b: "bit ex 0 \<longleftrightarrow> odd (unat ex)" by (simp add: bit_0 even_unat)
    have e: "unat ex = (if odd (unat ex) then Suc (k + k) else k + k)"
      by (simp add: k_def) presburger
    have "base ^ unat ex = (if odd (unat ex) then base else 1) * (base * base) ^ k"
      by (subst e) (simp add: power_add power_mult_distrib)
    with 1 [OF False] False show ?thesis
      by (subst exp256Loop.simps) (auto simp: u b mult.assoc)
  qed
qed

lemma exp256_power: "exp256 base ex = base ^ unat ex"
  by (simp add: exp256_def exp256Loop_eq)

section \<open>Printing of numbers\<close>

text \<open>Printing by an output stream in decimal (\<open>to_string\<close>, \<open>str\<close>) and in hexadecimal.\<close>

fun showDec :: "nat \<Rightarrow> string" where
  "showDec n = (if n < 10 then [char_of (48 + n)] else showDec (n div 10) @ [char_of (48 + n mod 10)])"

fun showHex :: "nat \<Rightarrow> string" where
  "showHex n = (if n < 16 then [hexDigit False n] else showHex (n div 16) @ [hexDigit False (n mod 16)])"

declare showDec.simps [simp del] showHex.simps [simp del]

definition toHex256 :: "u256 \<Rightarrow> HexPrefix \<Rightarrow> string" where
  "toHex256 val prefix =
     (let str = toHex (toBigEndian val) DontAdd Lower in if prefix = Add then ''0x'' @ str else str)"

definition formatNumber :: "int \<Rightarrow> string" where
  "formatNumber val =
     (let positive = (\<lambda>v. if v > 0x1000000 then toHex (toCompactBigEndian v 0) Add Lower else showDec v)
      in if val < 0 then ''-'' @ positive (nat (- val)) else positive (nat val))"

definition toCompactHexWithPrefix :: "u256 \<Rightarrow> string" where
  "toCompactHexWithPrefix val = ''0x'' @ showHex (unat val)"

definition asString :: "bytes \<Rightarrow> string" where
  "asString b = map (\<lambda>x. char_of (unat x)) b"

definition asBytes :: "string \<Rightarrow> bytes" where
  "asBytes s = map (\<lambda>c. of_nat (of_char c)) s"

lemma asBytes_asString [simp]: "asBytes (asString b) = b"
  by (simp add: asBytes_def asString_def comp_def of_char_of)

lemma asString_asBytes [simp]: "asString (asBytes s) = s"
proof -
  have "char_of (unat (of_nat (of_char c) :: byte)) = c" for c
    by (simp add: unat_of_nat_byte)
  then show ?thesis by (simp add: asBytes_def asString_def comp_def)
qed

text \<open>The case conversions of the C library, on ASCII.\<close>

definition tolower :: "char \<Rightarrow> char" where
  "tolower c = (let n = of_char c :: nat in if 65 \<le> n \<and> n \<le> 90 then char_of (n + 32) else c)"

definition toupper :: "char \<Rightarrow> char" where
  "toupper c = (let n = of_char c :: nat in if 97 \<le> n \<and> n \<le> 122 then char_of (n - 32) else c)"

lemma of_char_case:
  "(of_char (tolower c) :: nat) =
     (if 65 \<le> (of_char c :: nat) \<and> (of_char c :: nat) \<le> 90 then of_char c + 32 else of_char c)"
  "(of_char (toupper c) :: nat) =
     (if 97 \<le> (of_char c :: nat) \<and> (of_char c :: nat) \<le> 122 then of_char c - 32 else of_char c)"
  by (auto simp: tolower_def toupper_def Let_def of_char_of)

lemma case_idem [simp]:
  "tolower (tolower c) = tolower c" "tolower (toupper c) = tolower c"
  "toupper (tolower c) = toupper c" "toupper (toupper c) = toupper c"
  by (simp_all only: inj_eq [OF inj_of_char, symmetric, where 'a=nat] of_char_case) auto

lemma isHexDigit_case [simp]:
  "isHexDigit (tolower c) = isHexDigit c" "isHexDigit (toupper c) = isHexDigit c"
  by (auto simp: isHexDigit_of_char of_char_case)

section \<open>Replacing elements of a vector\<close>

text \<open>
  \<open>iterateReplacing\<close>: the callback receives a reference, so it returns the element
  as it leaves it, and the replacement, if any. \<open>visited\<close> is the part of the original
  vector before \<open>i\<close>, the rest follows; \<open>modified\<close> is \<open>modifiedVector\<close>.
\<close>

fun iterateReplacingLoop ::
    "('a \<Rightarrow> 'a \<times> 'a list option) \<Rightarrow> 'a list \<Rightarrow> bool \<Rightarrow> 'a list \<Rightarrow> 'a list \<Rightarrow> 'a list" where
  "iterateReplacingLoop f visited useModified modified [] =
     (if useModified then modified else visited)"
| "iterateReplacingLoop f visited useModified modified (x # xs) =
     (case f x of
        (x', Some r) \<Rightarrow>
          iterateReplacingLoop f (visited @ [x']) True
            ((if useModified then modified else visited) @ r) xs
      | (x', None) \<Rightarrow>
          iterateReplacingLoop f (visited @ [x']) useModified
            (if useModified then modified @ [x'] else modified) xs)"

definition iterateReplacing :: "('a \<Rightarrow> 'a \<times> 'a list option) \<Rightarrow> 'a list \<Rightarrow> 'a list" where
  "iterateReplacing f xs = iterateReplacingLoop f [] False [] xs"

text \<open>\<open>iterateReplacingWindow\<close> for a window of \<open>Suc k\<close> elements.\<close>

function iterateReplacingWindowLoop ::
    "nat \<Rightarrow> ('a list \<Rightarrow> 'a list option) \<Rightarrow> 'a list \<Rightarrow> bool \<Rightarrow> 'a list \<Rightarrow> 'a list \<Rightarrow> 'a list" where
  "iterateReplacingWindowLoop k f visited useModified modified xs =
     (if Suc k \<le> length xs then
        (case f (take (Suc k) xs) of
           Some r \<Rightarrow>
             iterateReplacingWindowLoop k f (visited @ take (Suc k) xs) True
               ((if useModified then modified else visited) @ r) (drop (Suc k) xs)
         | None \<Rightarrow>
             iterateReplacingWindowLoop k f (visited @ [hd xs]) useModified
               (if useModified then modified @ [hd xs] else modified) (tl xs))
      else if useModified then modified @ xs
      else visited @ xs)"
  by pat_completeness auto
termination by (relation "measure (\<lambda>(k, f, visited, useModified, modified, xs). length xs)") auto

declare iterateReplacingWindowLoop.simps [simp del]

definition iterateReplacingWindow :: "nat \<Rightarrow> ('a list \<Rightarrow> 'a list option) \<Rightarrow> 'a list \<Rightarrow> 'a list" where
  "iterateReplacingWindow k f xs = iterateReplacingWindowLoop k f [] False [] xs"

text \<open>What both promise, without the lazy copy.\<close>

definition replaceEach :: "('a \<Rightarrow> 'a \<times> 'a list option) \<Rightarrow> 'a list \<Rightarrow> 'a list" where
  "replaceEach f xs = concat (map (\<lambda>x. case f x of (x', Some r) \<Rightarrow> r | (x', None) \<Rightarrow> [x']) xs)"

function replaceWindows :: "nat \<Rightarrow> ('a list \<Rightarrow> 'a list option) \<Rightarrow> 'a list \<Rightarrow> 'a list" where
  "replaceWindows k f xs =
     (if Suc k \<le> length xs then
        (case f (take (Suc k) xs) of
           Some r \<Rightarrow> r @ replaceWindows k f (drop (Suc k) xs)
         | None \<Rightarrow> hd xs # replaceWindows k f (tl xs))
      else xs)"
  by pat_completeness auto
termination by (relation "measure (\<lambda>(k, f, xs). length xs)") auto

declare replaceWindows.simps [simp del]

lemma iterateReplacingLoop_eq:
  "iterateReplacingLoop f visited u modified xs =
     (if u then modified else visited) @ replaceEach f xs"
  by (induction f visited u modified xs rule: iterateReplacingLoop.induct)
    (auto simp: replaceEach_def split: prod.splits option.splits)

lemma iterateReplacingWindowLoop_eq:
  "iterateReplacingWindowLoop k f visited u modified xs =
     (if u then modified else visited) @ replaceWindows k f xs"
proof (induction k f visited u modified xs rule: iterateReplacingWindowLoop.induct)
  case (1 k f visited u modified xs)
  then show ?case
    by (subst iterateReplacingWindowLoop.simps, subst replaceWindows.simps)
      (auto split: option.splits)
qed

section \<open>Properties\<close>

text \<open>reading the hex text of a byte string back yields the byte string, in every case and prefix.\<close>

theorem hex_roundtrip: "fromHex (toHex bs p c) w = Inr bs \<and> isValidHex (toHex bs Add c)"
  by (simp add: fromHex_toHex isValidHex_toHex)

text \<open>
  C30: with errors as exceptions, \<open>fromHex\<close> refuses exactly the strings with a character
  that is no hex digit; without, it returns no bytes at all for these.
\<close>

theorem fromHex_errors:
  "fromHex str DontThrow =
     (if list_all isHexDigit (hexDigitsOf str) then fromHex str Throw else Inr []) \<and>
   (fromHex str Throw = Inl BadHexCharacter \<longleftrightarrow> \<not> list_all isHexDigit (hexDigitsOf str))"
  using fromHex_Throw_error [of str] fromHex_DontThrow [of str] fromHex_Throw_cases [of str]
  by (auto split: sum.splits)

text \<open>
  the compact encoding of a number has the least sufficient number of bytes, at
  least the requested minimum, and denotes the number.
\<close>

theorem compact_encoding:
  "beval (toCompactBigEndian v mn) = v \<and>
   length (toCompactBigEndian v mn) = (LEAST n. mn \<le> n \<and> v < 256 ^ n)"
proof -
  have "(LEAST n. mn \<le> n \<and> v < 256 ^ n) = max mn (bytesRequired v)"
    by (rule Least_equality) (simp_all add: bytesRequired_le_iff [symmetric])
  then show ?thesis by (simp add: beval_toCompactBigEndian)
qed

text \<open>The two word orders of bytes are inverse on 32-byte strings.\<close>

theorem bigEndian_roundtrip:
  "(fromBigEndian (toBigEndian v) :: u256) = v \<and>
   (length bs = 32 \<longrightarrow> toBigEndian (fromBigEndian bs) = bs)"
  by (simp add: fromBigEndian_toBigEndian toBigEndian_fromBigEndian)

theorem bigEndian_roundtrip_witness: "toBigEndian (fromBigEndian (replicate 32 7)) = replicate 32 7"
  using bigEndian_roundtrip [of 0 "replicate 32 7"] by simp

text \<open>Exponentiation by squaring is exponentiation modulo \<open>2 ^ 256\<close>.\<close>

theorem exp256_correct: "exp256 b e = b ^ unat e"
  by (rule exp256_power)

text \<open>the lazily copying replacements replace each element, or each leftmost window.\<close>

theorem iterateReplacing_correct:
  "iterateReplacing f xs = replaceEach f xs \<and> iterateReplacingWindow k g ys = replaceWindows k g ys"
  by (simp add: iterateReplacing_def iterateReplacingWindow_def iterateReplacingLoop_eq
      iterateReplacingWindowLoop_eq)

end
