(* ===== verification/Source_Location.thy ===== *)
theory Source_Location
  imports Prelude
begin

text \<open>
  liblangutil/SourceLocation.h: half-open intervals of positions in a source. The
  shared pointer to the character stream is modelled by the identity of the object
  and the name the stream reports.
\<close>

record SourceLocation =
  sl_start :: int
  sl_end :: int
  sl_source :: "(nat \<times> string) option"

definition noLocation :: SourceLocation where
  "noLocation = \<lparr>sl_start = - 1, sl_end = - 1, sl_source = None\<rparr>"

text \<open>Sources are compared by identity, that is by the object, not by its name.\<close>

definition sameSource :: "SourceLocation \<Rightarrow> SourceLocation \<Rightarrow> bool" where
  "sameSource a b \<longleftrightarrow> map_option fst (sl_source a) = map_option fst (sl_source b)"

definition loc_eq :: "SourceLocation \<Rightarrow> SourceLocation \<Rightarrow> bool" where
  "loc_eq a b \<longleftrightarrow> sameSource a b \<and> sl_start a = sl_start b \<and> sl_end a = sl_end b"

definition isEmptyLoc :: "SourceLocation \<Rightarrow> bool" where
  "isEmptyLoc l \<longleftrightarrow> sl_start l = - 1 \<and> sl_end l = - 1"

definition smallestCovering :: "SourceLocation \<Rightarrow> SourceLocation \<Rightarrow> SourceLocation" where
  "smallestCovering a b =
     (let a = (if sl_source a = None then a\<lparr>sl_source := sl_source b\<rparr> else a);
          a = (if sl_start a < 0 then a\<lparr>sl_start := sl_start b\<rparr>
               else if 0 \<le> sl_start b \<and> sl_start b < sl_start a then a\<lparr>sl_start := sl_start b\<rparr>
               else a)
      in if sl_end a < sl_end b then a\<lparr>sl_end := sl_end b\<rparr> else a)"

text \<open>The lexicographic comparison of \<open>std::string\<close> on the bytes of the characters.\<close>

fun string_less :: "string \<Rightarrow> string \<Rightarrow> bool" where
  "string_less _ [] = False"
| "string_less [] (_ # _) = True"
| "string_less (c # cs) (d # ds) =
     (if c = d then string_less cs ds else (of_char c :: nat) < of_char d)"

definition ends_less :: "SourceLocation \<Rightarrow> SourceLocation \<Rightarrow> bool" where
  "ends_less a b \<longleftrightarrow>
     sl_start a < sl_start b \<or> (sl_start a = sl_start b \<and> sl_end a < sl_end b)"

definition loc_less :: "SourceLocation \<Rightarrow> SourceLocation \<Rightarrow> bool" where
  "loc_less a b =
     (case (sl_source a, sl_source b) of
        (Some (_, m), Some (_, n)) \<Rightarrow> string_less m n \<or> (m = n \<and> ends_less a b)
      | (None, Some _) \<Rightarrow> True
      | (Some _, None) \<Rightarrow> False
      | (None, None) \<Rightarrow> ends_less a b)"

definition loc_contains :: "SourceLocation \<Rightarrow> SourceLocation \<Rightarrow> bool" where
  "loc_contains a b =
     (if isEmptyLoc a \<or> isEmptyLoc b \<or> \<not> sameSource a b then False
      else sl_start a \<le> sl_start b \<and> sl_end b \<le> sl_end a)"

definition loc_intersects :: "SourceLocation \<Rightarrow> SourceLocation \<Rightarrow> bool" where
  "loc_intersects a b =
     (if isEmptyLoc a \<or> isEmptyLoc b \<or> \<not> sameSource a b then False
      else sl_start b < sl_end a \<and> sl_start a < sl_end b)"

section \<open>The order on locations\<close>

lemma string_less_irrefl: "\<not> string_less s s"
  by (induction s) auto

lemma string_less_trans: "string_less a b \<Longrightarrow> string_less b c \<Longrightarrow> string_less a c"
proof (induction a b arbitrary: c rule: string_less.induct)
  case (1 a)
  then show ?case by simp
next
  case (2 y ys)
  then show ?case by (cases c) simp_all
next
  case (3 x xs y ys)
  then show ?case by (cases c) (auto split: if_splits)
qed

lemma string_less_linear: "string_less a b \<or> a = b \<or> string_less b a"
proof (induction a b rule: string_less.induct)
  case (1 a)
  then show ?case by (cases a) simp_all
next
  case (2 y ys)
  then show ?case by simp
next
  case (3 x xs y ys)
  have "x \<noteq> y \<Longrightarrow> (of_char x :: nat) \<noteq> of_char y" by simp
  with 3 show ?case by (cases "x = y") (auto simp: linorder_neq_iff simp del: of_char_eq_iff)
qed

lemma loc_less_irrefl: "\<not> loc_less a a"
  by (auto simp: loc_less_def ends_less_def string_less_irrefl split: option.splits prod.splits)

lemma loc_less_trans: "loc_less a b \<Longrightarrow> loc_less b c \<Longrightarrow> loc_less a c"
  by (auto simp: loc_less_def ends_less_def split: option.splits prod.splits intro: string_less_trans)

lemma loc_incomparable:
  "\<not> loc_less a b \<and> \<not> loc_less b a \<longleftrightarrow>
     map_option snd (sl_source a) = map_option snd (sl_source b) \<and>
     sl_start a = sl_start b \<and> sl_end a = sl_end b"
  using string_less_linear
  by (auto simp: loc_less_def ends_less_def string_less_irrefl split: option.splits prod.splits)

lemma smallestCovering_sel:
  "sl_source (smallestCovering a b) = (if sl_source a = None then sl_source b else sl_source a)"
  "sl_end (smallestCovering a b) = max (sl_end a) (sl_end b)"
  "sl_start (smallestCovering a b) =
     (if sl_start a < 0 then sl_start b
      else if sl_start b < 0 then sl_start a else min (sl_start a) (sl_start b))"
  by (cases "sl_source a"; simp add: smallestCovering_def Let_def)+

section \<open>Properties\<close>

text \<open>
  the covering location of two locations of the same source contains both, and it
  is contained in every location that contains both.
\<close>

theorem smallestCovering_least:
  assumes "sameSource a b" "0 \<le> sl_start a" "0 \<le> sl_start b"
    and "sl_start a \<le> sl_end a" "sl_start b \<le> sl_end b"
  shows "loc_contains (smallestCovering a b) a \<and> loc_contains (smallestCovering a b) b \<and>
    (loc_contains c a \<and> loc_contains c b \<longrightarrow> loc_contains c (smallestCovering a b))"
  using assms
  by (auto simp: loc_contains_def smallestCovering_sel isEmptyLoc_def sameSource_def)

theorem smallestCovering_least_witness:
  "loc_contains (smallestCovering \<lparr>sl_start = 3, sl_end = 5, sl_source = None\<rparr>
       \<lparr>sl_start = 1, sl_end = 4, sl_source = None\<rparr>)
     \<lparr>sl_start = 3, sl_end = 5, sl_source = None\<rparr>"
  using smallestCovering_least [of "\<lparr>sl_start = 3, sl_end = 5, sl_source = None\<rparr>"
      "\<lparr>sl_start = 1, sl_end = 4, sl_source = None\<rparr>"]
  by (simp add: sameSource_def)

end
