(* ===== verification/Instructions.thy ===== *)
theory Instructions
  imports Common_Data
begin

text \<open>
  libsvmasm/Instruction.h and Instruction.cpp: the opcodes of the virtual machine,
  the two tables that describe them, and the decoding of a byte string into
  instructions with their immediate data.

  \<open>enum class Instruction: uint8_t\<close> is a byte: the code casts every byte of a
  program to it, so the type has all 256 values and the enumerators name some of
  them.
\<close>

type_synonym instruction = "8 word"

section \<open>The enumerators\<close>

abbreviation (input) iSTOP :: instruction where "iSTOP \<equiv> 0"
abbreviation (input) iADD :: instruction where "iADD \<equiv> 1"
abbreviation (input) iMUL :: instruction where "iMUL \<equiv> 0x02"
abbreviation (input) iSUB :: instruction where "iSUB \<equiv> 0x03"
abbreviation (input) iDIV :: instruction where "iDIV \<equiv> 0x04"
abbreviation (input) iSDIV :: instruction where "iSDIV \<equiv> 0x05"
abbreviation (input) iMOD :: instruction where "iMOD \<equiv> 0x06"
abbreviation (input) iSMOD :: instruction where "iSMOD \<equiv> 0x07"
abbreviation (input) iADDMOD :: instruction where "iADDMOD \<equiv> 0x08"
abbreviation (input) iMULMOD :: instruction where "iMULMOD \<equiv> 0x09"
abbreviation (input) iEXP :: instruction where "iEXP \<equiv> 0x0a"
abbreviation (input) iSIGNEXTEND :: instruction where "iSIGNEXTEND \<equiv> 0x0b"
abbreviation (input) iLT :: instruction where "iLT \<equiv> 0x10"
abbreviation (input) iGT :: instruction where "iGT \<equiv> 0x11"
abbreviation (input) iSLT :: instruction where "iSLT \<equiv> 0x12"
abbreviation (input) iSGT :: instruction where "iSGT \<equiv> 0x13"
abbreviation (input) iEQ :: instruction where "iEQ \<equiv> 0x14"
abbreviation (input) iISZERO :: instruction where "iISZERO \<equiv> 0x15"
abbreviation (input) iAND :: instruction where "iAND \<equiv> 0x16"
abbreviation (input) iOR :: instruction where "iOR \<equiv> 0x17"
abbreviation (input) iXOR :: instruction where "iXOR \<equiv> 0x18"
abbreviation (input) iNOT :: instruction where "iNOT \<equiv> 0x19"
abbreviation (input) iBYTE :: instruction where "iBYTE \<equiv> 0x1a"
abbreviation (input) iSHL :: instruction where "iSHL \<equiv> 0x1b"
abbreviation (input) iSHR :: instruction where "iSHR \<equiv> 0x1c"
abbreviation (input) iSAR :: instruction where "iSAR \<equiv> 0x1d"
abbreviation (input) iKECCAK256 :: instruction where "iKECCAK256 \<equiv> 0x20"
abbreviation (input) iADDRESS :: instruction where "iADDRESS \<equiv> 0x30"
abbreviation (input) iBALANCE :: instruction where "iBALANCE \<equiv> 0x31"
abbreviation (input) iORIGIN :: instruction where "iORIGIN \<equiv> 0x32"
abbreviation (input) iCALLER :: instruction where "iCALLER \<equiv> 0x33"
abbreviation (input) iCALLVALUE :: instruction where "iCALLVALUE \<equiv> 0x34"
abbreviation (input) iCALLDATALOAD :: instruction where "iCALLDATALOAD \<equiv> 0x35"
abbreviation (input) iCALLDATASIZE :: instruction where "iCALLDATASIZE \<equiv> 0x36"
abbreviation (input) iCALLDATACOPY :: instruction where "iCALLDATACOPY \<equiv> 0x37"
abbreviation (input) iCODESIZE :: instruction where "iCODESIZE \<equiv> 0x38"
abbreviation (input) iCODECOPY :: instruction where "iCODECOPY \<equiv> 0x39"
abbreviation (input) iGASPRICE :: instruction where "iGASPRICE \<equiv> 0x3a"
abbreviation (input) iEXTCODESIZE :: instruction where "iEXTCODESIZE \<equiv> 0x3b"
abbreviation (input) iEXTCODECOPY :: instruction where "iEXTCODECOPY \<equiv> 0x3c"
abbreviation (input) iRETURNDATASIZE :: instruction where "iRETURNDATASIZE \<equiv> 0x3d"
abbreviation (input) iRETURNDATACOPY :: instruction where "iRETURNDATACOPY \<equiv> 0x3e"
abbreviation (input) iEXTCODEHASH :: instruction where "iEXTCODEHASH \<equiv> 0x3f"
abbreviation (input) iBLOCKHASH :: instruction where "iBLOCKHASH \<equiv> 0x40"
abbreviation (input) iCOINBASE :: instruction where "iCOINBASE \<equiv> 0x41"
abbreviation (input) iTIMESTAMP :: instruction where "iTIMESTAMP \<equiv> 0x42"
abbreviation (input) iNUMBER :: instruction where "iNUMBER \<equiv> 0x43"
abbreviation (input) iDIFFICULTY :: instruction where "iDIFFICULTY \<equiv> 0x44"
abbreviation (input) iGASLIMIT :: instruction where "iGASLIMIT \<equiv> 0x45"
abbreviation (input) iPOP :: instruction where "iPOP \<equiv> 0x50"
abbreviation (input) iMLOAD :: instruction where "iMLOAD \<equiv> 0x51"
abbreviation (input) iMSTORE :: instruction where "iMSTORE \<equiv> 0x52"
abbreviation (input) iMSTORE8 :: instruction where "iMSTORE8 \<equiv> 0x53"
abbreviation (input) iSLOAD :: instruction where "iSLOAD \<equiv> 0x54"
abbreviation (input) iSSTORE :: instruction where "iSSTORE \<equiv> 0x55"
abbreviation (input) iJUMP :: instruction where "iJUMP \<equiv> 0x56"
abbreviation (input) iJUMPI :: instruction where "iJUMPI \<equiv> 0x57"
abbreviation (input) iPC :: instruction where "iPC \<equiv> 0x58"
abbreviation (input) iMSIZE :: instruction where "iMSIZE \<equiv> 0x59"
abbreviation (input) iGAS :: instruction where "iGAS \<equiv> 0x5a"
abbreviation (input) iJUMPDEST :: instruction where "iJUMPDEST \<equiv> 0x5b"
abbreviation (input) iPUSH1 :: instruction where "iPUSH1 \<equiv> 0x60"
abbreviation (input) iPUSH2 :: instruction where "iPUSH2 \<equiv> 0x61"
abbreviation (input) iPUSH3 :: instruction where "iPUSH3 \<equiv> 0x62"
abbreviation (input) iPUSH4 :: instruction where "iPUSH4 \<equiv> 0x63"
abbreviation (input) iPUSH5 :: instruction where "iPUSH5 \<equiv> 0x64"
abbreviation (input) iPUSH6 :: instruction where "iPUSH6 \<equiv> 0x65"
abbreviation (input) iPUSH7 :: instruction where "iPUSH7 \<equiv> 0x66"
abbreviation (input) iPUSH8 :: instruction where "iPUSH8 \<equiv> 0x67"
abbreviation (input) iPUSH9 :: instruction where "iPUSH9 \<equiv> 0x68"
abbreviation (input) iPUSH10 :: instruction where "iPUSH10 \<equiv> 0x69"
abbreviation (input) iPUSH11 :: instruction where "iPUSH11 \<equiv> 0x6a"
abbreviation (input) iPUSH12 :: instruction where "iPUSH12 \<equiv> 0x6b"
abbreviation (input) iPUSH13 :: instruction where "iPUSH13 \<equiv> 0x6c"
abbreviation (input) iPUSH14 :: instruction where "iPUSH14 \<equiv> 0x6d"
abbreviation (input) iPUSH15 :: instruction where "iPUSH15 \<equiv> 0x6e"
abbreviation (input) iPUSH16 :: instruction where "iPUSH16 \<equiv> 0x6f"
abbreviation (input) iPUSH17 :: instruction where "iPUSH17 \<equiv> 0x70"
abbreviation (input) iPUSH18 :: instruction where "iPUSH18 \<equiv> 0x71"
abbreviation (input) iPUSH19 :: instruction where "iPUSH19 \<equiv> 0x72"
abbreviation (input) iPUSH20 :: instruction where "iPUSH20 \<equiv> 0x73"
abbreviation (input) iPUSH21 :: instruction where "iPUSH21 \<equiv> 0x74"
abbreviation (input) iPUSH22 :: instruction where "iPUSH22 \<equiv> 0x75"
abbreviation (input) iPUSH23 :: instruction where "iPUSH23 \<equiv> 0x76"
abbreviation (input) iPUSH24 :: instruction where "iPUSH24 \<equiv> 0x77"
abbreviation (input) iPUSH25 :: instruction where "iPUSH25 \<equiv> 0x78"
abbreviation (input) iPUSH26 :: instruction where "iPUSH26 \<equiv> 0x79"
abbreviation (input) iPUSH27 :: instruction where "iPUSH27 \<equiv> 0x7a"
abbreviation (input) iPUSH28 :: instruction where "iPUSH28 \<equiv> 0x7b"
abbreviation (input) iPUSH29 :: instruction where "iPUSH29 \<equiv> 0x7c"
abbreviation (input) iPUSH30 :: instruction where "iPUSH30 \<equiv> 0x7d"
abbreviation (input) iPUSH31 :: instruction where "iPUSH31 \<equiv> 0x7e"
abbreviation (input) iPUSH32 :: instruction where "iPUSH32 \<equiv> 0x7f"
abbreviation (input) iDUP1 :: instruction where "iDUP1 \<equiv> 0x80"
abbreviation (input) iDUP2 :: instruction where "iDUP2 \<equiv> 0x81"
abbreviation (input) iDUP3 :: instruction where "iDUP3 \<equiv> 0x82"
abbreviation (input) iDUP4 :: instruction where "iDUP4 \<equiv> 0x83"
abbreviation (input) iDUP5 :: instruction where "iDUP5 \<equiv> 0x84"
abbreviation (input) iDUP6 :: instruction where "iDUP6 \<equiv> 0x85"
abbreviation (input) iDUP7 :: instruction where "iDUP7 \<equiv> 0x86"
abbreviation (input) iDUP8 :: instruction where "iDUP8 \<equiv> 0x87"
abbreviation (input) iDUP9 :: instruction where "iDUP9 \<equiv> 0x88"
abbreviation (input) iDUP10 :: instruction where "iDUP10 \<equiv> 0x89"
abbreviation (input) iDUP11 :: instruction where "iDUP11 \<equiv> 0x8a"
abbreviation (input) iDUP12 :: instruction where "iDUP12 \<equiv> 0x8b"
abbreviation (input) iDUP13 :: instruction where "iDUP13 \<equiv> 0x8c"
abbreviation (input) iDUP14 :: instruction where "iDUP14 \<equiv> 0x8d"
abbreviation (input) iDUP15 :: instruction where "iDUP15 \<equiv> 0x8e"
abbreviation (input) iDUP16 :: instruction where "iDUP16 \<equiv> 0x8f"
abbreviation (input) iSWAP1 :: instruction where "iSWAP1 \<equiv> 0x90"
abbreviation (input) iSWAP2 :: instruction where "iSWAP2 \<equiv> 0x91"
abbreviation (input) iSWAP3 :: instruction where "iSWAP3 \<equiv> 0x92"
abbreviation (input) iSWAP4 :: instruction where "iSWAP4 \<equiv> 0x93"
abbreviation (input) iSWAP5 :: instruction where "iSWAP5 \<equiv> 0x94"
abbreviation (input) iSWAP6 :: instruction where "iSWAP6 \<equiv> 0x95"
abbreviation (input) iSWAP7 :: instruction where "iSWAP7 \<equiv> 0x96"
abbreviation (input) iSWAP8 :: instruction where "iSWAP8 \<equiv> 0x97"
abbreviation (input) iSWAP9 :: instruction where "iSWAP9 \<equiv> 0x98"
abbreviation (input) iSWAP10 :: instruction where "iSWAP10 \<equiv> 0x99"
abbreviation (input) iSWAP11 :: instruction where "iSWAP11 \<equiv> 0x9a"
abbreviation (input) iSWAP12 :: instruction where "iSWAP12 \<equiv> 0x9b"
abbreviation (input) iSWAP13 :: instruction where "iSWAP13 \<equiv> 0x9c"
abbreviation (input) iSWAP14 :: instruction where "iSWAP14 \<equiv> 0x9d"
abbreviation (input) iSWAP15 :: instruction where "iSWAP15 \<equiv> 0x9e"
abbreviation (input) iSWAP16 :: instruction where "iSWAP16 \<equiv> 0x9f"
abbreviation (input) iLOG0 :: instruction where "iLOG0 \<equiv> 0xa0"
abbreviation (input) iLOG1 :: instruction where "iLOG1 \<equiv> 0xa1"
abbreviation (input) iLOG2 :: instruction where "iLOG2 \<equiv> 0xa2"
abbreviation (input) iLOG3 :: instruction where "iLOG3 \<equiv> 0xa3"
abbreviation (input) iLOG4 :: instruction where "iLOG4 \<equiv> 0xa4"
abbreviation (input) iJUMPTO :: instruction where "iJUMPTO \<equiv> 0xb0"
abbreviation (input) iJUMPIF :: instruction where "iJUMPIF \<equiv> 0xb1"
abbreviation (input) iJUMPV :: instruction where "iJUMPV \<equiv> 0xb2"
abbreviation (input) iJUMPSUB :: instruction where "iJUMPSUB \<equiv> 0xb3"
abbreviation (input) iJUMPSUBV :: instruction where "iJUMPSUBV \<equiv> 0xb4"
abbreviation (input) iBEGINSUB :: instruction where "iBEGINSUB \<equiv> 0xb5"
abbreviation (input) iBEGINDATA :: instruction where "iBEGINDATA \<equiv> 0xb6"
abbreviation (input) iRETURNSUB :: instruction where "iRETURNSUB \<equiv> 0xb7"
abbreviation (input) iPUTLOCAL :: instruction where "iPUTLOCAL \<equiv> 0xb8"
abbreviation (input) iGETLOCAL :: instruction where "iGETLOCAL \<equiv> 0xb9"
abbreviation (input) iCREATE :: instruction where "iCREATE \<equiv> 0xf0"
abbreviation (input) iCALL :: instruction where "iCALL \<equiv> 0xf1"
abbreviation (input) iCALLCODE :: instruction where "iCALLCODE \<equiv> 0xf2"
abbreviation (input) iRETURN :: instruction where "iRETURN \<equiv> 0xf3"
abbreviation (input) iDELEGATECALL :: instruction where "iDELEGATECALL \<equiv> 0xf4"
abbreviation (input) iCREATE2 :: instruction where "iCREATE2 \<equiv> 0xf5"
abbreviation (input) iSTATICCALL :: instruction where "iSTATICCALL \<equiv> 0xfa"
abbreviation (input) iREVERT :: instruction where "iREVERT \<equiv> 0xfd"
abbreviation (input) iINVALID :: instruction where "iINVALID \<equiv> 0xfe"
abbreviation (input) iSELFDESTRUCT :: instruction where "iSELFDESTRUCT \<equiv> 0xff"

section \<open>Instruction families\<close>

definition isPushInstruction :: "instruction \<Rightarrow> bool" where
  "isPushInstruction inst \<longleftrightarrow> iPUSH1 \<le> inst \<and> inst \<le> iPUSH32"

definition isDupInstruction :: "instruction \<Rightarrow> bool" where
  "isDupInstruction inst \<longleftrightarrow> iDUP1 \<le> inst \<and> inst \<le> iDUP16"

definition isSwapInstruction :: "instruction \<Rightarrow> bool" where
  "isSwapInstruction inst \<longleftrightarrow> iSWAP1 \<le> inst \<and> inst \<le> iSWAP16"

definition isLogInstruction :: "instruction \<Rightarrow> bool" where
  "isLogInstruction inst \<longleftrightarrow> iLOG0 \<le> inst \<and> inst \<le> iLOG4"

text \<open>The numbers are computed in \<open>unsigned\<close>, 32 bits wide, and wrap below the family.\<close>

definition getPushNumber :: "instruction \<Rightarrow> 32 word" where
  "getPushNumber inst = ucast inst - ucast iPUSH1 + 1"

definition getDupNumber :: "instruction \<Rightarrow> 32 word" where
  "getDupNumber inst = ucast inst - ucast iDUP1 + 1"

definition getSwapNumber :: "instruction \<Rightarrow> 32 word" where
  "getSwapNumber inst = ucast inst - ucast iSWAP1 + 1"

definition getLogNumber :: "instruction \<Rightarrow> 32 word" where
  "getLogNumber inst = ucast inst - ucast iLOG0"

definition pushInstruction :: "32 word \<Rightarrow> instruction result" where
  "pushInstruction number =
     assertThrow (1 \<le> number \<and> number \<le> 32) InvalidOpcode
       (Inr (ucast (ucast iPUSH1 + number - 1 :: 32 word)))"

definition dupInstruction :: "32 word \<Rightarrow> instruction result" where
  "dupInstruction number =
     assertThrow (1 \<le> number \<and> number \<le> 16) InvalidOpcode
       (Inr (ucast (ucast iDUP1 + number - 1 :: 32 word)))"

definition swapInstruction :: "32 word \<Rightarrow> instruction result" where
  "swapInstruction number =
     assertThrow (1 \<le> number \<and> number \<le> 16) InvalidOpcode
       (Inr (ucast (ucast iSWAP1 + number - 1 :: 32 word)))"

definition logInstruction :: "32 word \<Rightarrow> instruction result" where
  "logInstruction number =
     assertThrow (number \<le> 4) InvalidOpcode
       (Inr (ucast (ucast iLOG0 + number :: 32 word)))"

section \<open>The tables\<close>

datatype Tier =
    Tier_Zero
  | Tier_Base
  | Tier_VeryLow
  | Tier_Low
  | Tier_Mid
  | Tier_High
  | Tier_Ext
  | Tier_ExtCode
  | Tier_Balance
  | Tier_Special
  | Tier_Invalid

record InstructionInfo =
  info_name :: string
  info_additional :: int
  info_args :: int
  info_ret :: int
  info_sideEffects :: bool
  info_gasPriceTier :: Tier

text \<open>The two \<open>std::map\<close>s are the association lists of their initialisers.\<close>

definition c_instructions :: "(string \<times> instruction) list" where
  "c_instructions =
    [(''STOP'', iSTOP),
     (''ADD'', iADD),
     (''SUB'', iSUB),
     (''MUL'', iMUL),
     (''DIV'', iDIV),
     (''SDIV'', iSDIV),
     (''MOD'', iMOD),
     (''SMOD'', iSMOD),
     (''EXP'', iEXP),
     (''NOT'', iNOT),
     (''LT'', iLT),
     (''GT'', iGT),
     (''SLT'', iSLT),
     (''SGT'', iSGT),
     (''EQ'', iEQ),
     (''ISZERO'', iISZERO),
     (''AND'', iAND),
     (''OR'', iOR),
     (''XOR'', iXOR),
     (''BYTE'', iBYTE),
     (''SHL'', iSHL),
     (''SHR'', iSHR),
     (''SAR'', iSAR),
     (''ADDMOD'', iADDMOD),
     (''MULMOD'', iMULMOD),
     (''SIGNEXTEND'', iSIGNEXTEND),
     (''KECCAK256'', iKECCAK256),
     (''ADDRESS'', iADDRESS),
     (''BALANCE'', iBALANCE),
     (''ORIGIN'', iORIGIN),
     (''CALLER'', iCALLER),
     (''CALLVALUE'', iCALLVALUE),
     (''CALLDATALOAD'', iCALLDATALOAD),
     (''CALLDATASIZE'', iCALLDATASIZE),
     (''CALLDATACOPY'', iCALLDATACOPY),
     (''CODESIZE'', iCODESIZE),
     (''CODECOPY'', iCODECOPY),
     (''GASPRICE'', iGASPRICE),
     (''EXTCODESIZE'', iEXTCODESIZE),
     (''EXTCODECOPY'', iEXTCODECOPY),
     (''RETURNDATASIZE'', iRETURNDATASIZE),
     (''RETURNDATACOPY'', iRETURNDATACOPY),
     (''EXTCODEHASH'', iEXTCODEHASH),
     (''BLOCKHASH'', iBLOCKHASH),
     (''COINBASE'', iCOINBASE),
     (''TIMESTAMP'', iTIMESTAMP),
     (''NUMBER'', iNUMBER),
     (''DIFFICULTY'', iDIFFICULTY),
     (''GASLIMIT'', iGASLIMIT),
     (''POP'', iPOP),
     (''MLOAD'', iMLOAD),
     (''MSTORE'', iMSTORE),
     (''MSTORE8'', iMSTORE8),
     (''SLOAD'', iSLOAD),
     (''SSTORE'', iSSTORE),
     (''JUMP'', iJUMP),
     (''JUMPI'', iJUMPI),
     (''PC'', iPC),
     (''MSIZE'', iMSIZE),
     (''GAS'', iGAS),
     (''JUMPDEST'', iJUMPDEST),
     (''PUSH1'', iPUSH1),
     (''PUSH2'', iPUSH2),
     (''PUSH3'', iPUSH3),
     (''PUSH4'', iPUSH4),
     (''PUSH5'', iPUSH5),
     (''PUSH6'', iPUSH6),
     (''PUSH7'', iPUSH7),
     (''PUSH8'', iPUSH8),
     (''PUSH9'', iPUSH9),
     (''PUSH10'', iPUSH10),
     (''PUSH11'', iPUSH11),
     (''PUSH12'', iPUSH12),
     (''PUSH13'', iPUSH13),
     (''PUSH14'', iPUSH14),
     (''PUSH15'', iPUSH15),
     (''PUSH16'', iPUSH16),
     (''PUSH17'', iPUSH17),
     (''PUSH18'', iPUSH18),
     (''PUSH19'', iPUSH19),
     (''PUSH20'', iPUSH20),
     (''PUSH21'', iPUSH21),
     (''PUSH22'', iPUSH22),
     (''PUSH23'', iPUSH23),
     (''PUSH24'', iPUSH24),
     (''PUSH25'', iPUSH25),
     (''PUSH26'', iPUSH26),
     (''PUSH27'', iPUSH27),
     (''PUSH28'', iPUSH28),
     (''PUSH29'', iPUSH29),
     (''PUSH30'', iPUSH30),
     (''PUSH31'', iPUSH31),
     (''PUSH32'', iPUSH32),
     (''DUP1'', iDUP1),
     (''DUP2'', iDUP2),
     (''DUP3'', iDUP3),
     (''DUP4'', iDUP4),
     (''DUP5'', iDUP5),
     (''DUP6'', iDUP6),
     (''DUP7'', iDUP7),
     (''DUP8'', iDUP8),
     (''DUP9'', iDUP9),
     (''DUP10'', iDUP10),
     (''DUP11'', iDUP11),
     (''DUP12'', iDUP12),
     (''DUP13'', iDUP13),
     (''DUP14'', iDUP14),
     (''DUP15'', iDUP15),
     (''DUP16'', iDUP16),
     (''SWAP1'', iSWAP1),
     (''SWAP2'', iSWAP2),
     (''SWAP3'', iSWAP3),
     (''SWAP4'', iSWAP4),
     (''SWAP5'', iSWAP5),
     (''SWAP6'', iSWAP6),
     (''SWAP7'', iSWAP7),
     (''SWAP8'', iSWAP8),
     (''SWAP9'', iSWAP9),
     (''SWAP10'', iSWAP10),
     (''SWAP11'', iSWAP11),
     (''SWAP12'', iSWAP12),
     (''SWAP13'', iSWAP13),
     (''SWAP14'', iSWAP14),
     (''SWAP15'', iSWAP15),
     (''SWAP16'', iSWAP16),
     (''LOG0'', iLOG0),
     (''LOG1'', iLOG1),
     (''LOG2'', iLOG2),
     (''LOG3'', iLOG3),
     (''LOG4'', iLOG4),
     (''CREATE'', iCREATE),
     (''CALL'', iCALL),
     (''CALLCODE'', iCALLCODE),
     (''STATICCALL'', iSTATICCALL),
     (''RETURN'', iRETURN),
     (''DELEGATECALL'', iDELEGATECALL),
     (''CREATE2'', iCREATE2),
     (''REVERT'', iREVERT),
     (''INVALID'', iINVALID),
     (''SELFDESTRUCT'', iSELFDESTRUCT)]"

definition c_instructionInfo :: "(instruction \<times> InstructionInfo) list" where
  "c_instructionInfo =
    [(iSTOP, InstructionInfo.make ''STOP'' 0 0 0 True Tier_Zero),
     (iADD, InstructionInfo.make ''ADD'' 0 2 1 False Tier_VeryLow),
     (iSUB, InstructionInfo.make ''SUB'' 0 2 1 False Tier_VeryLow),
     (iMUL, InstructionInfo.make ''MUL'' 0 2 1 False Tier_Low),
     (iDIV, InstructionInfo.make ''DIV'' 0 2 1 False Tier_Low),
     (iSDIV, InstructionInfo.make ''SDIV'' 0 2 1 False Tier_Low),
     (iMOD, InstructionInfo.make ''MOD'' 0 2 1 False Tier_Low),
     (iSMOD, InstructionInfo.make ''SMOD'' 0 2 1 False Tier_Low),
     (iEXP, InstructionInfo.make ''EXP'' 0 2 1 False Tier_Special),
     (iNOT, InstructionInfo.make ''NOT'' 0 1 1 False Tier_VeryLow),
     (iLT, InstructionInfo.make ''LT'' 0 2 1 False Tier_VeryLow),
     (iGT, InstructionInfo.make ''GT'' 0 2 1 False Tier_VeryLow),
     (iSLT, InstructionInfo.make ''SLT'' 0 2 1 False Tier_VeryLow),
     (iSGT, InstructionInfo.make ''SGT'' 0 2 1 False Tier_VeryLow),
     (iEQ, InstructionInfo.make ''EQ'' 0 2 1 False Tier_VeryLow),
     (iISZERO, InstructionInfo.make ''ISZERO'' 0 1 1 False Tier_VeryLow),
     (iAND, InstructionInfo.make ''AND'' 0 2 1 False Tier_VeryLow),
     (iOR, InstructionInfo.make ''OR'' 0 2 1 False Tier_VeryLow),
     (iXOR, InstructionInfo.make ''XOR'' 0 2 1 False Tier_VeryLow),
     (iBYTE, InstructionInfo.make ''BYTE'' 0 2 1 False Tier_VeryLow),
     (iSHL, InstructionInfo.make ''SHL'' 0 2 1 False Tier_VeryLow),
     (iSHR, InstructionInfo.make ''SHR'' 0 2 1 False Tier_VeryLow),
     (iSAR, InstructionInfo.make ''SAR'' 0 2 1 False Tier_VeryLow),
     (iADDMOD, InstructionInfo.make ''ADDMOD'' 0 3 1 False Tier_Mid),
     (iMULMOD, InstructionInfo.make ''MULMOD'' 0 3 1 False Tier_Mid),
     (iSIGNEXTEND, InstructionInfo.make ''SIGNEXTEND'' 0 2 1 False Tier_Low),
     (iKECCAK256, InstructionInfo.make ''KECCAK256'' 0 2 1 True Tier_Special),
     (iADDRESS, InstructionInfo.make ''ADDRESS'' 0 0 1 False Tier_Base),
     (iBALANCE, InstructionInfo.make ''BALANCE'' 0 1 1 False Tier_Balance),
     (iORIGIN, InstructionInfo.make ''ORIGIN'' 0 0 1 False Tier_Base),
     (iCALLER, InstructionInfo.make ''CALLER'' 0 0 1 False Tier_Base),
     (iCALLVALUE, InstructionInfo.make ''CALLVALUE'' 0 0 1 False Tier_Base),
     (iCALLDATALOAD, InstructionInfo.make ''CALLDATALOAD'' 0 1 1 False Tier_VeryLow),
     (iCALLDATASIZE, InstructionInfo.make ''CALLDATASIZE'' 0 0 1 False Tier_Base),
     (iCALLDATACOPY, InstructionInfo.make ''CALLDATACOPY'' 0 3 0 True Tier_VeryLow),
     (iCODESIZE, InstructionInfo.make ''CODESIZE'' 0 0 1 False Tier_Base),
     (iCODECOPY, InstructionInfo.make ''CODECOPY'' 0 3 0 True Tier_VeryLow),
     (iGASPRICE, InstructionInfo.make ''GASPRICE'' 0 0 1 False Tier_Base),
     (iEXTCODESIZE, InstructionInfo.make ''EXTCODESIZE'' 0 1 1 False Tier_ExtCode),
     (iEXTCODECOPY, InstructionInfo.make ''EXTCODECOPY'' 0 4 0 True Tier_ExtCode),
     (iRETURNDATASIZE, InstructionInfo.make ''RETURNDATASIZE'' 0 0 1 False Tier_Base),
     (iRETURNDATACOPY, InstructionInfo.make ''RETURNDATACOPY'' 0 3 0 True Tier_VeryLow),
     (iEXTCODEHASH, InstructionInfo.make ''EXTCODEHASH'' 0 1 1 False Tier_Balance),
     (iBLOCKHASH, InstructionInfo.make ''BLOCKHASH'' 0 1 1 False Tier_Ext),
     (iCOINBASE, InstructionInfo.make ''COINBASE'' 0 0 1 False Tier_Base),
     (iTIMESTAMP, InstructionInfo.make ''TIMESTAMP'' 0 0 1 False Tier_Base),
     (iNUMBER, InstructionInfo.make ''NUMBER'' 0 0 1 False Tier_Base),
     (iDIFFICULTY, InstructionInfo.make ''DIFFICULTY'' 0 0 1 False Tier_Base),
     (iGASLIMIT, InstructionInfo.make ''GASLIMIT'' 0 0 1 False Tier_Base),
     (iPOP, InstructionInfo.make ''POP'' 0 1 0 False Tier_Base),
     (iMLOAD, InstructionInfo.make ''MLOAD'' 0 1 1 True Tier_VeryLow),
     (iMSTORE, InstructionInfo.make ''MSTORE'' 0 2 0 True Tier_VeryLow),
     (iMSTORE8, InstructionInfo.make ''MSTORE8'' 0 2 0 True Tier_VeryLow),
     (iSLOAD, InstructionInfo.make ''SLOAD'' 0 1 1 False Tier_Special),
     (iSSTORE, InstructionInfo.make ''SSTORE'' 0 2 0 True Tier_Special),
     (iJUMP, InstructionInfo.make ''JUMP'' 0 1 0 True Tier_Mid),
     (iJUMPI, InstructionInfo.make ''JUMPI'' 0 2 0 True Tier_High),
     (iPC, InstructionInfo.make ''PC'' 0 0 1 False Tier_Base),
     (iMSIZE, InstructionInfo.make ''MSIZE'' 0 0 1 False Tier_Base),
     (iGAS, InstructionInfo.make ''GAS'' 0 0 1 False Tier_Base),
     (iJUMPDEST, InstructionInfo.make ''JUMPDEST'' 0 0 0 True Tier_Special),
     (iPUSH1, InstructionInfo.make ''PUSH1'' 1 0 1 False Tier_VeryLow),
     (iPUSH2, InstructionInfo.make ''PUSH2'' 2 0 1 False Tier_VeryLow),
     (iPUSH3, InstructionInfo.make ''PUSH3'' 3 0 1 False Tier_VeryLow),
     (iPUSH4, InstructionInfo.make ''PUSH4'' 4 0 1 False Tier_VeryLow),
     (iPUSH5, InstructionInfo.make ''PUSH5'' 5 0 1 False Tier_VeryLow),
     (iPUSH6, InstructionInfo.make ''PUSH6'' 6 0 1 False Tier_VeryLow),
     (iPUSH7, InstructionInfo.make ''PUSH7'' 7 0 1 False Tier_VeryLow),
     (iPUSH8, InstructionInfo.make ''PUSH8'' 8 0 1 False Tier_VeryLow),
     (iPUSH9, InstructionInfo.make ''PUSH9'' 9 0 1 False Tier_VeryLow),
     (iPUSH10, InstructionInfo.make ''PUSH10'' 10 0 1 False Tier_VeryLow),
     (iPUSH11, InstructionInfo.make ''PUSH11'' 11 0 1 False Tier_VeryLow),
     (iPUSH12, InstructionInfo.make ''PUSH12'' 12 0 1 False Tier_VeryLow),
     (iPUSH13, InstructionInfo.make ''PUSH13'' 13 0 1 False Tier_VeryLow),
     (iPUSH14, InstructionInfo.make ''PUSH14'' 14 0 1 False Tier_VeryLow),
     (iPUSH15, InstructionInfo.make ''PUSH15'' 15 0 1 False Tier_VeryLow),
     (iPUSH16, InstructionInfo.make ''PUSH16'' 16 0 1 False Tier_VeryLow),
     (iPUSH17, InstructionInfo.make ''PUSH17'' 17 0 1 False Tier_VeryLow),
     (iPUSH18, InstructionInfo.make ''PUSH18'' 18 0 1 False Tier_VeryLow),
     (iPUSH19, InstructionInfo.make ''PUSH19'' 19 0 1 False Tier_VeryLow),
     (iPUSH20, InstructionInfo.make ''PUSH20'' 20 0 1 False Tier_VeryLow),
     (iPUSH21, InstructionInfo.make ''PUSH21'' 21 0 1 False Tier_VeryLow),
     (iPUSH22, InstructionInfo.make ''PUSH22'' 22 0 1 False Tier_VeryLow),
     (iPUSH23, InstructionInfo.make ''PUSH23'' 23 0 1 False Tier_VeryLow),
     (iPUSH24, InstructionInfo.make ''PUSH24'' 24 0 1 False Tier_VeryLow),
     (iPUSH25, InstructionInfo.make ''PUSH25'' 25 0 1 False Tier_VeryLow),
     (iPUSH26, InstructionInfo.make ''PUSH26'' 26 0 1 False Tier_VeryLow),
     (iPUSH27, InstructionInfo.make ''PUSH27'' 27 0 1 False Tier_VeryLow),
     (iPUSH28, InstructionInfo.make ''PUSH28'' 28 0 1 False Tier_VeryLow),
     (iPUSH29, InstructionInfo.make ''PUSH29'' 29 0 1 False Tier_VeryLow),
     (iPUSH30, InstructionInfo.make ''PUSH30'' 30 0 1 False Tier_VeryLow),
     (iPUSH31, InstructionInfo.make ''PUSH31'' 31 0 1 False Tier_VeryLow),
     (iPUSH32, InstructionInfo.make ''PUSH32'' 32 0 1 False Tier_VeryLow),
     (iDUP1, InstructionInfo.make ''DUP1'' 0 1 2 False Tier_VeryLow),
     (iDUP2, InstructionInfo.make ''DUP2'' 0 2 3 False Tier_VeryLow),
     (iDUP3, InstructionInfo.make ''DUP3'' 0 3 4 False Tier_VeryLow),
     (iDUP4, InstructionInfo.make ''DUP4'' 0 4 5 False Tier_VeryLow),
     (iDUP5, InstructionInfo.make ''DUP5'' 0 5 6 False Tier_VeryLow),
     (iDUP6, InstructionInfo.make ''DUP6'' 0 6 7 False Tier_VeryLow),
     (iDUP7, InstructionInfo.make ''DUP7'' 0 7 8 False Tier_VeryLow),
     (iDUP8, InstructionInfo.make ''DUP8'' 0 8 9 False Tier_VeryLow),
     (iDUP9, InstructionInfo.make ''DUP9'' 0 9 10 False Tier_VeryLow),
     (iDUP10, InstructionInfo.make ''DUP10'' 0 10 11 False Tier_VeryLow),
     (iDUP11, InstructionInfo.make ''DUP11'' 0 11 12 False Tier_VeryLow),
     (iDUP12, InstructionInfo.make ''DUP12'' 0 12 13 False Tier_VeryLow),
     (iDUP13, InstructionInfo.make ''DUP13'' 0 13 14 False Tier_VeryLow),
     (iDUP14, InstructionInfo.make ''DUP14'' 0 14 15 False Tier_VeryLow),
     (iDUP15, InstructionInfo.make ''DUP15'' 0 15 16 False Tier_VeryLow),
     (iDUP16, InstructionInfo.make ''DUP16'' 0 16 17 False Tier_VeryLow),
     (iSWAP1, InstructionInfo.make ''SWAP1'' 0 2 2 False Tier_VeryLow),
     (iSWAP2, InstructionInfo.make ''SWAP2'' 0 3 3 False Tier_VeryLow),
     (iSWAP3, InstructionInfo.make ''SWAP3'' 0 4 4 False Tier_VeryLow),
     (iSWAP4, InstructionInfo.make ''SWAP4'' 0 5 5 False Tier_VeryLow),
     (iSWAP5, InstructionInfo.make ''SWAP5'' 0 6 6 False Tier_VeryLow),
     (iSWAP6, InstructionInfo.make ''SWAP6'' 0 7 7 False Tier_VeryLow),
     (iSWAP7, InstructionInfo.make ''SWAP7'' 0 8 8 False Tier_VeryLow),
     (iSWAP8, InstructionInfo.make ''SWAP8'' 0 9 9 False Tier_VeryLow),
     (iSWAP9, InstructionInfo.make ''SWAP9'' 0 10 10 False Tier_VeryLow),
     (iSWAP10, InstructionInfo.make ''SWAP10'' 0 11 11 False Tier_VeryLow),
     (iSWAP11, InstructionInfo.make ''SWAP11'' 0 12 12 False Tier_VeryLow),
     (iSWAP12, InstructionInfo.make ''SWAP12'' 0 13 13 False Tier_VeryLow),
     (iSWAP13, InstructionInfo.make ''SWAP13'' 0 14 14 False Tier_VeryLow),
     (iSWAP14, InstructionInfo.make ''SWAP14'' 0 15 15 False Tier_VeryLow),
     (iSWAP15, InstructionInfo.make ''SWAP15'' 0 16 16 False Tier_VeryLow),
     (iSWAP16, InstructionInfo.make ''SWAP16'' 0 17 17 False Tier_VeryLow),
     (iLOG0, InstructionInfo.make ''LOG0'' 0 2 0 True Tier_Special),
     (iLOG1, InstructionInfo.make ''LOG1'' 0 3 0 True Tier_Special),
     (iLOG2, InstructionInfo.make ''LOG2'' 0 4 0 True Tier_Special),
     (iLOG3, InstructionInfo.make ''LOG3'' 0 5 0 True Tier_Special),
     (iLOG4, InstructionInfo.make ''LOG4'' 0 6 0 True Tier_Special),
     (iCREATE, InstructionInfo.make ''CREATE'' 0 3 1 True Tier_Special),
     (iCALL, InstructionInfo.make ''CALL'' 0 7 1 True Tier_Special),
     (iCALLCODE, InstructionInfo.make ''CALLCODE'' 0 7 1 True Tier_Special),
     (iRETURN, InstructionInfo.make ''RETURN'' 0 2 0 True Tier_Zero),
     (iDELEGATECALL, InstructionInfo.make ''DELEGATECALL'' 0 6 1 True Tier_Special),
     (iSTATICCALL, InstructionInfo.make ''STATICCALL'' 0 6 1 True Tier_Special),
     (iCREATE2, InstructionInfo.make ''CREATE2'' 0 4 1 True Tier_Special),
     (iREVERT, InstructionInfo.make ''REVERT'' 0 2 0 True Tier_Zero),
     (iINVALID, InstructionInfo.make ''INVALID'' 0 0 0 True Tier_Zero),
     (iSELFDESTRUCT, InstructionInfo.make ''SELFDESTRUCT'' 0 1 0 True Tier_Special)]"

definition instructionInfo :: "instruction \<Rightarrow> InstructionInfo" where
  "instructionInfo inst =
     (case map_of c_instructionInfo inst of
        Some info \<Rightarrow> info
      | None \<Rightarrow>
          InstructionInfo.make (''<INVALID_INSTRUCTION: '' @ showDec (unat inst) @ ''>'')
            0 0 0 False Tier_Invalid)"

definition isValidInstruction :: "instruction \<Rightarrow> bool" where
  "isValidInstruction inst \<longleftrightarrow> map_of c_instructionInfo inst \<noteq> None"

section \<open>Decoding\<close>

text \<open>The inner loop: the immediate bytes still in the program, and how many are missing.\<close>

fun takeData :: "nat \<Rightarrow> bytes \<Rightarrow> u256 \<Rightarrow> u256 \<times> nat \<times> bytes" where
  "takeData (Suc additional) (b # bs) data =
     takeData additional bs (push_bit 8 data OR ucast b)"
| "takeData additional bs data = (data, additional, bs)"

lemma length_takeData: "length (snd (snd (takeData n bs d))) \<le> length bs"
  by (induction n bs d rule: takeData.induct) auto

text \<open>The calls of \<open>_onInstruction\<close>, in order.\<close>

function eachInstruction :: "bytes \<Rightarrow> (instruction \<times> u256) list" where
  "eachInstruction [] = []"
| "eachInstruction (b # bs) =
     (let additional =
            (if isValidInstruction b then nat (info_additional (instructionInfo b)) else 0);
          (data, missing, rest) = takeData additional bs 0
      in (b, push_bit (8 * missing) data) # eachInstruction rest)"
  by pat_completeness auto
termination
proof (relation "measure length")
  fix b bs and x :: "u256 \<times> nat \<times> bytes" and additional :: nat
    and data missing rest and y :: "nat \<times> bytes"
  assume "x = takeData additional bs 0" "(data, y) = x" "(missing, rest) = y"
  then have "takeData additional bs 0 = (data, missing, rest)" by simp
  with length_takeData [of additional bs 0] show "(rest, b # bs) \<in> measure length"
    by (simp add: less_Suc_eq_le)
qed simp

definition disassemble :: "bytes \<Rightarrow> string" where
  "disassemble mem =
     concat (map (\<lambda>(instr, data).
       if \<not> isValidInstruction instr then ''0x'' @ showHex (unat instr) @ '' ''
       else
         (let info = instructionInfo instr
          in info_name info @ '' '' @
             (if info_additional info \<noteq> 0 then ''0x'' @ showHex (unat data) @ '' '' else [])))
       (eachInstruction mem))"

section \<open>The tables as functions\<close>

text \<open>
  The initialiser is almost in ascending order, so its keys are compared after
  sorting them.
\<close>

lemma successively_distinct: "successively (<) (sort xs) \<Longrightarrow> distinct (xs :: 'a::linorder list)"
  by (metis distinct_sort strict_sorted_iff successively_conv_sorted_wrt transp_on_less)

lemma distinct_keys: "distinct (map fst c_instructionInfo)"
proof -
  have "successively (<) (sort (map unat (map fst c_instructionInfo)))"
    by code_simp
  then have "distinct (map unat (map fst c_instructionInfo))"
    by (rule successively_distinct)
  then show ?thesis
    unfolding distinct_map [of unat] by blast
qed

lemma instructionInfo_table: "list_all (\<lambda>(i, info). instructionInfo i = info) c_instructionInfo"
  using distinct_keys by (auto simp: list_all_iff instructionInfo_def)

lemmas instructionInfo_rules =
  instructionInfo_table [unfolded c_instructionInfo_def list.pred_inject prod.case]

lemma instructionInfo_all:
  assumes "list_all (\<lambda>(i, info). P i info) c_instructionInfo"
    and "\<And>i. map_of c_instructionInfo i = None \<Longrightarrow> P i (instructionInfo i)"
  shows "P i (instructionInfo i)"
proof (cases "map_of c_instructionInfo i")
  case None
  then show ?thesis by (rule assms(2))
next
  case (Some info)
  then have "(i, info) \<in> set c_instructionInfo" by (rule map_of_SomeD)
  with assms(1) Some show ?thesis by (auto simp: list_all_iff instructionInfo_def)
qed

lemma instructionInfo_additional:
  "0 \<le> info_additional (instructionInfo i) \<and> info_additional (instructionInfo i) \<le> 32"
  by (rule instructionInfo_all)
    (simp_all add: c_instructionInfo_def InstructionInfo.defs instructionInfo_def)


lemma isValidInstruction_table: "isValidInstruction i \<longleftrightarrow> i \<in> set (map fst c_instructionInfo)"
  by (simp add: isValidInstruction_def map_of_eq_None_iff)

lemmas isValidInstruction_rules =
  isValidInstruction_table [unfolded c_instructionInfo_def list.map fst_conv]

lemma not_valid_info:
  "\<not> isValidInstruction i \<Longrightarrow>
     info_additional (instructionInfo i) = 0 \<and> info_args (instructionInfo i) = 0 \<and>
     info_ret (instructionInfo i) = 0 \<and> \<not> info_sideEffects (instructionInfo i) \<and>
     info_gasPriceTier (instructionInfo i) = Tier_Invalid"
  by (simp add: isValidInstruction_def instructionInfo_def InstructionInfo.defs)

section \<open>The families\<close>

text \<open>A statement on bytes between two bounds is checked byte by byte.\<close>

lemma byte_range_all:
  assumes "list_all (\<lambda>n. P (of_nat n)) [unat a..<Suc (unat b)]" and "a \<le> (i::byte)" and "i \<le> b"
  shows "P i"
proof -
  from assms(2,3) have "unat a \<le> unat i" "unat i \<le> unat b" by (simp_all add: word_le_nat_alt)
  then have "unat i \<in> set [unat a..<Suc (unat b)]" by auto
  with assms(1) have "P (of_nat (unat i))" unfolding list_all_iff by blast
  then show ?thesis by simp
qed

lemma push_family:
  "isPushInstruction i \<Longrightarrow>
     info_additional (instructionInfo i) = int (unat (getPushNumber i)) \<and>
     info_args (instructionInfo i) = 0 \<and> info_ret (instructionInfo i) = 1 \<and>
     1 \<le> getPushNumber i \<and> getPushNumber i \<le> 32 \<and> pushInstruction (getPushNumber i) = Inr i"
  unfolding isPushInstruction_def
  by (rule byte_range_all [of _ iPUSH1 iPUSH32])
    (simp_all add: upt_rec instructionInfo_rules InstructionInfo.defs getPushNumber_def pushInstruction_def)

lemma dup_family:
  "isDupInstruction i \<Longrightarrow>
     info_additional (instructionInfo i) = 0 \<and>
     info_args (instructionInfo i) = int (unat (getDupNumber i)) \<and>
     info_ret (instructionInfo i) = int (unat (getDupNumber i)) + 1 \<and>
     1 \<le> getDupNumber i \<and> getDupNumber i \<le> 16 \<and> dupInstruction (getDupNumber i) = Inr i"
  unfolding isDupInstruction_def
  by (rule byte_range_all [of _ iDUP1 iDUP16])
    (simp_all add: upt_rec instructionInfo_rules InstructionInfo.defs getDupNumber_def dupInstruction_def)

lemma swap_family:
  "isSwapInstruction i \<Longrightarrow>
     info_additional (instructionInfo i) = 0 \<and>
     info_args (instructionInfo i) = int (unat (getSwapNumber i)) + 1 \<and>
     info_ret (instructionInfo i) = int (unat (getSwapNumber i)) + 1 \<and>
     1 \<le> getSwapNumber i \<and> getSwapNumber i \<le> 16 \<and> swapInstruction (getSwapNumber i) = Inr i"
  unfolding isSwapInstruction_def
  by (rule byte_range_all [of _ iSWAP1 iSWAP16])
    (simp_all add: upt_rec instructionInfo_rules InstructionInfo.defs getSwapNumber_def swapInstruction_def)

lemma log_family:
  "isLogInstruction i \<Longrightarrow>
     info_args (instructionInfo i) = int (unat (getLogNumber i)) + 2 \<and>
     info_ret (instructionInfo i) = 0 \<and>
     getLogNumber i \<le> 4 \<and> logInstruction (getLogNumber i) = Inr i"
  unfolding isLogInstruction_def
  by (rule byte_range_all [of _ iLOG0 iLOG4])
    (simp_all add: upt_rec instructionInfo_rules InstructionInfo.defs getLogNumber_def logInstruction_def)


section \<open>Decoding inverts encoding\<close>

text \<open>The bytes of an instruction: its opcode and its immediate data at the instruction's width.\<close>

definition additionalBytes :: "instruction \<Rightarrow> nat" where
  "additionalBytes i = (if isValidInstruction i then nat (info_additional (instructionInfo i)) else 0)"

definition encodeInstruction :: "instruction \<times> u256 \<Rightarrow> bytes" where
  "encodeInstruction = (\<lambda>(i, data). i # be_digits (additionalBytes i) (unat data))"

lemma additionalBytes_le: "additionalBytes i \<le> 32"
  using instructionInfo_additional [of i] unfolding additionalBytes_def by simp linarith

lemma takeData_eq:
  "takeData n bs d =
     (foldl (\<lambda>r b. push_bit 8 r OR ucast b) d (take n bs), n - length bs, drop n bs)"
  by (induction n bs d rule: takeData.induct) auto

lemma takeData_0: "takeData n bs 0 = (fromBigEndian (take n bs), n - length bs, drop n bs)"
  by (simp add: takeData_eq fromBigEndian_def)

lemma eachInstruction_Cons:
  "eachInstruction (b # bs) =
     (let n = additionalBytes b
      in (b, push_bit (8 * (n - length bs)) (fromBigEndian (take n bs))) # eachInstruction (drop n bs))"
  by (simp add: takeData_0 additionalBytes_def Let_def)

declare eachInstruction.simps(2) [simp del]

lemma fromBigEndian_pad:
  "(fromBigEndian (xs @ replicate m 0) :: u256) = push_bit (8 * m) (fromBigEndian xs)"
proof (induction m)
  case 0
  then show ?case by simp
next
  case (Suc m)
  have "xs @ replicate (Suc m) 0 = (xs @ replicate m 0) @ [0]"
    by (simp add: replicate_append_same)
  then have "(fromBigEndian (xs @ replicate (Suc m) 0) :: u256) =
      push_bit 8 (fromBigEndian (xs @ replicate m 0))"
    by (simp only: fromBigEndian_def foldl_append) simp
  with Suc show ?case by (simp add: push_bit_push_bit)
qed

lemma be_digits_fromBigEndian:
  assumes "length ys \<le> 32"
  shows "be_digits (length ys) (unat (fromBigEndian ys :: u256)) = ys"
proof -
  have "beval ys < 256 ^ length ys" by (rule beval_bound)
  also have "\<dots> \<le> 256 ^ 32" using assms by (intro power_increasing) simp_all
  finally have "unat (fromBigEndian ys :: u256) = beval ys"
    by (simp add: unat_fromBigEndian)
  then show ?thesis by (simp add: be_digits_beval)
qed

lemma fromBigEndian_be_digits:
  assumes "unat (d :: u256) < 256 ^ n"
  shows "fromBigEndian (be_digits n (unat d)) = d"
  using assms unsigned_less [of d, where 'a=nat]
  by (simp add: word_unat_eq_iff unat_fromBigEndian beval_be_digits)

lemma eachInstruction_encode:
  assumes "unat (d :: u256) < 256 ^ additionalBytes i"
  shows "eachInstruction (encodeInstruction (i, d) @ bs) = (i, d) # eachInstruction bs"
  using fromBigEndian_be_digits [OF assms]
  by (simp add: encodeInstruction_def eachInstruction_Cons Let_def)

lemma encode_eachInstruction:
  "\<exists>m \<le> 32. concat (map encodeInstruction (eachInstruction bs)) = bs @ replicate m 0"
proof (induction "length bs" arbitrary: bs rule: less_induct)
  case less
  show ?case
  proof (cases bs)
    case Nil
    then show ?thesis by (intro exI [of _ 0]) simp
  next
    case (Cons b cs)
    let ?n = "additionalBytes b"
    let ?ys = "take ?n cs @ replicate (?n - length cs) 0"
    have len: "length ?ys = ?n" by (simp add: min_def)
    have "be_digits ?n (unat (fromBigEndian ?ys :: u256)) = ?ys"
      using be_digits_fromBigEndian [of ?ys] additionalBytes_le [of b] unfolding len by blast
    then have enc: "encodeInstruction (hd (eachInstruction bs)) = b # ?ys"
      by (simp add: Cons eachInstruction_Cons Let_def encodeInstruction_def fromBigEndian_pad)
    have tl: "tl (eachInstruction bs) = eachInstruction (drop ?n cs)" "eachInstruction bs \<noteq> []"
      by (simp_all add: Cons eachInstruction_Cons Let_def)
    then have split: "concat (map encodeInstruction (eachInstruction bs)) =
        (b # ?ys) @ concat (map encodeInstruction (eachInstruction (drop ?n cs)))"
      by (cases "eachInstruction bs") (simp_all add: enc [symmetric])
    show ?thesis
    proof (cases "?n \<le> length cs")
      case True
      obtain m where "m \<le> 32" and "concat (map encodeInstruction (eachInstruction (drop ?n cs))) =
          drop ?n cs @ replicate m 0"
        using less [of "drop ?n cs"] unfolding Cons by (auto simp: less_Suc_eq_le)
      with True Cons show ?thesis
        unfolding split by (intro exI [of _ m]) simp
    next
      case False
      with Cons show ?thesis
        unfolding split using additionalBytes_le [of b]
        by (intro exI [of _ "?n - length cs"]) simp
    qed
  qed
qed

lemma eachInstruction_concat:
  "list_all (\<lambda>(i, d). unat d < 256 ^ additionalBytes i) l \<Longrightarrow>
     eachInstruction (concat (map encodeInstruction l)) = l"
  by (induction l) (auto simp: eachInstruction_encode)




section \<open>Properties\<close>

lemma inj_unat_byte: "inj (unat :: byte \<Rightarrow> nat)"
  by (rule injI) (simp add: word_unat_eq_iff)

lemma additional_no_push: "\<not> isPushInstruction i \<longrightarrow> info_additional (instructionInfo i) = 0"
  by (rule instructionInfo_all)
    (simp_all add: c_instructionInfo_def InstructionInfo.defs instructionInfo_def isPushInstruction_def)

lemma mnemonic_opcodes: "set (map snd c_instructions) = set (map fst c_instructionInfo)"
proof -
  have "sort (map unat (map snd c_instructions)) = sort (map unat (map fst c_instructionInfo))"
    by code_simp
  then have "set (map unat (map snd c_instructions)) = set (map unat (map fst c_instructionInfo))"
    by (metis set_sort)
  then show ?thesis
    by (simp only: set_map inj_image_eq_iff [OF inj_unat_byte])
qed

lemma mnemonic_names:
  "list_all (\<lambda>(s, i). info_name (instructionInfo i) = s) c_instructions"
  unfolding c_instructions_def by (simp add: instructionInfo_rules InstructionInfo.defs)

text \<open>
  The table of mnemonics the assembly parsers use and the table of instruction
  properties describe the same instructions under the same names.
\<close>

theorem mnemonics_agree:
  "(s, i) \<in> set c_instructions \<longleftrightarrow> isValidInstruction i \<and> info_name (instructionInfo i) = s"
proof -
  have "i \<in> set (map snd c_instructions) \<longleftrightarrow> isValidInstruction i"
    by (simp only: mnemonic_opcodes isValidInstruction_table)
  moreover have "(t, i) \<in> set c_instructions \<Longrightarrow> info_name (instructionInfo i) = t" for t
    using mnemonic_names by (auto simp: list_all_iff)
  ultimately show ?thesis by force
qed

text \<open>
  decoding loses nothing: written back, the decoded instructions are the input
  program followed by at most 32 zero bytes, the padding of a truncated last push.
\<close>

theorem eachInstruction_lossless:
  "\<exists>m \<le> 32. concat (map encodeInstruction (eachInstruction bs)) = bs @ replicate m 0"
  by (rule encode_eachInstruction)

text \<open>
  C28: a program assembled from instructions whose immediate data fits their width
  decodes to exactly these instructions.
\<close>

theorem eachInstruction_roundtrip:
  "list_all (\<lambda>(i, d). unat d < 256 ^ additionalBytes i) l \<Longrightarrow>
     eachInstruction (concat (map encodeInstruction l)) = l"
  by (rule eachInstruction_concat)

theorem eachInstruction_roundtrip_witness:
  "eachInstruction (concat (map encodeInstruction [(iPUSH2, 0x1234), (iADD, 0)])) =
     [(iPUSH2, 0x1234), (iADD, 0)]"
  by (rule eachInstruction_roundtrip)
    (simp add: additionalBytes_def isValidInstruction_def c_instructionInfo_def
      instructionInfo_rules InstructionInfo.defs)

text \<open>
  the entries of the families agree with the number functions, and the number
  functions invert the constructors of the families.
\<close>

theorem instruction_families:
  "if isPushInstruction i then
     pushInstruction (getPushNumber i) = Inr i \<and>
     info_additional (instructionInfo i) = int (unat (getPushNumber i)) \<and>
     info_args (instructionInfo i) = 0 \<and> info_ret (instructionInfo i) = 1
   else if isDupInstruction i then
     dupInstruction (getDupNumber i) = Inr i \<and>
     info_args (instructionInfo i) = int (unat (getDupNumber i)) \<and>
     info_ret (instructionInfo i) = info_args (instructionInfo i) + 1
   else if isSwapInstruction i then
     swapInstruction (getSwapNumber i) = Inr i \<and>
     info_args (instructionInfo i) = int (unat (getSwapNumber i)) + 1 \<and>
     info_ret (instructionInfo i) = info_args (instructionInfo i)
   else if isLogInstruction i then
     logInstruction (getLogNumber i) = Inr i \<and>
     info_args (instructionInfo i) = int (unat (getLogNumber i)) + 2 \<and>
     info_ret (instructionInfo i) = 0
   else info_additional (instructionInfo i) = 0"
  using push_family [of i] dup_family [of i] swap_family [of i] log_family [of i]
    additional_no_push [of i]
  by simp

end
