(* ===== verification/Assembly_Items.thy ===== *)
theory Assembly_Items
  imports Instructions Source_Location
begin

text \<open>
  libsvmasm/AssemblyItem.h and AssemblyItem.cpp: the items of an assembly, from which
  the optimiser's passes rewrite lists and the assembler produces bytes.
\<close>

datatype AssemblyItemType =
    UndefinedItem
  | Operation
  | Push
  | PushString
  | PushTag
  | PushSub
  | PushSubSize
  | PushProgramSize
  | Tag
  | PushData
  | PushLibraryAddress
  | PushDeployTimeAddress

datatype JumpType = Ordinary | IntoFunction | OutOfFunction

text \<open>Enumerators compare by their position.\<close>

fun itemType_index :: "AssemblyItemType \<Rightarrow> nat" where
  "itemType_index UndefinedItem = 0"
| "itemType_index Operation = 1"
| "itemType_index Push = 2"
| "itemType_index PushString = 3"
| "itemType_index PushTag = 4"
| "itemType_index PushSub = 5"
| "itemType_index PushSubSize = 6"
| "itemType_index PushProgramSize = 7"
| "itemType_index Tag = 8"
| "itemType_index PushData = 9"
| "itemType_index PushLibraryAddress = 10"
| "itemType_index PushDeployTimeAddress = 11"

lemma itemType_index_inject: "itemType_index a = itemType_index b \<longleftrightarrow> a = b"
  by (cases a; cases b) simp_all

instantiation AssemblyItemType :: linorder
begin

definition less_eq_AssemblyItemType :: "AssemblyItemType \<Rightarrow> AssemblyItemType \<Rightarrow> bool" where
  "less_eq_AssemblyItemType a b \<longleftrightarrow> itemType_index a \<le> itemType_index b"

definition less_AssemblyItemType :: "AssemblyItemType \<Rightarrow> AssemblyItemType \<Rightarrow> bool" where
  "less_AssemblyItemType a b \<longleftrightarrow> itemType_index a < itemType_index b"

instance
  by standard
    (auto simp: less_eq_AssemblyItemType_def less_AssemblyItemType_def itemType_index_inject [symmetric])

end

text \<open>
  \<open>m_instruction\<close> is meaningful for operations only and \<open>m_data\<close>, behind a shared
  pointer in the code, for all other items only; the constructors give the other one
  the value 0. The pushed value is known once the assembler has determined it.
\<close>

record AssemblyItem =
  m_type :: AssemblyItemType
  m_instruction :: instruction
  m_data :: u256
  m_location :: SourceLocation
  m_jumpType :: JumpType
  m_pushedValue :: "u256 option"

type_synonym AssemblyItems = "AssemblyItem list"

section \<open>Constructors and accessors\<close>

definition mkItemAt :: "AssemblyItemType \<Rightarrow> u256 \<Rightarrow> SourceLocation \<Rightarrow> AssemblyItem" where
  "mkItemAt ty dat loc =
     (if ty = Operation
      then \<lparr>m_type = ty, m_instruction = ucast dat, m_data = 0, m_location = loc,
            m_jumpType = Ordinary, m_pushedValue = None\<rparr>
      else \<lparr>m_type = ty, m_instruction = 0, m_data = dat, m_location = loc,
            m_jumpType = Ordinary, m_pushedValue = None\<rparr>)"

definition pushItemAt :: "u256 \<Rightarrow> SourceLocation \<Rightarrow> AssemblyItem" where
  "pushItemAt v loc = mkItemAt Push v loc"

definition opItemAt :: "instruction \<Rightarrow> SourceLocation \<Rightarrow> AssemblyItem" where
  "opItemAt i loc =
     \<lparr>m_type = Operation, m_instruction = i, m_data = 0, m_location = loc,
      m_jumpType = Ordinary, m_pushedValue = None\<rparr>"

abbreviation mkItem :: "AssemblyItemType \<Rightarrow> u256 \<Rightarrow> AssemblyItem" where
  "mkItem ty dat \<equiv> mkItemAt ty dat noLocation"

abbreviation pushItem :: "u256 \<Rightarrow> AssemblyItem" where
  "pushItem v \<equiv> pushItemAt v noLocation"

abbreviation opItem :: "instruction \<Rightarrow> AssemblyItem" where
  "opItem i \<equiv> opItemAt i noLocation"

definition item_data :: "AssemblyItem \<Rightarrow> u256 result" where
  "item_data it = assertThrow (m_type it \<noteq> Operation) GenericException (Inr (m_data it))"

definition setData :: "AssemblyItem \<Rightarrow> u256 \<Rightarrow> AssemblyItem result" where
  "setData it dat = assertThrow (m_type it \<noteq> Operation) GenericException (Inr (it\<lparr>m_data := dat\<rparr>))"

definition item_instruction :: "AssemblyItem \<Rightarrow> instruction result" where
  "item_instruction it = assertThrow (m_type it = Operation) GenericException (Inr (m_instruction it))"

definition item_tag :: "AssemblyItem \<Rightarrow> AssemblyItem result" where
  "item_tag it =
     assertThrow (m_type it = PushTag \<or> m_type it = Tag) GenericException (Inr (mkItem Tag (m_data it)))"

definition item_pushTag :: "AssemblyItem \<Rightarrow> AssemblyItem result" where
  "item_pushTag it =
     assertThrow (m_type it = PushTag \<or> m_type it = Tag) GenericException
       (Inr (mkItem PushTag (m_data it)))"

text \<open>\<open>operator==\<close> compares the type and the data or the instruction, nothing else.\<close>

definition item_eq :: "AssemblyItem \<Rightarrow> AssemblyItem \<Rightarrow> bool" where
  "item_eq a b =
     (if m_type a \<noteq> m_type b then False
      else if m_type a = Operation then m_instruction a = m_instruction b
      else m_data a = m_data b)"

definition item_less :: "AssemblyItem \<Rightarrow> AssemblyItem \<Rightarrow> bool" where
  "item_less a b =
     (if m_type a \<noteq> m_type b then m_type a < m_type b
      else if m_type a = Operation then m_instruction a < m_instruction b
      else m_data a < m_data b)"

definition is_op :: "AssemblyItem \<Rightarrow> instruction \<Rightarrow> bool" where
  "is_op it i \<longleftrightarrow> m_type it = Operation \<and> m_instruction it = i"

section \<open>Tags of other assemblies\<close>

definition setPushTagSubIdAndTag :: "AssemblyItem \<Rightarrow> size_t \<Rightarrow> size_t \<Rightarrow> AssemblyItem result" where
  "setPushTagSubIdAndTag it subId tag =
     assertThrow (m_type it = PushTag \<or> m_type it = Tag) GenericException
       (let data = ucast tag :: u256;
            data = (if subId \<noteq> - 1 then data OR push_bit 64 (ucast subId + 1) else data)
        in setData it data)"

definition splitForeignPushTag :: "AssemblyItem \<Rightarrow> (size_t \<times> size_t) result" where
  "splitForeignPushTag it =
     assertThrow (m_type it = PushTag \<or> m_type it = Tag) GenericException
       (let combined = m_data it;
            subId = ucast (drop_bit 64 combined - 1);
            tag = ucast (combined AND 0xffffffffffffffff)
        in Inr (subId, tag))"

definition toSubAssemblyTag :: "AssemblyItem \<Rightarrow> size_t \<Rightarrow> AssemblyItem result" where
  "toSubAssemblyTag it subId =
     bind_result (item_data it) (\<lambda>data.
     assertThrow (data < push_bit 64 1) GenericException
     (assertThrow (m_type it = PushTag \<or> m_type it = Tag) GenericException
       (let tag = ucast (data AND 0xffffffffffffffff)
        in setPushTagSubIdAndTag (it\<lparr>m_type := PushTag\<rparr>) subId tag)))"

section \<open>Sizes and stack effect\<close>

text \<open>The result is \<open>unsigned\<close>, 32 bits wide.\<close>

definition item_bytesRequired :: "AssemblyItem \<Rightarrow> 32 word \<Rightarrow> 32 word result" where
  "item_bytesRequired it addressLength =
     (case m_type it of
        Operation \<Rightarrow> Inr 1
      | Tag \<Rightarrow> Inr 1
      | PushString \<Rightarrow> Inr (1 + 32)
      | Push \<Rightarrow> Inr (1 + max 1 (of_nat (bytesRequired (unat (m_data it)))))
      | PushSubSize \<Rightarrow> Inr (1 + 4)
      | PushProgramSize \<Rightarrow> Inr (1 + 4)
      | PushTag \<Rightarrow> Inr (1 + addressLength)
      | PushData \<Rightarrow> Inr (1 + addressLength)
      | PushSub \<Rightarrow> Inr (1 + addressLength)
      | PushLibraryAddress \<Rightarrow> Inr (1 + 20)
      | PushDeployTimeAddress \<Rightarrow> Inr (1 + 20)
      | UndefinedItem \<Rightarrow> Inl InvalidOpcode)"

text \<open>The sum over a list, in \<open>size_t\<close>; the address length is narrowed to \<open>unsigned\<close>.\<close>

definition items_bytesRequired :: "AssemblyItems \<Rightarrow> size_t \<Rightarrow> size_t result" where
  "items_bytesRequired items addressLength =
     foldl (\<lambda>acc it. bind_result acc (\<lambda>size.
       bind_result (item_bytesRequired it (ucast addressLength)) (\<lambda>n. Inr (size + ucast n))))
       (Inr 0) items"

definition item_arguments :: "AssemblyItem \<Rightarrow> int" where
  "item_arguments it =
     (if m_type it = Operation then info_args (instructionInfo (m_instruction it)) else 0)"

definition item_returnValues :: "AssemblyItem \<Rightarrow> int" where
  "item_returnValues it =
     (case m_type it of
        Operation \<Rightarrow> info_ret (instructionInfo (m_instruction it))
      | Push \<Rightarrow> 1
      | PushString \<Rightarrow> 1
      | PushTag \<Rightarrow> 1
      | PushData \<Rightarrow> 1
      | PushSub \<Rightarrow> 1
      | PushSubSize \<Rightarrow> 1
      | PushProgramSize \<Rightarrow> 1
      | PushLibraryAddress \<Rightarrow> 1
      | PushDeployTimeAddress \<Rightarrow> 1
      | Tag \<Rightarrow> 0
      | UndefinedItem \<Rightarrow> 0)"

definition item_deposit :: "AssemblyItem \<Rightarrow> int" where
  "item_deposit it = item_returnValues it - item_arguments it"

definition canBeFunctional :: "AssemblyItem \<Rightarrow> bool" where
  "canBeFunctional it =
     (if m_jumpType it \<noteq> Ordinary then False
      else case m_type it of
        Operation \<Rightarrow> \<not> isDupInstruction (m_instruction it) \<and> \<not> isSwapInstruction (m_instruction it)
      | Push \<Rightarrow> True
      | PushString \<Rightarrow> True
      | PushTag \<Rightarrow> True
      | PushData \<Rightarrow> True
      | PushSub \<Rightarrow> True
      | PushSubSize \<Rightarrow> True
      | PushProgramSize \<Rightarrow> True
      | PushLibraryAddress \<Rightarrow> True
      | PushDeployTimeAddress \<Rightarrow> True
      | Tag \<Rightarrow> False
      | UndefinedItem \<Rightarrow> False)"

section \<open>Text\<close>

definition getJumpTypeAsString :: "AssemblyItem \<Rightarrow> string" where
  "getJumpTypeAsString it =
     (case m_jumpType it of
        IntoFunction \<Rightarrow> ''[in]''
      | OutOfFunction \<Rightarrow> ''[out]''
      | Ordinary \<Rightarrow> '''')"

definition jumpTypeSuffix :: "AssemblyItem \<Rightarrow> string" where
  "jumpTypeSuffix it =
     (case m_jumpType it of
        IntoFunction \<Rightarrow> CHR 0x09 # ''// in''
      | OutOfFunction \<Rightarrow> CHR 0x09 # ''// out''
      | Ordinary \<Rightarrow> [])"

definition toAssemblyText :: "AssemblyItem \<Rightarrow> string result" where
  "toAssemblyText it =
     bind_result
       (case m_type it of
          Operation \<Rightarrow>
            assertThrow (isValidInstruction (m_instruction it)) AssemblyException
              (Inr (map tolower (info_name (instructionInfo (m_instruction it)))))
        | Push \<Rightarrow> Inr (toHex (toCompactBigEndian (unat (m_data it)) 1) Add Lower)
        | PushString \<Rightarrow> Inr (''data_'' @ toHex256 (m_data it) DontAdd)
        | PushTag \<Rightarrow>
            bind_result (splitForeignPushTag it) (\<lambda>(sub, tag).
              if sub = - 1 then Inr (''tag_'' @ showDec (unat tag))
              else Inr (''tag_'' @ showDec (unat sub) @ ''_'' @ showDec (unat tag)))
        | Tag \<Rightarrow>
            assertThrow (m_data it < 0x10000) AssemblyException
              (Inr (''tag_'' @ showDec (unat (ucast (m_data it) :: size_t)) @ '':''))
        | PushData \<Rightarrow> Inr (''data_'' @ toHex256 (m_data it) DontAdd)
        | PushSub \<Rightarrow> Inr (''dataOffset(sub_'' @ showDec (unat (ucast (m_data it) :: size_t)) @ '')'')
        | PushSubSize \<Rightarrow> Inr (''dataSize(sub_'' @ showDec (unat (ucast (m_data it) :: size_t)) @ '')'')
        | PushProgramSize \<Rightarrow> Inr ''bytecodeSize''
        | PushLibraryAddress \<Rightarrow>
            Inr (''linkerSymbol('' @ [CHR 0x22] @ toHex256 (m_data it) DontAdd @ [CHR 0x22] @ '')'')
        | PushDeployTimeAddress \<Rightarrow> Inr ''deployTimeAddress()''
        | UndefinedItem \<Rightarrow> Inl AssemblyException)
       (\<lambda>text. Inr (text @ jumpTypeSuffix it))"

text \<open>\<open>operator<<\<close>, for a stream in its default state, decimal.\<close>

definition printItem :: "AssemblyItem \<Rightarrow> string result" where
  "printItem it =
     (let narrow = (\<lambda>d. showHex (unat (ucast d :: 32 word)));
          size = (\<lambda>d. showHex (unat (ucast d :: size_t)))
      in case m_type it of
        Operation \<Rightarrow>
          Inr ('' '' @ info_name (instructionInfo (m_instruction it)) @
            (if m_instruction it = iJUMP \<or> m_instruction it = iJUMPI
             then CHR 0x09 # getJumpTypeAsString it else []))
      | Push \<Rightarrow> Inr ('' PUSH '' @ showHex (unat (m_data it)))
      | PushString \<Rightarrow> Inr ('' PushString'' @ narrow (m_data it))
      | PushTag \<Rightarrow>
          bind_result (splitForeignPushTag it) (\<lambda>(subId, tag).
            if subId = - 1 then Inr ('' PushTag '' @ showDec (unat tag))
            else Inr ('' PushTag '' @ showDec (unat subId) @ '':'' @ showDec (unat tag)))
      | Tag \<Rightarrow> Inr ('' Tag '' @ showDec (unat (m_data it)))
      | PushData \<Rightarrow> Inr ('' PushData '' @ narrow (m_data it))
      | PushSub \<Rightarrow> Inr ('' PushSub '' @ size (m_data it))
      | PushSubSize \<Rightarrow> Inr ('' PushSubSize '' @ size (m_data it))
      | PushProgramSize \<Rightarrow> Inr '' PushProgramSize''
      | PushLibraryAddress \<Rightarrow>
          (let hash = toHex256 (m_data it) DontAdd
           in Inr ('' PushLibraryAddress '' @ take 8 hash @ ''...'' @ drop (length hash - 8) hash))
      | PushDeployTimeAddress \<Rightarrow> Inr '' PushDeployTimeAddress''
      | UndefinedItem \<Rightarrow> Inr '' ???'')"

section \<open>Lemmas\<close>

lemma mkItemAt_sel [simp]:
  "m_type (mkItemAt ty d l) = ty"
  "ty \<noteq> Operation \<Longrightarrow> m_data (mkItemAt ty d l) = d"
  "m_instruction (mkItemAt Operation d l) = ucast d"
  "m_location (mkItemAt ty d l) = l"
  "m_jumpType (mkItemAt ty d l) = Ordinary"
  by (simp_all add: mkItemAt_def)

lemma opItemAt_sel [simp]:
  "m_type (opItemAt i l) = Operation"
  "m_instruction (opItemAt i l) = i"
  "m_location (opItemAt i l) = l"
  "m_jumpType (opItemAt i l) = Ordinary"
  by (simp_all add: opItemAt_def)

lemma pushItemAt_sel [simp]:
  "m_type (pushItemAt v l) = Push"
  "m_data (pushItemAt v l) = v"
  "m_location (pushItemAt v l) = l"
  "m_jumpType (pushItemAt v l) = Ordinary"
  by (simp_all add: pushItemAt_def)

lemma item_eq_refl [simp]: "item_eq a a"
  by (simp add: item_eq_def)

lemma item_eq_sym: "item_eq a b \<Longrightarrow> item_eq b a"
  by (auto simp: item_eq_def split: if_splits)

lemma item_eq_trans: "item_eq a b \<Longrightarrow> item_eq b c \<Longrightarrow> item_eq a c"
  by (auto simp: item_eq_def split: if_splits)

lemma item_less_trans: "item_less a b \<Longrightarrow> item_less b c \<Longrightarrow> item_less a c"
  by (auto simp: item_less_def split: if_splits)

lemma item_less_total: "item_eq a b \<longleftrightarrow> \<not> item_less a b \<and> \<not> item_less b a"
  by (auto simp: item_less_def item_eq_def)

lemma is_op_item [simp]: "is_op (opItemAt i l) j \<longleftrightarrow> i = j"
  by (simp add: is_op_def)

text \<open>The two halves of a tag's data.\<close>

lemma mask64: "(0xffffffffffffffff :: u256) = mask 64" by (simp add: mask_eq_exp_minus_1)

lemma drop_64_ucast: "drop_bit 64 (ucast (t :: size_t) :: u256) = 0"
  by (rule bit_word_eqI) (auto simp: bit_simps dest: bit_imp_le_length)

lemma ucast_mask_64: "ucast (ucast (t :: size_t) AND mask 64 :: u256) = t"
  by (rule bit_word_eqI) (auto simp: bit_simps dest: bit_imp_le_length)

lemma and_push_64: "push_bit 64 s AND mask 64 = (0 :: u256)"
  by (rule bit_word_eqI) (auto simp: bit_simps)

lemma drop_push_64: "unat s < 2 ^ 192 \<Longrightarrow> drop_bit 64 (push_bit 64 (s :: u256)) = s"
  unfolding word_unat_eq_iff unat_drop_bit unsigned_push_bit_eq
  unfolding push_bit_eq_mult
  by (simp add: take_bit_nat_eq_self)

lemma succ_ucast: "unat (ucast (s :: size_t) + 1 :: u256) = Suc (unat s)"
  using unsigned_less [of s, where 'a=nat]
  by (simp add: unat_word_ariths unsigned_ucast_eq take_bit_nat_eq_self)

lemma size_ucast: "ucast (ucast (s :: size_t) :: u256) = s"
  by (rule bit_word_eqI) (auto simp: bit_simps dest: bit_imp_le_length)

lemma combined_tag:
  fixes sub tag :: size_t
  defines "d \<equiv> ucast tag OR push_bit 64 (ucast sub + 1) :: u256"
  shows "drop_bit 64 d - 1 = ucast sub" "d AND 0xffffffffffffffff = ucast tag"
proof -
  have "unat (ucast sub + 1 :: u256) < 2 ^ 192"
    using unsigned_less [of sub, where 'a=nat] by (simp add: succ_ucast)
  then show "drop_bit 64 d - 1 = ucast sub"
    by (simp add: d_def drop_push_64 drop_64_ucast drop_bit_or)
  show "d AND 0xffffffffffffffff = ucast tag"
    unfolding mask64 d_def by (rule bit_word_eqI) (auto simp: bit_simps dest: bit_imp_le_length)
qed

lemma split_setPushTag:
  "setPushTagSubIdAndTag it sub tag = Inr it' \<Longrightarrow> splitForeignPushTag it' = Inr (sub, tag)"
proof -
  assume a: "setPushTagSubIdAndTag it sub tag = Inr it'"
  then have ty: "m_type it' = PushTag \<or> m_type it' = Tag"
    and d: "m_data it' = (if sub \<noteq> - 1 then ucast tag OR push_bit 64 (ucast sub + 1) else ucast tag)"
    by (auto simp: setPushTagSubIdAndTag_def setData_def Let_def)
  show ?thesis
  proof (cases "sub = - 1")
    case True
    have "(ucast (- 1 :: u256) :: size_t) = - 1"
      by (rule bit_word_eqI) (simp add: bit_simps)
    moreover have "ucast (ucast tag AND 0xffffffffffffffff :: u256) = tag"
      unfolding mask64 by (rule ucast_mask_64)
    ultimately show ?thesis
      using ty True by (simp add: splitForeignPushTag_def d drop_64_ucast Let_def)
  next
    case False
    then have "m_data it' = ucast tag OR push_bit 64 (ucast sub + 1)" using d by simp
    then have "drop_bit 64 (m_data it') - 1 = ucast sub" "m_data it' AND 0xffffffffffffffff = ucast tag"
      by (simp_all only: combined_tag)
    then show ?thesis
      using ty by (simp add: splitForeignPushTag_def Let_def size_ucast)
  qed
qed

section \<open>Properties\<close>

text \<open>
  C29: the sub-assembly and the tag written into a tag item are read back from it, for
  every sub-assembly identifier and every tag.
\<close>

theorem subassembly_tag_roundtrip:
  assumes "m_type it = PushTag \<or> m_type it = Tag"
  shows "bind_result (setPushTagSubIdAndTag it sub tag) splitForeignPushTag = Inr (sub, tag)"
proof -
  from assms obtain it' where "setPushTagSubIdAndTag it sub tag = Inr it'"
    by (auto simp: setPushTagSubIdAndTag_def setData_def Let_def)
  then show ?thesis by (simp add: split_setPushTag)
qed

theorem subassembly_tag_roundtrip_witness:
  "bind_result (setPushTagSubIdAndTag (mkItem PushTag 5) 3 7) splitForeignPushTag = Inr (3, 7)"
  by (rule subassembly_tag_roundtrip) simp

text \<open>
  the order on items is a strict total order for the code's equality of items.
\<close>

theorem item_order:
  "(item_less a b \<and> item_less b c \<longrightarrow> item_less a c) \<and>
   (item_eq a b \<longleftrightarrow> \<not> item_less a b \<and> \<not> item_less b a) \<and>
   (item_eq a b \<and> item_eq b c \<longrightarrow> item_eq a c) \<and> (item_eq a b \<longrightarrow> item_eq b a) \<and> item_eq a a"
  using item_less_trans item_less_total item_eq_trans item_eq_sym item_eq_refl by blast

theorem item_order_witness: "item_less (pushItem 1) (pushItem 3)"
proof -
  have "item_less (pushItem 1) (pushItem 2) \<and> item_less (pushItem 2) (pushItem 3)"
    by (simp add: item_less_def)
  then show ?thesis
    using item_order [of "pushItem 1" "pushItem 2" "pushItem 3"] by blast
qed

end
