(* ===== verification/Semantic_Information.thy ===== *)
theory Semantic_Information
  imports Assembly_Items
begin

text \<open>
  libsvmasm/SemanticInformation.h and SemanticInformation.cpp: what the optimiser
  assumes of an item or an instruction, independent of its context.
\<close>

definition sem_isDupInstruction :: "AssemblyItem \<Rightarrow> bool" where
  "sem_isDupInstruction it = (if m_type it \<noteq> Operation then False else isDupInstruction (m_instruction it))"

definition sem_isSwapInstruction :: "AssemblyItem \<Rightarrow> bool" where
  "sem_isSwapInstruction it = (if m_type it \<noteq> Operation then False else isSwapInstruction (m_instruction it))"

definition breaksCSEAnalysisBlock :: "AssemblyItem \<Rightarrow> bool \<Rightarrow> bool" where
  "breaksCSEAnalysisBlock it msizeImportant =
     (case m_type it of
        UndefinedItem \<Rightarrow> True
      | Tag \<Rightarrow> True
      | PushDeployTimeAddress \<Rightarrow> True
      | Push \<Rightarrow> False
      | PushString \<Rightarrow> False
      | PushTag \<Rightarrow> False
      | PushSub \<Rightarrow> False
      | PushSubSize \<Rightarrow> False
      | PushProgramSize \<Rightarrow> False
      | PushData \<Rightarrow> False
      | PushLibraryAddress \<Rightarrow> False
      | Operation \<Rightarrow>
          (let i = m_instruction it
           in if sem_isSwapInstruction it \<or> sem_isDupInstruction it then False
              else if i = iGAS \<or> i = iPC then True
              else if i = iMSIZE then True
              else (let info = instructionInfo i
                    in if i = iSSTORE then False
                       else if i = iMSTORE then False
                       else if \<not> msizeImportant \<and> (i = iMLOAD \<or> i = iKECCAK256) then False
                       else info_sideEffects info \<or> info_args info > 2)))"

definition isCommutativeInstruction :: "instruction \<Rightarrow> bool" where
  "isCommutativeInstruction i \<longleftrightarrow> i \<in> {iADD, iMUL, iEQ, iAND, iOR, iXOR}"

definition isCommutativeOperation :: "AssemblyItem \<Rightarrow> bool" where
  "isCommutativeOperation it =
     (if m_type it \<noteq> Operation then False else isCommutativeInstruction (m_instruction it))"

definition isJumpInstruction :: "AssemblyItem \<Rightarrow> bool" where
  "isJumpInstruction it \<longleftrightarrow> is_op it iJUMP \<or> is_op it iJUMPI"

definition altersControlFlow :: "AssemblyItem \<Rightarrow> bool" where
  "altersControlFlow it =
     (if m_type it \<noteq> Operation then False
      else m_instruction it \<in> {iJUMP, iJUMPI, iRETURN, iSELFDESTRUCT, iSTOP, iINVALID, iREVERT})"

definition terminatesControlFlowInstr :: "instruction \<Rightarrow> bool" where
  "terminatesControlFlowInstr i \<longleftrightarrow> i \<in> {iRETURN, iSELFDESTRUCT, iSTOP, iINVALID, iREVERT}"

definition terminatesControlFlow :: "AssemblyItem \<Rightarrow> bool" where
  "terminatesControlFlow it =
     (if m_type it \<noteq> Operation then False else terminatesControlFlowInstr (m_instruction it))"

definition isDeterministic :: "AssemblyItem \<Rightarrow> bool" where
  "isDeterministic it =
     (if m_type it \<noteq> Operation then True
      else m_instruction it \<notin>
        {iCALL, iCALLCODE, iDELEGATECALL, iSTATICCALL, iCREATE, iCREATE2, iGAS, iPC, iMSIZE,
         iBALANCE, iEXTCODESIZE, iEXTCODEHASH, iRETURNDATACOPY, iRETURNDATASIZE})"

definition movable :: "instruction \<Rightarrow> bool" where
  "movable i =
     (if isDupInstruction i \<or> isSwapInstruction i then False
      else (let info = instructionInfo i
            in if info_sideEffects info then False
               else i \<notin> {iKECCAK256, iBALANCE, iEXTCODESIZE, iEXTCODEHASH, iRETURNDATASIZE,
                          iSLOAD, iPC, iMSIZE, iGAS}))"

definition sideEffectFree :: "instruction \<Rightarrow> bool result" where
  "sideEffectFree i =
     assertThrow (\<not> isDupInstruction i \<and> \<not> isSwapInstruction i) AssemblyException
       (Inr (\<not> info_sideEffects (instructionInfo i)))"

definition sideEffectFreeIfNoMSize :: "instruction \<Rightarrow> bool result" where
  "sideEffectFreeIfNoMSize i =
     (if i = iKECCAK256 \<or> i = iMLOAD then Inr True else sideEffectFree i)"

definition invalidatesMemory :: "instruction \<Rightarrow> bool" where
  "invalidatesMemory i \<longleftrightarrow>
     i \<in> {iCALLDATACOPY, iCODECOPY, iEXTCODECOPY, iRETURNDATACOPY, iMSTORE, iMSTORE8,
          iCALL, iCALLCODE, iDELEGATECALL, iSTATICCALL}"

definition invalidatesStorage :: "instruction \<Rightarrow> bool" where
  "invalidatesStorage i \<longleftrightarrow> i \<in> {iCALL, iCALLCODE, iDELEGATECALL, iCREATE, iCREATE2, iSSTORE}"

definition invalidInViewFunctions :: "instruction \<Rightarrow> bool" where
  "invalidInViewFunctions i \<longleftrightarrow>
     i \<in> {iSSTORE, iJUMP, iJUMPI, iLOG0, iLOG1, iLOG2, iLOG3, iLOG4, iCREATE, iCALL, iCALLCODE,
          iDELEGATECALL, iCREATE2, iSELFDESTRUCT}"

definition invalidInPureFunctions :: "instruction \<Rightarrow> bool" where
  "invalidInPureFunctions i =
     (if i \<in> {iADDRESS, iBALANCE, iORIGIN, iCALLER, iCALLVALUE, iGAS, iGASPRICE, iEXTCODESIZE,
              iEXTCODECOPY, iEXTCODEHASH, iBLOCKHASH, iCOINBASE, iTIMESTAMP, iNUMBER, iDIFFICULTY,
              iGASLIMIT, iSTATICCALL, iSLOAD}
      then True else invalidInViewFunctions i)"

end
