(* ===== verification/Keccak.thy ===== *)
theory Keccak
  imports Common_Data
begin

text \<open>
  libdevcore/Keccak256.cpp: the permutation Keccak-f[1600], the sponge over it, and the
  Keccak-256 hash; the address checksum of libdevcore/CommonData.cpp that uses it. The
  200 bytes of the state are read as 25 lanes in little-endian order, as on the hosts
  the code is built for.
\<close>

definition keccak_rho :: "nat list" where
  "keccak_rho =
    [1, 3, 6, 10, 15, 21, 28, 36, 45, 55, 2, 14, 27, 41, 56, 8, 25, 43, 62, 18, 39, 61, 20, 44]"

definition keccak_pi :: "nat list" where
  "keccak_pi =
    [10, 7, 11, 17, 18, 3, 5, 16, 8, 21, 24, 4, 15, 23, 19, 13, 12, 2, 20, 14, 22, 9, 6, 1]"

definition keccak_RC :: "u64 list" where
  "keccak_RC =
    [1, 0x8082, 0x800000000000808a, 0x8000000080008000,
     0x808b, 0x80000001, 0x8000000080008081, 0x8000000000008009,
     0x8a, 0x88, 0x80008009, 0x8000000a,
     0x8000808b, 0x800000000000008b, 0x8000000000008089, 0x8000000000008003,
     0x8000000000008002, 0x8000000000000080, 0x800a, 0x800000008000000a,
     0x8000000080008081, 0x8000000000008080, 0x80000001, 0x8000000080008008]"

definition rol64 :: "u64 \<Rightarrow> nat \<Rightarrow> u64" where
  "rol64 x s = push_bit s x OR drop_bit (64 - s) x"

definition keccak_theta :: "u64 list \<Rightarrow> u64 list" where
  "keccak_theta a =
     (let b = map (\<lambda>x. foldl (\<lambda>v y. v XOR a ! (x + y)) 0 [0, 5, 10, 15, 20]) [0..<5]
      in foldl (\<lambda>a x. foldl (\<lambda>a y.
           a[y + x := a ! (y + x) XOR (b ! ((x + 4) mod 5) XOR rol64 (b ! ((x + 1) mod 5)) 1)])
           a [0, 5, 10, 15, 20]) a [0..<5])"

definition keccak_rho_pi :: "u64 list \<Rightarrow> u64 list" where
  "keccak_rho_pi a =
     snd (foldl (\<lambda>(t, a) x. (a ! (keccak_pi ! x), a[keccak_pi ! x := rol64 t (keccak_rho ! x)]))
       (a ! 1, a) [0..<24])"

definition keccak_chi :: "u64 list \<Rightarrow> u64 list" where
  "keccak_chi a =
     foldl (\<lambda>a y.
       let b = map (\<lambda>x. a ! (y + x)) [0..<5]
       in foldl (\<lambda>a x. a[y + x := b ! x XOR (NOT (b ! ((x + 1) mod 5)) AND b ! ((x + 2) mod 5))])
            a [0..<5])
       a [0, 5, 10, 15, 20]"

definition keccakf :: "u64 list \<Rightarrow> u64 list" where
  "keccakf a =
     foldl (\<lambda>a i.
       let a = keccak_chi (keccak_rho_pi (keccak_theta a))
       in a[0 := a ! 0 XOR keccak_RC ! i])
       a [0..<24]"

text \<open>The state as bytes.\<close>

definition lane_of_bytes :: "bytes \<Rightarrow> u64" where
  "lane_of_bytes bs = foldr (\<lambda>b r. push_bit 8 r OR ucast b) bs 0"

definition bytes_of_lane :: "u64 \<Rightarrow> bytes" where
  "bytes_of_lane w = map (\<lambda>k. ucast (drop_bit (8 * k) w)) [0..<8]"

definition keccakf_bytes :: "bytes \<Rightarrow> bytes" where
  "keccakf_bytes a =
     concat (map bytes_of_lane (keccakf (map (\<lambda>i. lane_of_bytes (take 8 (drop (8 * i) a))) [0..<25])))"

definition xorin :: "bytes \<Rightarrow> bytes \<Rightarrow> nat \<Rightarrow> bytes" where
  "xorin dst src n = map2 (XOR) (take n dst) (take n src) @ drop n dst"

text \<open>The two loops \<open>foldP\<close>: absorbing full blocks and squeezing full blocks.\<close>

fun absorb :: "nat \<Rightarrow> bytes \<Rightarrow> bytes \<Rightarrow> bytes \<times> bytes" where
  "absorb rate a inp =
     (if 0 < rate \<and> rate \<le> length inp
      then absorb rate (keccakf_bytes (xorin a inp rate)) (drop rate inp)
      else (a, inp))"

fun squeeze :: "nat \<Rightarrow> bytes \<Rightarrow> nat \<Rightarrow> bytes" where
  "squeeze rate a outlen =
     (if 0 < rate \<and> rate \<le> outlen
      then take rate a @ squeeze rate (keccakf_bytes a) (outlen - rate)
      else take outlen a)"

declare absorb.simps [simp del] squeeze.simps [simp del]

definition keccak_hash :: "nat \<Rightarrow> bytes \<Rightarrow> nat \<Rightarrow> byte \<Rightarrow> bytes" where
  "keccak_hash outlen inp rate delim =
     (let (a, inp) = absorb rate (replicate 200 0) inp;
          inlen = length inp;
          a = a[inlen := a ! inlen XOR delim];
          a = a[rate - 1 := a ! (rate - 1) XOR 0x80];
          a = xorin a inp inlen;
          a = keccakf_bytes a
      in squeeze rate a outlen)"

definition keccak256 :: "bytes \<Rightarrow> bytes" where
  "keccak256 inp = keccak_hash 32 inp (200 - 256 div 4) 1"

section \<open>Address checksums\<close>

definition checksumCase :: "bytes \<Rightarrow> nat \<Rightarrow> char \<Rightarrow> char" where
  "checksumCase hash i c =
     (let nibble = drop_bit (4 * (1 - i mod 2)) (hash ! (i div 2)) AND 0xf
      in if 8 \<le> nibble then toupper c else tolower c)"

definition getChecksummedAddress :: "string \<Rightarrow> string result" where
  "getChecksummedAddress addr =
     (let s = (if take 2 addr = ''0x'' then drop 2 addr else addr)
      in assertThrow (length s = 40) InvalidAddress
         (assertThrow (list_all isHexDigit s) InvalidAddress
           (let hash = keccak256 (asBytes (map tolower s))
            in Inr (''0x'' @ map (\<lambda>i. checksumCase hash i (s ! i)) [0..<40]))))"

definition passesAddressChecksum :: "string \<Rightarrow> bool \<Rightarrow> bool result" where
  "passesAddressChecksum str strict =
     (let s = (if take 2 str = ''0x'' then str else ''0x'' @ str)
      in if length s \<noteq> 42 then Inr False
         else if \<not> strict \<and> (\<not> list_ex (\<lambda>c. c \<in> set ''abcdef'') s \<or>
                              \<not> list_ex (\<lambda>c. c \<in> set ''ABCDEF'') s) then Inr True
         else bind_result (getChecksummedAddress s) (\<lambda>t. Inr (s = t)))"

section \<open>Lengths\<close>

lemma length_foldl_update:
  "(\<And>a x. length (g a x) = length a) \<Longrightarrow> length (foldl g a xs) = length a"
  by (induction xs arbitrary: a) simp_all

lemma length_theta [simp]: "length (keccak_theta a) = length a"
  by (simp add: keccak_theta_def Let_def length_foldl_update)

lemma length_rho_pi [simp]: "length (keccak_rho_pi a) = length a"
proof -
  have "length (snd (foldl (\<lambda>(t, a) x. (a ! (keccak_pi ! x), a[keccak_pi ! x := rol64 t (keccak_rho ! x)])) s xs)) =
      length (snd s)" for s :: "u64 \<times> u64 list" and xs
    by (induction xs arbitrary: s) (auto split: prod.splits)
  then show ?thesis by (simp add: keccak_rho_pi_def)
qed

lemma length_chi [simp]: "length (keccak_chi a) = length a"
  by (simp add: keccak_chi_def Let_def length_foldl_update)

lemma length_keccakf [simp]: "length (keccakf a) = length a"
  by (simp add: keccakf_def Let_def length_foldl_update)

lemma length_keccakf_bytes [simp]: "length (keccakf_bytes a) = 200"
  by (simp add: keccakf_bytes_def length_concat comp_def bytes_of_lane_def sum_list_triv)

lemma length_keccak256 [simp]: "length (keccak256 inp) = 32"
  by (simp add: keccak256_def keccak_hash_def squeeze.simps Let_def split_beta)

section \<open>Properties\<close>

lemma checksumCase_simps [simp]:
  "isHexDigit (checksumCase h i c) = isHexDigit c"
  "tolower (checksumCase h i c) = tolower c"
  "checksumCase h i (checksumCase h i c) = checksumCase h i c"
  by (simp_all add: checksumCase_def Let_def)

lemma getChecksummedAddress_0x:
  "length s = 40 \<Longrightarrow> list_all isHexDigit s \<Longrightarrow>
     getChecksummedAddress (''0x'' @ s) =
       Inr (''0x'' @ map (\<lambda>i. checksumCase (keccak256 (asBytes (map tolower s))) i (s ! i)) [0..<40])"
  by (simp add: getChecksummedAddress_def)

lemma checksummed_fixpoint:
  assumes "getChecksummedAddress addr = Inr t"
  shows "getChecksummedAddress t = Inr t \<and> length t = 42 \<and> take 2 t = ''0x''"
proof -
  define s where "s = (if take 2 addr = ''0x'' then drop 2 addr else addr)"
  define h where "h = keccak256 (asBytes (map tolower s))"
  define r where "r = map (\<lambda>i. checksumCase h i (s ! i)) [0..<40]"
  have len: "length s = 40" and hex: "list_all isHexDigit s" and t: "t = ''0x'' @ r"
    using assms by (auto simp: getChecksummedAddress_def s_def h_def r_def Let_def)
  have "length r = 40" "list_all isHexDigit r"
    using len hex by (simp_all add: r_def list_all_length)
  moreover have "map tolower r = map tolower s"
    using len by (intro nth_equalityI) (simp_all add: r_def)
  moreover have "map (\<lambda>i. checksumCase h i (r ! i)) [0..<40] = r"
    by (intro nth_equalityI) (simp_all add: r_def)
  ultimately show ?thesis
    using getChecksummedAddress_0x [of r] by (simp add: t h_def)
qed

text \<open>a checksummed address passes the checksum test, and checksumming it again changes nothing.\<close>

theorem checksum_passes:
  "getChecksummedAddress addr = Inr t \<Longrightarrow>
     passesAddressChecksum t strict = Inr True \<and> getChecksummedAddress t = Inr t"
  using checksummed_fixpoint [of addr t] by (simp add: passesAddressChecksum_def)

theorem checksum_passes_witness:
  "passesAddressChecksum (projr (getChecksummedAddress (replicate 40 CHR ''0''))) True = Inr True"
proof -
  have "\<exists>t. getChecksummedAddress (replicate 40 CHR ''0'') = Inr t"
    by (simp add: getChecksummedAddress_def isHexDigit_def numeral_2_eq_2 take_Cons' list_all_iff Let_def)
  then show ?thesis using checksum_passes [of "replicate 40 CHR ''0''" _ True] by auto
qed

end
