(* ===== verification/Svm_Interpreter.thy ===== *)
theory Svm_Interpreter
  imports Semantic_Information Keccak "HOL-Library.Signed_Division"
begin

text \<open>
  test/tools/yulInterpreter/SVMInstructionInterpreter.cpp (with the state of
  Interpreter.h): the repository's own semantics of the instructions, against which the
  optimiser's components are proved correct.

  \<open>s256\<close> division and remainder truncate towards zero, as \<open>sdiv\<close> and \<open>smod\<close> do.
  The intermediate \<open>u512\<close> values of the modular operations do not overflow, so they are
  natural numbers. A 256-bit value is narrowed to \<open>size_t\<close> by its low 64 bits.
\<close>

section \<open>Arithmetic\<close>

definition svm_sar :: "u256 \<Rightarrow> u256 \<Rightarrow> u256" where
  "svm_sar a b =
     (let hibit = push_bit 255 1
      in if 256 \<le> a then (if b AND hibit \<noteq> 0 then - 1 else 0)
         else (let amount = unat a;
                   v = drop_bit amount b
               in if b AND hibit \<noteq> 0 then v OR push_bit (256 - amount) (- 1) else v))"

definition svm_signextend :: "u256 \<Rightarrow> u256 \<Rightarrow> u256" where
  "svm_signextend a b =
     (if 31 \<le> a then b
      else (let testBit = unat a * 8 + 7;
                mask = push_bit testBit 1 - 1
            in if bit b testBit then b OR NOT mask else b AND mask))"

definition svm_byte :: "u256 \<Rightarrow> u256 \<Rightarrow> u256" where
  "svm_byte a b = (if 32 \<le> a then 0 else drop_bit (8 * (31 - unat a)) b AND 0xff)"

definition svm_addmod :: "u256 \<Rightarrow> u256 \<Rightarrow> u256 \<Rightarrow> u256" where
  "svm_addmod a b c = (if c = 0 then 0 else of_nat ((unat a + unat b) mod unat c))"

definition svm_mulmod :: "u256 \<Rightarrow> u256 \<Rightarrow> u256 \<Rightarrow> u256" where
  "svm_mulmod a b c = (if c = 0 then 0 else of_nat ((unat a * unat b) mod unat c))"

definition evalArith :: "instruction \<Rightarrow> u256 list \<Rightarrow> u256 option" where
  "evalArith i arg =
     (if i = iADD then Some (arg ! 0 + arg ! 1)
      else if i = iMUL then Some (arg ! 0 * arg ! 1)
      else if i = iSUB then Some (arg ! 0 - arg ! 1)
      else if i = iDIV then Some (if arg ! 1 = 0 then 0 else arg ! 0 div arg ! 1)
      else if i = iSDIV then Some (if arg ! 1 = 0 then 0 else s2u (u2s (arg ! 0) sdiv u2s (arg ! 1)))
      else if i = iMOD then Some (if arg ! 1 = 0 then 0 else arg ! 0 mod arg ! 1)
      else if i = iSMOD then Some (if arg ! 1 = 0 then 0 else s2u (u2s (arg ! 0) smod u2s (arg ! 1)))
      else if i = iEXP then Some (exp256 (arg ! 0) (arg ! 1))
      else if i = iNOT then Some (NOT (arg ! 0))
      else if i = iLT then Some (if arg ! 0 < arg ! 1 then 1 else 0)
      else if i = iGT then Some (if arg ! 0 > arg ! 1 then 1 else 0)
      else if i = iSLT then Some (if u2s (arg ! 0) < u2s (arg ! 1) then 1 else 0)
      else if i = iSGT then Some (if u2s (arg ! 0) > u2s (arg ! 1) then 1 else 0)
      else if i = iEQ then Some (if arg ! 0 = arg ! 1 then 1 else 0)
      else if i = iISZERO then Some (if arg ! 0 = 0 then 1 else 0)
      else if i = iAND then Some (arg ! 0 AND arg ! 1)
      else if i = iOR then Some (arg ! 0 OR arg ! 1)
      else if i = iXOR then Some (arg ! 0 XOR arg ! 1)
      else if i = iBYTE then Some (svm_byte (arg ! 0) (arg ! 1))
      else if i = iSHL then Some (if 255 < arg ! 0 then 0 else push_bit (unat (arg ! 0)) (arg ! 1))
      else if i = iSHR then Some (if 255 < arg ! 0 then 0 else drop_bit (unat (arg ! 0)) (arg ! 1))
      else if i = iSAR then Some (svm_sar (arg ! 0) (arg ! 1))
      else if i = iADDMOD then Some (svm_addmod (arg ! 0) (arg ! 1) (arg ! 2))
      else if i = iMULMOD then Some (svm_mulmod (arg ! 0) (arg ! 1) (arg ! 2))
      else if i = iSIGNEXTEND then Some (svm_signextend (arg ! 0) (arg ! 1))
      else None)"

section \<open>The state\<close>

text \<open>
  The storage maps the slots that were never written to zero: every access of the code
  reads an absent entry as zero, and the dump leaves zero entries out.
\<close>

record InterpreterState =
  st_calldata :: bytes
  st_returndata :: bytes
  st_memory :: bytes
  st_msize :: u256
  st_storage :: "u256 \<Rightarrow> u256"
  st_address :: u160
  st_balance :: u256
  st_origin :: u160
  st_caller :: u160
  st_callvalue :: u256
  st_code :: bytes
  st_gasprice :: u256
  st_coinbase :: u160
  st_timestamp :: u256
  st_blockNumber :: u256
  st_difficulty :: u256
  st_gaslimit :: u256
  st_trace :: "string list"
  st_maxTraceSize :: size_t
  st_maxMemSize :: size_t

definition initialState :: InterpreterState where
  "initialState =
     \<lparr>st_calldata = [], st_returndata = [], st_memory = [], st_msize = 0, st_storage = (\<lambda>_. 0),
      st_address = 0x11111111, st_balance = 0x22222222, st_origin = 0x33333333,
      st_caller = 0x44444444, st_callvalue = 0x55555555, st_code = asBytes ''codecodecodecodecode'',
      st_gasprice = 0x66666666, st_coinbase = 0x77777777, st_timestamp = 0x88888888,
      st_blockNumber = 1024, st_difficulty = 0x9999999, st_gaslimit = 4000000, st_trace = [],
      st_maxTraceSize = 0, st_maxMemSize = 0x200\<rparr>"

text \<open>The exceptions that end an evaluation, each with the state it leaves.\<close>

datatype svm_exception = ExplicitlyTerminated | TraceLimitReached | YulAssertion

type_synonym svm_result = "(svm_exception + u256) \<times> InterpreterState"

definition readZeroExtended :: "bytes \<Rightarrow> u256 \<Rightarrow> u256" where
  "readZeroExtended data offset =
     (if of_nat (length data) \<le> offset then 0
      else if offset + 32 \<le> of_nat (length data) then fromBigEndian (take 32 (drop (unat offset) data))
      else (let off = unat offset
            in foldl (\<lambda>val i. let val = push_bit 8 val
                              in if off + i < length data then val + ucast (data ! (off + i)) else val)
                 0 [0..<32]))"

text \<open>The copying loop; the assertion fails when the target is too small.\<close>

definition copyZeroExtended :: "bytes \<Rightarrow> bytes \<Rightarrow> nat \<Rightarrow> size_t \<Rightarrow> nat \<Rightarrow> bytes option" where
  "copyZeroExtended target source targetOffset sourceOffset sz =
     (if targetOffset + sz \<le> length target then
        Some (foldl (\<lambda>t i. t[targetOffset + i :=
            (let k = sourceOffset + of_nat i
             in if unat k < length source then source ! unat k else 0)])
          target [0..<sz])
      else None)"

definition accessMemory :: "u256 \<Rightarrow> u256 \<Rightarrow> InterpreterState \<Rightarrow> bool \<times> InterpreterState" where
  "accessMemory offset sz st =
     (if offset \<le> offset + sz \<and> offset + sz \<le> offset + sz + 0x1f then
        (let newSize = (offset + sz + 0x1f) AND NOT 0x1f;
             st = st\<lparr>st_msize := max (st_msize st) newSize\<rparr>
         in if newSize < ucast (st_maxMemSize st) then
              (True,
               if of_nat (length (st_memory st)) < newSize
               then st\<lparr>st_memory :=
                      st_memory st @ replicate (unat newSize - length (st_memory st)) 0\<rparr>
               else st)
            else (False, st))
      else (False, st\<lparr>st_msize := - 1\<rparr>))"

fun joinArgs :: "string list \<Rightarrow> string" where
  "joinArgs [] = []"
| "joinArgs [a] = a"
| "joinArgs (a # as) = a @ '', '' @ joinArgs as"

text \<open>Appends the trace entry; \<open>False\<close> when the limit of the trace is reached.\<close>

definition logTrace ::
    "string \<Rightarrow> u256 list \<Rightarrow> bytes \<Rightarrow> InterpreterState \<Rightarrow> bool \<times> InterpreterState" where
  "logTrace instr args data st =
     (let message = instr @ ''('' @ joinArgs (map (\<lambda>a. formatNumber (int (unat a))) args) @ '')'' @
            (if data \<noteq> [] then '' ['' @ toHex data DontAdd Lower @ '']'' else []);
          trace = st_trace st @ [message]
      in if 0 < st_maxTraceSize st \<and> unat (st_maxTraceSize st) \<le> length trace
         then (False, st\<lparr>st_trace := trace @ [''Trace size limit reached.'']\<rparr>)
         else (True, st\<lparr>st_trace := trace\<rparr>))"

definition logInstr :: "instruction \<Rightarrow> u256 list \<Rightarrow> bytes \<Rightarrow> InterpreterState \<Rightarrow> bool \<times> InterpreterState" where
  "logInstr i args data st = logTrace (info_name (instructionInfo i)) args data st"

text \<open>Logging, then returning a value or ending the execution.\<close>

definition logThen ::
    "instruction \<Rightarrow> u256 list \<Rightarrow> bytes \<Rightarrow> InterpreterState \<Rightarrow> (svm_exception + u256) \<Rightarrow> svm_result" where
  "logThen i args data st r =
     (let (ok, st) = logInstr i args data st in (if ok then r else Inl TraceLimitReached, st))"

text \<open>The four copying instructions.\<close>

definition copyToMemory ::
    "u256 \<Rightarrow> u256 \<Rightarrow> u256 \<Rightarrow> bytes \<Rightarrow> InterpreterState \<Rightarrow> svm_result" where
  "copyToMemory target srcOffset sz source st =
     (let (ok, st) = accessMemory target sz st
      in if ok then
           (case copyZeroExtended (st_memory st) source (unat target) (ucast srcOffset) (unat sz) of
              Some mem \<Rightarrow> (Inr 0, st\<lparr>st_memory := mem\<rparr>)
            | None \<Rightarrow> (Inl YulAssertion, st))
         else (Inr 0, st))"


section \<open>The environment, memory, storage and calls\<close>

definition evalBlockchain :: "instruction \<Rightarrow> u256 list \<Rightarrow> InterpreterState \<Rightarrow> svm_result option" where
  "evalBlockchain i arg st =
     (if i = iKECCAK256 then
        Some (let (ok, st) = accessMemory (arg ! 0) (arg ! 1) st
              in if ok then
                   (Inr (fromBigEndian (keccak256
                      (take (unat (arg ! 1)) (drop (unat (arg ! 0)) (st_memory st))))), st)
                 else (Inr (0x1234cafe1234cafe1234cafe + arg ! 0), st))
      else if i = iADDRESS then Some (Inr (ucast (st_address st)), st)
      else if i = iBALANCE then Some (Inr (st_balance st), st)
      else if i = iORIGIN then Some (Inr (ucast (st_origin st)), st)
      else if i = iCALLER then Some (Inr (ucast (st_caller st)), st)
      else if i = iCALLVALUE then Some (Inr (st_callvalue st), st)
      else if i = iCALLDATALOAD then Some (Inr (readZeroExtended (st_calldata st) (arg ! 0)), st)
      else if i = iCALLDATASIZE then Some (Inr (of_nat (length (st_calldata st))), st)
      else if i = iCALLDATACOPY then
        Some (copyToMemory (arg ! 0) (arg ! 1) (arg ! 2) (st_calldata st) st)
      else if i = iCODESIZE then Some (Inr (of_nat (length (st_code st))), st)
      else if i = iCODECOPY then
        Some (copyToMemory (arg ! 0) (arg ! 1) (arg ! 2) (st_code st) st)
      else if i = iGASPRICE then Some (Inr (st_gasprice st), st)
      else if i = iEXTCODESIZE then
        Some (Inr (fromBigEndian (keccak256 (toBigEndian (arg ! 0))) AND 0xffffff), st)
      else if i = iEXTCODEHASH then
        Some (Inr (fromBigEndian (keccak256 (toBigEndian (arg ! 0 + 1)))), st)
      else if i = iEXTCODECOPY then
        Some (let (ok, st) = logInstr i arg [] st
              in if ok then copyToMemory (arg ! 1) (arg ! 2) (arg ! 3) (st_code st) st
                 else (Inl TraceLimitReached, st))
      else if i = iRETURNDATASIZE then Some (Inr (of_nat (length (st_returndata st))), st)
      else if i = iRETURNDATACOPY then
        Some (let (ok, st) = logInstr i arg [] st
              in if ok then copyToMemory (arg ! 0) (arg ! 1) (arg ! 2) (st_returndata st) st
                 else (Inl TraceLimitReached, st))
      else if i = iBLOCKHASH then
        Some (Inr (if st_blockNumber st \<le> arg ! 0 \<or> arg ! 0 + 256 < st_blockNumber st then 0
                   else 0xaaaaaaaa + (arg ! 0 - st_blockNumber st - 256)), st)
      else if i = iCOINBASE then Some (Inr (ucast (st_coinbase st)), st)
      else if i = iTIMESTAMP then Some (Inr (st_timestamp st), st)
      else if i = iNUMBER then Some (Inr (st_blockNumber st), st)
      else if i = iDIFFICULTY then Some (Inr (st_difficulty st), st)
      else if i = iGASLIMIT then Some (Inr (st_gaslimit st), st)
      else None)"

definition evalMemory :: "instruction \<Rightarrow> u256 list \<Rightarrow> InterpreterState \<Rightarrow> svm_result option" where
  "evalMemory i arg st =
     (if i = iMLOAD then
        Some (let (ok, st) = accessMemory (arg ! 0) 0x20 st
              in (Inr (if ok then fromBigEndian (take 32 (drop (unat (arg ! 0)) (st_memory st)))
                       else 0x1234 + arg ! 0), st))
      else if i = iMSTORE then
        Some (let (ok, st) = accessMemory (arg ! 0) 0x20 st;
                  off = unat (arg ! 0)
              in (Inr 0,
                  if ok then st\<lparr>st_memory := take off (st_memory st) @ toBigEndian (arg ! 1) @
                                   drop (off + 32) (st_memory st)\<rparr>
                  else st))
      else if i = iMSTORE8 then
        Some (let (ok, st) = accessMemory (arg ! 0) 1 st
              in (Inr 0,
                  if ok then st\<lparr>st_memory := (st_memory st)[unat (arg ! 0) := ucast (arg ! 1 AND 0xff)]\<rparr>
                  else st))
      else if i = iSLOAD then Some (Inr (st_storage st (arg ! 0)), st)
      else if i = iSSTORE then
        Some (Inr 0, st\<lparr>st_storage := (st_storage st)(arg ! 0 := arg ! 1)\<rparr>)
      else if i = iPC then Some (Inr 0x77, st)
      else if i = iMSIZE then Some (Inr (st_msize st), st)
      else if i = iGAS then Some (Inr 0x99, st)
      else if isLogInstruction i then
        Some (let (_, st) = accessMemory (arg ! 0) (arg ! 1) st in logThen i arg [] st (Inr 0))
      else None)"

definition evalCalls :: "instruction \<Rightarrow> u256 list \<Rightarrow> InterpreterState \<Rightarrow> svm_result option" where
  "evalCalls i arg st =
     (if i = iCREATE then
        Some (let (_, st) = accessMemory (arg ! 1) (arg ! 2) st
              in logThen i arg [] st (Inr (0xcccccc + arg ! 1)))
      else if i = iCREATE2 then
        Some (let (_, st) = accessMemory (arg ! 2) (arg ! 3) st
              in logThen i arg [] st (Inr (0xdddddd + arg ! 1)))
      else if i = iCALL \<or> i = iCALLCODE then
        Some (let (_, st) = accessMemory (arg ! 3) (arg ! 4) st;
                  (_, st) = accessMemory (arg ! 5) (arg ! 6) st
              in logThen i arg [] st (Inr (arg ! 0 AND 1)))
      else if i = iDELEGATECALL \<or> i = iSTATICCALL then
        Some (let (_, st) = accessMemory (arg ! 2) (arg ! 3) st;
                  (_, st) = accessMemory (arg ! 4) (arg ! 5) st
              in logThen i arg [] st (Inr 0))
      else if i = iRETURN then
        Some (let (ok, st) = accessMemory (arg ! 0) (arg ! 1) st;
                  data = (if ok then take (unat (arg ! 1)) (drop (unat (arg ! 0)) (st_memory st)) else [])
              in logThen i arg data st (Inl ExplicitlyTerminated))
      else if i = iREVERT then
        Some (let (_, st) = accessMemory (arg ! 0) (arg ! 1) st
              in logThen i arg [] st (Inl ExplicitlyTerminated))
      else if i = iINVALID then Some (logThen i [] [] st (Inl ExplicitlyTerminated))
      else if i = iSELFDESTRUCT then Some (logThen i arg [] st (Inl ExplicitlyTerminated))
      else if i = iPOP then Some (Inr 0, st)
      else None)"

text \<open>
  The whole switch: the sections of the code one after the other; the rest are the
  instructions that are invalid in strict assembly, for which the code asserts, and the
  bytes that are no enumerator, for which it returns zero.
\<close>

definition invalidInStrictAssembly :: "instruction \<Rightarrow> bool" where
  "invalidInStrictAssembly i \<longleftrightarrow>
     i = iJUMP \<or> i = iJUMPI \<or> i = iJUMPDEST \<or> isPushInstruction i \<or> isDupInstruction i \<or>
     isSwapInstruction i \<or> (iJUMPTO \<le> i \<and> i \<le> iGETLOCAL)"

definition svm_eval :: "instruction \<Rightarrow> u256 list \<Rightarrow> InterpreterState \<Rightarrow> svm_result" where
  "svm_eval i arg st =
     (if info_args (instructionInfo i) \<noteq> int (length arg) then (Inl YulAssertion, st)
      else if i = iSTOP then (Inl ExplicitlyTerminated, st)
      else case evalArith i arg of Some v \<Rightarrow> (Inr v, st)
      | None \<Rightarrow> (case evalBlockchain i arg st of Some r \<Rightarrow> r
      | None \<Rightarrow> (case evalMemory i arg st of Some r \<Rightarrow> r
      | None \<Rightarrow> (case evalCalls i arg st of Some r \<Rightarrow> r
      | None \<Rightarrow> if invalidInStrictAssembly i then (Inl YulAssertion, st) else (Inr 0, st)))))"

end
