(* ===== verification/Svm_Semantics.thy ===== *)
theory Svm_Semantics
  imports Svm_Interpreter
begin

text \<open>
  What the instruction semantics does to a state, and that the classification of
  instructions the optimiser relies on (SemanticInformation) is sound for it.
\<close>


lemma evalBlockchain_pure:
  assumes "evalBlockchain i arg st = Some r"
    and "i \<notin> {iKECCAK256, iCALLDATACOPY, iCODECOPY, iEXTCODECOPY, iRETURNDATACOPY}"
  shows "\<exists>v. r = (Inr v, st)"
  using assms by (auto simp: evalBlockchain_def split: if_splits)

lemma evalMemory_pure:
  assumes "evalMemory i arg st = Some r"
    and "i \<notin> {iMLOAD, iMSTORE, iMSTORE8, iSSTORE}" "\<not> isLogInstruction i"
  shows "\<exists>v. r = (Inr v, st)"
  using assms by (auto simp: evalMemory_def split: if_splits)

lemma evalCalls_pure:
  assumes "evalCalls i arg st = Some r"
    and "i \<notin> {iCREATE, iCREATE2, iCALL, iCALLCODE, iDELEGATECALL, iSTATICCALL, iRETURN, iREVERT,
      iINVALID, iSELFDESTRUCT}"
  shows "\<exists>v. r = (Inr v, st)"
  using assms by (auto simp: evalCalls_def split: if_splits)

lemma log_sideEffects: "isLogInstruction i \<Longrightarrow> info_sideEffects (instructionInfo i)"
  unfolding isLogInstruction_def
  by (rule byte_range_all [of _ iLOG0 iLOG4])
    (simp_all add: upt_rec instructionInfo_rules InstructionInfo.defs)

definition sideEffectInstructions :: "instruction set" where
  "sideEffectInstructions = {iSTOP, iKECCAK256, iCALLDATACOPY, iCODECOPY, iEXTCODECOPY, iRETURNDATACOPY,
   iMLOAD, iMSTORE, iMSTORE8, iSSTORE, iCREATE, iCREATE2, iCALL, iCALLCODE, iDELEGATECALL, iSTATICCALL, iRETURN, iREVERT,
      iINVALID, iSELFDESTRUCT, iJUMP, iJUMPI, iJUMPDEST}"

lemma sideEffectInstructions:
  "\<not> info_sideEffects (instructionInfo i) \<Longrightarrow> i \<notin> sideEffectInstructions \<and> \<not> isLogInstruction i"
  unfolding sideEffectInstructions_def
  by (auto simp: log_sideEffects) (simp_all add: instructionInfo_rules InstructionInfo.defs)

lemma svm_eval_pure:
  assumes "\<not> info_sideEffects (instructionInfo i)" "\<not> invalidInStrictAssembly i"
    and "info_args (instructionInfo i) = int (length arg)"
  shows "\<exists>v. svm_eval i arg st = (Inr v, st)"
  using sideEffectInstructions [OF assms(1)] assms(2,3) evalBlockchain_pure [of i arg st]
    evalMemory_pure [of i arg st] evalCalls_pure [of i arg st]
  by (simp add: svm_eval_def sideEffectInstructions_def split: option.splits)
 
lemma svm_eval_movable:
  assumes "movable i"
  shows "fst (svm_eval i arg (st\<lparr>st_memory := m, st_msize := z, st_storage := s, st_returndata := r,
      st_balance := b, st_trace := t\<rparr>)) = fst (svm_eval i arg st)"
proof -
  have "i \<notin> {iKECCAK256, iBALANCE, iEXTCODESIZE, iEXTCODEHASH, iRETURNDATASIZE, iSLOAD, iPC, iMSIZE, iGAS}"
    and "i \<notin> sideEffectInstructions" "\<not> isLogInstruction i"
    using assms sideEffectInstructions [of i]
    by (simp_all add: movable_def Let_def split: if_splits)
  then show ?thesis
   by (simp add: svm_eval_def evalBlockchain_def evalMemory_def evalCalls_def sideEffectInstructions_def
     split: option.splits)
qed

lemma and_not_mask_eq: "x AND NOT (mask n) = push_bit n (drop_bit n (x :: u256))"
  by (rule bit_word_eqI) (auto simp: bit_simps)

lemma round_down_32: "unat ((x :: u256) AND NOT 0x1f) = unat x div 32 * 32"
proof -
  have "unat x div 32 * 32 < 2 ^ 256"
    by (rule le_less_trans [OF div_times_less_eq_dividend]) (use unsigned_less [of x, where 'a=nat] in simp)
  moreover have "x AND NOT 0x1f = push_bit 5 (drop_bit 5 x)"
    using and_not_mask_eq [of x 5] by (simp add: mask_eq_exp_minus_1)
  moreover have "unat (push_bit 5 (drop_bit 5 x)) = take_bit 256 (unat x div 32 * 32)"
    unfolding unsigned_push_bit_eq unat_drop_bit
    unfolding push_bit_eq_mult by simp
  ultimately show ?thesis by (simp add: take_bit_nat_eq_self)
qed

definition mem_ok :: "InterpreterState \<Rightarrow> bool" where
  "mem_ok st \<longleftrightarrow> length (st_memory st) mod 32 = 0 \<and> (st_memory st = [] \<or> length (st_memory st) < unat (st_maxMemSize st))"

lemma no_wrap: "(x :: u256) \<le> x + y \<Longrightarrow> unat (x + y) = unat x + unat y"
  by (rule unat_plus_simple [THEN iffD1])

lemma accessMemory_cases:
  assumes "accessMemory off sz st = (ok, st')"
  obtains (fail) z where "st' = st\<lparr>st_msize := z\<rparr>" "\<not> ok"
    | (ok) n where "n = (off + sz + 0x1f) AND NOT 0x1f" "off \<le> off + sz" "off + sz \<le> off + sz + 0x1f"
      "n < ucast (st_maxMemSize st)" "ok"
      "st' = st\<lparr>st_msize := max (st_msize st) n, st_memory := st_memory st @
         replicate (if of_nat (length (st_memory st)) < n then unat n - length (st_memory st) else 0) 0\<rparr>"
proof -
  define n where "n = (off + sz + 0x1f) AND NOT 0x1f"
  show thesis
  proof (cases "(off \<le> off + sz \<and> off + sz \<le> off + sz + 0x1f) \<and> n < ucast (st_maxMemSize st)")
    case True
    then show thesis
      using assms unfolding accessMemory_def Let_def n_def [symmetric]
      by (intro ok [OF n_def]) (simp_all split: if_splits)
  next
    case False
    then have "st' = st\<lparr>st_msize := max (st_msize st) n\<rparr> \<or> st' = st\<lparr>st_msize := - 1\<rparr>" "\<not> ok"
      using assms unfolding accessMemory_def Let_def n_def [symmetric]
      by (simp_all split: if_splits)
    then show thesis using fail by blast
  qed
qed

lemma le_round_32: "x \<le> (x + 31) div 32 * (32::nat)"
  by linarith

lemma access_bounds:
  assumes "n = (off + sz + 0x1f) AND NOT 0x1f" "off \<le> off + sz" "off + sz \<le> off + sz + (0x1f :: u256)"
  shows "unat off + unat sz \<le> unat n" "unat n mod 32 = 0"
proof -
  have "unat (off + sz) = unat off + unat sz" using assms(2) by (rule no_wrap)
  moreover have "unat (off + sz + 0x1f) = unat (off + sz) + 31" unfolding no_wrap [OF assms(3)] by simp
  ultimately have n: "unat n = (unat off + unat sz + 31) div 32 * 32"
    unfolding assms(1) round_down_32 by simp
  show "unat off + unat sz \<le> unat n" unfolding n by (rule le_round_32)
  show "unat n mod 32 = 0" unfolding n by simp
qed

lemma unat_ucast_size: "unat (ucast (x :: size_t) :: u256) = unat x"
  using unsigned_less [of x, where 'a=nat] by (simp add: unsigned_ucast_eq take_bit_nat_eq_self)

lemma accessMemory_spec:
  assumes "accessMemory off sz st = (ok, st')" and "mem_ok st"
  obtains k z where "st' = st\<lparr>st_msize := z, st_memory := st_memory st @ replicate k 0\<rparr>" "mem_ok st'"
    "ok \<Longrightarrow> unat off + unat sz \<le> length (st_memory st')"
  using assms(1)
proof (cases rule: accessMemory_cases)
  case (fail z)
  then show ?thesis using assms(2) by (intro that [of 0 z]) (auto simp: mem_ok_def)
next
  case (ok n)
  let ?len = "length (st_memory st)"
  let ?k = "if ?len < unat n then unat n - ?len else 0"
  have m: "unat n < unat (st_maxMemSize st)"
    using ok(4) unfolding word_less_nat_alt unat_ucast_size .
  have "?len < 2 ^ 256"
    using assms(2) unsigned_less [of "st_maxMemSize st", where 'a=nat] by (auto simp: mem_ok_def)
  then have "of_nat ?len < n \<longleftrightarrow> ?len < unat n"
    unfolding word_less_nat_alt by (simp add: unat_of_nat)
  with ok(6) have st': "st' = st\<lparr>st_msize := max (st_msize st) n, st_memory := st_memory st @ replicate ?k 0\<rparr>"
    by simp
  have len: "length (st_memory st') = max ?len (unat n)"
    unfolding st' by simp
  have "mem_ok st'"
    using assms(2) m access_bounds(2) [OF ok(1-3)] len unfolding mem_ok_def st'
    by (auto simp: max_def)
  moreover have "unat off + unat sz \<le> length (st_memory st')"
    unfolding len using access_bounds(1) [OF ok(1-3)] by simp
  ultimately show ?thesis using that [OF st'] by blast
qed


text \<open>What an instruction may do to a state: the memory keeps its shape, only the parts named change.\<close>

definition frame :: "bool \<Rightarrow> bool \<Rightarrow> InterpreterState \<Rightarrow> svm_result \<Rightarrow> bool" where
  "frame mem sto st r \<longleftrightarrow>
     mem_ok (snd r) \<and> fst r \<noteq> Inl YulAssertion \<and>
     (mem \<or> (\<exists>k. st_memory (snd r) = st_memory st @ replicate k 0)) \<and>
     (sto \<or> st_storage (snd r) = st_storage st)"

lemma accessMemory_split:
  assumes "mem_ok st"
    and "\<And>ok st' k z. st' = st\<lparr>st_msize := z, st_memory := st_memory st @ replicate k 0\<rparr> \<Longrightarrow> mem_ok st' \<Longrightarrow>
      (ok \<Longrightarrow> unat off + unat sz \<le> length (st_memory st')) \<Longrightarrow> P (ok, st')"
  shows "P (accessMemory off sz st)"
proof -
  obtain ok st' where a: "accessMemory off sz st = (ok, st')" by (cases "accessMemory off sz st")
  show ?thesis
    using accessMemory_spec [OF a assms(1)] assms(2) unfolding a by metis
qed

lemma frame_pure: "mem_ok st \<Longrightarrow> frame m s st (Inr v, st)"
  unfolding frame_def by (auto intro: exI [of _ 0])

lemma mem_ok_length: "mem_ok st \<Longrightarrow> length (st_memory st') = length (st_memory st) \<Longrightarrow>
    st_maxMemSize st' = st_maxMemSize st \<Longrightarrow> mem_ok st'"
  by (auto simp: mem_ok_def simp flip: length_0_conv)

lemma length_copyZeroExtended:
  "copyZeroExtended target source t s sz = Some mem \<Longrightarrow> length mem = length target"
  by (auto simp: copyZeroExtended_def length_foldl_update split: if_splits)

lemma frame_copyToMemory:
  assumes "mem_ok st"
  shows "frame True sto st (copyToMemory target srcOffset sz source st)"
  unfolding copyToMemory_def
proof (rule accessMemory_split [OF assms], goal_cases)
  case (1 ok st' k z)
  show ?case
  proof (cases ok)
    case True
    with 1 obtain mem where "copyZeroExtended (st_memory st') source (unat target) (ucast srcOffset) (unat sz) = Some mem"
      by (simp add: copyZeroExtended_def)
    with 1 True show ?thesis
      by (auto simp: frame_def dest: length_copyZeroExtended elim!: mem_ok_length)
  next
    case False
    with 1 show ?thesis by (simp add: frame_def)
  qed
qed

lemma logInstr_cases:
  "\<exists>ok t. logInstr i args data st = (ok, st\<lparr>st_trace := t\<rparr>)"
  unfolding logInstr_def logTrace_def Let_def by (simp only: split: if_split) blast

lemma mem_ok_trace [simp]: "mem_ok (st\<lparr>st_trace := t\<rparr>) = mem_ok st"
  by (simp add: mem_ok_def)

lemma frame_trace [simp]:
  "frame m s (st\<lparr>st_trace := t\<rparr>) r = frame m s st r"
  "frame m s st (x, st'\<lparr>st_trace := t\<rparr>) = frame m s st (x, st')"
  by (simp_all add: frame_def)

lemma frame_logThen:
  assumes "frame m s st (x, st')" and "x \<noteq> Inl YulAssertion"
  shows "frame m s st (logThen i args data st' x)"
proof -
  obtain ok t where "logInstr i args data st' = (ok, st'\<lparr>st_trace := t\<rparr>)" using logInstr_cases by blast
  with assms show ?thesis by (simp add: logThen_def frame_def)
qed


lemma frame_access:
  assumes "mem_ok st"
    and "\<And>ok st' k z. st' = st\<lparr>st_msize := z, st_memory := st_memory st @ replicate k 0\<rparr> \<Longrightarrow> mem_ok st' \<Longrightarrow>
      (ok \<Longrightarrow> unat off + unat sz \<le> length (st_memory st')) \<Longrightarrow> frame m s st (f ok st')"
  shows "frame m s st (case accessMemory off sz st of (ok, st') \<Rightarrow> f ok st')"
  by (rule accessMemory_split [OF assms(1), where P = "\<lambda>p. frame m s st (case p of (ok, st') \<Rightarrow> f ok st')"])
    (unfold prod.case, rule assms(2))

lemma frame_extended:
  "mem_ok st' \<Longrightarrow> st' = st\<lparr>st_msize := z, st_memory := st_memory st @ replicate k 0\<rparr> \<Longrightarrow>
     x \<noteq> Inl YulAssertion \<Longrightarrow> frame m s st (x, st')"
  by (auto simp: frame_def)

lemma frame_write:
  assumes "mem_ok st'" "st' = st\<lparr>st_msize := z, st_memory := st_memory st @ replicate k 0\<rparr>"
    and "length mem = length (st_memory st')"
  shows "frame True s st (Inr v, st'\<lparr>st_memory := mem\<rparr>)"
  using assms by (auto simp: frame_def intro: mem_ok_length [of st'])

lemma frame_logInstr:
  assumes "\<And>ok st'. \<exists>t. st' = st\<lparr>st_trace := t\<rparr> \<Longrightarrow> frame m s st (f ok st')"
  shows "frame m s st (case logInstr i args data st of (ok, st') \<Rightarrow> f ok st')"
proof -
  obtain ok t where "logInstr i args data st = (ok, st\<lparr>st_trace := t\<rparr>)" using logInstr_cases by blast
  moreover have "frame m s st (f ok (st\<lparr>st_trace := t\<rparr>))" by (rule assms) blast
  ultimately show ?thesis by simp
qed

lemma frame_logCopy:
  assumes ok: "mem_ok st"
  shows "frame True s st (case logInstr i args [] st of (ok, st) \<Rightarrow>
    if ok then copyToMemory t ofs sz (src st) st else (Inl TraceLimitReached, st))"
proof (rule frame_logInstr, goal_cases)
  case (1 b st')
  then obtain t' where st': "st' = st\<lparr>st_trace := t'\<rparr>" by blast
  have "frame True s st' (copyToMemory t ofs sz (src st') st')"
    using ok by (intro frame_copyToMemory) (simp add: st')
  moreover have "frame True s st (Inl TraceLimitReached, st')"
    using ok by (simp add: st' frame_def)
  ultimately show ?case by (simp add: st')
qed

lemma frame_evalBlockchain:
  assumes ok: "mem_ok st" and r: "evalBlockchain i arg st = Some r"
  shows "frame (invalidatesMemory i) (invalidatesStorage i) st r"
proof -
  consider (pure) "i \<notin> {iKECCAK256, iCALLDATACOPY, iCODECOPY, iEXTCODECOPY, iRETURNDATACOPY}"
    | (keccak) "i = iKECCAK256" | (copy) "i \<in> {iCALLDATACOPY, iCODECOPY}"
    | (log) "i \<in> {iEXTCODECOPY, iRETURNDATACOPY}" by blast
  then show ?thesis
  proof cases
    case pure
    then show ?thesis using evalBlockchain_pure [OF r] frame_pure [OF ok] by auto
  next
    case keccak
    have "r = (case accessMemory (arg ! 0) (arg ! 1) st of (ok, st) \<Rightarrow>
        (if ok then (Inr (fromBigEndian (keccak256 (take (unat (arg ! 1)) (drop (unat (arg ! 0)) (st_memory st))))), st)
         else (Inr (0x1234cafe1234cafe1234cafe + arg ! 0), st)))"
      using r by (simp add: keccak evalBlockchain_def)
    then show ?thesis
      using ok by (auto intro!: frame_access intro: frame_extended)
  next
    case copy
    then show ?thesis
      using r frame_copyToMemory [OF ok] by (auto simp: evalBlockchain_def invalidatesMemory_def)
  next
    case log
    then have "frame True (invalidatesStorage i) st r"
      using r frame_logCopy [OF ok] by (auto simp: evalBlockchain_def)
    with log show ?thesis by (auto simp: invalidatesMemory_def)
  qed
qed

lemma log_not_other:
  "isLogInstruction i \<Longrightarrow> i \<notin> {iMLOAD, iMSTORE, iMSTORE8, iSSTORE, iSLOAD, iPC, iMSIZE, iGAS}"
  by (auto simp: isLogInstruction_def)

lemma frame_evalMemory:
  assumes ok: "mem_ok st" and r: "evalMemory i arg st = Some r"
  shows "frame (invalidatesMemory i) (invalidatesStorage i) st r"
proof -
  consider (pure) "i \<notin> {iMLOAD, iMSTORE, iMSTORE8, iSSTORE} \<and> \<not> isLogInstruction i"
    | (mload) "i = iMLOAD" | (mstore) "i = iMSTORE" | (mstore8) "i = iMSTORE8" | (sstore) "i = iSSTORE"
    | (log) "isLogInstruction i" "i \<notin> {iMLOAD, iMSTORE, iMSTORE8, iSSTORE, iSLOAD, iPC, iMSIZE, iGAS}"
    using log_not_other by blast
  then show ?thesis
  proof cases
    case pure
    then show ?thesis using evalMemory_pure [OF r] frame_pure [OF ok] by auto
  next
    case mload
    then have "r = (case accessMemory (arg ! 0) 0x20 st of (ok, st) \<Rightarrow>
       (Inr (if ok then fromBigEndian (take 32 (drop (unat (arg ! 0)) (st_memory st))) else 0x1234 + arg ! 0), st))"
      using r by (simp add: evalMemory_def)
    then show ?thesis using ok by (auto intro!: frame_access intro: frame_extended)
  next
    case mstore
    then have "r = (case accessMemory (arg ! 0) 0x20 st of (ok, st) \<Rightarrow>
       (Inr 0, if ok then st\<lparr>st_memory := take (unat (arg ! 0)) (st_memory st) @ toBigEndian (arg ! 1) @
                                   drop (unat (arg ! 0) + 32) (st_memory st)\<rparr> else st))"
      using r by (simp add: evalMemory_def Let_def)
    moreover have "frame True (invalidatesStorage i) st \<dots>"
    proof (rule frame_access [OF ok], goal_cases)
      case (1 b st' k z)
      show ?case
      proof (cases b)
        case True
        with 1(3) have "unat (arg ! 0) + 32 \<le> length (st_memory st')" by simp
        then show ?thesis
          unfolding if_P [OF True] by (intro frame_write [OF 1(2,1)]) simp
      next
        case False
        show ?thesis
          unfolding if_not_P [OF False] by (rule frame_extended [OF 1(2,1)]) simp
      qed
    qed
    ultimately show ?thesis by (simp add: mstore invalidatesMemory_def)
  next
    case mstore8
    then have "r = (case accessMemory (arg ! 0) 1 st of (ok, st) \<Rightarrow>
       (Inr 0, if ok then st\<lparr>st_memory := (st_memory st)[unat (arg ! 0) := ucast (arg ! 1 AND 0xff)]\<rparr> else st))"
      using r by (simp add: evalMemory_def Let_def)
    moreover have "frame True (invalidatesStorage i) st \<dots>"
    proof (rule frame_access [OF ok], goal_cases)
      case (1 b st' k z)
      show ?case
      proof (cases b)
        case True
        with 1(3) have "unat (arg ! 0) + 1 \<le> length (st_memory st')" by simp
        then show ?thesis
          unfolding if_P [OF True] by (intro frame_write [OF 1(2,1)]) simp
      next
        case False
        show ?thesis
          unfolding if_not_P [OF False] by (rule frame_extended [OF 1(2,1)]) simp
      qed
    qed
    ultimately show ?thesis by (simp add: mstore8 invalidatesMemory_def)
  next
    case sstore
    then show ?thesis
      using r ok by (auto simp: evalMemory_def frame_def mem_ok_def invalidatesStorage_def intro: exI [of _ 0])
  next
    case log
    then have "r = (case accessMemory (arg ! 0) (arg ! 1) st of (_, st) \<Rightarrow> logThen i arg [] st (Inr 0))"
      using r by (simp add: evalMemory_def)
    then show ?thesis using ok by (auto intro!: frame_access frame_logThen intro: frame_extended)
  qed
qed


lemma frame_trans:
  assumes "st' = st\<lparr>st_msize := z, st_memory := st_memory st @ replicate k 0\<rparr>" and "frame m s st' r"
  shows "frame m s st r"
  using assms(2) unfolding assms(1) frame_def
  by (auto simp flip: replicate_add)

lemma frame_access_log:
  assumes ok: "mem_ok st" and x: "x \<noteq> Inl YulAssertion"
  shows "frame m s st (case accessMemory off sz st of (ok, st) \<Rightarrow> logThen i arg (f ok st) st x)"
proof (rule frame_access [OF ok], goal_cases)
  case (1 b st' k z)
  show ?case by (rule frame_logThen [OF frame_extended [OF 1(2,1) x] x])
qed

lemma frame_evalCalls:
  assumes ok: "mem_ok st" and r: "evalCalls i arg st = Some r"
  shows "frame (invalidatesMemory i) (invalidatesStorage i) st r"
proof -
  have two: "frame m s st (case accessMemory o1 s1 st of (_, st) \<Rightarrow>
      case accessMemory o2 s2 st of (_, st) \<Rightarrow> logThen i arg [] st (Inr v))" for m s o1 s1 o2 s2 v
  proof (rule frame_access [OF ok], goal_cases)
    case (1 b st' k z)
    show ?case
      by (rule frame_trans [OF 1(1)], rule frame_access_log [OF 1(2)]) simp
  qed
  have nolog: "frame m s st (logThen i arg' [] st (Inl ExplicitlyTerminated))" for m s arg'
    using ok by (intro frame_logThen) (auto simp: frame_def intro: exI [of _ 0])
  show ?thesis
    using r frame_access_log [OF ok] two nolog frame_pure [OF ok]
    by (auto simp: evalCalls_def split: if_splits)
qed

lemma frame_svm_eval:
  assumes "mem_ok st" "info_args (instructionInfo i) = int (length arg)" "\<not> invalidInStrictAssembly i"
  shows "frame (invalidatesMemory i) (invalidatesStorage i) st (svm_eval i arg st)"
  using assms frame_evalBlockchain [OF assms(1), of i arg] frame_evalMemory [OF assms(1), of i arg]
    frame_evalCalls [OF assms(1), of i arg] frame_pure [OF assms(1)]
  by (auto simp: svm_eval_def frame_def intro: exI [of _ 0] split: option.split)


section \<open>Ending an execution\<close>

lemma accessMemory_maxTraceSize [simp]:
  "st_maxTraceSize (snd (accessMemory off sz st)) = st_maxTraceSize st"
proof -
  obtain ok st' where a: "accessMemory off sz st = (ok, st')" by (cases "accessMemory off sz st")
  from a show ?thesis by (cases rule: accessMemory_cases) (simp_all add: a)
qed

lemma logThen_untraced:
  "st_maxTraceSize st = 0 \<Longrightarrow> fst (logThen i arg data st x) = x"
  by (simp add: logThen_def logInstr_def logTrace_def Let_def)

lemma terminating_evalCalls:
  assumes "st_maxTraceSize st = 0" and "evalCalls i arg st = Some r"
  shows "fst r = Inl ExplicitlyTerminated \<longleftrightarrow> i \<in> {iRETURN, iREVERT, iINVALID, iSELFDESTRUCT}"
  using assms
  by (auto simp: evalCalls_def logThen_untraced split_beta Let_def split: if_splits)

lemma copyToMemory_not_terminated: "fst (copyToMemory t ofs sz src st) \<noteq> Inl ExplicitlyTerminated"
  by (auto simp: copyToMemory_def split: prod.splits option.splits)

lemma terminating_evalBlockchain:
  "evalBlockchain i arg st = Some r \<Longrightarrow> fst r \<noteq> Inl ExplicitlyTerminated"
  using copyToMemory_not_terminated
  by (auto simp: evalBlockchain_def split_beta Let_def split: if_splits)

lemma terminating_evalMemory:
  "st_maxTraceSize st = 0 \<Longrightarrow> evalMemory i arg st = Some r \<Longrightarrow> fst r \<noteq> Inl ExplicitlyTerminated"
  by (auto simp: evalMemory_def split_beta Let_def logThen_untraced split: if_splits)

lemma terminating_first:
  assumes "i \<in> {iRETURN, iREVERT, iINVALID, iSELFDESTRUCT}"
  shows "evalArith i arg = None" "evalBlockchain i arg st = None" "evalMemory i arg st = None"
    "i \<noteq> iSTOP" "evalCalls i arg st \<noteq> None"
  using assms
  by (auto simp: evalArith_def evalBlockchain_def evalMemory_def evalCalls_def isLogInstruction_def)

lemma terminating_svm_eval:
  assumes "st_maxTraceSize st = 0" "info_args (instructionInfo i) = int (length arg)"
  shows "fst (svm_eval i arg st) = Inl ExplicitlyTerminated \<longleftrightarrow> terminatesControlFlowInstr i"
proof (cases "i \<in> {iRETURN, iREVERT, iINVALID, iSELFDESTRUCT}")
  case True
  obtain r where r: "evalCalls i arg st = Some r"
    using terminating_first(5) [OF True] by blast
  then have "svm_eval i arg st = r"
    using terminating_first [OF True] assms(2) by (simp add: svm_eval_def)
  with True r show ?thesis
    using terminating_evalCalls [OF assms(1)] by (auto simp: terminatesControlFlowInstr_def)
next
  case False
  then have "fst (svm_eval i arg st) = Inl ExplicitlyTerminated \<longleftrightarrow> i = iSTOP"
    using terminating_evalCalls [OF assms(1), of i arg] terminating_evalBlockchain [of i arg st]
      terminating_evalMemory [OF assms(1), of i arg] assms(2)
    by (auto simp: svm_eval_def split: option.split)
  with False show ?thesis by (auto simp: terminatesControlFlowInstr_def)
qed

section \<open>Reading and copying\<close>

lemma nth_copyZeroExtended:
  assumes "copyZeroExtended target source t s sz = Some mem" and "j < length target"
  shows "mem ! j =
    (if t \<le> j \<and> j < t + sz then
       (let k = unat (s + of_nat (j - t)) in if k < length source then source ! k else 0)
     else target ! j)"
proof -
  have "foldl (\<lambda>tgt i. tgt[t + i := v i]) tgt [0..<n] ! j =
      (if t \<le> j \<and> j < t + n then v (j - t) else tgt ! j)" if "t + n \<le> length tgt" "j < length tgt"
    for v and tgt :: bytes and n
    using that
  proof (induction n)
    case 0
    then show ?case by auto
  next
    case (Suc n)
    have "length (foldl (\<lambda>tgt i. tgt[t + i := v i]) tgt [0..<n]) = length tgt"
      by (rule length_foldl_update) simp
    with Suc show ?case by (auto simp: nth_list_update)
  qed
  note * = this [of sz target "\<lambda>i. let k = s + of_nat i in if unat k < length source then source ! unat k else 0"]
  from assms have "t + sz \<le> length target" by (simp add: copyZeroExtended_def split: if_splits)
  with * assms show ?thesis by (simp add: copyZeroExtended_def Let_def split: if_splits)
qed

lemma svm2_not_valid: "iJUMPTO \<le> i \<Longrightarrow> i \<le> iGETLOCAL \<Longrightarrow> \<not> isValidInstruction i"
  by (rule byte_range_all [of _ iJUMPTO iGETLOCAL])
    (simp_all add: upt_rec isValidInstruction_rules)

lemma evalArith_commutative:
  assumes "isCommutativeInstruction i"
  shows "evalArith i [a, b] = evalArith i [b, a] \<and> evalArith i [a, b] \<noteq> None"
  using assms unfolding isCommutativeInstruction_def insert_iff empty_iff
  by (elim disjE) (simp_all add: evalArith_def add.commute [of a] mult.commute [of a]
    eq_commute [of a] and.commute [of a] or.commute [of a] xor.commute [of a])

section \<open>What is kept\<close>

text \<open>The bytes of the memory that an instruction writes.\<close>

definition writtenBytes :: "instruction \<Rightarrow> u256 list \<Rightarrow> nat set" where
  "writtenBytes i arg =
     (if i = iMSTORE then {unat (arg ! 0)..<unat (arg ! 0) + 32}
      else if i = iMSTORE8 then {unat (arg ! 0)}
      else if i = iCALLDATACOPY \<or> i = iCODECOPY \<or> i = iRETURNDATACOPY
      then {unat (arg ! 0)..<unat (arg ! 0) + unat (arg ! 2)}
      else if i = iEXTCODECOPY then {unat (arg ! 1)..<unat (arg ! 1) + unat (arg ! 3)}
      else {})"

text \<open>A state without the parts that instructions change.\<close>

definition otherParts :: "InterpreterState \<Rightarrow> InterpreterState" where
  "otherParts st = st\<lparr>st_memory := [], st_msize := 0, st_storage := (\<lambda>_. 0), st_trace := []\<rparr>"

lemma otherParts_update [simp]:
  "otherParts (st\<lparr>st_memory := m\<rparr>) = otherParts st" "otherParts (st\<lparr>st_msize := n\<rparr>) = otherParts st"
  "otherParts (st\<lparr>st_storage := f\<rparr>) = otherParts st" "otherParts (st\<lparr>st_trace := t\<rparr>) = otherParts st"
  by (simp_all add: otherParts_def)

definition changes_only :: "nat set \<Rightarrow> InterpreterState \<Rightarrow> InterpreterState \<Rightarrow> bool" where
  "changes_only written st st' \<longleftrightarrow>
     otherParts st' = otherParts st \<and>
     st_msize st \<le> st_msize st' \<and> (\<exists>entries. st_trace st' = st_trace st @ entries) \<and>
     length (st_memory st) \<le> length (st_memory st') \<and>
     (\<forall>k < length (st_memory st'). k \<notin> written \<longrightarrow>
        st_memory st' ! k = (if k < length (st_memory st) then st_memory st ! k else 0))"

lemma changes_only_refl [simp]: "changes_only W st st"
  by (simp add: changes_only_def)

lemma changes_only_state_trans: "changes_only W st st' \<Longrightarrow> changes_only W st' st'' \<Longrightarrow> changes_only W st st''"
  unfolding changes_only_def by (auto intro: order_trans)

lemma changes_only_access: "changes_only W st (snd (accessMemory off sz st))"
  by (auto simp: changes_only_def accessMemory_def Let_def nth_append)

lemma changes_only_log: "changes_only W st (snd (logInstr i args data st))"
  by (auto simp: changes_only_def logInstr_def logTrace_def Let_def)

lemma changes_only_logThen: "changes_only W st st' \<Longrightarrow> changes_only W st (snd (logThen i args data st' x))"
  using changes_only_state_trans [OF _ changes_only_log] by (simp add: logThen_def split_beta)

lemma changes_only_memory:
  assumes "changes_only W st st'" "length mem = length (st_memory st')"
    and "\<And>k. k < length (st_memory st') \<Longrightarrow> k \<notin> W \<Longrightarrow> mem ! k = st_memory st' ! k"
  shows "changes_only W st (st'\<lparr>st_memory := mem\<rparr>)"
  using assms by (auto simp: changes_only_def)

lemma changes_only_copy: "changes_only {unat t..<unat t + unat sz} st (snd (copyToMemory t ofs sz source st))"
proof -
  have "changes_only W st (st'\<lparr>st_memory := mem\<rparr>)"
    if "copyZeroExtended (st_memory st') source (unat t) (ucast ofs) (unat sz) = Some mem" "st' = snd (accessMemory t sz st)"
      "W = {unat t..<unat t + unat sz}" for mem st' W
    using nth_copyZeroExtended [OF that(1)] length_copyZeroExtended [OF that(1)] unfolding that(2,3)
    by (intro changes_only_memory changes_only_access) auto
  then show ?thesis by (auto simp: copyToMemory_def split_beta changes_only_access split: option.splits)
qed

lemma keeps_evalBlockchain: "evalBlockchain i arg st = Some r \<Longrightarrow> changes_only (writtenBytes i arg) st (snd r)"
proof -
  assume r: "evalBlockchain i arg st = Some r"
  have copy: "changes_only {unat t..<unat t + unat sz} st (snd (copyToMemory t ofs sz source (snd (logInstr j arg [] st))))" for t ofs sz source j
    using changes_only_log changes_only_copy by (rule changes_only_state_trans)
  from r show ?thesis
    by (auto simp: evalBlockchain_def Let_def split_beta writtenBytes_def changes_only_access changes_only_copy changes_only_log copy split: if_splits)
qed

lemma keeps_evalMemory:
  assumes ok: "mem_ok st" and r: "evalMemory i arg st = Some r"
  shows "changes_only (writtenBytes i arg) st (snd r)"
proof -
  have store: "changes_only {unat off..<unat off + 32} st
      (st'\<lparr>st_memory := take (unat off) (st_memory st') @ toBigEndian v @ drop (unat off + 32) (st_memory st')\<rparr>)"
    if "accessMemory off 32 st = (True, st')" for off v st'
  proof -
    have "unat off + 32 \<le> length (st_memory st')" by (rule accessMemory_spec [OF that ok]) simp
    moreover have "changes_only {unat off..<unat off + 32} st st'" using changes_only_access [of _ st off 32] that by simp
    ultimately show ?thesis by (intro changes_only_memory) (auto simp: nth_append min_def)
  qed
  have byte: "changes_only {off} st (st'\<lparr>st_memory := (st_memory st')[off := v]\<rparr>)" if "changes_only {off} st st'" for off v st'
    using that by (intro changes_only_memory) auto
  have slot: "changes_only {} st (st\<lparr>st_storage := f\<rparr>)" for f by (simp add: changes_only_def)
  have log: "isLogInstruction i \<Longrightarrow> writtenBytes i arg = {}"
    by (auto simp: isLogInstruction_def writtenBytes_def)
  from r log show ?thesis
    by (auto simp: evalMemory_def Let_def split_beta writtenBytes_def changes_only_access slot
        intro!: store byte changes_only_logThen prod_eqI split: if_splits)
qed

lemma keeps_evalCalls: "evalCalls i arg st = Some r \<Longrightarrow> changes_only (writtenBytes i arg) st (snd r)"
proof -
  assume r: "evalCalls i arg st = Some r"
  have two: "changes_only W st (snd (accessMemory c d (snd (accessMemory a b st))))" for W a b c d
    using changes_only_access changes_only_access by (rule changes_only_state_trans)
  from r show ?thesis
    by (auto simp: evalCalls_def Let_def split_beta changes_only_access two intro!: changes_only_logThen split: if_splits)
qed

lemma changes_only_svm_eval: "mem_ok st \<Longrightarrow> changes_only (writtenBytes i arg) st (snd (svm_eval i arg st))"
  using keeps_evalBlockchain [of i arg st] keeps_evalMemory [of st i arg] keeps_evalCalls [of i arg st]
  by (auto simp: svm_eval_def split: option.split)

text \<open>Only \<open>SSTORE\<close> changes the storage.\<close>

lemma storage_access [simp]: "st_storage (snd (accessMemory off sz st)) = st_storage st"
  by (simp add: accessMemory_def Let_def)

lemma storage_log [simp]: "st_storage (snd (logInstr i args data st)) = st_storage st"
  "st_storage (snd (logThen i args data st x)) = st_storage st"
  by (simp_all add: logThen_def logInstr_def logTrace_def Let_def)

lemma storage_copy [simp]: "st_storage (snd (copyToMemory t ofs sz source st)) = st_storage st"
  by (simp add: copyToMemory_def split_beta split: option.split)

lemma storage_evals:
  "evalBlockchain i arg st = Some r \<Longrightarrow> st_storage (snd r) = st_storage st"
  "evalCalls i arg st = Some r \<Longrightarrow> st_storage (snd r) = st_storage st"
  "evalMemory i arg st = Some r \<Longrightarrow> st_storage (snd r) = (if i = iSSTORE then (st_storage st)(arg ! 0 := arg ! 1) else st_storage st)"
  by (auto simp: evalBlockchain_def evalCalls_def evalMemory_def Let_def split_beta split: if_splits)

lemma svm_eval_storage:
  assumes "info_args (instructionInfo i) = int (length arg)"
  shows "st_storage (snd (svm_eval i arg st)) = (if i = iSSTORE then (st_storage st)(arg ! 0 := arg ! 1) else st_storage st)"
proof (cases "i = iSSTORE")
  case True
  then have "evalArith i arg = None" "evalBlockchain i arg st = None"
    by (simp_all add: evalArith_def evalBlockchain_def)
  moreover have "evalMemory i arg st = Some (Inr 0, st\<lparr>st_storage := (st_storage st)(arg ! 0 := arg ! 1)\<rparr>)"
    using True by (simp add: evalMemory_def)
  ultimately show ?thesis using True assms by (simp add: svm_eval_def)
next
  case False
  then show ?thesis
    using storage_evals [of i arg st] by (auto simp: svm_eval_def split: option.split)
qed

section \<open>Properties\<close>

text \<open>
  C19: the operations classified as commutative give the same value and the same state
  for either order of their arguments.
\<close>

theorem commutative_sound:
  "isCommutativeInstruction i \<Longrightarrow> svm_eval i [a, b] st = svm_eval i [b, a] st"
  using evalArith_commutative [of i a b] by (auto simp: svm_eval_def split: option.split)

theorem commutative_sound_witness: "svm_eval iXOR [1, 2] initialState = svm_eval iXOR [2, 1] initialState"
  by (rule commutative_sound) (simp add: isCommutativeInstruction_def)

text \<open>
  C16: an instruction classified as free of side effects returns a value and leaves the
  whole state as it was, whatever the state.
\<close>

theorem sideEffectFree_sound:
  assumes "sideEffectFree i = Inr True" "\<not> isPushInstruction i" "isValidInstruction i"
    and "info_args (instructionInfo i) = int (length arg)"
  shows "\<exists>v. svm_eval i arg st = (Inr v, st)"
proof -
  from assms(1) have "\<not> info_sideEffects (instructionInfo i)" "\<not> isDupInstruction i" "\<not> isSwapInstruction i"
    by (auto simp: sideEffectFree_def)
  moreover have "\<not> invalidInStrictAssembly i"
    using assms(2,3) sideEffectInstructions [OF calculation(1)] calculation svm2_not_valid
    by (auto simp: invalidInStrictAssembly_def sideEffectInstructions_def)
  ultimately show ?thesis using assms(4) by (intro svm_eval_pure)
qed

theorem sideEffectFree_sound_witness: "\<exists>v. svm_eval iADD [2, 3] initialState = (Inr v, initialState)"
  by (rule sideEffectFree_sound)
    (simp_all add: sideEffectFree_def isDupInstruction_def isSwapInstruction_def isPushInstruction_def
      isValidInstruction_rules instructionInfo_rules InstructionInfo.defs word_le_nat_alt)

text \<open>
  C17: the value of a movable instruction depends neither on the memory nor on the
  storage, nor on what calls change: it is the same when all of these are different.
\<close>

theorem movable_sound:
  "movable i \<Longrightarrow>
     fst (svm_eval i arg (st\<lparr>st_memory := m, st_msize := z, st_storage := s, st_returndata := r,
       st_balance := b, st_trace := t\<rparr>)) = fst (svm_eval i arg st)"
  by (rule svm_eval_movable)

theorem movable_sound_witness:
  "fst (svm_eval iMULMOD [2, 3, 4] (initialState\<lparr>st_memory := [1], st_msize := 1,
      st_storage := (\<lambda>_. 1), st_returndata := [], st_balance := 2, st_trace := []\<rparr>)) =
   fst (svm_eval iMULMOD [2, 3, 4] initialState)"
  by (rule movable_sound)
    (simp add: movable_def isDupInstruction_def isSwapInstruction_def instructionInfo_rules
      InstructionInfo.defs)

text \<open>
  C15: every instruction keeps the memory a multiple of 32 bytes below the limit and never runs into an
  assertion, so no access is out of bounds. It changes nothing but the memory, its size, the storage and the
  trace: of the memory only the bytes it writes, which else is only extended by zeros; the memory size, which only grows;
  of the storage the slot of an \<open>SSTORE\<close>, to its value; the trace, which is only extended. One not classified as
  changing the memory only extends it by zeros, one not classified as changing the storage leaves it alone.
\<close>

theorem svm_eval_frame:
  assumes "mem_ok st" "info_args (instructionInfo i) = int (length arg)" "\<not> invalidInStrictAssembly i"
  shows "mem_ok (snd (svm_eval i arg st)) \<and> fst (svm_eval i arg st) \<noteq> Inl YulAssertion \<and>
    (invalidatesMemory i \<or>
      (\<exists>k. st_memory (snd (svm_eval i arg st)) = st_memory st @ replicate k 0)) \<and>
    (invalidatesStorage i \<or> st_storage (snd (svm_eval i arg st)) = st_storage st) \<and>
    st_storage (snd (svm_eval i arg st)) =
      (if i = iSSTORE then (st_storage st)(arg ! 0 := arg ! 1) else st_storage st) \<and>
    changes_only (writtenBytes i arg) st (snd (svm_eval i arg st))"
  using frame_svm_eval [OF assms] svm_eval_storage [OF assms(2)] changes_only_svm_eval [OF assms(1), of i arg] by (simp add: frame_def)

theorem svm_eval_frame_witness:
  "mem_ok (snd (svm_eval iMSTORE [64, 7] initialState)) \<and>
   changes_only {64..<96} initialState (snd (svm_eval iMSTORE [64, 7] initialState))"
  using svm_eval_frame [of initialState iMSTORE "[64, 7]"]
  by (simp add: mem_ok_def initialState_def instructionInfo_rules InstructionInfo.defs
      invalidInStrictAssembly_def isPushInstruction_def isDupInstruction_def isSwapInstruction_def writtenBytes_def)

text \<open>
  C18: the instructions classified as terminating the control flow are exactly those
  that end an execution.
\<close>

theorem terminates_sound:
  assumes "st_maxTraceSize st = 0" "info_args (instructionInfo i) = int (length arg)"
  shows "fst (svm_eval i arg st) = Inl ExplicitlyTerminated \<longleftrightarrow> terminatesControlFlowInstr i"
  using assms by (rule terminating_svm_eval)

theorem terminates_sound_witness:
  "fst (svm_eval iREVERT [0, 0] initialState) = Inl ExplicitlyTerminated \<longleftrightarrow>
     terminatesControlFlowInstr iREVERT"
  by (rule terminates_sound) (simp_all add: initialState_def instructionInfo_rules InstructionInfo.defs)

end
