(* ===== verification/Rule_List.thy ===== *)
theory Rule_List
  imports Svm_Interpreter
begin

text \<open>
  libsvmasm/RuleList.h: the simplification rules the optimisers of both assemblies
  share, with the patterns of SimplificationRules.h they are written in and the rules
  of SimplificationRule.h.

  A pattern of a match group stands for whatever the group has matched. An action and
  a feasibility check read the constants their groups have matched; the matches are a
  function from group numbers to values.
\<close>

datatype Pattern =
  Pattern (p_type: AssemblyItemType) (p_requireDataMatch: bool) (p_instruction: instruction)
    (p_data: "u256 option") (p_arguments: "Pattern list") (p_matchGroup: nat)

definition PConst :: "u256 \<Rightarrow> Pattern" where
  "PConst v = Pattern Push True 0 (Some v) [] 0"

definition PType :: "AssemblyItemType \<Rightarrow> Pattern" where
  "PType ty = Pattern ty False 0 None [] 0"

definition POp :: "instruction \<Rightarrow> Pattern list \<Rightarrow> Pattern" where
  "POp i args = Pattern Operation False i None args 0"

fun setMatchGroup :: "nat \<Rightarrow> Pattern \<Rightarrow> Pattern" where
  "setMatchGroup g (Pattern ty req i dat args _) = Pattern ty req i dat args g"

type_synonym matches = "nat \<Rightarrow> u256"

record SimplificationRule =
  r_pattern :: Pattern
  r_action :: "matches \<Rightarrow> Pattern"
  r_removesNonConstants :: bool
  r_feasible :: "matches \<Rightarrow> bool"

abbreviation rule :: "Pattern \<Rightarrow> (matches \<Rightarrow> Pattern) \<Rightarrow> bool \<Rightarrow> SimplificationRule" where
  "rule p act removes \<equiv>
     \<lparr>r_pattern = p, r_action = act, r_removesNonConstants = removes, r_feasible = (\<lambda>_. True)\<rparr>"

abbreviation rule_if ::
    "Pattern \<Rightarrow> (matches \<Rightarrow> Pattern) \<Rightarrow> bool \<Rightarrow> (matches \<Rightarrow> bool) \<Rightarrow> SimplificationRule" where
  "rule_if p act removes feas \<equiv>
     \<lparr>r_pattern = p, r_action = act, r_removesNonConstants = removes, r_feasible = feas\<rparr>"

text \<open>\<open>d()\<close>: the constant the group of a pattern has matched.\<close>

abbreviation d_of :: "matches \<Rightarrow> Pattern \<Rightarrow> u256" where
  "d_of m p \<equiv> m (p_matchGroup p)"

definition divWorkaround :: "int \<Rightarrow> int \<Rightarrow> int" where
  "divWorkaround a b = a sdiv b"

definition modWorkaround :: "int \<Rightarrow> int \<Rightarrow> int" where
  "modWorkaround a b = a smod b"

definition shlWorkaround :: "u256 \<Rightarrow> nat \<Rightarrow> u256" where
  "shlWorkaround x amount = word_of_int (push_bit amount (uint x) AND uint (- 1 :: u256))"

definition powm :: "int \<Rightarrow> nat \<Rightarrow> int \<Rightarrow> int" where
  "powm b e m = b ^ e mod m"

section \<open>The rules\<close>

definition simplificationRuleListPart1 :: "Pattern \<Rightarrow> Pattern \<Rightarrow> Pattern \<Rightarrow> SimplificationRule list" where
  "simplificationRuleListPart1 A B C =
    [rule (POp iADD [A, B]) (\<lambda>m. PConst (d_of m A + d_of m B)) False,
     rule (POp iMUL [A, B]) (\<lambda>m. PConst (d_of m A * d_of m B)) False,
     rule (POp iSUB [A, B]) (\<lambda>m. PConst (d_of m A - d_of m B)) False,
     rule (POp iDIV [A, B])
       (\<lambda>m. PConst (if d_of m B = 0 then 0
                    else word_of_int (divWorkaround (uint (d_of m A)) (uint (d_of m B))))) False,
     rule (POp iSDIV [A, B])
       (\<lambda>m. PConst (if d_of m B = 0 then 0
                    else s2u (divWorkaround (u2s (d_of m A)) (u2s (d_of m B))))) False,
     rule (POp iMOD [A, B])
       (\<lambda>m. PConst (if d_of m B = 0 then 0
                    else word_of_int (modWorkaround (uint (d_of m A)) (uint (d_of m B))))) False,
     rule (POp iSMOD [A, B])
       (\<lambda>m. PConst (if d_of m B = 0 then 0
                    else s2u (modWorkaround (u2s (d_of m A)) (u2s (d_of m B))))) False,
     rule (POp iEXP [A, B])
       (\<lambda>m. PConst (word_of_int (powm (uint (d_of m A)) (unat (d_of m B)) (2 ^ 256)))) False,
     rule (POp iNOT [A]) (\<lambda>m. PConst (NOT (d_of m A))) False,
     rule (POp iLT [A, B]) (\<lambda>m. PConst (if d_of m A < d_of m B then 1 else 0)) False,
     rule (POp iGT [A, B]) (\<lambda>m. PConst (if d_of m A > d_of m B then 1 else 0)) False,
     rule (POp iSLT [A, B]) (\<lambda>m. PConst (if u2s (d_of m A) < u2s (d_of m B) then 1 else 0)) False,
     rule (POp iSGT [A, B]) (\<lambda>m. PConst (if u2s (d_of m A) > u2s (d_of m B) then 1 else 0)) False,
     rule (POp iEQ [A, B]) (\<lambda>m. PConst (if d_of m A = d_of m B then 1 else 0)) False,
     rule (POp iISZERO [A]) (\<lambda>m. PConst (if d_of m A = 0 then 1 else 0)) False,
     rule (POp iAND [A, B]) (\<lambda>m. PConst (d_of m A AND d_of m B)) False,
     rule (POp iOR [A, B]) (\<lambda>m. PConst (d_of m A OR d_of m B)) False,
     rule (POp iXOR [A, B]) (\<lambda>m. PConst (d_of m A XOR d_of m B)) False,
     rule (POp iBYTE [A, B])
       (\<lambda>m. PConst (if 32 \<le> d_of m A then 0
                    else drop_bit (unat (8 * (31 - d_of m A))) (d_of m B) AND 0xff)) False,
     rule (POp iADDMOD [A, B, C])
       (\<lambda>m. PConst (if d_of m C = 0 then 0
                    else word_of_int ((uint (d_of m A) + uint (d_of m B)) mod uint (d_of m C)))) False,
     rule (POp iMULMOD [A, B, C])
       (\<lambda>m. PConst (if d_of m C = 0 then 0
                    else word_of_int ((uint (d_of m A) * uint (d_of m B)) mod uint (d_of m C)))) False,
     rule (POp iMULMOD [A, B, C]) (\<lambda>m. PConst (d_of m A * d_of m B)) False,
     rule (POp iSIGNEXTEND [A, B])
       (\<lambda>m. PConst (if 31 \<le> d_of m A then d_of m B
          else (let testBit = unat (d_of m A) * 8 + 7;
                    mask = push_bit testBit 1 - 1
                in if bit (d_of m B) testBit then d_of m B OR NOT mask else d_of m B AND mask))) False,
     rule (POp iSHL [A, B])
       (\<lambda>m. PConst (if 255 < d_of m A then 0 else shlWorkaround (d_of m B) (unat (d_of m A)))) False,
     rule (POp iSHR [A, B])
       (\<lambda>m. PConst (if 255 < d_of m A then 0 else drop_bit (unat (d_of m A)) (d_of m B))) False]"

definition simplificationRuleListPart2 :: "Pattern \<Rightarrow> Pattern \<Rightarrow> SimplificationRule list" where
  "simplificationRuleListPart2 X Y =
    [rule (POp iADD [X, PConst 0]) (\<lambda>m. X) False,
     rule (POp iADD [PConst 0, X]) (\<lambda>m. X) False,
     rule (POp iSUB [X, PConst 0]) (\<lambda>m. X) False,
     rule (POp iMUL [X, PConst 0]) (\<lambda>m. PConst 0) True,
     rule (POp iMUL [PConst 0, X]) (\<lambda>m. PConst 0) True,
     rule (POp iMUL [X, PConst 1]) (\<lambda>m. X) False,
     rule (POp iMUL [PConst 1, X]) (\<lambda>m. X) False,
     rule (POp iMUL [X, PConst (- 1)]) (\<lambda>m. POp iSUB [PConst 0, X]) False,
     rule (POp iMUL [PConst (- 1), X]) (\<lambda>m. POp iSUB [PConst 0, X]) False,
     rule (POp iDIV [X, PConst 0]) (\<lambda>m. PConst 0) True,
     rule (POp iDIV [PConst 0, X]) (\<lambda>m. PConst 0) True,
     rule (POp iDIV [X, PConst 1]) (\<lambda>m. X) False,
     rule (POp iSDIV [X, PConst 0]) (\<lambda>m. PConst 0) True,
     rule (POp iSDIV [PConst 0, X]) (\<lambda>m. PConst 0) True,
     rule (POp iSDIV [X, PConst 1]) (\<lambda>m. X) False,
     rule (POp iAND [X, PConst (NOT 0)]) (\<lambda>m. X) False,
     rule (POp iAND [PConst (NOT 0), X]) (\<lambda>m. X) False,
     rule (POp iAND [X, PConst 0]) (\<lambda>m. PConst 0) True,
     rule (POp iAND [PConst 0, X]) (\<lambda>m. PConst 0) True,
     rule (POp iOR [X, PConst 0]) (\<lambda>m. X) False,
     rule (POp iOR [PConst 0, X]) (\<lambda>m. X) False,
     rule (POp iOR [X, PConst (NOT 0)]) (\<lambda>m. PConst (NOT 0)) True,
     rule (POp iOR [PConst (NOT 0), X]) (\<lambda>m. PConst (NOT 0)) True,
     rule (POp iXOR [X, PConst 0]) (\<lambda>m. X) False,
     rule (POp iXOR [PConst 0, X]) (\<lambda>m. X) False,
     rule (POp iMOD [X, PConst 0]) (\<lambda>m. PConst 0) True,
     rule (POp iMOD [PConst 0, X]) (\<lambda>m. PConst 0) True,
     rule (POp iEQ [X, PConst 0]) (\<lambda>m. POp iISZERO [X]) False,
     rule (POp iEQ [PConst 0, X]) (\<lambda>m. POp iISZERO [X]) False,
     rule (POp iSHL [PConst 0, X]) (\<lambda>m. X) False,
     rule (POp iSHR [PConst 0, X]) (\<lambda>m. X) False,
     rule (POp iSHL [X, PConst 0]) (\<lambda>m. PConst 0) True,
     rule (POp iSHR [X, PConst 0]) (\<lambda>m. PConst 0) True,
     rule (POp iGT [X, PConst 0]) (\<lambda>m. POp iISZERO [POp iISZERO [X]]) False,
     rule (POp iLT [PConst 0, X]) (\<lambda>m. POp iISZERO [POp iISZERO [X]]) False,
     rule (POp iGT [X, PConst (NOT 0)]) (\<lambda>m. PConst 0) True,
     rule (POp iLT [PConst (NOT 0), X]) (\<lambda>m. PConst 0) True,
     rule (POp iGT [PConst 0, X]) (\<lambda>m. PConst 0) True,
     rule (POp iLT [X, PConst 0]) (\<lambda>m. PConst 0) True,
     rule (POp iAND [POp iBYTE [X, Y], PConst 0xff]) (\<lambda>m. POp iBYTE [X, Y]) False,
     rule (POp iBYTE [PConst 31, X]) (\<lambda>m. POp iAND [X, PConst 0xff]) False]"

definition simplificationRuleListPart3 :: "Pattern \<Rightarrow> SimplificationRule list" where
  "simplificationRuleListPart3 X =
    [rule (POp iAND [X, X]) (\<lambda>m. X) True,
     rule (POp iOR [X, X]) (\<lambda>m. X) True,
     rule (POp iXOR [X, X]) (\<lambda>m. PConst 0) True,
     rule (POp iSUB [X, X]) (\<lambda>m. PConst 0) True,
     rule (POp iEQ [X, X]) (\<lambda>m. PConst 1) True,
     rule (POp iLT [X, X]) (\<lambda>m. PConst 0) True,
     rule (POp iSLT [X, X]) (\<lambda>m. PConst 0) True,
     rule (POp iGT [X, X]) (\<lambda>m. PConst 0) True,
     rule (POp iSGT [X, X]) (\<lambda>m. PConst 0) True,
     rule (POp iMOD [X, X]) (\<lambda>m. PConst 0) True]"

definition simplificationRuleListPart4 :: "Pattern \<Rightarrow> Pattern \<Rightarrow> SimplificationRule list" where
  "simplificationRuleListPart4 X Y =
    [rule (POp iNOT [POp iNOT [X]]) (\<lambda>m. X) False,
     rule (POp iXOR [X, POp iXOR [X, Y]]) (\<lambda>m. Y) True,
     rule (POp iXOR [X, POp iXOR [Y, X]]) (\<lambda>m. Y) True,
     rule (POp iXOR [POp iXOR [X, Y], X]) (\<lambda>m. Y) True,
     rule (POp iXOR [POp iXOR [Y, X], X]) (\<lambda>m. Y) True,
     rule (POp iOR [X, POp iAND [X, Y]]) (\<lambda>m. X) True,
     rule (POp iOR [X, POp iAND [Y, X]]) (\<lambda>m. X) True,
     rule (POp iOR [POp iAND [X, Y], X]) (\<lambda>m. X) True,
     rule (POp iOR [POp iAND [Y, X], X]) (\<lambda>m. X) True,
     rule (POp iAND [X, POp iOR [X, Y]]) (\<lambda>m. X) True,
     rule (POp iAND [X, POp iOR [Y, X]]) (\<lambda>m. X) True,
     rule (POp iAND [POp iOR [X, Y], X]) (\<lambda>m. X) True,
     rule (POp iAND [POp iOR [Y, X], X]) (\<lambda>m. X) True,
     rule (POp iAND [X, POp iNOT [X]]) (\<lambda>m. PConst 0) True,
     rule (POp iAND [POp iNOT [X], X]) (\<lambda>m. PConst 0) True,
     rule (POp iOR [X, POp iNOT [X]]) (\<lambda>m. PConst (NOT 0)) True,
     rule (POp iOR [POp iNOT [X], X]) (\<lambda>m. PConst (NOT 0)) True]"

definition simplificationRuleListPart5 :: "Pattern \<Rightarrow> Pattern \<Rightarrow> SimplificationRule list" where
  "simplificationRuleListPart5 A X =
    map (\<lambda>i. rule (POp iMOD [X, PConst (push_bit i 1)])
               (\<lambda>m. POp iAND [X, PConst (push_bit i 1 - 1)]) False)
      [0..<256] @
    [rule_if (POp iSHL [A, X]) (\<lambda>m. PConst 0) True (\<lambda>m. 256 \<le> d_of m A),
     rule_if (POp iSHR [A, X]) (\<lambda>m. PConst 0) True (\<lambda>m. 256 \<le> d_of m A)] @
    concat (map (\<lambda>op.
       (let mask = push_bit 160 1 - 1
        in [rule (POp iAND [POp op [], PConst mask]) (\<lambda>m. POp op []) False,
            rule (POp iAND [PConst mask, POp op []]) (\<lambda>m. POp op []) False]))
      [iADDRESS, iCALLER, iORIGIN, iCOINBASE, iCREATE, iCREATE2])"

definition simplificationRuleListPart6 :: "Pattern \<Rightarrow> Pattern \<Rightarrow> SimplificationRule list" where
  "simplificationRuleListPart6 X Y =
    map (\<lambda>op. rule (POp iISZERO [POp iISZERO [POp op [X, Y]]]) (\<lambda>m. POp op [X, Y]) False)
      [iEQ, iLT, iSLT, iGT, iSGT] @
    [rule (POp iISZERO [POp iISZERO [POp iISZERO [X]]]) (\<lambda>m. POp iISZERO [X]) False,
     rule (POp iISZERO [POp iXOR [X, Y]]) (\<lambda>m. POp iEQ [X, Y]) False]"

definition associativeRules ::
    "Pattern \<Rightarrow> Pattern \<Rightarrow> Pattern \<Rightarrow> Pattern \<Rightarrow> instruction \<Rightarrow> (u256 \<Rightarrow> u256 \<Rightarrow> u256) \<Rightarrow>
     SimplificationRule list" where
  "associativeRules A B X Y op f =
    concat (map (\<lambda>xa.
      [rule (POp op [POp op xa, B]) (\<lambda>m. POp op [X, PConst (f (d_of m A) (d_of m B))]) False,
       rule (POp op [POp op xa, Y]) (\<lambda>m. POp op [POp op [X, Y], A]) False,
       rule (POp op [B, POp op xa]) (\<lambda>m. POp op [X, PConst (f (d_of m A) (d_of m B))]) False,
       rule (POp op [Y, POp op xa]) (\<lambda>m. POp op [POp op [Y, X], A]) False])
      [[X, A], [A, X]])"

definition shiftOfShift :: "instruction \<Rightarrow> Pattern \<Rightarrow> Pattern \<Rightarrow> Pattern \<Rightarrow> SimplificationRule" where
  "shiftOfShift op A B X =
    rule (POp op [B, POp op [A, X]])
      (\<lambda>m. let total = uint (d_of m A) + uint (d_of m B)
           in if 256 \<le> total then POp iAND [X, PConst 0]
              else POp op [PConst (word_of_int total), X])
      False"

definition oppositeShift ::
    "(matches \<Rightarrow> u256) \<Rightarrow> instruction \<Rightarrow> instruction \<Rightarrow> Pattern \<Rightarrow> Pattern \<Rightarrow> Pattern \<Rightarrow> SimplificationRule" where
  "oppositeShift maskOf outer inner A B X =
    rule_if (POp outer [B, POp inner [A, X]])
      (\<lambda>m. let mask = maskOf m
           in if d_of m A > d_of m B then
                POp iAND [POp inner [PConst (d_of m A - d_of m B), X], PConst mask]
              else if d_of m B > d_of m A then
                POp iAND [POp outer [PConst (d_of m B - d_of m A), X], PConst mask]
              else POp iAND [X, PConst mask])
      False
      (\<lambda>m. d_of m A < 256 \<and> d_of m B < 256)"

definition maskOfShift :: "instruction \<Rightarrow> Pattern \<Rightarrow> Pattern \<Rightarrow> matches \<Rightarrow> Pattern \<Rightarrow> Pattern" where
  "maskOfShift shiftOp A B m X =
    (let mask = (if shiftOp = iSHL then shlWorkaround (d_of m A) (unat (d_of m B))
                 else drop_bit (unat (d_of m B)) (d_of m A))
     in POp iAND [POp shiftOp [PConst (d_of m B), X], PConst mask])"

definition shiftMaskFeasible :: "Pattern \<Rightarrow> Pattern \<Rightarrow> matches \<Rightarrow> bool" where
  "shiftMaskFeasible A B m =
    (if 256 < d_of m B then False
     else (let bAsUint = unat (d_of m B)
           in (d_of m A AND drop_bit bAsUint (- 1)) = drop_bit bAsUint (- 1)))"

definition simplificationRuleListPart7 ::
    "Pattern \<Rightarrow> Pattern \<Rightarrow> Pattern \<Rightarrow> Pattern \<Rightarrow> SimplificationRule list" where
  "simplificationRuleListPart7 A B X Y =
    concat (map (\<lambda>(op, f). associativeRules A B X Y op f)
      [(iADD, (+)), (iMUL, (*)), (iAND, (AND)), (iOR, (OR)), (iXOR, (XOR))]) @
    [shiftOfShift iSHL A B X,
     shiftOfShift iSHR A B X,
     oppositeShift (\<lambda>m. drop_bit (unat (d_of m B)) (shlWorkaround (- 1) (unat (d_of m A)))) iSHR iSHL A B X,
     oppositeShift (\<lambda>m. shlWorkaround (drop_bit (unat (d_of m A)) (- 1)) (unat (d_of m B))) iSHL iSHR A B X] @
    concat (map (\<lambda>shiftOp.
      [rule_if (POp shiftOp [B, POp iAND [X, A]]) (\<lambda>m. maskOfShift shiftOp A B m X) False
         (\<lambda>m. d_of m B < 256),
       rule_if (POp shiftOp [B, POp iAND [A, X]]) (\<lambda>m. maskOfShift shiftOp A B m X) False
         (\<lambda>m. d_of m B < 256)])
      [iSHL, iSHR]) @
    [rule (POp iMUL [X, POp iSHL [Y, PConst 1]]) (\<lambda>m. POp iSHL [Y, X]) False,
     rule (POp iMUL [POp iSHL [X, PConst 1], Y]) (\<lambda>m. POp iSHL [X, Y]) False,
     rule (POp iDIV [X, POp iSHL [Y, PConst 1]]) (\<lambda>m. POp iSHR [Y, X]) False,
     rule_if (POp iAND [A, POp iSHR [B, X]]) (\<lambda>m. POp iSHR [B, X]) False (shiftMaskFeasible A B),
     rule_if (POp iAND [POp iSHR [B, X], A]) (\<lambda>m. POp iSHR [B, X]) False (shiftMaskFeasible A B)]"

definition simplificationRuleListPart8 :: "Pattern \<Rightarrow> Pattern \<Rightarrow> Pattern \<Rightarrow> SimplificationRule list" where
  "simplificationRuleListPart8 A X Y =
    [rule (POp iSUB [X, A]) (\<lambda>m. POp iADD [X, PConst (0 - d_of m A)]) False,
     rule (POp iSUB [POp iADD [X, A], Y]) (\<lambda>m. POp iADD [POp iSUB [X, Y], A]) False,
     rule (POp iSUB [POp iADD [A, X], Y]) (\<lambda>m. POp iADD [POp iSUB [X, Y], A]) False,
     rule (POp iSUB [X, POp iADD [Y, A]]) (\<lambda>m. POp iADD [POp iSUB [X, Y], PConst (0 - d_of m A)]) False,
     rule (POp iSUB [X, POp iADD [A, Y]]) (\<lambda>m. POp iADD [POp iSUB [X, Y], PConst (0 - d_of m A)]) False]"

definition simplificationRuleList ::
    "Pattern \<Rightarrow> Pattern \<Rightarrow> Pattern \<Rightarrow> Pattern \<Rightarrow> Pattern \<Rightarrow> SimplificationRule list" where
  "simplificationRuleList A B C X Y =
    simplificationRuleListPart1 A B C @
    simplificationRuleListPart2 X Y @
    simplificationRuleListPart3 X @
    simplificationRuleListPart4 X Y @
    simplificationRuleListPart5 A X @
    simplificationRuleListPart6 X Y @
    simplificationRuleListPart7 A B X Y @
    simplificationRuleListPart8 A X Y"

text \<open>The placeholders of \<open>Rules::Rules\<close>: A, B and C match constants, X and Y anything.\<close>

definition placeholder :: "nat \<Rightarrow> Pattern" where
  "placeholder g = setMatchGroup g (PType (if g \<le> 3 then Push else UndefinedItem))"

definition theRules :: "SimplificationRule list" where
  "theRules =
    simplificationRuleList (placeholder 1) (placeholder 2) (placeholder 3) (placeholder 4) (placeholder 5)"

end
