(* ===== verification/Rule_Soundness.thy ===== *)
theory Rule_Soundness
  imports Rule_List
begin

text \<open>
  The simplification rules of Rule_List against the instruction semantics: what a
  pattern evaluates to when its match groups have values, and that pattern and
  replacement of a rule evaluate to the same word, for all values.

  An operation is evaluated by the interpreter, in any state; it has no value when it ends the execution or
  has another number of operands than the instruction.
\<close>

section \<open>Evaluation of patterns\<close>

definition opval :: "InterpreterState \<Rightarrow> instruction \<Rightarrow> u256 list \<Rightarrow> u256 option" where
  "opval st i vs = (case fst (svm_eval i vs st) of Inr v \<Rightarrow> Some v | Inl _ \<Rightarrow> None)"

fun peval :: "InterpreterState \<Rightarrow> matches \<Rightarrow> Pattern \<Rightarrow> u256 option" where
  "peval st m (Pattern ty req i dat args g) =
     (if g \<noteq> 0 then Some (m g)
      else if ty = Push then dat
      else if ty = Operation then
        (case those (map (peval st m) args) of
           None \<Rightarrow> None
         | Some vs \<Rightarrow> opval st i vs)
      else None)"

definition rule_sound :: "SimplificationRule \<Rightarrow> bool" where
  "rule_sound r \<longleftrightarrow>
     (\<forall>st m. r_feasible r m \<longrightarrow>
        (\<exists>v. peval st m (r_pattern r) = Some v \<and> peval st m (r_action r m) = Some v))"

lemma peval_PConst [simp]: "peval st m (PConst v) = Some v"
  by (simp add: PConst_def)

lemma peval_POp [simp]:
  "peval st m (POp i []) = opval st i []"
  "peval st m (POp i [p]) = Option.bind (peval st m p) (\<lambda>a. opval st i [a])"
  "peval st m (POp i [p, q]) =
     Option.bind (peval st m p) (\<lambda>a. Option.bind (peval st m q) (\<lambda>b. opval st i [a, b]))"
  "peval st m (POp i [p, q, r]) =
     Option.bind (peval st m p) (\<lambda>a. Option.bind (peval st m q) (\<lambda>b.
       Option.bind (peval st m r) (\<lambda>c. opval st i [a, b, c])))"
  by (simp_all add: POp_def split: option.splits)

lemma peval_placeholder [simp]:
  "g \<noteq> 0 \<Longrightarrow> peval st m (placeholder g) = Some (m g)"
  "p_matchGroup (placeholder g) = g"
  by (simp_all add: placeholder_def PType_def)

lemma opval_arith:
  "info_args (instructionInfo i) = int (length vs) \<Longrightarrow> i \<noteq> iSTOP \<Longrightarrow> evalArith i vs = Some v \<Longrightarrow> opval st i vs = evalArith i vs"
  by (simp add: opval_def svm_eval_def)

lemma opval_simps [simp]:
  "opval st iADD [a, b] = evalArith iADD [a, b]"
  "opval st iMUL [a, b] = evalArith iMUL [a, b]"
  "opval st iSUB [a, b] = evalArith iSUB [a, b]"
  "opval st iDIV [a, b] = evalArith iDIV [a, b]"
  "opval st iSDIV [a, b] = evalArith iSDIV [a, b]"
  "opval st iMOD [a, b] = evalArith iMOD [a, b]"
  "opval st iSMOD [a, b] = evalArith iSMOD [a, b]"
  "opval st iEXP [a, b] = evalArith iEXP [a, b]"
  "opval st iNOT [a] = evalArith iNOT [a]"
  "opval st iLT [a, b] = evalArith iLT [a, b]"
  "opval st iGT [a, b] = evalArith iGT [a, b]"
  "opval st iSLT [a, b] = evalArith iSLT [a, b]"
  "opval st iSGT [a, b] = evalArith iSGT [a, b]"
  "opval st iEQ [a, b] = evalArith iEQ [a, b]"
  "opval st iISZERO [a] = evalArith iISZERO [a]"
  "opval st iAND [a, b] = evalArith iAND [a, b]"
  "opval st iOR [a, b] = evalArith iOR [a, b]"
  "opval st iXOR [a, b] = evalArith iXOR [a, b]"
  "opval st iBYTE [a, b] = evalArith iBYTE [a, b]"
  "opval st iSHL [a, b] = evalArith iSHL [a, b]"
  "opval st iSHR [a, b] = evalArith iSHR [a, b]"
  "opval st iSAR [a, b] = evalArith iSAR [a, b]"
  "opval st iADDMOD [a, b, c] = evalArith iADDMOD [a, b, c]"
  "opval st iMULMOD [a, b, c] = evalArith iMULMOD [a, b, c]"
  "opval st iSIGNEXTEND [a, b] = evalArith iSIGNEXTEND [a, b]"
  by (rule opval_arith; simp add: instructionInfo_rules InstructionInfo.defs evalArith_def)+

lemma opval_nullary:
  "opval st iADDRESS [] = Some (ucast (st_address st))" "opval st iCALLER [] = Some (ucast (st_caller st))"
  "opval st iORIGIN [] = Some (ucast (st_origin st))" "opval st iCOINBASE [] = Some (ucast (st_coinbase st))"
  "opval st iCREATE [] = None" "opval st iCREATE2 [] = None"
  by (simp_all add: opval_def svm_eval_def evalArith_def evalBlockchain_def instructionInfo_rules InstructionInfo.defs)

lemma evalArith_simps [simp]:
  "evalArith iADD [a, b] = Some (a + b)"
  "evalArith iMUL [a, b] = Some (a * b)"
  "evalArith iSUB [a, b] = Some (a - b)"
  "evalArith iDIV [a, b] = Some (if b = 0 then 0 else a div b)"
  "evalArith iSDIV [a, b] = Some (if b = 0 then 0 else s2u (u2s a sdiv u2s b))"
  "evalArith iMOD [a, b] = Some (if b = 0 then 0 else a mod b)"
  "evalArith iSMOD [a, b] = Some (if b = 0 then 0 else s2u (u2s a smod u2s b))"
  "evalArith iEXP [a, b] = Some (exp256 a b)"
  "evalArith iNOT [a] = Some (NOT a)"
  "evalArith iLT [a, b] = Some (if a < b then 1 else 0)"
  "evalArith iGT [a, b] = Some (if a > b then 1 else 0)"
  "evalArith iSLT [a, b] = Some (if u2s a < u2s b then 1 else 0)"
  "evalArith iSGT [a, b] = Some (if u2s a > u2s b then 1 else 0)"
  "evalArith iEQ [a, b] = Some (if a = b then 1 else 0)"
  "evalArith iISZERO [a] = Some (if a = 0 then 1 else 0)"
  "evalArith iAND [a, b] = Some (a AND b)"
  "evalArith iOR [a, b] = Some (a OR b)"
  "evalArith iXOR [a, b] = Some (a XOR b)"
  "evalArith iBYTE [a, b] = Some (svm_byte a b)"
  "evalArith iSHL [a, b] = Some (if 255 < a then 0 else push_bit (unat a) b)"
  "evalArith iSHR [a, b] = Some (if 255 < a then 0 else drop_bit (unat a) b)"
  "evalArith iSAR [a, b] = Some (svm_sar a b)"
  "evalArith iADDMOD [a, b, c] = Some (svm_addmod a b c)"
  "evalArith iMULMOD [a, b, c] = Some (svm_mulmod a b c)"
  "evalArith iSIGNEXTEND [a, b] = Some (svm_signextend a b)"
  by (simp_all add: evalArith_def)

lemma sdiv_nonneg: "0 \<le> a \<Longrightarrow> 0 \<le> b \<Longrightarrow> a sdiv b = a div (b::int)"
proof -
  assume "0 \<le> a" "0 \<le> b"
  then show ?thesis by (cases "a = 0"; cases "b = 0") (simp_all add: signed_divide_int_def)
qed

lemma smod_nonneg: "0 \<le> a \<Longrightarrow> 0 \<le> b \<Longrightarrow> a smod b = a mod (b::int)"
  by (cases "a = 0") (simp_all add: signed_modulo_int_def)

lemma word_constants:
  "word_of_int (divWorkaround (uint a) (uint b)) = (a :: u256) div b"
  "word_of_int (modWorkaround (uint a) (uint b)) = a mod b"
  "s2u (divWorkaround (u2s a) (u2s b)) = s2u (u2s a sdiv u2s b)"
  "s2u (modWorkaround (u2s a) (u2s b)) = s2u (u2s a smod u2s b)"
  by (simp_all add: divWorkaround_def sdiv_nonneg word_div_def modWorkaround_def smod_nonneg word_mod_def)

lemma shlWorkaround_push_bit: "shlWorkaround x n = push_bit n x"
  by (rule bit_word_eqI) (simp add: shlWorkaround_def bit_simps)

lemma powm_word: "word_of_int (powm (uint a) n (2 ^ 256)) = (a :: u256) ^ n"
proof -
  have "(word_of_int (k mod 2 ^ 256) :: u256) = word_of_int k" for k
    unfolding take_bit_eq_mod [symmetric] by (rule bit_word_eqI) (simp add: bit_simps)
  then show ?thesis by (simp only: powm_def of_int_power word_of_int_uint)
qed

lemma byte_shift: "\<not> 32 \<le> (a :: u256) \<Longrightarrow> unat (8 * (31 - a)) = 8 * (31 - unat a)"
proof -
  assume "\<not> 32 \<le> a"
  then have a: "unat a \<le> 31" by (simp add: word_le_nat_alt)
  then have "unat (31 - a) = 31 - unat a" by (simp add: unat_sub word_le_nat_alt)
  then have "unat (8 * (31 - a)) = (8 * (31 - unat a)) mod 2 ^ 256"
    unfolding unat_word_ariths(2) by simp
  also have "\<dots> = 8 * (31 - unat a)" by (rule mod_less) simp
  finally show ?thesis .
qed

lemma modular_words:
  "word_of_int ((uint a + uint b) mod uint c) = (of_nat ((unat a + unat b) mod unat c) :: u256)"
  "word_of_int ((uint a * uint b) mod uint c) = (of_nat ((unat a * unat b) mod unat c) :: u256)"
proof -
  have "int ((unat a + unat b) mod unat c) = (uint a + uint b) mod uint c"
    "int ((unat a * unat b) mod unat c) = (uint a * uint b) mod uint c"
    by (simp_all add: zmod_int)
  then show "word_of_int ((uint a + uint b) mod uint c) = (of_nat ((unat a + unat b) mod unat c) :: u256)"
    "word_of_int ((uint a * uint b) mod uint c) = (of_nat ((unat a * unat b) mod unat c) :: u256)"
    by (metis of_int_of_nat_eq)+
qed

lemmas part1_words = word_constants shlWorkaround_push_bit powm_word [simplified] byte_shift [simplified]
  modular_words exp256_power svm_byte_def svm_addmod_def svm_mulmod_def svm_signextend_def

lemma part1_sound:
  "list_all rule_sound (take 21 (simplificationRuleListPart1 (placeholder 1) (placeholder 2) (placeholder 3)))"
  by (simp add: simplificationRuleListPart1_def rule_sound_def part1_words Let_def)

lemma part1_sound':
  "list_all rule_sound (drop 22 (simplificationRuleListPart1 (placeholder 1) (placeholder 2) (placeholder 3)))"
  by (simp add: simplificationRuleListPart1_def rule_sound_def part1_words Let_def)

lemma xor_cancel:
  "a XOR (x XOR a) = (x :: u256)" "(a XOR x) XOR a = x" "(x XOR a) XOR a = x" "a XOR (a XOR x) = x"
  by (rule bit_word_eqI; auto simp: bit_simps)+

lemma s256_trivial:
  "s2u (u2s 0 sdiv u2s x) = 0" "s2u (u2s x sdiv u2s 1) = x"
proof -
  have "u2s 0 = 0" "u2s 1 = 1" "s2u 0 = 0" by (simp_all add: u2s_sint s2u_def)
  moreover have "y sdiv 1 = y" for y :: int by (simp add: signed_divide_int_def sgn_mult_abs)
  ultimately show "s2u (u2s 0 sdiv u2s x) = 0" "s2u (u2s x sdiv u2s 1) = x"
    by (simp_all add: signed_divide_int_def)
qed

lemma part2_sound: "list_all rule_sound (simplificationRuleListPart2 (placeholder 4) (placeholder 5))"
  by (simp add: simplificationRuleListPart2_def rule_sound_def part1_words Let_def s256_trivial word_gt_0)

lemma part3_sound: "list_all rule_sound (simplificationRuleListPart3 (placeholder 4))"
  by (simp add: simplificationRuleListPart3_def rule_sound_def)

lemma part4_sound: "list_all rule_sound (simplificationRuleListPart4 (placeholder 4) (placeholder 5))"
  by (simp add: simplificationRuleListPart4_def rule_sound_def xor_cancel)


lemma push_bit_ge: "256 \<le> n \<Longrightarrow> push_bit n (x :: u256) = 0"
  by (rule bit_word_eqI) (simp add: bit_simps)

lemma drop_bit_ge: "256 \<le> n \<Longrightarrow> drop_bit n (x :: u256) = 0"
  by (rule bit_word_eqI) (auto simp: bit_simps dest: bit_imp_le_length)

lemma shift_guard:
  "(if 255 < a then 0 else push_bit (unat a) x) = push_bit (unat (a :: u256)) (x :: u256)"
  "(if 255 < a then 0 else drop_bit (unat a) x) = drop_bit (unat (a :: u256)) (x :: u256)"
  by (simp_all add: push_bit_ge drop_bit_ge word_less_nat_alt)

lemma evalArith_shift:
  "evalArith iSHL [a, b] = Some (push_bit (unat a) b)"
  "evalArith iSHR [a, b] = Some (drop_bit (unat a) b)"
  using shift_guard [of a b] by simp_all

lemma opval_shift:
  "opval st iSHL [a, b] = Some (push_bit (unat a) b)" "opval st iSHR [a, b] = Some (drop_bit (unat a) b)"
  by (simp_all only: opval_simps evalArith_shift)

lemma mod_power_of_two: "i < 256 \<Longrightarrow> (a :: u256) mod push_bit i 1 = a AND (push_bit i 1 - 1)"
  by (simp add: push_bit_eq_mult mask_eq_exp_minus_1 [symmetric] take_bit_eq_mask [symmetric]
      take_bit_eq_mod [symmetric])

lemma and_power_of_two: "i < 256 \<Longrightarrow> (a :: u256) AND 2 ^ i - 1 = a mod 2 ^ i"
  using mod_power_of_two [of i a] by (simp add: push_bit_eq_mult)

lemma xor_eq_0: "(x :: u256) XOR y = 0 \<longleftrightarrow> x = y"
  using xor_cancel(3) [of x y] by auto

lemma low_bits: "(v :: u256) < push_bit 160 1 \<Longrightarrow> v AND (push_bit 160 1 - 1) = v"
proof -
  assume "v < push_bit 160 1"
  then have "unat v < 2 ^ 160" by (simp add: word_less_nat_alt push_bit_eq_mult)
  then have "take_bit 160 v = v"
    by (simp add: word_unat_eq_iff unsigned_take_bit_eq take_bit_nat_eq_self)
  moreover have "v AND (push_bit 160 1 - 1) = take_bit 160 v"
    unfolding push_bit_eq_mult take_bit_eq_mask mask_eq_exp_minus_1 by simp
  ultimately show ?thesis by simp
qed

text \<open>
  The rules that mask the results of \<open>CREATE\<close> and \<open>CREATE2\<close> have these without their operands, in the pattern
  and in the replacement.
\<close>

definition createPatterns :: "Pattern set" where
  "createPatterns =
     {POp iAND [POp iCREATE [], PConst (push_bit 160 1 - 1)], POp iAND [PConst (push_bit 160 1 - 1), POp iCREATE []],
      POp iAND [POp iCREATE2 [], PConst (push_bit 160 1 - 1)], POp iAND [PConst (push_bit 160 1 - 1), POp iCREATE2 []]}"

lemma address_bound: "(ucast (a :: u160) :: u256) < push_bit 160 1"
  using unsigned_less [of a, where 'a=nat]
  by (simp add: word_less_nat_alt push_bit_eq_mult unsigned_ucast_eq take_bit_nat_eq_self)

lemma part5_sound: "list_all (\<lambda>r. rule_sound r \<or> r_pattern r \<in> createPatterns) (simplificationRuleListPart5 (placeholder 1) (placeholder 4))"
proof -
  have "rule_sound (rule (POp iMOD [placeholder 4, PConst (push_bit i 1)])
      (\<lambda>m. POp iAND [placeholder 4, PConst (push_bit i 1 - 1)]) False)" if "i < 256" for i
  proof -
    have "push_bit i (1 :: u256) \<noteq> 0" using that by (simp add: push_bit_eq_mult)
    then show ?thesis using that by (simp add: rule_sound_def and_power_of_two)
  qed
  moreover have "rule_sound (rule_if (POp iSHL [placeholder 1, placeholder 4]) (\<lambda>m. PConst 0) True
      (\<lambda>m. 256 \<le> m 1))" "rule_sound (rule_if (POp iSHR [placeholder 1, placeholder 4]) (\<lambda>m. PConst 0) True
      (\<lambda>m. 256 \<le> m 1))"
    by (simp_all add: rule_sound_def evalArith_shift push_bit_ge drop_bit_ge word_le_nat_alt
        del: evalArith_simps)
  moreover have "rule_sound (rule (POp iAND [POp op [], PConst (push_bit 160 1 - 1)]) (\<lambda>m. POp op []) False)"
    "rule_sound (rule (POp iAND [PConst (push_bit 160 1 - 1), POp op []]) (\<lambda>m. POp op []) False)"
    if "op \<in> {iADDRESS, iCALLER, iORIGIN, iCOINBASE}" for op
    using that low_bits [OF address_bound] low_bits [OF address_bound, unfolded and.commute [of _ "push_bit 160 1 - 1"]]
    by (auto simp: rule_sound_def opval_nullary)
  ultimately show ?thesis
    unfolding simplificationRuleListPart5_def by (simp add: list_all_iff Let_def createPatterns_def)
qed

lemma part6_sound: "list_all rule_sound (simplificationRuleListPart6 (placeholder 4) (placeholder 5))"
  by (simp add: simplificationRuleListPart6_def rule_sound_def xor_eq_0)

lemma part8_sound: "list_all rule_sound (simplificationRuleListPart8 (placeholder 1) (placeholder 4) (placeholder 5))"
  by (simp add: simplificationRuleListPart8_def rule_sound_def)


lemma associativeRules_sound:
  assumes "(op, f) \<in> set [(iADD, (+)), (iMUL, (*)), (iAND, (AND)), (iOR, (OR)), (iXOR, (XOR))]"
  shows "list_all rule_sound
    (associativeRules (placeholder 1) (placeholder 2) (placeholder 4) (placeholder 5) op f)"
proof -
  have "opval st op [a, b] = Some (f a b)" "f (f a b) c = f a (f b c)" "f a b = f b a" for st a b c
    using assms by (auto simp: ac_simps)
  note eval = this
  have left: "f a (f b c) = f b (f a c)" for a b c
    using eval(2) [of a b c] eval(2) [of b a c] eval(3) [of a b] by simp
  show ?thesis
    unfolding associativeRules_def rule_sound_def
    using eval(3) left by (simp add: eval(1,2) del: evalArith_simps)
qed

lemma unat_sub_less: "(b :: u256) < a \<Longrightarrow> unat (a - b) = unat a - unat b"
  by (simp add: unat_sub less_imp_le)

lemma opposite_shifts:
  "a < b \<Longrightarrow> drop_bit b (push_bit a x) = drop_bit (b - a) x AND drop_bit b (push_bit a (- 1 :: u256))"
  "b < a \<Longrightarrow> drop_bit b (push_bit a x) = push_bit (a - b) x AND drop_bit b (push_bit a (- 1 :: u256))"
  "drop_bit a (push_bit a x) = x AND drop_bit a (push_bit a (- 1 :: u256))"
  "a < b \<Longrightarrow> push_bit b (drop_bit a x) = push_bit (b - a) x AND push_bit b (drop_bit a (- 1 :: u256))"
  "b < a \<Longrightarrow> push_bit b (drop_bit a x) = drop_bit (a - b) x AND push_bit b (drop_bit a (- 1 :: u256))"
  "push_bit a (drop_bit a x) = x AND push_bit a (drop_bit a (- 1 :: u256))"
  by (rule bit_word_eqI; auto simp: bit_simps algebra_simps dest: bit_imp_le_length)+

lemma shift_and:
  "push_bit n (x AND a) = push_bit n x AND push_bit n (a :: u256)"
  "drop_bit n (x AND a) = drop_bit n x AND drop_bit n (a :: u256)"
  by (rule bit_word_eqI; auto simp: bit_simps)+

lemma covering_mask:
  "(a AND drop_bit n (- 1)) = drop_bit n (- 1) \<Longrightarrow> a AND drop_bit n x = drop_bit n (x :: u256)"
proof (rule bit_word_eqI)
  fix k
  assume a: "(a AND drop_bit n (- 1)) = drop_bit n (- 1 :: u256)" and "k < LENGTH(256)"
  have "bit (a AND drop_bit n (- 1)) k \<longleftrightarrow> bit (drop_bit n (- 1 :: u256)) k"
    by (simp only: a)
  then have "bit a k" if "n + k < 256"
    using that unfolding bit_and_iff bit_drop_bit_eq comp_def by simp
  then show "bit (a AND drop_bit n x) k = bit (drop_bit n x) k"
    by (auto simp: bit_simps dest: bit_imp_le_length)
qed


lemma shiftOfShift_sound:
  "rule_sound (shiftOfShift iSHL (placeholder 1) (placeholder 2) (placeholder 4))"
  "rule_sound (shiftOfShift iSHR (placeholder 1) (placeholder 2) (placeholder 4))"
proof -
  have total: "unat (word_of_int (uint a + uint b) :: u256) = unat a + unat b"
    if "\<not> 256 \<le> uint a + uint b" for a b :: u256
  proof -
    have "(word_of_int (uint a + uint b) :: u256) = of_nat (unat a + unat b)"
      by simp
    moreover have "unat a + unat b < 256"
      using that by (metis not_le of_nat_add of_nat_le_iff of_nat_numeral uint_nat)
    ultimately show ?thesis by (simp only: unat_of_nat) simp
  qed
  have big: "256 \<le> unat a + unat b" if "256 \<le> uint a + uint b" for a b :: u256
    using that by (metis of_nat_add of_nat_le_iff of_nat_numeral uint_nat)
  show "rule_sound (shiftOfShift iSHL (placeholder 1) (placeholder 2) (placeholder 4))"
    "rule_sound (shiftOfShift iSHR (placeholder 1) (placeholder 2) (placeholder 4))"
    by (auto simp: shiftOfShift_def rule_sound_def evalArith_shift Let_def push_bit_push_bit
        drop_bit_drop_bit total push_bit_ge drop_bit_ge add.commute big simp del: evalArith_simps(20,21)
        of_int_add)
qed

lemma oppositeShift_right:
  "drop_bit (unat b) (push_bit (unat (a :: u256)) x) =
     (if b < a then push_bit (unat (a - b)) x AND drop_bit (unat b) (push_bit (unat a) (- 1))
      else if a < b then drop_bit (unat (b - a)) x AND drop_bit (unat b) (push_bit (unat a) (- 1))
      else x AND drop_bit (unat b) (push_bit (unat a) (- 1 :: u256)))"
proof (cases a b rule: linorder_cases)
  case less
  then show ?thesis
    using opposite_shifts(1) [of "unat a" "unat b" x]
    by (simp only: unat_sub_less [OF less] less [unfolded word_less_nat_alt] less_not_sym [OF less] less if_True if_False)
next
  case equal
  then show ?thesis
    by (simp only: opposite_shifts(3) [of _ x] less_irrefl if_False)
next
  case greater
  then show ?thesis
    using opposite_shifts(2) [of "unat b" "unat a" x]
    by (simp only: unat_sub_less [OF greater] greater [unfolded word_less_nat_alt] less_not_sym [OF greater] greater if_True if_False)
qed

lemma oppositeShift_left:
  "push_bit (unat b) (drop_bit (unat (a :: u256)) x) =
     (if b < a then drop_bit (unat (a - b)) x AND push_bit (unat b) (drop_bit (unat a) (- 1))
      else if a < b then push_bit (unat (b - a)) x AND push_bit (unat b) (drop_bit (unat a) (- 1))
      else x AND push_bit (unat b) (drop_bit (unat a) (- 1 :: u256)))"
proof (cases a b rule: linorder_cases)
  case less
  then show ?thesis
    using opposite_shifts(4) [of "unat a" "unat b" x]
    by (simp only: unat_sub_less [OF less] less [unfolded word_less_nat_alt] less_not_sym [OF less] less if_True if_False)
next
  case equal
  then show ?thesis
    by (simp only: opposite_shifts(6) [of _ x] less_irrefl if_False)
next
  case greater
  then show ?thesis
    using opposite_shifts(5) [of "unat b" "unat a" x]
    by (simp only: unat_sub_less [OF greater] greater [unfolded word_less_nat_alt] less_not_sym [OF greater] greater if_True if_False)
qed

lemma oppositeShift_sound:
  assumes "\<And>st a x. opval st inner [a, x] = Some (y a x)" "\<And>st b x. opval st outer [b, x] = Some (w b x)"
    and "\<And>m x. w (m 2) (y (m 1) x) =
      (if m 2 < m 1 then y (m 1 - m 2) x AND maskOf m
       else if m 1 < m 2 then w (m 2 - m 1) x AND maskOf m else x AND maskOf (m :: matches))"
  shows "rule_sound (oppositeShift maskOf outer inner (placeholder 1) (placeholder 2) (placeholder 4))"
  unfolding oppositeShift_def rule_sound_def Let_def
  using assms by auto

lemma oppositeShifts_sound:
  "rule_sound (oppositeShift (\<lambda>m. drop_bit (unat (m 2)) (shlWorkaround (- 1) (unat (m 1))))
     iSHR iSHL (placeholder 1) (placeholder 2) (placeholder 4))"
  "rule_sound (oppositeShift (\<lambda>m. shlWorkaround (drop_bit (unat (m 1)) (- 1)) (unat (m 2)))
     iSHL iSHR (placeholder 1) (placeholder 2) (placeholder 4))"
  unfolding shlWorkaround_push_bit
  by (rule oppositeShift_sound; (rule opval_shift oppositeShift_left oppositeShift_right))+

lemma maskOfShift_sound:
  "shiftOp \<in> {iSHL, iSHR} \<Longrightarrow>
     rule_sound (rule_if (POp shiftOp [placeholder 2, POp iAND [placeholder 4, placeholder 1]])
       (\<lambda>m. maskOfShift shiftOp (placeholder 1) (placeholder 2) m (placeholder 4)) False (\<lambda>m. m 2 < 256)) \<and>
     rule_sound (rule_if (POp shiftOp [placeholder 2, POp iAND [placeholder 1, placeholder 4]])
       (\<lambda>m. maskOfShift shiftOp (placeholder 1) (placeholder 2) m (placeholder 4)) False (\<lambda>m. m 2 < 256))"
  by (auto simp: rule_sound_def maskOfShift_def Let_def evalArith_shift shlWorkaround_push_bit shift_and
      and.commute simp del: evalArith_simps(20,21))

lemma mul_shift: "x * push_bit n 1 = push_bit n (x :: u256)" "push_bit n 1 * x = push_bit n (x :: u256)"
  by (simp_all add: push_bit_eq_mult)

lemma div_shift: "(if push_bit n 1 = (0 :: u256) then 0 else x div push_bit n 1) = drop_bit n (x :: u256)"
proof (cases "n < 256")
  case True
  then have "push_bit n (1 :: u256) \<noteq> 0" by (simp add: push_bit_eq_mult)
  then show ?thesis by (simp add: drop_bit_eq_div push_bit_eq_mult)
next
  case False
  then show ?thesis by (simp add: push_bit_ge drop_bit_ge)
qed

lemma part7_tail_sound:
  "rule_sound (rule (POp iMUL [placeholder 4, POp iSHL [placeholder 5, PConst 1]])
     (\<lambda>m. POp iSHL [placeholder 5, placeholder 4]) False)"
  "rule_sound (rule (POp iMUL [POp iSHL [placeholder 4, PConst 1], placeholder 5])
     (\<lambda>m. POp iSHL [placeholder 4, placeholder 5]) False)"
  "rule_sound (rule (POp iDIV [placeholder 4, POp iSHL [placeholder 5, PConst 1]])
     (\<lambda>m. POp iSHR [placeholder 5, placeholder 4]) False)"
  "rule_sound (rule_if (POp iAND [placeholder 1, POp iSHR [placeholder 2, placeholder 4]])
     (\<lambda>m. POp iSHR [placeholder 2, placeholder 4]) False (shiftMaskFeasible (placeholder 1) (placeholder 2)))"
  "rule_sound (rule_if (POp iAND [POp iSHR [placeholder 2, placeholder 4], placeholder 1])
     (\<lambda>m. POp iSHR [placeholder 2, placeholder 4]) False (shiftMaskFeasible (placeholder 1) (placeholder 2)))"
  by (simp_all add: rule_sound_def evalArith_shift mul_shift div_shift shiftMaskFeasible_def Let_def
      covering_mask and.commute [of "drop_bit _ _"] del: evalArith_simps(20,21) push_bit_eq_0_iff split: if_split)
    (simp_all add: push_bit_eq_mult drop_bit_eq_div mult.commute)


lemma part7_sound:
  "list_all rule_sound (simplificationRuleListPart7 (placeholder 1) (placeholder 2) (placeholder 4) (placeholder 5))"
  unfolding simplificationRuleListPart7_def
  using associativeRules_sound shiftOfShift_sound oppositeShifts_sound maskOfShift_sound [of iSHL]
    maskOfShift_sound [of iSHR] part7_tail_sound
  by simp

section \<open>The order of the operands\<close>

text \<open>The arbitrary expressions of a pattern, from left to right.\<close>

fun pattern_vars :: "Pattern \<Rightarrow> nat list" where
  "pattern_vars (Pattern ty req i dat args g) =
     (if g \<noteq> 0 then (if ty = UndefinedItem then [g] else []) else concat (map pattern_vars args))"

definition keeps_operands :: "SimplificationRule \<Rightarrow> bool" where
  "keeps_operands r \<longleftrightarrow>
     (\<forall>m. r_feasible r m \<longrightarrow> pattern_vars (r_action r m) = pattern_vars (r_pattern r))"

definition reorderingPatterns :: "Pattern set" where
  "reorderingPatterns =
     {POp iMUL [placeholder 4, POp iSHL [placeholder 5, PConst 1]],
      POp iDIV [placeholder 4, POp iSHL [placeholder 5, PConst 1]]}"

definition operands_ok :: "SimplificationRule \<Rightarrow> bool" where
  "operands_ok r \<longleftrightarrow>
     r_removesNonConstants r \<or> keeps_operands r \<or> r_pattern r \<in> reorderingPatterns"

lemma pattern_vars_simps [simp]:
  "pattern_vars (PConst v) = []"
  "pattern_vars (POp i args) = concat (map pattern_vars args)"
  "g \<noteq> 0 \<Longrightarrow> pattern_vars (placeholder g) = (if g \<le> 3 then [] else [g])"
  by (simp_all add: PConst_def POp_def placeholder_def PType_def)

lemma operands_part7_rules:
  "list_all operands_ok (associativeRules (placeholder 1) (placeholder 2) (placeholder 4) (placeholder 5) op f)"
  "operands_ok (shiftOfShift op (placeholder 1) (placeholder 2) (placeholder 4))"
  "operands_ok (oppositeShift maskOf outer inner (placeholder 1) (placeholder 2) (placeholder 4))"
  by (simp_all add: associativeRules_def shiftOfShift_def oppositeShift_def operands_ok_def
      keeps_operands_def Let_def)

lemma operands_parts:
  "list_all operands_ok (simplificationRuleListPart1 (placeholder 1) (placeholder 2) (placeholder 3))"
  "list_all operands_ok (simplificationRuleListPart2 (placeholder 4) (placeholder 5))"
  "list_all operands_ok (simplificationRuleListPart3 (placeholder 4))"
  "list_all operands_ok (simplificationRuleListPart4 (placeholder 4) (placeholder 5))"
  "list_all operands_ok (simplificationRuleListPart5 (placeholder 1) (placeholder 4))"
  "list_all operands_ok (simplificationRuleListPart6 (placeholder 4) (placeholder 5))"
  "list_all operands_ok (simplificationRuleListPart7 (placeholder 1) (placeholder 2) (placeholder 4) (placeholder 5))"
  "list_all operands_ok (simplificationRuleListPart8 (placeholder 1) (placeholder 4) (placeholder 5))"
proof -
  show "list_all operands_ok (simplificationRuleListPart5 (placeholder 1) (placeholder 4))"
    by (simp add: simplificationRuleListPart5_def operands_ok_def keeps_operands_def Let_def list_all_iff)
  show "list_all operands_ok (simplificationRuleListPart7 (placeholder 1) (placeholder 2) (placeholder 4) (placeholder 5))"
    unfolding simplificationRuleListPart7_def
    using operands_part7_rules
    by (simp add: operands_ok_def keeps_operands_def maskOfShift_def Let_def reorderingPatterns_def)
qed (simp_all add: simplificationRuleListPart1_def simplificationRuleListPart2_def
    simplificationRuleListPart3_def simplificationRuleListPart4_def simplificationRuleListPart6_def
    simplificationRuleListPart8_def operands_ok_def keeps_operands_def)

section \<open>Properties\<close>

lemma length_part1: "length (simplificationRuleListPart1 A B C) = 25"
  by (simp add: simplificationRuleListPart1_def)

text \<open>
  C4: every rule of the list is sound, but for the one at position 21 and the four that mask the result of a
  \<open>CREATE\<close> or \<open>CREATE2\<close>: for all values of the matched expressions for which it is feasible, and in every
  state, pattern and replacement have a value in the interpreter, the same word.
\<close>

theorem rules_sound:
  "list_all (\<lambda>r. rule_sound r \<or> r_pattern r \<in> createPatterns) (take 21 theRules @ drop 22 theRules)"
proof -
  have "list_all rule_sound rs \<Longrightarrow> list_all (\<lambda>r. rule_sound r \<or> r_pattern r \<in> createPatterns) rs" for rs
    by (auto simp: list_all_iff)
  note weaken = this
  show ?thesis
    using weaken [OF part1_sound] weaken [OF part1_sound'] weaken [OF part2_sound] weaken [OF part3_sound]
      weaken [OF part4_sound] part5_sound weaken [OF part6_sound] weaken [OF part7_sound] weaken [OF part8_sound]
    by (simp add: theRules_def simplificationRuleList_def length_part1)
qed

text \<open>
  The four rules are in the list, always feasible, and their replacement is an instruction without the operands
  it needs, so it has no value.
\<close>

lemma create_rules_drop_operands:
  "\<forall>p \<in> createPatterns. \<exists>r \<in> set theRules. r_pattern r = p \<and>
     (\<forall>m. r_feasible r m \<and> (\<exists>op \<in> {iCREATE, iCREATE2}. r_action r m = POp op [] \<and> 3 \<le> info_args (instructionInfo op)) \<and>
       peval st m (r_action r m) = None)"
proof -
  have part: "set (simplificationRuleListPart5 (placeholder 1) (placeholder 4)) \<subseteq> set theRules"
    by (auto simp: theRules_def simplificationRuleList_def)
  have one: "\<exists>r \<in> set theRules. r_pattern r = p \<and>
     (\<forall>m. r_feasible r m \<and> (\<exists>op \<in> {iCREATE, iCREATE2}. r_action r m = POp op [] \<and> 3 \<le> info_args (instructionInfo op)) \<and>
       peval st m (r_action r m) = None)"
    if op: "op \<in> {iCREATE, iCREATE2}"
      and p: "p = POp iAND [POp op [], PConst (push_bit 160 1 - 1)] \<or> p = POp iAND [PConst (push_bit 160 1 - 1), POp op []]" for op p
  proof -
    have "rule p (\<lambda>m. POp op []) False \<in> set theRules"
      by (rule subsetD [OF part], use op p in \<open>auto simp: simplificationRuleListPart5_def Let_def\<close>)
    moreover have "3 \<le> info_args (instructionInfo op)" "peval st m (POp op []) = None" for m
      using op by (auto simp: instructionInfo_rules InstructionInfo.defs opval_nullary)
    ultimately show ?thesis using op by (intro bexI [of _ "rule p (\<lambda>m. POp op []) False"]) auto
  qed
  show ?thesis unfolding createPatterns_def using one [of iCREATE] one [of iCREATE2] by simp
qed

text \<open>
  C20: the rule at position 21, the second one for \<open>MULMOD\<close> of constants, is unsound,
  but its pattern is that of the rule before it, which is always feasible: the first
  match never reaches it.
\<close>

theorem unsound_rule_shadowed:
  "\<not> rule_sound (theRules ! 21) \<and> r_pattern (theRules ! 21) = r_pattern (theRules ! 20) \<and>
   (\<forall>m. r_feasible (theRules ! 20) m)"
proof -
  have r: "theRules ! 21 = rule (POp iMULMOD [placeholder 1, placeholder 2, placeholder 3])
      (\<lambda>m. PConst (m 1 * m 2)) False"
    and s: "r_pattern (theRules ! 20) = POp iMULMOD [placeholder 1, placeholder 2, placeholder 3]"
      "r_feasible (theRules ! 20) m" for m
    by (simp_all add: theRules_def simplificationRuleList_def simplificationRuleListPart1_def nth_append)
  have "\<not> rule_sound (theRules ! 21)"
    unfolding r rule_sound_def
    by (simp add: svm_mulmod_def)
      (intro conjI exI [of _ "\<lambda>g. if g = 3 then 0 else 1"]; simp)
  with r s show ?thesis by simp
qed

text \<open>
  C21: a rule that is not marked as removing non-constant expressions keeps the
  arbitrary expressions of its pattern, in their order, except for the two rules that
  turn a multiplication or a division by a shifted one into a shift.
\<close>

theorem rules_keep_operands: "list_all operands_ok theRules"
  using operands_parts by (simp add: theRules_def simplificationRuleList_def)

text \<open>These two rules are in the list, are not marked, and swap their two operands.\<close>

theorem rules_swap_operands:
  "\<forall>p \<in> reorderingPatterns. \<exists>r \<in> set theRules. r_pattern r = p \<and> \<not> r_removesNonConstants r \<and>
     (\<forall>m. pattern_vars (r_action r m) = rev (pattern_vars p) \<and> pattern_vars p = [4, 5])"
proof -
  have "rule (POp iMUL [placeholder 4, POp iSHL [placeholder 5, PConst 1]])
      (\<lambda>m. POp iSHL [placeholder 5, placeholder 4]) False \<in> set theRules"
    "rule (POp iDIV [placeholder 4, POp iSHL [placeholder 5, PConst 1]])
      (\<lambda>m. POp iSHR [placeholder 5, placeholder 4]) False \<in> set theRules"
    by (simp_all add: theRules_def simplificationRuleList_def simplificationRuleListPart7_def)
  then show ?thesis unfolding reorderingPatterns_def by (force intro: bexI [rotated])
qed

theorem rules_swap_operands_witness:
  "\<exists>r \<in> set theRules. r_pattern r = POp iDIV [placeholder 4, POp iSHL [placeholder 5, PConst 1]] \<and>
     \<not> r_removesNonConstants r"
proof -
  have "POp iDIV [placeholder 4, POp iSHL [placeholder 5, PConst 1]] \<in> reorderingPatterns"
    by (simp add: reorderingPatterns_def)
  then show ?thesis using rules_swap_operands by blast
qed

end
