(* ===== verification/Item_Machine.thy ===== *)
theory Item_Machine
  imports Svm_Semantics
begin

text \<open>
  Execution of a list of assembly items, the level at which the optimiser's passes work:
  the items that remain to be executed, the stack (topmost element first) and the world
  the instructions act on.

  What single instructions do to the world is an argument, \<open>exec\<close>; \<open>svm_eval\<close> is one.
  The values the assembler fills in are an argument as well: \<open>link\<close> gives the word an item
  pushes, in particular the label of a tag for \<open>PushTag\<close>. A jump continues at the first
  tag with the label on the stack. So the execution depends on labels, not on byte
  offsets, and gas is not counted. \<open>PUSHn\<close> operations need immediate data, which an item
  does not carry: they fail.
\<close>

type_synonym 'w config = "AssemblyItems \<times> u256 list \<times> 'w"

datatype ('e, 'w) progress = Running "'w config" | Halted 'e 'w | Failed

type_synonym ('e, 'w) exec = "instruction \<Rightarrow> u256 list \<Rightarrow> 'w \<Rightarrow> ('e option + u256) \<times> 'w"

fun find_tag :: "(AssemblyItem \<Rightarrow> u256) \<Rightarrow> AssemblyItems \<Rightarrow> u256 \<Rightarrow> AssemblyItems option" where
  "find_tag link [] v = None"
| "find_tag link (it # items) v =
     (if m_type it = Tag \<and> link it = v then Some (it # items) else find_tag link items v)"

definition jump_to ::
    "(AssemblyItem \<Rightarrow> u256) \<Rightarrow> AssemblyItems \<Rightarrow> u256 \<Rightarrow> u256 list \<Rightarrow> 'w \<Rightarrow> ('e, 'w) progress" where
  "jump_to link prog v stack w =
     (case find_tag link prog v of None \<Rightarrow> Failed | Some items \<Rightarrow> Running (items, stack, w))"

text \<open>
  An operation on the stack and the world. \<open>exec\<close> gives a value, an exception that halts
  the execution, or \<open>Inl None\<close> when the instruction is not executable.
\<close>

definition step_op ::
    "('e, 'w) exec \<Rightarrow> (AssemblyItem \<Rightarrow> u256) \<Rightarrow> AssemblyItems \<Rightarrow> instruction \<Rightarrow> 'w config \<Rightarrow>
     ('e, 'w) progress" where
  "step_op exec link prog i = (\<lambda>(items, stack, w).
     if isPushInstruction i then Failed
     else if isDupInstruction i then
       (let n = unat (getDupNumber i)
        in if length stack < n then Failed else Running (items, stack ! (n - 1) # stack, w))
     else if isSwapInstruction i then
       (let n = unat (getSwapNumber i)
        in if length stack < Suc n then Failed
           else Running (items, stack[0 := stack ! n, n := stack ! 0], w))
     else if i = iJUMP then
       (case stack of v # stack \<Rightarrow> jump_to link prog v stack w | _ \<Rightarrow> Failed)
     else if i = iJUMPI then
       (case stack of
          v # c # stack \<Rightarrow>
            if c \<noteq> 0 then jump_to link prog v stack w else Running (items, stack, w)
        | _ \<Rightarrow> Failed)
     else if i = iJUMPDEST then Running (items, stack, w)
     else
       (let n = nat (info_args (instructionInfo i))
        in if length stack < n then Failed
           else (case exec i (take n stack) w of
                   (Inr v, w') \<Rightarrow>
                     Running (items, (if info_ret (instructionInfo i) = 1 then [v] else []) @ drop n stack, w')
                 | (Inl (Some e), w') \<Rightarrow> Halted e w'
                 | (Inl None, w') \<Rightarrow> Failed)))"

text \<open>Running off the end of the items halts with \<open>stop\<close>, as \<open>STOP\<close> does.\<close>

fun step ::
    "('e, 'w) exec \<Rightarrow> 'e \<Rightarrow> (AssemblyItem \<Rightarrow> u256) \<Rightarrow> AssemblyItems \<Rightarrow> 'w config \<Rightarrow> ('e, 'w) progress" where
  "step exec stop link prog ([], stack, w) = Halted stop w"
| "step exec stop link prog (it # items, stack, w) =
     (case m_type it of
        UndefinedItem \<Rightarrow> Failed
      | Operation \<Rightarrow> step_op exec link prog (m_instruction it) (items, stack, w)
      | Tag \<Rightarrow> Running (items, stack, w)
      | Push \<Rightarrow> Running (items, m_data it # stack, w)
      | _ \<Rightarrow> Running (items, link it # stack, w))"

primrec run ::
    "('e, 'w) exec \<Rightarrow> 'e \<Rightarrow> (AssemblyItem \<Rightarrow> u256) \<Rightarrow> AssemblyItems \<Rightarrow> nat \<Rightarrow> 'w config \<Rightarrow>
     ('e, 'w) progress" where
  "run exec stop link prog 0 c = Running c"
| "run exec stop link prog (Suc n) c =
     (case step exec stop link prog c of
        Running c' \<Rightarrow> run exec stop link prog n c'
      | Halted e w \<Rightarrow> Halted e w
      | Failed \<Rightarrow> Failed)"

text \<open>The repository's interpreter as \<open>exec\<close>.\<close>

definition svm_exec :: "(svm_exception, InterpreterState) exec" where
  "svm_exec i args st =
     (case svm_eval i args st of
        (Inr v, st') \<Rightarrow> (Inr v, st')
      | (Inl YulAssertion, st') \<Rightarrow> (Inl None, st')
      | (Inl e, st') \<Rightarrow> (Inl (Some e), st'))"

section \<open>Running in several stretches\<close>

lemma run_add:
  "run exec stop link prog (m + n) c =
     (case run exec stop link prog m c of
        Running c' \<Rightarrow> run exec stop link prog n c' | Halted e w \<Rightarrow> Halted e w | Failed \<Rightarrow> Failed)"
  by (induction m arbitrary: c) (auto split: progress.split)

lemma run_Running_add:
  "run exec stop link prog m c = Running c' \<Longrightarrow>
     run exec stop link prog (m + n) c = run exec stop link prog n c'"
  by (simp add: run_add)

lemma run_Halted_mono:
  "run exec stop link prog m c = Halted e w \<Longrightarrow> m \<le> n \<Longrightarrow> run exec stop link prog n c = Halted e w"
  using run_add [of exec stop link prog m "n - m" c] by simp

lemma run_Failed_mono:
  "run exec stop link prog m c = Failed \<Longrightarrow> m \<le> n \<Longrightarrow> run exec stop link prog n c = Failed"
  using run_add [of exec stop link prog m "n - m" c] by simp

section \<open>The interface the passes rely on\<close>

text \<open>
  What the optimiser assumes of the instructions: the arithmetic ones compute as
  specified and change nothing, those without side effects yield some value and change
  nothing.
\<close>

locale instruction_semantics =
  fixes exec :: "('e, 'w) exec"
  assumes exec_arith:
      "evalArith i args = Some v \<Longrightarrow> info_args (instructionInfo i) = int (length args) \<Longrightarrow>
         exec i args w = (Inr v, w)"
    and exec_pure:
      "\<not> info_sideEffects (instructionInfo i) \<Longrightarrow> isValidInstruction i \<Longrightarrow>
         \<not> isPushInstruction i \<Longrightarrow> \<not> isDupInstruction i \<Longrightarrow> \<not> isSwapInstruction i \<Longrightarrow>
         info_args (instructionInfo i) = int (length args) \<Longrightarrow> \<exists>v. exec i args w = (Inr v, w)"
    and exec_terminates:
      "terminatesControlFlowInstr i \<Longrightarrow> info_args (instructionInfo i) = int (length args) \<Longrightarrow>
         \<exists>e w'. exec i args w = (Inl e, w')"

lemma not_sideEffects_strict:
  assumes "\<not> info_sideEffects (instructionInfo i)" "isValidInstruction i"
    "\<not> isPushInstruction i" "\<not> isDupInstruction i" "\<not> isSwapInstruction i"
  shows "\<not> invalidInStrictAssembly i"
  using assms sideEffectInstructions [OF assms(1)] svm2_not_valid
  by (auto simp: invalidInStrictAssembly_def sideEffectInstructions_def)

lemma logThen_Inl: "\<exists>e. fst (logThen i args data st (Inl x)) = Inl e"
  by (simp add: logThen_def split: prod.split)

lemma logThen_pair: "\<exists>a. (\<exists>b. logThen i args data st (Inl x) = (a, b)) \<and> (\<exists>e. a = Inl e)"
  using logThen_Inl [of i args data st x] by (metis prod.collapse)

lemma terminating_Inl:
  assumes "terminatesControlFlowInstr i" "info_args (instructionInfo i) = int (length args)"
  shows "\<exists>e st'. svm_eval i args st = (Inl e, st')"
proof (cases "i = iSTOP")
  case True
  then show ?thesis using assms(2) by (simp add: svm_eval_def)
next
  case False
  then have i: "i \<in> {iRETURN, iREVERT, iINVALID, iSELFDESTRUCT}"
    using assms(1) by (auto simp: terminatesControlFlowInstr_def)
  then have "\<exists>r. evalCalls i args st = Some r \<and> (\<exists>e. fst r = Inl e)"
    by (auto simp: evalCalls_def split_beta Let_def logThen_pair)
  then obtain r e where "evalCalls i args st = Some r" "fst r = Inl e" by blast
  with terminating_first [OF i] assms(2) show ?thesis
    by (cases r) (simp add: svm_eval_def)
qed

interpretation svm: instruction_semantics svm_exec
proof
  fix i and args :: "u256 list" and v and st :: InterpreterState
  assume "evalArith i args = Some v" "info_args (instructionInfo i) = int (length args)"
  moreover from this(1) have "i \<noteq> iSTOP" by (auto simp: evalArith_def split: if_splits)
  ultimately show "svm_exec i args st = (Inr v, st)"
    by (simp add: svm_exec_def svm_eval_def)
next
  fix i and args :: "u256 list" and st :: InterpreterState
  assume "\<not> info_sideEffects (instructionInfo i)" "isValidInstruction i" "\<not> isPushInstruction i"
    "\<not> isDupInstruction i" "\<not> isSwapInstruction i" "info_args (instructionInfo i) = int (length args)"
  then obtain v where "svm_eval i args st = (Inr v, st)"
    using svm_eval_pure not_sideEffects_strict by blast
  then show "\<exists>v. svm_exec i args st = (Inr v, st)"
    by (simp add: svm_exec_def)
next
  fix i and args :: "u256 list" and st :: InterpreterState
  assume "terminatesControlFlowInstr i" "info_args (instructionInfo i) = int (length args)"
  then obtain e st' where "svm_eval i args st = (Inl e, st')" using terminating_Inl by blast
  then show "\<exists>e w'. svm_exec i args st = (Inl e, w')"
    by (cases e) (simp_all add: svm_exec_def)
qed


section \<open>Single steps\<close>

definition arithInstructions :: "instruction list" where
  "arithInstructions =
     [iADD, iMUL, iSUB, iDIV, iSDIV, iMOD, iSMOD, iEXP, iNOT, iLT, iGT, iSLT, iSGT, iEQ, iISZERO,
      iAND, iOR, iXOR, iBYTE, iSHL, iSHR, iSAR, iADDMOD, iMULMOD, iSIGNEXTEND]"

lemma evalArith_instructions: "evalArith i args \<noteq> None \<longleftrightarrow> i \<in> set arithInstructions"
  by (simp add: evalArith_def arithInstructions_def)

definition generic_op :: "instruction \<Rightarrow> bool" where
  "generic_op i \<longleftrightarrow>
     \<not> isPushInstruction i \<and> \<not> isDupInstruction i \<and> \<not> isSwapInstruction i \<and>
     i \<noteq> iJUMP \<and> i \<noteq> iJUMPI \<and> i \<noteq> iJUMPDEST"

lemma arith_generic:
  "list_all (\<lambda>i. generic_op i \<and> info_ret (instructionInfo i) = 1) arithInstructions"
  by (simp add: arithInstructions_def generic_op_def isPushInstruction_def isDupInstruction_def
      isSwapInstruction_def word_le_nat_alt instructionInfo_rules InstructionInfo.defs)

lemma evalArith_generic:
  assumes "evalArith i args = Some v"
  shows "generic_op i" "info_ret (instructionInfo i) = 1"
  using assms evalArith_instructions [of i args] arith_generic by (auto simp: list_all_iff)

lemma step_op_generic:
  assumes "generic_op i"
  shows "step_op exec link prog i (items, stack, w) =
    (let n = nat (info_args (instructionInfo i))
     in if length stack < n then Failed
        else (case exec i (take n stack) w of
                (Inr v, w') \<Rightarrow>
                  Running (items, (if info_ret (instructionInfo i) = 1 then [v] else []) @ drop n stack, w')
              | (Inl (Some e), w') \<Rightarrow> Halted e w'
              | (Inl None, w') \<Rightarrow> Failed))"
  using assms by (simp add: generic_op_def step_op_def)

lemma step_is_op:
  "is_op it i \<Longrightarrow> step exec stop link prog (it # items, stack, w) =
     step_op exec link prog i (items, stack, w)"
  by (simp add: is_op_def)

lemma POP_info:
  "generic_op iPOP" "info_args (instructionInfo iPOP) = 1" "info_ret (instructionInfo iPOP) = 0"
  "\<not> info_sideEffects (instructionInfo iPOP)" "isValidInstruction iPOP"
  by (simp_all add: generic_op_def isPushInstruction_def isDupInstruction_def isSwapInstruction_def
      word_le_nat_alt isValidInstruction_rules instructionInfo_rules InstructionInfo.defs)

context instruction_semantics
begin

lemma step_arith:
  assumes "is_op it i" "evalArith i args = Some v" "info_args (instructionInfo i) = int (length args)"
  shows "step exec stop link prog (it # items, args @ stack, w) = Running (items, v # stack, w)"
  using assms exec_arith [OF assms(2,3)] evalArith_generic [OF assms(2)]
  by (simp add: step_is_op step_op_generic del: step.simps)

lemma step_pop:
  assumes "is_op it iPOP"
  shows "step exec stop link prog (it # items, stack, w) =
    (if stack = [] then Failed else Running (items, tl stack, w))"
proof (cases stack)
  case Nil
  then show ?thesis using assms by (simp add: step_is_op step_op_generic POP_info del: step.simps)
next
  case (Cons a s)
  obtain v where "exec iPOP [a] w = (Inr v, w)"
    using exec_pure [of iPOP "[a]"] POP_info by (auto simp: generic_op_def)
  with Cons assms show ?thesis by (simp add: step_is_op step_op_generic POP_info del: step.simps)
qed

lemma run_pops:
  "\<forall>it \<in> set pops. is_op it iPOP \<Longrightarrow> length pops \<le> length stack \<Longrightarrow>
     run exec stop link prog (length pops) (pops @ items, stack, w) =
       Running (items, drop (length pops) stack, w)"
proof (induction pops arbitrary: stack)
  case Nil
  then show ?case by simp
next
  case (Cons it pops)
  then show ?case by (cases stack) (auto simp: step_pop simp del: step.simps)
qed

end

lemma step_short:
  assumes "is_op it i" "generic_op i" "int (length stack) < info_args (instructionInfo i)"
  shows "step exec stop link prog (it # items, stack, w) = Failed"
  using assms by (simp add: step_is_op step_op_generic Let_def zless_nat_eq_int_zless del: step.simps)

end
