(* ===== verification/Rewriting.thy ===== *)
theory Rewriting
  imports Item_Machine
begin

text \<open>
  Rewritings of item lists that preserve executions: the simulation argument shared by
  the optimiser's passes. A pass shows, for every window of the program it rewrites, that
  the rewritten program catches up (\<open>simulated\<close>); the locale \<open>rewriting\<close> concludes that both
  programs halt alike.
\<close>

section \<open>Steps of single items\<close>

lemma step_dup:
  assumes "sem_isDupInstruction it"
  shows "step exec stop link P (it # r, s, w) =
    (let n = unat (getDupNumber (m_instruction it))
     in if length s < n then Failed else Running (r, s ! (n - 1) # s, w))"
proof -
  have "m_type it = Operation" "isDupInstruction (m_instruction it)"
    using assms by (simp_all add: sem_isDupInstruction_def split: if_splits)
  moreover from this(2) have "\<not> isPushInstruction (m_instruction it)"
    by (auto simp: isDupInstruction_def isPushInstruction_def word_le_nat_alt)
  ultimately show ?thesis by (simp add: step_op_def)
qed

lemma step_swap:
  assumes "sem_isSwapInstruction it"
  shows "step exec stop link P (it # r, s, w) =
    (let n = unat (getSwapNumber (m_instruction it))
     in if length s < Suc n then Failed else Running (r, s[0 := s ! n, n := s ! 0], w))"
proof -
  have "m_type it = Operation" "isSwapInstruction (m_instruction it)"
    using assms by (simp_all add: sem_isSwapInstruction_def split: if_splits)
  moreover from this(2) have "\<not> isPushInstruction (m_instruction it)" "\<not> isDupInstruction (m_instruction it)"
    by (auto simp: isSwapInstruction_def isDupInstruction_def isPushInstruction_def word_le_nat_alt)
  ultimately show ?thesis by (simp add: step_op_def)
qed

lemma step_push_type:
  assumes "m_type it \<noteq> Operation" "m_type it \<noteq> Tag" "m_type it \<noteq> UndefinedItem"
  obtains v where "\<forall>P r s w. step exec stop link P (it # r, s, w) = Running (r, v # s, w)"
  using assms by (cases "m_type it") (auto intro: that)

lemma info_args_nonneg: "0 \<le> info_args (instructionInfo i)"
  by (rule instructionInfo_all)
    (simp_all add: c_instructionInfo_def InstructionInfo.defs instructionInfo_def)

lemma run_1: "run exec stop link P 1 c = step exec stop link P c"
  by (simp split: progress.split)

lemma jumpi_step:
  assumes "is_op it iJUMPI"
  shows "step exec stop link P (it # r, s, w) = (case s of v # c # s' \<Rightarrow>
    if c \<noteq> 0 then jump_to link P v s' w else Running (r, s', w) | _ \<Rightarrow> Failed)"
  using assms by (simp add: is_op_def step_op_def isPushInstruction_def isDupInstruction_def isSwapInstruction_def)

lemma jump_step:
  assumes "is_op it iJUMP"
  shows "step exec stop link P (it # r, s, w) = (case s of v # s' \<Rightarrow> jump_to link P v s' w | _ \<Rightarrow> Failed)"
  using assms by (simp add: is_op_def step_op_def isPushInstruction_def isDupInstruction_def isSwapInstruction_def)

lemma tag_step: "m_type it = Tag \<Longrightarrow> step exec stop link P (it # r, s, w) = Running (r, s, w)"
  by simp

lemma pushTag_step:
  "m_type it = PushTag \<Longrightarrow> step exec stop link P (it # r, s, w) = Running (r, link it # s, w)"
  by simp

context instruction_semantics
begin

lemma step_binary:
  assumes "is_op it i" "i \<in> set arithInstructions" "info_args (instructionInfo i) = 2"
  shows "step exec stop link P (it # r, s, w) =
    (case s of a # b # s' \<Rightarrow> Running (r, the (evalArith i [a, b]) # s', w) | _ \<Rightarrow> Failed)"
proof -
  have gen: "generic_op i" using assms(2) arith_generic by (auto simp: list_all_iff)
  have run: "step exec stop link P (it # r, a # b # s', w) = Running (r, the (evalArith i [a, b]) # s', w)"
    for a b s'
  proof -
    obtain v where v: "evalArith i [a, b] = Some v"
      using evalArith_instructions [of i "[a, b]"] assms(2) by auto
    then show ?thesis
      using step_arith [OF assms(1) v, of stop link P r s' w] assms(3) by simp
  qed
  have short: "length s < 2 \<Longrightarrow> step exec stop link P (it # r, s, w) = Failed"
    using assms by (intro step_short [OF assms(1) gen]) simp
  show ?thesis
  proof (cases s)
    case Nil
    then show ?thesis using short by simp
  next
    case (Cons a s1)
    then show ?thesis using short run by (cases s1) (simp_all del: step.simps)
  qed
qed

lemma step_unary:
  assumes "is_op it i" "i \<in> set arithInstructions" "info_args (instructionInfo i) = 1"
  shows "step exec stop link P (it # r, s, w) =
    (case s of a # s' \<Rightarrow> Running (r, the (evalArith i [a]) # s', w) | _ \<Rightarrow> Failed)"
proof -
  have gen: "generic_op i" using assms(2) arith_generic by (auto simp: list_all_iff)
  show ?thesis
  proof (cases s)
    case Nil
    then show ?thesis using assms by (simp add: step_short [OF assms(1) gen] del: step.simps)
  next
    case (Cons a s')
    obtain v where v: "evalArith i [a] = Some v"
      using evalArith_instructions [of i "[a]"] assms(2) by auto
    then show ?thesis
      using step_arith [OF assms(1) v, of stop link P r s' w] assms(3) Cons by simp
  qed
qed

end

text \<open>
  What the step of an item can be, for a given stack and world: it does not depend on
  the items that follow, and on the program only through a jump.
\<close>

lemma step_kinds:
  fixes exec :: "('e, 'w) exec"
  obtains (local) s' w' where "\<forall>P r. step exec stop link P (it # r, s, w) = Running (r, s', w')"
    | (fail) "\<forall>P r. step exec stop link P (it # r, s, w) = Failed"
    | (halt) e w' where "\<forall>P r. step exec stop link P (it # r, s, w) = Halted e w'"
    | (jump) v s' where "\<forall>P r. step exec stop link P (it # r, s, w) = jump_to link P v s' w"
proof (cases "m_type it = Operation")
  case False
  show thesis
  proof (cases "m_type it = UndefinedItem \<or> m_type it = Tag")
    case True
    then show thesis using fail local [of s w] by auto
  next
    case no: False
    with False obtain v where "\<forall>P r s w. step exec stop link P (it # r, s, w) = Running (r, v # s, w)"
      using step_push_type [of it exec stop link] by blast
    then show thesis using local [of "v # s" w] by blast
  qed
next
  case True
  let ?i = "m_instruction it"
  have step: "step exec stop link P (it # r, s, w) = step_op exec link P ?i (r, s, w)" for P r
    using True by simp
  show thesis
  proof (cases "generic_op ?i")
    case gen: True
    let ?n = "nat (info_args (instructionInfo ?i))"
    obtain res w' where res: "exec ?i (take ?n s) w = (res, w')" by (cases "exec ?i (take ?n s) w")
    consider "length s < ?n" | v where "\<not> length s < ?n" "res = Inr v"
      | e where "\<not> length s < ?n" "res = Inl (Some e)" | "\<not> length s < ?n" "res = Inl None"
      by (cases res) (metis option.exhaust)+
    then show thesis
    proof cases
      case 1
      then show thesis using fail unfolding step step_op_generic [OF gen] by simp
    next
      case (2 v)
      then show thesis
        using local [of "(if info_ret (instructionInfo ?i) = 1 then [v] else []) @ drop ?n s" w']
        unfolding step step_op_generic [OF gen] by (simp add: res)
    next
      case (3 e)
      then show thesis using halt [of e w'] unfolding step step_op_generic [OF gen] by (simp add: res)
    next
      case 4
      then show thesis using fail unfolding step step_op_generic [OF gen] by (simp add: res)
    qed
  next
    case False
    then consider (push) "isPushInstruction ?i" | (dup) "isDupInstruction ?i" | (swap) "isSwapInstruction ?i"
      | (JUMP) "?i = iJUMP" | (JUMPI) "?i = iJUMPI" | (JUMPDEST) "?i = iJUMPDEST"
      unfolding generic_op_def by blast
    then show thesis
    proof cases
      case push
      then show thesis using fail unfolding step step_op_def by simp
    next
      case dup
      then have "sem_isDupInstruction it" using True by (simp add: sem_isDupInstruction_def)
      from step_dup [OF this, of exec stop link] show thesis
        using fail local by (cases "length s < unat (getDupNumber ?i)") (simp_all add: Let_def)
    next
      case swap
      then have "sem_isSwapInstruction it" using True by (simp add: sem_isSwapInstruction_def)
      from step_swap [OF this, of exec stop link] show thesis
        using fail local by (cases "length s < Suc (unat (getSwapNumber ?i))") (simp_all add: Let_def)
    next
      case JUMP
      have J: "step exec stop link P (it # r, s, w) = (case s of v # s \<Rightarrow> jump_to link P v s w | _ \<Rightarrow> Failed)" for P r
        unfolding step by (simp add: JUMP step_op_def isPushInstruction_def isDupInstruction_def isSwapInstruction_def)
      then show thesis
      proof (cases s)
        case Nil
        with J show thesis using fail by (simp del: step.simps)
      next
        case (Cons v s')
        with J show thesis using jump [of v s'] by (simp del: step.simps)
      qed
    next
      case JUMPI
      have J: "step exec stop link P (it # r, s, w) = (case s of v # c # s \<Rightarrow>
          if c \<noteq> 0 then jump_to link P v s w else Running (r, s, w) | _ \<Rightarrow> Failed)" for P r
        unfolding step by (simp add: JUMPI step_op_def isPushInstruction_def isDupInstruction_def isSwapInstruction_def)
      consider (short) "\<forall>v c s'. s \<noteq> v # c # s'" | (taken) v c s' where "s = v # c # s'" "c \<noteq> 0"
        | (skip) v s' where "s = v # 0 # s'" by blast
      then show thesis
      proof cases
        case short
        then show thesis using fail unfolding J by (simp split: list.split)
      next
        case (taken v c s')
        then show thesis using jump [of v s'] unfolding J by simp
      next
        case (skip v s')
        then show thesis using local [of s' w] unfolding J by simp
      qed
    next
      case JUMPDEST
      have "step exec stop link P (it # r, s, w) = Running (r, s, w)" for P r
        unfolding step by (simp add: JUMPDEST step_op_def isPushInstruction_def isDupInstruction_def isSwapInstruction_def)
      then show thesis using local by blast
    qed
  qed
qed

section \<open>Tags\<close>

text \<open>A program has no two tags with the same label.\<close>

definition tags_ok :: "(AssemblyItem \<Rightarrow> u256) \<Rightarrow> AssemblyItems \<Rightarrow> bool" where
  "tags_ok link prog \<longleftrightarrow> distinct (map link (filter (\<lambda>it. m_type it = Tag) prog))"

lemma find_tag_Some:
  "find_tag link items v = Some r \<Longrightarrow> \<exists>pre tag r'. items = pre @ r \<and> r = tag # r' \<and> m_type tag = Tag"
proof (induction items)
  case (Cons it items)
  show ?case
  proof (cases "m_type it = Tag \<and> link it = v")
    case True
    with Cons.prems show ?thesis by (intro exI [of _ "[]"]) auto
  next
    case False
    with Cons obtain pre tag r' where "items = pre @ r" "r = tag # r'" "m_type tag = Tag" by auto
    then show ?thesis by (intro exI [of _ "it # pre"]) auto
  qed
qed simp

lemma find_tag_label: "find_tag link items v = Some t \<Longrightarrow> \<exists>tag t'. t = tag # t' \<and> m_type tag = Tag \<and> link tag = v"
  by (induction items) (auto split: if_splits)

lemma find_tag_append:
  "\<forall>it \<in> set pre. m_type it = Tag \<longrightarrow> link it \<noteq> v \<Longrightarrow> find_tag link (pre @ items) v = find_tag link items v"
  by (induction pre) auto

lemma find_tag_unique:
  assumes "tags_ok link (pre @ tag # r)" "m_type tag = Tag"
  shows "find_tag link (pre @ tag # r) (link tag) = Some (tag # r)"
proof -
  have "link tag \<notin> link ` set (filter (\<lambda>it. m_type it = Tag) pre)"
    using assms by (simp add: tags_ok_def)
  then have "\<forall>it \<in> set pre. m_type it = Tag \<longrightarrow> link it \<noteq> link tag"
    by (metis (mono_tags, lifting) filter_set imageI mem_Collect_eq set_filter)
  then show ?thesis using assms(2) by (simp add: find_tag_append)
qed

section \<open>Windows without jumps\<close>

text \<open>
  A window and its replacement lead from the same stack to the same stack, or the
  window fails, in every program and before every continuation.
\<close>

definition straight ::
    "('e, 'w) exec \<Rightarrow> 'e \<Rightarrow> (AssemblyItem \<Rightarrow> u256) \<Rightarrow> AssemblyItems \<Rightarrow> AssemblyItems \<Rightarrow> bool" where
  "straight exec stop link win out \<longleftrightarrow>
     (\<forall>s w. (\<exists>n \<ge> 1. \<forall>P r. run exec stop link P n (win @ r, s, w) = Failed) \<or>
            (\<exists>n \<ge> 1. \<exists>m s'. \<forall>P r.
               run exec stop link P n (win @ r, s, w) = Running (r, s', w) \<and>
               run exec stop link P m (out @ r, s, w) = Running (r, s', w)))"

lemma straightI:
  assumes "\<And>s w. (\<exists>n \<ge> 1. \<forall>P r. run exec stop link P n (win @ r, s, w) = Failed) \<or>
    (\<exists>n \<ge> 1. \<exists>m s'. \<forall>P r. run exec stop link P n (win @ r, s, w) = Running (r, s', w) \<and>
       run exec stop link P m (out @ r, s, w) = Running (r, s', w))"
  shows "straight exec stop link win out"
  using assms unfolding straight_def by blast

lemma failedI:
  "1 \<le> n \<Longrightarrow> (\<And>P r. run exec stop link P n (win @ r, s, w) = Failed) \<Longrightarrow>
    (\<exists>n \<ge> 1. \<forall>P r. run exec stop link P n (win @ r, s, w) = Failed) \<or> Q"
  by blast

lemma runningI:
  "1 \<le> n \<Longrightarrow> (\<And>P r. run exec stop link P n (win @ r, s, w) = Running (r, s', w)) \<Longrightarrow>
    (\<And>P r. run exec stop link P m (out @ r, s, w) = Running (r, s', w)) \<Longrightarrow>
    Q \<or> (\<exists>n \<ge> 1. \<exists>m s'. \<forall>P r. run exec stop link P n (win @ r, s, w) = Running (r, s', w) \<and>
       run exec stop link P m (out @ r, s, w) = Running (r, s', w))"
  by blast

section \<open>Simulation\<close>

text \<open>
  From the items at hand, after at least one step the original program has failed, or
  both have halted alike, or the original has items left for which the invariant holds,
  and the rewritten program is at their rewriting, with the same stack and world. The
  rewritten program has moved, or the items left are fewer.
\<close>

definition simulated ::
    "('e, 'w) exec \<Rightarrow> 'e \<Rightarrow> (AssemblyItem \<Rightarrow> u256) \<Rightarrow> ('w config \<Rightarrow> bool) \<Rightarrow>
     (AssemblyItems \<Rightarrow> AssemblyItems) \<Rightarrow> AssemblyItems \<Rightarrow> AssemblyItems \<Rightarrow> u256 list \<Rightarrow> 'w \<Rightarrow> bool" where
  "simulated exec stop link good rewrite prog items s w \<longleftrightarrow>
     (\<exists>n m. 1 \<le> n \<and>
       (case run exec stop link prog n (items, s, w) of
          Failed \<Rightarrow> True
        | Halted e w' \<Rightarrow> 1 \<le> m \<and> run exec stop link (rewrite prog) m (rewrite items, s, w) = Halted e w'
        | Running (items', s', w') \<Rightarrow>
            good (items', s', w') \<and>
            run exec stop link (rewrite prog) m (rewrite items, s, w) = Running (rewrite items', s', w') \<and>
            (1 \<le> m \<or> length items' < length items)))"

lemma simulated_Failed:
  "1 \<le> n \<Longrightarrow> run exec stop link prog n (items, s, w) = Failed \<Longrightarrow>
     simulated exec stop link good rewrite prog items s w"
  unfolding simulated_def by (intro exI [of _ n] exI) simp

lemma simulated_Halted:
  "1 \<le> n \<Longrightarrow> run exec stop link prog n (items, s, w) = Halted e w' \<Longrightarrow> 1 \<le> m \<Longrightarrow>
     run exec stop link (rewrite prog) m (rewrite items, s, w) = Halted e w' \<Longrightarrow>
     simulated exec stop link good rewrite prog items s w"
  unfolding simulated_def by (intro exI [of _ n] exI [of _ m]) simp

lemma simulated_Running:
  "1 \<le> n \<Longrightarrow> run exec stop link prog n (items, s, w) = Running (items', s', w') \<Longrightarrow>
     good (items', s', w') \<Longrightarrow>
     run exec stop link (rewrite prog) m (rewrite items, s, w) = Running (rewrite items', s', w') \<Longrightarrow>
     1 \<le> m \<or> length items' < length items \<Longrightarrow> simulated exec stop link good rewrite prog items s w"
  unfolding simulated_def by (intro exI [of _ n] exI [of _ m]) simp

lemma simulated_mono:
  assumes "simulated exec stop link good rewrite prog items s w" "\<And>c. good c \<Longrightarrow> good' c"
  shows "simulated exec stop link good' rewrite prog items s w"
proof -
  obtain n m where nm: "1 \<le> n"
      "case run exec stop link prog n (items, s, w) of
          Failed \<Rightarrow> True
        | Halted e w' \<Rightarrow> 1 \<le> m \<and> run exec stop link (rewrite prog) m (rewrite items, s, w) = Halted e w'
        | Running (items', s', w') \<Rightarrow>
            good (items', s', w') \<and>
            run exec stop link (rewrite prog) m (rewrite items, s, w) = Running (rewrite items', s', w') \<and>
            (1 \<le> m \<or> length items' < length items)"
    using assms(1) unfolding simulated_def by blast
  then show ?thesis
    unfolding simulated_def using assms(2)
    by (intro exI [of _ n] exI [of _ m]) (auto split: progress.splits)
qed

text \<open>A replaced window without jumps is simulated, and so is an equal jump.\<close>

lemma simulated_window:
  assumes straight: "straight exec stop link win out"
    and items: "items = win @ r" "rewrite items = out @ rewrite r" "win \<noteq> []"
    and good: "\<And>n s' w'. run exec stop link prog n (items, s, w) = Running (r, s', w') \<Longrightarrow> good (r, s', w')"
  shows "simulated exec stop link good rewrite prog items s w"
proof -
  from straight consider
      (fail) n where "1 \<le> n" "\<forall>P r. run exec stop link P n (win @ r, s, w) = Failed"
    | (go) n m s' where "1 \<le> n" "\<forall>P r. run exec stop link P n (win @ r, s, w) = Running (r, s', w)"
        "\<forall>P r. run exec stop link P m (out @ r, s, w) = Running (r, s', w)"
    unfolding straight_def by metis
  then show ?thesis
  proof cases
    case fail
    then show ?thesis using simulated_Failed items(1) by metis
  next
    case go
    have a: "run exec stop link prog n (items, s, w) = Running (r, s', w)"
      using go(2) unfolding items(1) by blast
    have b: "run exec stop link (rewrite prog) m (rewrite items, s, w) = Running (rewrite r, s', w)"
      using go(3) unfolding items(2) by blast
    show ?thesis
      using items(3) good [OF a] go(1) a b
      by (intro simulated_Running [where n = n and m = m and items' = r and s' = s' and w' = w]) (simp_all add: items(1))
  qed
qed

lemma simulated_jump:
  assumes "1 \<le> n" "run exec stop link prog n (items, s, w) = jump_to link prog v s' w'"
    and "1 \<le> m" "run exec stop link (rewrite prog) m (rewrite items, s, w) = jump_to link (rewrite prog) v s' w'"
    and target: "\<And>t. find_tag link prog v = Some t \<Longrightarrow>
      find_tag link (rewrite prog) v = Some (rewrite t) \<and> good (t, s', w')"
  shows "simulated exec stop link good rewrite prog items s w"
proof (cases "find_tag link prog v")
  case None
  with assms(1,2) show ?thesis by (intro simulated_Failed) (simp_all add: jump_to_def)
next
  case (Some t)
  with target have "find_tag link (rewrite prog) v = Some (rewrite t)" "good (t, s', w')" by blast+
  then show ?thesis
    using assms(1-4) Some
    by (intro simulated_Running [where n = n and m = m and items' = t and s' = s' and w' = w'])
      (simp_all add: jump_to_def)
qed

text \<open>An item the rewriting keeps.\<close>

lemma simulated_step:
  assumes keep: "rewrite (it # r) = it # r2"
    and same: "r2 = rewrite r \<or> \<not> (\<exists>s' w'. \<forall>P r. step exec stop link P (it # r, s, w) = Running (r, s', w'))"
    and good: "\<And>s' w'. step exec stop link prog (it # r, s, w) = Running (r, s', w') \<Longrightarrow> good (r, s', w')"
    and target: "\<And>v s' t. \<forall>P r. step exec stop link P (it # r, s, w) = jump_to link P v s' w \<Longrightarrow>
      find_tag link prog v = Some t \<Longrightarrow>
      find_tag link (rewrite prog) v = Some (rewrite t) \<and> good (t, s', w)"
  shows "simulated exec stop link good rewrite prog (it # r) s w"
proof (cases rule: step_kinds [where exec = exec and stop = stop and link = link and it = it and s = s and w = w])
  case (local s' w')
  then have r2: "r2 = rewrite r" using same by blast
  have "good (r, s', w')" using good local by blast
  moreover have "run exec stop link prog 1 (it # r, s, w) = Running (r, s', w')"
    "run exec stop link (rewrite prog) 1 (rewrite (it # r), s, w) = Running (rewrite r, s', w')"
    unfolding run_1 keep r2 using local by blast+
  ultimately show ?thesis by (intro simulated_Running [where n = 1 and m = 1]) simp_all
next
  case fail
  then have "run exec stop link prog 1 (it # r, s, w) = Failed" unfolding run_1 by blast
  then show ?thesis by (rule simulated_Failed [rotated]) simp
next
  case (halt e w')
  then have "run exec stop link prog 1 (it # r, s, w) = Halted e w'"
    "run exec stop link (rewrite prog) 1 (rewrite (it # r), s, w) = Halted e w'"
    unfolding run_1 keep by blast+
  then show ?thesis by (intro simulated_Halted [where n = 1 and m = 1]) simp_all
next
  case (jump v s')
  then have "run exec stop link prog 1 (it # r, s, w) = jump_to link prog v s' w"
    "run exec stop link (rewrite prog) 1 (rewrite (it # r), s, w) = jump_to link (rewrite prog) v s' w"
    unfolding run_1 keep by blast+
  then show ?thesis using target [OF jump] by (rule simulated_jump [OF order.refl _ order.refl])
qed

section \<open>Simulations preserve executions\<close>

locale rewriting =
  fixes exec :: "('e, 'w) exec"
    and rewrite :: "AssemblyItems \<Rightarrow> AssemblyItems"
    and good :: "'e \<Rightarrow> (AssemblyItem \<Rightarrow> u256) \<Rightarrow> AssemblyItems \<Rightarrow> 'w config \<Rightarrow> bool"
  assumes simulates:
    "good stop link prog (items, s, w) \<Longrightarrow>
       simulated exec stop link (good stop link prog) rewrite prog items s w"
begin

lemma forward:
  assumes "good stop link prog (items, s, w)"
    and "run exec stop link prog n (items, s, w) = Halted e w'"
  shows "\<exists>m. run exec stop link (rewrite prog) m (rewrite items, s, w) = Halted e w'"
  using assms
proof (induction n arbitrary: items s w rule: less_induct)
  case (less n)
  from simulates [OF less.prems(1)]
  obtain n0 m0 where n0: "1 \<le> n0" and sim: "case run exec stop link prog n0 (items, s, w) of
          Failed \<Rightarrow> True
        | Halted e w' \<Rightarrow> 1 \<le> m0 \<and> run exec stop link (rewrite prog) m0 (rewrite items, s, w) = Halted e w'
        | Running (items', s', w') \<Rightarrow>
            good stop link prog (items', s', w') \<and>
            run exec stop link (rewrite prog) m0 (rewrite items, s, w) = Running (rewrite items', s', w') \<and>
            (1 \<le> m0 \<or> length items' < length items)"
    unfolding simulated_def by blast
  show ?case
  proof (cases "n \<le> n0")
    case True
    with less.prems(2) have "run exec stop link prog n0 (items, s, w) = Halted e w'"
      by (rule run_Halted_mono)
    with sim show ?thesis by auto
  next
    case False
    then obtain k where k: "n = n0 + k" "k < n" using n0 by (metis add_diff_inverse_nat diff_less le_eq_less_or_eq less_le_trans linorder_not_le zero_less_one)
    show ?thesis
    proof (cases "run exec stop link prog n0 (items, s, w)")
      case (Running c)
      obtain items' s' w1 where c: "c = (items', s', w1)" by (cases c)
      have "run exec stop link prog k (items', s', w1) = Halted e w'"
        using less.prems(2) run_Running_add [OF Running, of k] by (simp add: k(1) c)
      moreover have suf: "good stop link prog (items', s', w1)" using sim Running c by auto
      ultimately obtain m where "run exec stop link (rewrite prog) m (rewrite items', s', w1) = Halted e w'"
        using less.IH [OF k(2) suf] by blast
      moreover have "run exec stop link (rewrite prog) m0 (rewrite items, s, w) = Running (rewrite items', s', w1)"
        using sim Running c by auto
      ultimately show ?thesis using run_Running_add by metis
    next
      case (Halted e1 w1)
      then have "run exec stop link prog n (items, s, w) = Halted e1 w1"
        using False by (intro run_Halted_mono [OF Halted]) simp
      with less.prems(2) Halted sim show ?thesis by auto
    next
      case Failed
      then have "run exec stop link prog n (items, s, w) = Failed"
        using False by (intro run_Failed_mono [OF Failed]) simp
      with less.prems(2) show ?thesis by simp
    qed
  qed
qed

lemma backward:
  assumes "good stop link prog (items, s, w)"
    and "run exec stop link (rewrite prog) m (rewrite items, s, w) = Halted e w'"
  shows "\<exists>n. run exec stop link prog n (items, s, w) \<in> {Halted e w', Failed}"
  using assms
proof (induction "(m, length items)" arbitrary: m items s w rule: wf_induct_rule [OF wf_lex_prod [OF wf_less wf_less]])
  case 1
  note IH = 1(1) and prems = 1(2,3)
  from simulates [OF prems(1)]
  obtain n0 m0 where sim: "case run exec stop link prog n0 (items, s, w) of
          Failed \<Rightarrow> True
        | Halted e w' \<Rightarrow> 1 \<le> m0 \<and> run exec stop link (rewrite prog) m0 (rewrite items, s, w) = Halted e w'
        | Running (items', s', w') \<Rightarrow>
            good stop link prog (items', s', w') \<and>
            run exec stop link (rewrite prog) m0 (rewrite items, s, w) = Running (rewrite items', s', w') \<and>
            (1 \<le> m0 \<or> length items' < length items)"
    unfolding simulated_def by blast
  show ?case
  proof (cases "run exec stop link prog n0 (items, s, w)")
    case Failed
    then show ?thesis by blast
  next
    case (Halted e1 w1)
    then have h: "run exec stop link (rewrite prog) m0 (rewrite items, s, w) = Halted e1 w1" using sim by simp
    have "Halted e1 w1 = Halted e w'"
      using run_Halted_mono [OF h, of "max m m0"] run_Halted_mono [OF prems(2), of "max m m0"] by simp
    with Halted show ?thesis by (intro exI [of _ n0]) simp
  next
    case (Running c)
    obtain items' s' w1 where c: "c = (items', s', w1)" by (cases c)
    have suf: "good stop link prog (items', s', w1)"
      and r: "run exec stop link (rewrite prog) m0 (rewrite items, s, w) = Running (rewrite items', s', w1)"
      and dec: "1 \<le> m0 \<or> length items' < length items"
      using sim Running c by auto
    have "m0 < m \<or> m0 = 0 \<and> m0 \<le> m"
    proof (rule ccontr)
      assume "\<not> (m0 < m \<or> m0 = 0 \<and> m0 \<le> m)"
      then have "m \<le> m0" by auto
      from run_Halted_mono [OF prems(2) this] r show False by simp
    qed
    then obtain k where k: "m = m0 + k" using le_Suc_ex by (metis less_imp_le)
    have "run exec stop link (rewrite prog) k (rewrite items', s', w1) = Halted e w'"
      using prems(2) run_Running_add [OF r, of k] by (simp add: k)
    moreover have "((k, length items'), (m, length items)) \<in> {(x, y). x < y} <*lex*> {(x, y). x < y}"
      using dec k by auto
    ultimately obtain n where "run exec stop link prog n (items', s', w1) \<in> {Halted e w', Failed}"
      using IH suf by blast
    then show ?thesis
      using run_Running_add [OF Running [unfolded c]] by metis
  qed
qed

lemma preserved:
  assumes "good stop link prog (prog, s, w)" "\<And>n. run exec stop link prog n (prog, s, w) \<noteq> Failed"
  shows "(\<exists>n. run exec stop link prog n (prog, s, w) = Halted e w') \<longleftrightarrow>
    (\<exists>m. run exec stop link (rewrite prog) m (rewrite prog, s, w) = Halted e w')"
  using forward [OF assms(1)] backward [OF assms(1)] assms(2) by blast

end

section \<open>Rewriting items one by one\<close>

text \<open>
  A rewriting that keeps an item or replaces it by items without jumps is simulated, as
  long as the invariant is preserved by steps and the tags that are jumped to are kept.
\<close>

definition itemwise :: "(AssemblyItem \<Rightarrow> AssemblyItems) \<Rightarrow> AssemblyItems \<Rightarrow> AssemblyItems" where
  "itemwise f items = concat (map f items)"

lemma itemwise_simps [simp]:
  "itemwise f [] = []" "itemwise f (it # items) = f it @ itemwise f items"
  by (simp_all add: itemwise_def)

lemma itemwise_append: "itemwise f (xs @ ys) = itemwise f xs @ itemwise f ys"
  by (simp add: itemwise_def)

lemma run_closed:
  assumes "\<And>c c'. good c \<Longrightarrow> step exec stop link prog c = Running c' \<Longrightarrow> good c'"
  shows "good c \<Longrightarrow> run exec stop link prog n c = Running c' \<Longrightarrow> good c'"
  by (induction n arbitrary: c) (auto simp del: step.simps split: progress.splits dest: assms)

lemma itemwise_simulated:
  assumes good: "good (items, s, w)"
    and closed: "\<And>c c'. good c \<Longrightarrow> step exec stop link prog c = Running c' \<Longrightarrow> good c'"
    and f: "\<And>it r. items = it # r \<Longrightarrow> f it = [it] \<or> straight exec stop link [it] (f it)"
    and target: "\<And>it r v s' t. items = it # r \<Longrightarrow>
      \<forall>P r. step exec stop link P (it # r, s, w) = jump_to link P v s' w \<Longrightarrow>
      find_tag link prog v = Some t \<Longrightarrow> find_tag link (itemwise f prog) v = Some (itemwise f t)"
  shows "simulated exec stop link good (itemwise f) prog items s w"
proof (cases items)
  case Nil
  then show ?thesis by (intro simulated_Halted [where n = 1 and m = 1 and e = stop and w' = w]) simp_all
next
  case (Cons it r)
  from f [OF Cons] show ?thesis
  proof
    assume keep: "f it = [it]"
    show ?thesis unfolding Cons
    proof (rule simulated_step)
      show "itemwise f (it # r) = it # itemwise f r" by (simp add: keep)
      show "good (r, s', w')" if "step exec stop link prog (it # r, s, w) = Running (r, s', w')" for s' w'
        using closed good that Cons by blast
      fix v s' t
      assume jump: "\<forall>P r. step exec stop link P (it # r, s, w) = jump_to link P v s' w"
        and t: "find_tag link prog v = Some t"
      have "step exec stop link prog (it # r, s, w) = Running (t, s', w)"
        using jump t by (simp add: jump_to_def)
      then show "find_tag link (itemwise f prog) v = Some (itemwise f t) \<and> good (t, s', w)"
        using target [OF Cons jump t] closed good Cons by blast
    qed simp
  next
    assume "straight exec stop link [it] (f it)"
    then show ?thesis
    proof (rule simulated_window)
      show "good (r, s', w')" if "run exec stop link prog n (items, s, w) = Running (r, s', w')" for n s' w'
        using run_closed [where good = good, OF closed good that] .
    qed (simp_all add: Cons)
  qed
qed

end
