(* ===== verification/Peephole.thy ===== *)
theory Peephole
  imports Item_Machine
begin

text \<open>
  libsvmasm/PeepholeOptimiser.h and PeepholeOptimiser.cpp: local rewriting of an item
  list by a sequence of window methods. A method that applies appends its output and
  moves the position; \<open>None\<close> is the result \<open>false\<close>, with nothing appended.
\<close>

section \<open>The methods\<close>

text \<open>The \<open>applySimple\<close> functions, on the items of their window.\<close>

definition Identity :: "AssemblyItem \<Rightarrow> AssemblyItems option" where
  "Identity item = Some [item]"

definition PushPop :: "AssemblyItem \<Rightarrow> AssemblyItem \<Rightarrow> AssemblyItems option" where
  "PushPop push pop =
     (let t = m_type push
      in if is_op pop iPOP \<and>
            (sem_isDupInstruction push \<or> t = Push \<or> t = PushString \<or> t = PushTag \<or> t = PushSub \<or>
             t = PushSubSize \<or> t = PushProgramSize \<or> t = PushData \<or> t = PushLibraryAddress)
         then Some [] else None)"

definition OpPop :: "AssemblyItem \<Rightarrow> AssemblyItem \<Rightarrow> AssemblyItems option" where
  "OpPop op pop =
     (if is_op pop iPOP \<and> m_type op = Operation then
        (let instr = m_instruction op
         in if info_ret (instructionInfo instr) = 1 \<and> \<not> info_sideEffects (instructionInfo instr)
            then Some (replicate (nat (info_args (instructionInfo instr))) (opItemAt iPOP (m_location op)))
            else None)
      else None)"

definition DoubleSwap :: "AssemblyItem \<Rightarrow> AssemblyItem \<Rightarrow> AssemblyItems option" where
  "DoubleSwap s1 s2 = (if item_eq s1 s2 \<and> sem_isSwapInstruction s1 then Some [] else None)"

definition DoublePush :: "AssemblyItem \<Rightarrow> AssemblyItem \<Rightarrow> AssemblyItems option" where
  "DoublePush push1 push2 =
     (if m_type push1 = Push \<and> m_type push2 = Push \<and> m_data push1 = m_data push2
      then Some [push1, opItemAt iDUP1 (m_location push2)] else None)"

definition CommutativeSwap :: "AssemblyItem \<Rightarrow> AssemblyItem \<Rightarrow> AssemblyItems option" where
  "CommutativeSwap swap op =
     (if is_op swap iSWAP1 \<and> isCommutativeOperation op then Some [op] else None)"

definition swappableOps :: "(instruction \<times> instruction) list" where
  "swappableOps = [(iLT, iGT), (iGT, iLT), (iSLT, iSGT), (iSGT, iSLT)]"

definition SwapComparison :: "AssemblyItem \<Rightarrow> AssemblyItem \<Rightarrow> AssemblyItems option" where
  "SwapComparison swap op =
     (if is_op swap iSWAP1 \<and> m_type op = Operation then
        (case map_of swappableOps (m_instruction op) of
           Some i \<Rightarrow> Some [opItem i]
         | None \<Rightarrow> None)
      else None)"

definition IsZeroIsZeroJumpI ::
    "AssemblyItem \<Rightarrow> AssemblyItem \<Rightarrow> AssemblyItem \<Rightarrow> AssemblyItem \<Rightarrow> AssemblyItems option" where
  "IsZeroIsZeroJumpI iszero1 iszero2 pushTag jumpi =
     (if is_op iszero1 iISZERO \<and> is_op iszero2 iISZERO \<and> m_type pushTag = PushTag \<and> is_op jumpi iJUMPI
      then Some [pushTag, jumpi] else None)"

definition JumpToNext :: "AssemblyItem \<Rightarrow> AssemblyItem \<Rightarrow> AssemblyItem \<Rightarrow> AssemblyItems option" where
  "JumpToNext pushTag jump tag =
     (if m_type pushTag = PushTag \<and> (is_op jump iJUMP \<or> is_op jump iJUMPI) \<and> m_type tag = Tag \<and>
         m_data pushTag = m_data tag
      then Some ((if is_op jump iJUMPI then [opItemAt iPOP (m_location jump)] else []) @ [tag])
      else None)"

definition TagConjunctions :: "AssemblyItem \<Rightarrow> AssemblyItem \<Rightarrow> AssemblyItem \<Rightarrow> AssemblyItems option" where
  "TagConjunctions pushTag pushConstant andItem =
     (if m_type pushTag = PushTag \<and> is_op andItem iAND \<and> m_type pushConstant = Push \<and>
         (m_data pushConstant AND 0xFFFFFFFF) = 0xFFFFFFFF
      then Some [pushTag] else None)"

definition TruthyAnd :: "AssemblyItem \<Rightarrow> AssemblyItem \<Rightarrow> AssemblyItem \<Rightarrow> AssemblyItems option" where
  "TruthyAnd push notItem andItem =
     (if m_type push = Push \<and> m_data push = 0 \<and> is_op notItem iNOT \<and> is_op andItem iAND
      then Some [] else None)"

section \<open>Applying the methods at a position\<close>

record OptimiserState =
  os_items :: AssemblyItems
  os_i :: nat
  os_out :: AssemblyItems

type_synonym peepholeMethod = "OptimiserState \<Rightarrow> OptimiserState option"

text \<open>\<open>SimplePeepholeOptimizerMethod\<close> with \<open>ApplyRule\<close>, for the four window sizes.\<close>

definition simpleMethod :: "nat \<Rightarrow> (AssemblyItems \<Rightarrow> AssemblyItems option) \<Rightarrow> peepholeMethod" where
  "simpleMethod windowSize applySimple st =
     (if os_i st + windowSize \<le> length (os_items st) then
        (case applySimple (take windowSize (drop (os_i st) (os_items st))) of
           Some out \<Rightarrow> Some (st\<lparr>os_i := os_i st + windowSize, os_out := os_out st @ out\<rparr>)
         | None \<Rightarrow> None)
      else None)"

abbreviation window1 :: "(AssemblyItem \<Rightarrow> AssemblyItems option) \<Rightarrow> AssemblyItems \<Rightarrow> AssemblyItems option" where
  "window1 f w \<equiv> f (w ! 0)"

abbreviation window2 ::
    "(AssemblyItem \<Rightarrow> AssemblyItem \<Rightarrow> AssemblyItems option) \<Rightarrow> AssemblyItems \<Rightarrow> AssemblyItems option" where
  "window2 f w \<equiv> f (w ! 0) (w ! 1)"

abbreviation window3 ::
    "(AssemblyItem \<Rightarrow> AssemblyItem \<Rightarrow> AssemblyItem \<Rightarrow> AssemblyItems option) \<Rightarrow> AssemblyItems \<Rightarrow>
     AssemblyItems option" where
  "window3 f w \<equiv> f (w ! 0) (w ! 1) (w ! 2)"

abbreviation window4 ::
    "(AssemblyItem \<Rightarrow> AssemblyItem \<Rightarrow> AssemblyItem \<Rightarrow> AssemblyItem \<Rightarrow> AssemblyItems option) \<Rightarrow>
     AssemblyItems \<Rightarrow> AssemblyItems option" where
  "window4 f w \<equiv> f (w ! 0) (w ! 1) (w ! 2) (w ! 3)"

definition endsBlock :: "AssemblyItem \<Rightarrow> bool" where
  "endsBlock it \<longleftrightarrow>
     is_op it iJUMP \<or> is_op it iRETURN \<or> is_op it iSTOP \<or> is_op it iINVALID \<or>
     is_op it iSELFDESTRUCT \<or> is_op it iREVERT"

definition UnreachableCode :: peepholeMethod where
  "UnreachableCode st =
     (case drop (os_i st) (os_items st) of
        [] \<Rightarrow> None
      | it # items \<Rightarrow>
          if \<not> endsBlock it then None
          else
            (let i = Suc (length (takeWhile (\<lambda>x. m_type x \<noteq> Tag) items))
             in if 1 < i then Some (st\<lparr>os_i := os_i st + i, os_out := os_out st @ [it]\<rparr>) else None))"

fun applyMethods :: "peepholeMethod list \<Rightarrow> OptimiserState \<Rightarrow> OptimiserState result" where
  "applyMethods [] st = Inl OptimizerException"
| "applyMethods (meth # others) st =
     (case meth st of Some st' \<Rightarrow> Inr st' | None \<Rightarrow> applyMethods others st)"

definition peepholeMethods :: "peepholeMethod list" where
  "peepholeMethods =
     [simpleMethod 2 (window2 PushPop), simpleMethod 2 (window2 OpPop),
      simpleMethod 2 (window2 DoublePush), simpleMethod 2 (window2 DoubleSwap),
      simpleMethod 2 (window2 CommutativeSwap), simpleMethod 2 (window2 SwapComparison),
      simpleMethod 4 (window4 IsZeroIsZeroJumpI), simpleMethod 3 (window3 JumpToNext),
      UnreachableCode, simpleMethod 3 (window3 TagConjunctions), simpleMethod 3 (window3 TruthyAnd),
      simpleMethod 1 (window1 Identity)]"

definition numberOfPops :: "AssemblyItems \<Rightarrow> nat" where
  "numberOfPops items = length (filter (\<lambda>it. is_op it iPOP) items)"

section \<open>The methods on the remaining items\<close>

text \<open>
  A method looks only at the items from the position on: what it appends, and how many
  items it consumes.
\<close>

type_synonym windowMethod = "AssemblyItems \<Rightarrow> (AssemblyItems \<times> nat) option"

definition simple_on :: "nat \<Rightarrow> (AssemblyItems \<Rightarrow> AssemblyItems option) \<Rightarrow> windowMethod" where
  "simple_on n f items =
     (if n \<le> length items then map_option (\<lambda>out. (out, n)) (f (take n items)) else None)"

definition unreachable_on :: windowMethod where
  "unreachable_on items =
     (case items of
        [] \<Rightarrow> None
      | it # items' \<Rightarrow>
          if endsBlock it \<and> takeWhile (\<lambda>x. m_type x \<noteq> Tag) items' \<noteq> []
          then Some ([it], Suc (length (takeWhile (\<lambda>x. m_type x \<noteq> Tag) items')))
          else None)"

fun first_on :: "windowMethod list \<Rightarrow> windowMethod" where
  "first_on [] items = None"
| "first_on (f # fs) items = (case f items of Some r \<Rightarrow> Some r | None \<Rightarrow> first_on fs items)"

definition windowMethods :: "windowMethod list" where
  "windowMethods =
     [simple_on 2 (window2 PushPop), simple_on 2 (window2 OpPop),
      simple_on 2 (window2 DoublePush), simple_on 2 (window2 DoubleSwap),
      simple_on 2 (window2 CommutativeSwap), simple_on 2 (window2 SwapComparison),
      simple_on 4 (window4 IsZeroIsZeroJumpI), simple_on 3 (window3 JumpToNext),
      unreachable_on, simple_on 3 (window3 TagConjunctions), simple_on 3 (window3 TruthyAnd),
      simple_on 1 (window1 Identity)]"

definition advance :: "OptimiserState \<Rightarrow> AssemblyItems \<times> nat \<Rightarrow> OptimiserState" where
  "advance st = (\<lambda>(out, k). st\<lparr>os_i := os_i st + k, os_out := os_out st @ out\<rparr>)"

definition implements :: "peepholeMethod \<Rightarrow> windowMethod \<Rightarrow> bool" where
  "implements meth f \<longleftrightarrow>
     (\<forall>st. os_i st \<le> length (os_items st) \<longrightarrow>
        meth st = map_option (advance st) (f (drop (os_i st) (os_items st)))) \<and>
     (\<forall>items out k. f items = Some (out, k) \<longrightarrow> 0 < k \<and> k \<le> length items)"

lemma implements_simple: "0 < n \<Longrightarrow> implements (simpleMethod n f) (simple_on n f)"
  by (auto simp: implements_def simpleMethod_def simple_on_def advance_def split: option.split if_splits)

lemma implements_unreachable: "implements UnreachableCode unreachable_on"
proof -
  have "UnreachableCode st = map_option (advance st) (unreachable_on (drop (os_i st) (os_items st)))" for st
    by (cases "drop (os_i st) (os_items st)")
      (simp_all add: UnreachableCode_def unreachable_on_def advance_def Let_def)
  moreover have "0 < k \<and> k \<le> length items" if "unreachable_on items = Some (out, k)" for items out k
    using that by (auto simp: unreachable_on_def length_takeWhile_le split: list.splits if_splits)
  ultimately show ?thesis by (simp add: implements_def)
qed

lemma methods_implement: "list_all2 implements peepholeMethods windowMethods"
  by (simp add: peepholeMethods_def windowMethods_def implements_simple implements_unreachable)

lemma applyMethods_first:
  "list_all2 implements ms fs \<Longrightarrow> os_i st \<le> length (os_items st) \<Longrightarrow>
     applyMethods ms st =
       (case first_on fs (drop (os_i st) (os_items st)) of
          Some r \<Rightarrow> Inr (advance st r) | None \<Rightarrow> Inl OptimizerException)"
  by (induction ms fs rule: list_all2_induct) (auto simp: implements_def split: option.split)

lemma first_on_bounds:
  "list_all2 implements ms fs \<Longrightarrow> first_on fs items = Some (out, k) \<Longrightarrow> 0 < k \<and> k \<le> length items"
  by (induction ms fs rule: list_all2_induct) (auto simp: implements_def split: option.splits)

lemma first_on_None: "f items \<noteq> None \<Longrightarrow> f \<in> set fs \<Longrightarrow> first_on fs items \<noteq> None"
  by (induction fs) (auto split: option.split)

lemma first_on_total: "items \<noteq> [] \<Longrightarrow> first_on windowMethods items \<noteq> None"
proof -
  assume "items \<noteq> []"
  then have "simple_on 1 (window1 Identity) items \<noteq> None"
    by (cases items) (simp_all add: simple_on_def Identity_def)
  moreover have "simple_on 1 (window1 Identity) \<in> set windowMethods"
    by (simp add: windowMethods_def)
  ultimately show ?thesis by (rule first_on_None)
qed

lemma applyMethods_advances:
  assumes "os_i st \<le> length (os_items st)" "applyMethods peepholeMethods st = Inr st'"
  shows "os_items st' = os_items st" "os_i st < os_i st'" "os_i st' \<le> length (os_items st)"
proof -
  obtain out k where f: "first_on windowMethods (drop (os_i st) (os_items st)) = Some (out, k)"
    and st': "st' = advance st (out, k)"
    using assms(2) unfolding applyMethods_first [OF methods_implement assms(1)]
    by (auto split: option.splits)
  have "0 < k" "k \<le> length (os_items st) - os_i st"
    using first_on_bounds [OF methods_implement f] by simp_all
  then show "os_items st' = os_items st" "os_i st < os_i st'" "os_i st' \<le> length (os_items st)"
    using assms(1) by (simp_all add: st' advance_def)
qed

section \<open>The optimiser\<close>

function optimiseLoop :: "OptimiserState \<Rightarrow> OptimiserState result" where
  "optimiseLoop st =
     (if os_i st < length (os_items st)
      then (case applyMethods peepholeMethods st of Inl e \<Rightarrow> Inl e | Inr st' \<Rightarrow> optimiseLoop st')
      else Inr st)"
  by pat_completeness auto
termination
proof (relation "measure (\<lambda>st. length (os_items st) - os_i st)", goal_cases)
  case (2 st st')
  then show ?case using applyMethods_advances [of st st'] by simp
qed simp


declare optimiseLoop.simps [simp del]

definition optimise :: "AssemblyItems \<Rightarrow> (bool \<times> AssemblyItems) result" where
  "optimise items =
     bind_result (optimiseLoop \<lparr>os_items = items, os_i = 0, os_out = []\<rparr>) (\<lambda>st.
       let optimised = os_out st
       in if length optimised < length items then Inr (True, optimised)
          else if length optimised = length items then
            bind_result (items_bytesRequired optimised 3) (\<lambda>newSize.
            bind_result (items_bytesRequired items 3) (\<lambda>oldSize.
              if newSize < oldSize \<or> numberOfPops items < numberOfPops optimised
              then Inr (True, optimised) else Inr (False, items)))
          else Inr (False, items))"

section \<open>The rewriting as a function on lists\<close>

text \<open>What the loop computes: the output of the first applicable method, then the rest.\<close>

function peep :: "AssemblyItems \<Rightarrow> AssemblyItems" where
  "peep items =
     (case first_on windowMethods items of
        None \<Rightarrow> []
      | Some (out, k) \<Rightarrow> out @ peep (drop k items))"
  by pat_completeness auto
termination
proof (relation "measure length", goal_cases)
  case (2 items x out k)
  then have "0 < k \<and> k \<le> length items"
    using first_on_bounds [OF methods_implement, of items out k] by simp
  then show ?case by auto
qed simp

declare peep.simps [simp del]

lemma peep_Some: "first_on windowMethods items = Some (out, k) \<Longrightarrow> peep items = out @ peep (drop k items)"
  by (simp add: peep.simps [of items])

lemma peep_Nil [simp]: "peep [] = []"
proof -
  have "first_on windowMethods [] = None"
    using first_on_bounds [OF methods_implement, of "[]"] by (cases "first_on windowMethods []") auto
  then show ?thesis by (simp add: peep.simps [of "[]"])
qed

lemma optimiseLoop_peep:
  "os_i st \<le> length (os_items st) \<Longrightarrow>
     optimiseLoop st =
       Inr (st\<lparr>os_i := length (os_items st), os_out := os_out st @ peep (drop (os_i st) (os_items st))\<rparr>)"
proof (induction st rule: optimiseLoop.induct)
  case (1 st)
  show ?case
  proof (cases "os_i st < length (os_items st)")
    case True
    then obtain out k where f: "first_on windowMethods (drop (os_i st) (os_items st)) = Some (out, k)"
      using first_on_total [of "drop (os_i st) (os_items st)"] by auto
    then have a: "applyMethods peepholeMethods st = Inr (advance st (out, k))"
      using applyMethods_first [OF methods_implement 1(2)] by simp
    have "os_i (advance st (out, k)) \<le> length (os_items (advance st (out, k)))"
      using applyMethods_advances [OF 1(2) a] by simp
    from 1(1) [OF True a this] show ?thesis
      using True a peep_Some [OF f]
      by (simp add: optimiseLoop.simps [of st] advance_def add.commute)
  next
    case False
    with 1(2) show ?thesis by (simp add: optimiseLoop.simps [of st])
  qed
qed

lemma optimise_peep:
  "optimise items = Inr (b, items') \<Longrightarrow> items' = (if b then peep items else items)"
  by (auto simp: optimise_def optimiseLoop_peep Let_def bind_result_Inr_iff split: if_splits)

end
