(* ===== verification/Peephole_Correct.thy ===== *)
theory Peephole_Correct
  imports Peephole Rewriting
begin

text \<open>
  The peephole optimiser preserves executions: what an item list does without failing,
  the rewritten list does. First each window method by itself, then, by simulation, the
  whole rewriting, where a jump in the one list is matched by a jump in the other.
\<close>

section \<open>Windows without jumps\<close>

text \<open>
  A window and its replacement lead from the same stack to the same stack, or the
  window fails, in every program and before every continuation.
\<close>

lemma swap1: "is_op it iSWAP1 \<Longrightarrow> sem_isSwapInstruction it \<and> getSwapNumber (m_instruction it) = 1"
  by (simp add: is_op_def sem_isSwapInstruction_def isSwapInstruction_def getSwapNumber_def)

lemma step_swap1:
  assumes "is_op it iSWAP1"
  shows "step exec stop link P (it # r, s, w) =
    (case s of a # b # s' \<Rightarrow> Running (r, b # a # s', w) | _ \<Rightarrow> Failed)"
  using step_swap [of it exec stop link P r s w] swap1 [OF assms]
  by (simp add: Let_def split: list.split)

lemma swap_twice:
  assumes "n < length s" and t: "t = s[0 := s ! n, n := s ! 0]"
  shows "t[0 := t ! n, n := t ! 0] = s"
proof (rule nth_equalityI)
  fix i assume "i < length (t[0 := t ! n, n := t ! 0])"
  then show "t[0 := t ! n, n := t ! 0] ! i = s ! i"
    using assms(1) gr_implies_not0 [OF assms(1)]
    by (cases "n = 0"; cases "i = 0") (simp_all add: t nth_list_update)
qed (simp add: t)

lemma dup_ret: "isDupInstruction i \<Longrightarrow> 2 \<le> info_ret (instructionInfo i)"
proof -
  assume "isDupInstruction i"
  then have "info_ret (instructionInfo i) = int (unat (getDupNumber i)) + 1" "1 \<le> unat (getDupNumber i)"
    using dup_family [of i] by (simp_all add: word_le_nat_alt)
  then show ?thesis by linarith
qed

lemma swap_ret: "isSwapInstruction i \<Longrightarrow> 2 \<le> info_ret (instructionInfo i)"
proof -
  assume "isSwapInstruction i"
  then have "info_ret (instructionInfo i) = int (unat (getSwapNumber i)) + 1" "1 \<le> unat (getSwapNumber i)"
    using swap_family [of i] by (simp_all add: word_le_nat_alt)
  then show ?thesis by linarith
qed

lemma and_low_mask:
  assumes "(c AND 0xFFFFFFFF) = (0xFFFFFFFF :: u256)" "v < 2 ^ 32"
  shows "c AND v = v"
proof -
  have mask: "(0xFFFFFFFF :: u256) = mask 32" by (simp add: mask_eq_exp_minus_1)
  have "unat v < 2 ^ 32" using assms(2) by (simp add: word_less_nat_alt)
  then have "take_bit 32 v = v"
    by (simp add: word_unat_eq_iff unsigned_take_bit_eq take_bit_nat_eq_self)
  then have v: "v AND mask 32 = v" by (simp add: take_bit_eq_mask)
  have "c AND v = (c AND mask 32) AND v"
    using v by (metis and.assoc and.commute)
  also have "\<dots> = v" using assms(1) v unfolding mask by (simp add: and.commute)
  finally show ?thesis .
qed

lemma commutative_info:
  "isCommutativeInstruction i \<Longrightarrow> i \<in> set arithInstructions \<and> info_args (instructionInfo i) = 2"
  unfolding isCommutativeInstruction_def insert_iff empty_iff
  by (elim disjE) (simp_all add: arithInstructions_def instructionInfo_rules InstructionInfo.defs)

lemma swappable_info:
  assumes "(i, j) \<in> set swappableOps"
  shows "i \<in> set arithInstructions" "j \<in> set arithInstructions"
    "info_args (instructionInfo i) = 2" "info_args (instructionInfo j) = 2"
    "evalArith i [b, a] = evalArith j [a, b]"
  using assms unfolding swappableOps_def list.set insert_iff empty_iff prod.inject
  by (elim disjE conjE; simp add: arithInstructions_def instructionInfo_rules InstructionInfo.defs
      evalArith_def)+

context instruction_semantics
begin

lemma straight_PushPop:
  assumes "PushPop push pop = Some out"
  shows "straight exec stop link [push, pop] out"
proof (rule straightI)
  fix s w
  have pop: "is_op pop iPOP" and out: "out = []"
    using assms by (auto simp: PushPop_def Let_def split: if_splits)
  show "(\<exists>n \<ge> 1. \<forall>P r. run exec stop link P n ([push, pop] @ r, s, w) = Failed) \<or>
    (\<exists>n \<ge> 1. \<exists>m s'. \<forall>P r. run exec stop link P n ([push, pop] @ r, s, w) = Running (r, s', w) \<and>
       run exec stop link P m (out @ r, s, w) = Running (r, s', w))"
  proof (cases "sem_isDupInstruction push")
    case True
    show ?thesis
    proof (cases "length s < unat (getDupNumber (m_instruction push))")
      case short: True
      then show ?thesis
        by (intro failedI [of 1]) (simp_all add: step_dup [OF True] del: step.simps)
    next
      case False
      then show ?thesis
        by (intro runningI [where n = "Suc (Suc 0)" and m = 0 and s' = s])
          (simp_all add: step_dup [OF True] step_pop [OF pop] Let_def out del: step.simps)
    qed
  next
    case False
    then have "m_type push \<noteq> Operation" "m_type push \<noteq> Tag" "m_type push \<noteq> UndefinedItem"
      using assms by (auto simp: PushPop_def Let_def split: if_splits)
    then obtain v where "\<forall>P r s w. step exec stop link P (push # r, s, w) = Running (r, v # s, w)"
      by (rule step_push_type)
    then show ?thesis
      by (intro runningI [where n = "Suc (Suc 0)" and m = 0 and s' = s])
        (simp_all add: step_pop [OF pop] out del: step.simps)
  qed
qed

lemma straight_OpPop:
  assumes "OpPop op pop = Some out"
  shows "straight exec stop link [op, pop] out"
proof (rule straightI)
  fix s w
  let ?i = "m_instruction op"
  let ?k = "nat (info_args (instructionInfo ?i))"
  have op: "m_type op = Operation" and pop: "is_op pop iPOP"
    and info: "info_ret (instructionInfo ?i) = 1" "\<not> info_sideEffects (instructionInfo ?i)"
    and out: "out = replicate ?k (opItemAt iPOP (m_location op))"
    using assms by (auto simp: OpPop_def Let_def split: if_splits)
  have op_i: "is_op op ?i" using op by (simp add: is_op_def)
  have valid: "isValidInstruction ?i" using info(1) not_valid_info [of ?i] by auto
  have no: "\<not> isDupInstruction ?i" "\<not> isSwapInstruction ?i"
    using info(1) dup_ret [of ?i] swap_ret [of ?i] by auto
  have side: "?i \<notin> {iJUMP, iJUMPI, iJUMPDEST}"
    using sideEffectInstructions [OF info(2)] by (auto simp: sideEffectInstructions_def)
  show "(\<exists>n \<ge> 1. \<forall>P r. run exec stop link P n ([op, pop] @ r, s, w) = Failed) \<or>
    (\<exists>n \<ge> 1. \<exists>m s'. \<forall>P r. run exec stop link P n ([op, pop] @ r, s, w) = Running (r, s', w) \<and>
       run exec stop link P m (out @ r, s, w) = Running (r, s', w))"
  proof (cases "isPushInstruction ?i")
    case True
    then show ?thesis
      by (intro failedI [of 1]) (simp_all add: step_is_op [OF op_i] step_op_def del: step.simps)
  next
    case False
    then have gen: "generic_op ?i" using no side by (simp add: generic_op_def)
    show ?thesis
    proof (cases "length s < ?k")
      case True
      then have "int (length s) < info_args (instructionInfo ?i)" by linarith
      then show ?thesis
        by (intro failedI [of 1]) (simp_all add: step_short [OF op_i gen] del: step.simps)
    next
      case short: False
      have "info_args (instructionInfo ?i) \<ge> 0" by (rule info_args_nonneg)
      then have "info_args (instructionInfo ?i) = int (length (take ?k s))" using short by simp
      then obtain v where "exec ?i (take ?k s) w = (Inr v, w)"
        using exec_pure [OF info(2) valid False no] by blast
      then have "step exec stop link P (op # r, s, w) = Running (r, v # drop ?k s, w)" for P r
        using short info(1) by (simp add: step_is_op [OF op_i] step_op_generic [OF gen] Let_def del: step.simps)
      moreover have "run exec stop link P (length out) (out @ r, s, w) = Running (r, drop ?k s, w)" for P r
        using short run_pops [of out s] by (simp add: out)
      ultimately show ?thesis
        by (intro runningI [where n = "Suc (Suc 0)" and m = "length out" and s' = "drop ?k s"])
          (simp_all add: step_pop [OF pop] del: step.simps)
    qed
  qed
qed

lemma straight_swapped:
  assumes "is_op swap iSWAP1" "is_op op i" "is_op op' j"
    and "i \<in> set arithInstructions" "j \<in> set arithInstructions"
    and "info_args (instructionInfo i) = 2" "info_args (instructionInfo j) = 2"
    and "\<And>a b. evalArith i [b, a] = evalArith j [a, b]"
  shows "straight exec stop link [swap, op] [op']"
proof (rule straightI)
  fix s w
  show "(\<exists>n \<ge> 1. \<forall>P r. run exec stop link P n ([swap, op] @ r, s, w) = Failed) \<or>
    (\<exists>n \<ge> 1. \<exists>m s'. \<forall>P r. run exec stop link P n ([swap, op] @ r, s, w) = Running (r, s', w) \<and>
       run exec stop link P m ([op'] @ r, s, w) = Running (r, s', w))"
  proof (cases "\<exists>a b s'. s = a # b # s'")
    case True
    then obtain a b s' where s: "s = a # b # s'" by blast
    show ?thesis
      by (intro runningI [where n = "Suc (Suc 0)" and m = "Suc 0" and s' = "the (evalArith j [a, b]) # s'"])
        (simp_all add: s step_swap1 [OF assms(1)] step_binary [OF assms(2,4,6)]
          step_binary [OF assms(3,5,7)] assms(8) del: step.simps)
  next
    case False
    then have "step exec stop link P (swap # r, s, w) = Failed" for P r
      by (auto simp: step_swap1 [OF assms(1)] simp del: step.simps split: list.split)
    then show ?thesis by (intro failedI [of 1]) simp_all
  qed
qed

lemma straight_CommutativeSwap:
  assumes "CommutativeSwap swap op = Some out"
  shows "straight exec stop link [swap, op] out"
proof -
  let ?i = "m_instruction op"
  have swap: "is_op swap iSWAP1" and op: "is_op op ?i" and c: "isCommutativeInstruction ?i" and out: "out = [op]"
    using assms by (auto simp: CommutativeSwap_def isCommutativeOperation_def is_op_def split: if_splits)
  show ?thesis
    unfolding out using straight_swapped [OF swap op op] commutative_info [OF c] evalArith_commutative [OF c]
    by blast
qed

lemma straight_SwapComparison:
  assumes "SwapComparison swap op = Some out"
  shows "straight exec stop link [swap, op] out"
proof -
  let ?i = "m_instruction op"
  obtain j where swap: "is_op swap iSWAP1" and op: "is_op op ?i" and j: "map_of swappableOps ?i = Some j"
    and out: "out = [opItem j]"
    using assms by (auto simp: SwapComparison_def is_op_def split: if_splits option.splits)
  have "(?i, j) \<in> set swappableOps" using j by (rule map_of_SomeD)
  from swappable_info [OF this] show ?thesis
    unfolding out by (intro straight_swapped [OF swap op]) simp_all
qed

lemma straight_DoublePush:
  assumes "DoublePush push1 push2 = Some out"
  shows "straight exec stop link [push1, push2] out"
proof (rule straightI)
  fix s w
  have t: "m_type push1 = Push" "m_type push2 = Push" "m_data push2 = m_data push1"
    and out: "out = [push1, opItemAt iDUP1 (m_location push2)]"
    using assms by (auto simp: DoublePush_def split: if_splits)
  have dup: "sem_isDupInstruction (opItemAt iDUP1 l)" "getDupNumber iDUP1 = 1" for l
    by (simp_all add: sem_isDupInstruction_def isDupInstruction_def getDupNumber_def)
  show "(\<exists>n \<ge> 1. \<forall>P r. run exec stop link P n ([push1, push2] @ r, s, w) = Failed) \<or>
    (\<exists>n \<ge> 1. \<exists>m s'. \<forall>P r. run exec stop link P n ([push1, push2] @ r, s, w) = Running (r, s', w) \<and>
       run exec stop link P m (out @ r, s, w) = Running (r, s', w))"
    by (intro runningI [where n = "Suc (Suc 0)" and m = "Suc (Suc 0)" and s' = "m_data push1 # m_data push1 # s"])
      (simp_all add: t out step_op_def isPushInstruction_def isDupInstruction_def dup(2) Let_def)
qed

lemma straight_DoubleSwap:
  assumes "DoubleSwap s1 s2 = Some out"
  shows "straight exec stop link [s1, s2] out"
proof (rule straightI)
  fix s w
  have swap: "sem_isSwapInstruction s1" and eq: "item_eq s1 s2" and out: "out = []"
    using assms by (auto simp: DoubleSwap_def split: if_splits)
  then have s2: "sem_isSwapInstruction s2" "m_instruction s2 = m_instruction s1"
    by (auto simp: sem_isSwapInstruction_def item_eq_def split: if_splits)
  let ?n = "unat (getSwapNumber (m_instruction s1))"
  show "(\<exists>n \<ge> 1. \<forall>P r. run exec stop link P n ([s1, s2] @ r, s, w) = Failed) \<or>
    (\<exists>n \<ge> 1. \<exists>m s'. \<forall>P r. run exec stop link P n ([s1, s2] @ r, s, w) = Running (r, s', w) \<and>
       run exec stop link P m (out @ r, s, w) = Running (r, s', w))"
  proof (cases "length s < Suc ?n")
    case True
    then show ?thesis
      by (intro failedI [of 1]) (simp_all add: step_swap [OF swap] Let_def del: step.simps)
  next
    case False
    define t where "t = s[0 := s ! ?n, ?n := s ! 0]"
    have "t[0 := t ! ?n, ?n := t ! 0] = s" "length t = length s"
      using False by (intro swap_twice) (simp_all add: t_def)
    moreover have "step exec stop link P (s1 # r, s, w) = Running (r, t, w)" for P r
      using False by (simp add: step_swap [OF swap] t_def Let_def del: step.simps)
    ultimately show ?thesis
      using False by (intro runningI [where n = "Suc (Suc 0)" and m = 0 and s' = s])
        (simp_all add: step_swap [OF s2(1)] s2(2) out Let_def del: step.simps)
  qed
qed

lemma straight_TagConjunctions:
  assumes "TagConjunctions pushTag pushConstant andItem = Some out" "link pushTag < 2 ^ 32"
  shows "straight exec stop link [pushTag, pushConstant, andItem] out"
proof (rule straightI)
  fix s w
  have t: "m_type pushTag = PushTag" "m_type pushConstant = Push" and op: "is_op andItem iAND"
    and c: "(m_data pushConstant AND 0xFFFFFFFF) = 0xFFFFFFFF" and out: "out = [pushTag]"
    using assms by (auto simp: TagConjunctions_def split: if_splits)
  have arith: "iAND \<in> set arithInstructions" "info_args (instructionInfo iAND) = 2"
    by (simp_all add: arithInstructions_def instructionInfo_rules InstructionInfo.defs)
  have steps: "step exec stop link P (pushTag # r, s, w) = Running (r, link pushTag # s, w)"
    "step exec stop link P (pushConstant # r, s, w) = Running (r, m_data pushConstant # s, w)" for P r s w
    using t by simp_all
  have "m_data pushConstant AND link pushTag = link pushTag"
    using c assms(2) by (rule and_low_mask)
  then show "(\<exists>n \<ge> 1. \<forall>P r. run exec stop link P n ([pushTag, pushConstant, andItem] @ r, s, w) = Failed) \<or>
    (\<exists>n \<ge> 1. \<exists>m s'. \<forall>P r. run exec stop link P n ([pushTag, pushConstant, andItem] @ r, s, w) = Running (r, s', w) \<and>
       run exec stop link P m (out @ r, s, w) = Running (r, s', w))"
    by (intro runningI [where n = "Suc (Suc (Suc 0))" and m = "Suc 0" and s' = "link pushTag # s"])
      (simp_all add: steps out step_binary [OF op arith] evalArith_def del: step.simps)
qed

lemma straight_TruthyAnd:
  assumes "TruthyAnd push notItem andItem = Some out"
  shows "straight exec stop link [push, notItem, andItem] out"
proof (rule straightI)
  fix s w
  have t: "m_type push = Push" "m_data push = 0" and ops: "is_op notItem iNOT" "is_op andItem iAND" and out: "out = []"
    using assms by (auto simp: TruthyAnd_def split: if_splits)
  have arith: "iAND \<in> set arithInstructions" "info_args (instructionInfo iAND) = 2"
    "iNOT \<in> set arithInstructions" "info_args (instructionInfo iNOT) = 1"
    by (simp_all add: arithInstructions_def instructionInfo_rules InstructionInfo.defs)
  have steps: "step exec stop link P (push # r, s, w) = Running (r, 0 # s, w)" for P r s w
    using t by simp
  show "(\<exists>n \<ge> 1. \<forall>P r. run exec stop link P n ([push, notItem, andItem] @ r, s, w) = Failed) \<or>
    (\<exists>n \<ge> 1. \<exists>m s'. \<forall>P r. run exec stop link P n ([push, notItem, andItem] @ r, s, w) = Running (r, s', w) \<and>
       run exec stop link P m (out @ r, s, w) = Running (r, s', w))"
  proof (cases s)
    case Nil
    then show ?thesis
      by (intro failedI [where n = "Suc (Suc (Suc 0))"])
        (simp_all add: steps step_unary [OF ops(1) arith(3,4)] step_binary [OF ops(2) arith(1,2)] del: step.simps)
  next
    case (Cons a s')
    then show ?thesis
      by (intro runningI [where n = "Suc (Suc (Suc 0))" and m = 0 and s' = s])
        (simp_all add: steps step_unary [OF ops(1) arith(3,4)] step_binary [OF ops(2) arith(1,2)] out
          evalArith_def del: step.simps)
  qed
qed

end

section \<open>Tags\<close>

text \<open>
  The labels: a tag and the items that push it have the same label, labels fit four
  bytes, and a program has no two tags with the same label.
\<close>

definition link_ok :: "(AssemblyItem \<Rightarrow> u256) \<Rightarrow> bool" where
  "link_ok link \<longleftrightarrow>
     (\<forall>a b. m_type a = PushTag \<and> m_type b = Tag \<and> m_data a = m_data b \<longrightarrow> link a = link b) \<and>
     (\<forall>a. m_type a = PushTag \<longrightarrow> link a < 2 ^ 32)"

lemma first_on_Some: "first_on fs items = Some r \<Longrightarrow> \<exists>f \<in> set fs. f items = Some r"
  by (induction fs) (auto split: option.splits)

lemma simple_on_Some:
  "simple_on n f items = Some (out, k) \<Longrightarrow>
     k = n \<and> n \<le> length items \<and> f (take n items) = Some out"
  by (auto simp: simple_on_def split: if_splits)

text \<open>The ways a window is replaced.\<close>

lemma list2: "length w = 2 \<Longrightarrow> w = [w ! 0, w ! 1]"
  by (rule nth_equalityI) (auto simp: less_2_cases_iff)

lemma list3: "length w = 3 \<Longrightarrow> w = [w ! 0, w ! 1, w ! 2]"
  by (auto simp: numeral_3_eq_3 length_Suc_conv)

lemma list4: "length w = 4 \<Longrightarrow> w = [w ! 0, w ! 1, w ! 2, w ! 3]"
  by (auto simp: eval_nat_numeral length_Suc_conv)

lemma window_cases:
  assumes "first_on windowMethods items = Some (out, k)"
  obtains (pushPop) a b r where "items = a # b # r" "k = 2" "PushPop a b = Some out"
    | (opPop) a b r where "items = a # b # r" "k = 2" "OpPop a b = Some out"
    | (doublePush) a b r where "items = a # b # r" "k = 2" "DoublePush a b = Some out"
    | (doubleSwap) a b r where "items = a # b # r" "k = 2" "DoubleSwap a b = Some out"
    | (commutativeSwap) a b r where "items = a # b # r" "k = 2" "CommutativeSwap a b = Some out"
    | (swapComparison) a b r where "items = a # b # r" "k = 2" "SwapComparison a b = Some out"
    | (isZero) a b c d r where "items = a # b # c # d # r" "k = 4" "IsZeroIsZeroJumpI a b c d = Some out"
    | (jumpToNext) a b c r where "items = a # b # c # r" "k = 3" "JumpToNext a b c = Some out"
    | (unreachable) "unreachable_on items = Some (out, k)"
    | (tagConjunctions) a b c r where "items = a # b # c # r" "k = 3" "TagConjunctions a b c = Some out"
    | (truthyAnd) a b c r where "items = a # b # c # r" "k = 3" "TruthyAnd a b c = Some out"
    | (identity) a r where "items = a # r" "k = 1" "out = [a]"
proof -
  have two: "\<exists>a b r. items = a # b # r \<and> k = 2 \<and> f a b = Some out"
    if "simple_on 2 (window2 f) items = Some (out, k)" for f
    using simple_on_Some [OF that] by (cases items; cases "tl items") auto
  have three: "\<exists>a b c r. items = a # b # c # r \<and> k = 3 \<and> f a b c = Some out"
    if "simple_on 3 (window3 f) items = Some (out, k)" for f
    using simple_on_Some [OF that] by (cases items; cases "tl items"; cases "tl (tl items)") (auto simp: numeral_3_eq_3 numeral_2_eq_2)
  have four: "\<exists>a b c d r. items = a # b # c # d # r \<and> k = 4 \<and> f a b c d = Some out"
    if "simple_on 4 (window4 f) items = Some (out, k)" for f
    using simple_on_Some [OF that]
    by (cases items; cases "tl items"; cases "tl (tl items)"; cases "tl (tl (tl items))")
      (auto simp: eval_nat_numeral)
  have one: "\<exists>a r. items = a # r \<and> k = 1 \<and> out = [a]"
    if "simple_on 1 (window1 Identity) items = Some (out, k)"
    using simple_on_Some [OF that] by (cases items) (auto simp: Identity_def)
  from first_on_Some [OF assms] obtain f where "f \<in> set windowMethods" "f items = Some (out, k)" by blast
  then show thesis
    unfolding windowMethods_def list.set insert_iff empty_iff
  proof (elim disjE FalseE)
    assume "f = simple_on 2 (window2 PushPop)"
    with \<open>f items = _\<close> show thesis using two pushPop by blast
  next
    assume "f = simple_on 2 (window2 OpPop)"
    with \<open>f items = _\<close> show thesis using two opPop by blast
  next
    assume "f = simple_on 2 (window2 DoublePush)"
    with \<open>f items = _\<close> show thesis using two doublePush by blast
  next
    assume "f = simple_on 2 (window2 DoubleSwap)"
    with \<open>f items = _\<close> show thesis using two doubleSwap by blast
  next
    assume "f = simple_on 2 (window2 CommutativeSwap)"
    with \<open>f items = _\<close> show thesis using two commutativeSwap by blast
  next
    assume "f = simple_on 2 (window2 SwapComparison)"
    with \<open>f items = _\<close> show thesis using two swapComparison by blast
  next
    assume "f = simple_on 4 (window4 IsZeroIsZeroJumpI)"
    with \<open>f items = _\<close> show thesis using four isZero by blast
  next
    assume "f = simple_on 3 (window3 JumpToNext)"
    with \<open>f items = _\<close> show thesis using three jumpToNext by blast
  next
    assume "f = unreachable_on"
    with \<open>f items = _\<close> show thesis using unreachable by blast
  next
    assume "f = simple_on 3 (window3 TagConjunctions)"
    with \<open>f items = _\<close> show thesis using three tagConjunctions by blast
  next
    assume "f = simple_on 3 (window3 TruthyAnd)"
    with \<open>f items = _\<close> show thesis using three truthyAnd by blast
  next
    assume "f = simple_on 1 (window1 Identity)"
    with \<open>f items = _\<close> show thesis using one identity by blast
  qed
qed

lemma peep_tag: "m_type tag = Tag \<Longrightarrow> peep (tag # r) = tag # peep r"
proof -
  assume t: "m_type tag = Tag"
  then have "\<not> is_op tag i" for i by (simp add: is_op_def)
  moreover have "\<not> sem_isDupInstruction tag" "\<not> sem_isSwapInstruction tag"
    using t by (simp_all add: sem_isDupInstruction_def sem_isSwapInstruction_def)
  ultimately have "first_on windowMethods (tag # r) = Some ([tag], 1)"
    using t
    by (simp add: windowMethods_def simple_on_def unreachable_on_def endsBlock_def PushPop_def OpPop_def
        DoublePush_def DoubleSwap_def CommutativeSwap_def SwapComparison_def IsZeroIsZeroJumpI_def
        JumpToNext_def TagConjunctions_def TruthyAnd_def Identity_def Let_def)
  then show ?thesis by (simp add: peep_Some)
qed

text \<open>No rewriting adds or removes a tag.\<close>

lemma notag: "is_op it i \<Longrightarrow> m_type it \<noteq> Tag" "sem_isSwapInstruction it \<Longrightarrow> m_type it \<noteq> Tag"
  by (auto simp: is_op_def sem_isSwapInstruction_def split: if_splits)

lemma takeWhile_notag: "\<forall>it \<in> set (takeWhile (\<lambda>x. m_type x \<noteq> Tag) xs). m_type it \<noteq> Tag"
  by (auto dest: set_takeWhileD)

lemma window_tags:
  assumes "first_on windowMethods items = Some (out, k)"
  shows "(\<forall>it \<in> set (take k items) \<union> set out. m_type it \<noteq> Tag) \<or>
    (\<exists>a b tag. take k items = a @ [tag] \<and> out = b @ [tag] \<and> m_type tag = Tag \<and>
       (\<forall>it \<in> set a \<union> set b. m_type it \<noteq> Tag))"
  using assms
proof (cases rule: window_cases)
  case (pushPop a b r)
  then show ?thesis
    by (auto simp: PushPop_def sem_isDupInstruction_def Let_def notag split: if_splits)
next
  case (opPop a b r)
  then show ?thesis by (auto simp: OpPop_def Let_def notag split: if_splits)
next
  case (doublePush a b r)
  then show ?thesis by (auto simp: DoublePush_def split: if_splits)
next
  case (doubleSwap a b r)
  then show ?thesis by (auto simp: DoubleSwap_def item_eq_def notag split: if_splits)
next
  case (commutativeSwap a b r)
  then show ?thesis
    by (auto simp: CommutativeSwap_def isCommutativeOperation_def notag split: if_splits)
next
  case (swapComparison a b r)
  then show ?thesis by (auto simp: SwapComparison_def notag split: if_splits option.splits)
next
  case (isZero a b c d r)
  then show ?thesis by (auto simp: IsZeroIsZeroJumpI_def notag split: if_splits)
next
  case (jumpToNext a b c r)
  then have "m_type a \<noteq> Tag" "m_type b \<noteq> Tag" "m_type c = Tag"
    "out = (if is_op b iJUMPI then [opItemAt iPOP (m_location b)] else []) @ [c]"
    by (auto simp: JumpToNext_def notag split: if_splits)
  with jumpToNext show ?thesis
    by (intro disjI2 exI [of _ "[a, b]"] exI [of _ "if is_op b iJUMPI then [opItemAt iPOP (m_location b)] else []"] exI [of _ c])
      (auto simp: numeral_3_eq_3)
next
  case unreachable
  then obtain a items' where "items = a # items'" "out = [a]" "endsBlock a"
    "k = Suc (length (takeWhile (\<lambda>x. m_type x \<noteq> Tag) items'))"
    by (auto simp: unreachable_on_def split: list.splits if_splits)
  then show ?thesis
    using takeWhile_notag [of items'] by (auto simp: endsBlock_def notag simp flip: takeWhile_eq_take)
next
  case (tagConjunctions a b c r)
  then show ?thesis by (auto simp: TagConjunctions_def notag numeral_3_eq_3 split: if_splits)
next
  case (truthyAnd a b c r)
  then show ?thesis by (auto simp: TruthyAnd_def notag numeral_3_eq_3 split: if_splits)
next
  case (identity a r)
  then show ?thesis
    by (cases "m_type a = Tag") (auto intro: exI [of _ "[]"])
qed

lemma find_tag_peep: "find_tag link (peep items) v = map_option peep (find_tag link items v)"
proof (induction items rule: peep.induct)
  case (1 items)
  show ?case
  proof (cases "first_on windowMethods items")
    case None
    then have "items = []" using first_on_total by blast
    then show ?thesis by simp
  next
    case (Some x)
    obtain out k where x: "x = (out, k)" by (cases x)
    note f = Some [unfolded x]
    have IH: "find_tag link (peep (drop k items)) v = map_option peep (find_tag link (drop k items) v)"
      using 1 [OF f refl] .
    have split: "items = take k items @ drop k items" by simp
    from window_tags [OF f] show ?thesis
    proof
      assume a: "\<forall>it \<in> set (take k items) \<union> set out. m_type it \<noteq> Tag"
      then have "find_tag link items v = find_tag link (drop k items) v"
        using find_tag_append [of "take k items" link v "drop k items"] by simp
      moreover have "find_tag link (peep items) v = find_tag link (peep (drop k items)) v"
        unfolding peep_Some [OF f] using a by (intro find_tag_append) simp
      ultimately show ?thesis using IH by simp
    next
      assume "\<exists>a b tag. take k items = a @ [tag] \<and> out = b @ [tag] \<and> m_type tag = Tag \<and>
       (\<forall>it \<in> set a \<union> set b. m_type it \<noteq> Tag)"
      then obtain a b tag where ab: "take k items = a @ [tag]" "out = b @ [tag]" "m_type tag = Tag"
        "\<forall>it \<in> set a \<union> set b. m_type it \<noteq> Tag" by blast
      have "find_tag link items v = find_tag link (tag # drop k items) v"
        using split ab find_tag_append [of a link v "tag # drop k items"] by simp
      moreover have "find_tag link (peep items) v = find_tag link (tag # peep (drop k items)) v"
        unfolding peep_Some [OF f] ab(2) using ab(4) find_tag_append [of b link v "tag # peep (drop k items)"] by simp
      ultimately show ?thesis
        using IH ab(3) by (simp add: peep_tag)
    qed
  qed
qed

section \<open>Simulation\<close>

text \<open>The invariant: the items left are a suffix of the program.\<close>

abbreviation peep_simulated ::
    "('e, 'w) exec \<Rightarrow> 'e \<Rightarrow> (AssemblyItem \<Rightarrow> u256) \<Rightarrow> AssemblyItems \<Rightarrow> AssemblyItems \<Rightarrow>
     u256 list \<Rightarrow> 'w \<Rightarrow> bool" where
  "peep_simulated exec stop link prog items s w \<equiv>
     simulated exec stop link (\<lambda>c. \<exists>pre. prog = pre @ fst c) peep prog items s w"

lemma peep_Running:
  "1 \<le> n \<Longrightarrow> run exec stop link prog n (items, s, w) = Running (items', s', w') \<Longrightarrow>
     \<exists>pre. prog = pre @ items' \<Longrightarrow>
     run exec stop link (peep prog) m (peep items, s, w) = Running (peep items', s', w') \<Longrightarrow>
     1 \<le> m \<or> length items' < length items \<Longrightarrow> peep_simulated exec stop link prog items s w"
  by (intro simulated_Running [where n = n and m = m and items' = items' and s' = s' and w' = w']) simp_all

lemma peep_target:
  "find_tag link prog v = Some t \<Longrightarrow>
     find_tag link (peep prog) v = Some (peep t) \<and> (\<exists>pre. prog = pre @ t)"
  by (auto simp: find_tag_peep dest: find_tag_Some)

lemma jump_simulated:
  assumes "1 \<le> n" "run exec stop link prog n (items, s, w) = jump_to link prog v s' w'"
    and "1 \<le> m" "run exec stop link (peep prog) m (peep items, s, w) = jump_to link (peep prog) v s' w'"
  shows "peep_simulated exec stop link prog items s w"
  using peep_target by (intro simulated_jump [OF assms]) simp

lemma step_simulated:
  assumes peep: "peep (it # r) = it # r2" and suffix: "\<exists>pre. prog = pre @ it # r"
    and same: "r2 = peep r \<or> \<not> (\<exists>s' w'. \<forall>P r. step exec stop link P (it # r, s, w) = Running (r, s', w'))"
  shows "peep_simulated exec stop link prog (it # r) s w"
proof (rule simulated_step [OF peep same])
  show "\<exists>pre. prog = pre @ fst (r, s', w')" for s' w'
    using suffix by (metis append_Cons append_Nil append_assoc fst_conv)
qed (use peep_target in simp)

lemma simulated_straight:
  assumes f: "first_on windowMethods items = Some (out, k)"
    and suffix: "\<exists>pre. prog = pre @ items"
    and straight: "straight exec stop link (take k items) out"
  shows "peep_simulated exec stop link prog items s w"
proof (rule simulated_window [OF straight])
  show "items = take k items @ drop k items" by simp
  show "peep items = out @ peep (drop k items)" by (rule peep_Some [OF f])
  show "take k items \<noteq> []" using first_on_bounds [OF methods_implement f] by auto
  show "\<exists>pre. prog = pre @ fst (drop k items, s', w')" for s' w'
    using suffix by (metis append_take_drop_id append_assoc fst_conv)
qed

context instruction_semantics
begin

lemma endsBlock_not_local:
  assumes "endsBlock it"
  shows "\<not> (\<exists>s' w'. \<forall>P r. step exec stop link P (it # r, s, w) = Running (r, s', w'))"
proof (cases "is_op it iJUMP")
  case True
  have "step exec stop link [] (it # [it], s, w) \<noteq> Running ([it], s', w')" for s' w'
    by (simp add: jump_step [OF True] jump_to_def del: step.simps split: list.split)
  then show ?thesis by blast
next
  case False
  let ?i = "m_instruction it"
  have t: "is_op it ?i" "terminatesControlFlowInstr ?i" and "?i \<in> {iRETURN, iSTOP, iINVALID, iSELFDESTRUCT, iREVERT}"
    using assms False by (auto simp: endsBlock_def is_op_def terminatesControlFlowInstr_def)
  then have gen: "generic_op ?i"
    by (auto simp: generic_op_def isPushInstruction_def isDupInstruction_def isSwapInstruction_def)
  let ?n = "nat (info_args (instructionInfo ?i))"
  have "step exec stop link P (it # r, s, w) \<noteq> Running (r, s', w')" for P r s' w'
  proof (cases "length s < ?n")
    case True
    then show ?thesis by (simp add: step_is_op [OF t(1)] step_op_generic [OF gen] del: step.simps)
  next
    case False
    then have "info_args (instructionInfo ?i) = int (length (take ?n s))"
      using info_args_nonneg [of ?i] by simp
    then obtain e w1 where "exec ?i (take ?n s) w = (Inl e, w1)" using exec_terminates [OF t(2)] by blast
    with False show ?thesis
      by (cases e) (simp_all add: step_is_op [OF t(1)] step_op_generic [OF gen] del: step.simps)
  qed
  then show ?thesis by blast
qed

lemma simulated_unreachable:
  assumes f: "first_on windowMethods items = Some (out, k)" and u: "unreachable_on items = Some (out, k)"
    and suffix: "\<exists>pre. prog = pre @ items"
  shows "peep_simulated exec stop link prog items s w"
proof -
  obtain it r where items: "items = it # r" "out = [it]" and ends: "endsBlock it"
    using u by (auto simp: unreachable_on_def split: list.splits if_splits)
  have "peep (it # r) = it # peep (drop k items)"
    using peep_Some [OF f] items by simp
  then show ?thesis
    using endsBlock_not_local [OF ends] suffix unfolding items(1) by (intro step_simulated) blast+
qed

lemma simulated_isZero:
  assumes f: "first_on windowMethods items = Some (out, k)"
    and items: "items = a # b # c # d # r" "k = 4" and z: "IsZeroIsZeroJumpI a b c d = Some out"
    and suffix: "\<exists>pre. prog = pre @ items"
  shows "peep_simulated exec stop link prog items s w"
proof -
  have ops: "is_op a iISZERO" "is_op b iISZERO" "is_op d iJUMPI" and c: "m_type c = PushTag" and out: "out = [c, d]"
    using z by (auto simp: IsZeroIsZeroJumpI_def split: if_splits)
  have arith: "iISZERO \<in> set arithInstructions" "info_args (instructionInfo iISZERO) = 1"
    by (simp_all add: arithInstructions_def instructionInfo_rules InstructionInfo.defs)
  have peep: "peep items = c # d # peep r"
    using peep_Some [OF f] by (simp add: items out eval_nat_numeral)
  show ?thesis
  proof (cases s)
    case Nil
    then have "run exec stop link prog 1 (items, s, w) = Failed"
      unfolding run_1 items by (simp add: step_unary [OF ops(1) arith] del: step.simps)
    then show ?thesis by (rule simulated_Failed [rotated]) simp
  next
    case (Cons x s')
    have orig: "run exec stop link prog (Suc (Suc (Suc (Suc 0)))) (items, s, w) =
        (if x \<noteq> 0 then jump_to link prog (link c) s' w else Running (r, s', w))"
      by (simp add: items Cons step_unary [OF ops(1) arith] step_unary [OF ops(2) arith] pushTag_step [OF c]
          jumpi_step [OF ops(3)] evalArith_def jump_to_def del: step.simps split: option.split)
    have new: "run exec stop link (peep prog) (Suc (Suc 0)) (peep items, s, w) =
        (if x \<noteq> 0 then jump_to link (peep prog) (link c) s' w else Running (peep r, s', w))"
      by (simp add: peep Cons pushTag_step [OF c] jumpi_step [OF ops(3)] jump_to_def del: step.simps
          split: option.split)
    show ?thesis
    proof (cases "x = 0")
      case True
      have "\<exists>pre. prog = pre @ r" using suffix unfolding items by (metis append_Cons append_Nil append_assoc)
      have o: "run exec stop link prog (Suc (Suc (Suc (Suc 0)))) (items, s, w) = Running (r, s', w)"
        using orig True by (simp only: if_False simp_thms)
      have n: "run exec stop link (peep prog) (Suc (Suc 0)) (peep items, s, w) = Running (peep r, s', w)"
        using new True by (simp only: if_False simp_thms)
      show ?thesis by (rule peep_Running [OF _ o \<open>\<exists>pre. prog = pre @ r\<close> n]) simp_all
    next
      case False
      have o: "run exec stop link prog (Suc (Suc (Suc (Suc 0)))) (items, s, w) = jump_to link prog (link c) s' w"
        using orig False by (simp only: if_True simp_thms)
      have n: "run exec stop link (peep prog) (Suc (Suc 0)) (peep items, s, w) = jump_to link (peep prog) (link c) s' w"
        using new False by (simp only: if_True simp_thms)
      show ?thesis by (rule jump_simulated [OF _ o _ n]) simp_all
    qed
  qed
qed

lemma simulated_jumpToNext:
  assumes f: "first_on windowMethods items = Some (out, k)"
    and items: "items = a # b # c # r" "k = 3" and z: "JumpToNext a b c = Some out"
    and suffix: "\<exists>pre. prog = pre @ items" and link: "link_ok link" and tags: "tags_ok link prog"
  shows "peep_simulated exec stop link prog items s w"
proof -
  have a: "m_type a = PushTag" and b: "is_op b iJUMP \<or> is_op b iJUMPI" and c: "m_type c = Tag"
    and data: "m_data a = m_data c"
    and out: "out = (if is_op b iJUMPI then [opItemAt iPOP (m_location b)] else []) @ [c]"
    using z by (auto simp: JumpToNext_def split: if_splits)
  have label: "link a = link c" using link a c data unfolding link_ok_def by blast
  have peep: "peep items = out @ peep r"
    using peep_Some [OF f] by (simp add: items eval_nat_numeral)
  have suf: "\<exists>pre. prog = pre @ c # r"
    using suffix unfolding items by (metis append_Cons append_Nil append_assoc)
  then obtain pre where prog: "prog = pre @ c # r" by blast
  have target: "jump_to link prog (link a) s' w' = Running (c # r, s', w')"
    for s' w' using find_tag_unique [of link pre c r] tags c unfolding prog label by (simp add: jump_to_def)
  have peep_c: "peep (c # r) = c # peep r" by (rule peep_tag [OF c])
  show ?thesis
  proof (cases "is_op b iJUMPI")
    case False
    with b have J: "is_op b iJUMP" by blast
    have o: "run exec stop link prog (Suc (Suc 0)) (items, s, w) = Running (c # r, s, w)"
      by (simp add: items pushTag_step [OF a] jump_step [OF J] target del: step.simps)
    have n: "run exec stop link (peep prog) 0 (peep items, s, w) = Running (peep (c # r), s, w)"
      using False by (simp add: peep peep_c out)
    show ?thesis by (rule peep_Running [OF _ o suf n]) (simp_all add: items)
  next
    case True
    show ?thesis
    proof (cases s)
      case Nil
      then have "run exec stop link prog (Suc (Suc 0)) (items, s, w) = Failed"
        by (simp add: items pushTag_step [OF a] jumpi_step [OF True] del: step.simps)
      then show ?thesis by (rule simulated_Failed [rotated]) simp
    next
      case (Cons x s')
      have o: "run exec stop link prog (Suc (Suc (Suc 0))) (items, s, w) = Running (r, s', w)"
        by (simp add: items Cons pushTag_step [OF a] jumpi_step [OF True] target tag_step [OF c]
            del: step.simps)
      have n: "run exec stop link (peep prog) (Suc (Suc 0)) (peep items, s, w) = Running (peep r, s', w)"
        using True by (simp add: peep out Cons step_pop tag_step [OF c] del: step.simps)
      have "\<exists>pre. prog = pre @ r" using suf by (metis append_Cons append_Nil append_assoc)
      from peep_Running [OF _ o this n] show ?thesis by (simp add: items)
    qed
  qed
qed

lemma window_simulated:
  assumes f: "first_on windowMethods items = Some (out, k)" and suffix: "\<exists>pre. prog = pre @ items"
    and link: "link_ok link" and tags: "tags_ok link prog"
  shows "peep_simulated exec stop link prog items s w"
  using f
proof (cases rule: window_cases)
  case (pushPop a b r)
  then have "straight exec stop link (take k items) out"
    using straight_PushPop [of a b out] by (simp add: numeral_2_eq_2)
  then show ?thesis by (rule simulated_straight [OF f suffix])
next
  case (opPop a b r)
  then have "straight exec stop link (take k items) out"
    using straight_OpPop [of a b out] by (simp add: numeral_2_eq_2)
  then show ?thesis by (rule simulated_straight [OF f suffix])
next
  case (doublePush a b r)
  then have "straight exec stop link (take k items) out"
    using straight_DoublePush [of a b out] by (simp add: numeral_2_eq_2)
  then show ?thesis by (rule simulated_straight [OF f suffix])
next
  case (doubleSwap a b r)
  then have "straight exec stop link (take k items) out"
    using straight_DoubleSwap [of a b out] by (simp add: numeral_2_eq_2)
  then show ?thesis by (rule simulated_straight [OF f suffix])
next
  case (commutativeSwap a b r)
  then have "straight exec stop link (take k items) out"
    using straight_CommutativeSwap [of a b out] by (simp add: numeral_2_eq_2)
  then show ?thesis by (rule simulated_straight [OF f suffix])
next
  case (swapComparison a b r)
  then have "straight exec stop link (take k items) out"
    using straight_SwapComparison [of a b out] by (simp add: numeral_2_eq_2)
  then show ?thesis by (rule simulated_straight [OF f suffix])
next
  case (isZero a b c d r)
  then show ?thesis using simulated_isZero [OF f _ _ _ suffix] by blast
next
  case (jumpToNext a b c r)
  then show ?thesis using simulated_jumpToNext [OF f _ _ _ suffix link tags] by blast
next
  case unreachable
  then show ?thesis by (rule simulated_unreachable [OF f _ suffix])
next
  case (tagConjunctions a b c r)
  then have "m_type a = PushTag" by (simp add: TagConjunctions_def split: if_splits)
  then have "link a < 2 ^ 32" using link unfolding link_ok_def by blast
  with tagConjunctions have "straight exec stop link (take k items) out"
    using straight_TagConjunctions [of a b c out link] by (simp add: numeral_3_eq_3)
  then show ?thesis by (rule simulated_straight [OF f suffix])
next
  case (truthyAnd a b c r)
  then have "straight exec stop link (take k items) out"
    using straight_TruthyAnd [of a b c out] by (simp add: numeral_3_eq_3)
  then show ?thesis by (rule simulated_straight [OF f suffix])
next
  case (identity a r)
  have "peep (a # r) = a # peep r" using peep_Some [OF f] identity by simp
  then show ?thesis using suffix unfolding identity(1) by (intro step_simulated) blast+
qed

lemma items_simulated:
  assumes "\<exists>pre. prog = pre @ items" "link_ok link" "tags_ok link prog"
  shows "peep_simulated exec stop link prog items s w"
proof (cases "first_on windowMethods items")
  case None
  then have "items = []" using first_on_total by blast
  then show ?thesis
    by (intro simulated_Halted [where n = 1 and m = 1 and e = stop and w' = w]) simp_all
next
  case (Some x)
  then show ?thesis using window_simulated assms by (cases x) blast
qed

end

text \<open>The rewriting of the peephole optimiser is a simulation, for every semantics.\<close>

definition peep_ok :: "'e \<Rightarrow> (AssemblyItem \<Rightarrow> u256) \<Rightarrow> AssemblyItems \<Rightarrow> 'w config \<Rightarrow> bool" where
  "peep_ok stop link prog c \<longleftrightarrow>
     link_ok link \<and> tags_ok link prog \<and> (\<exists>pre. prog = pre @ fst c)"

sublocale instruction_semantics \<subseteq> peephole: rewriting exec peep peep_ok
proof
  fix stop :: 'e and link prog items s and w :: 'w
  assume ok: "peep_ok stop link prog (items, s, w)"
  then have "peep_simulated exec stop link prog items s w"
    by (intro items_simulated) (simp_all add: peep_ok_def)
  then show "simulated exec stop link (peep_ok stop link prog) peep prog items s w"
    by (rule simulated_mono) (use ok in \<open>simp add: peep_ok_def\<close>)
qed

section \<open>Every round makes progress\<close>

text \<open>What the result \<open>true\<close> means: fewer items, or as many that are smaller or pop earlier.\<close>

lemma optimise_True:
  assumes "optimise items = Inr (True, items')"
  shows "length items' < length items \<or>
    length items' = length items \<and>
    (\<exists>a b. items_bytesRequired items' 3 = Inr a \<and> items_bytesRequired items 3 = Inr b \<and>
       (a < b \<or> numberOfPops items < numberOfPops items'))"
  using assms
  by (auto simp: optimise_def optimiseLoop_peep Let_def bind_result_Inr_iff split: if_splits)

section \<open>Properties\<close>

text \<open>
  C1: the peephole optimiser preserves executions. For a program with distinct tags
  that does not fail, started with any stack in any state, the optimised program halts
  exactly when the original does, with the same exception and in the same state; in
  particular it runs for ever only when the original does.
\<close>

theorem peephole_correct:
  assumes "optimise prog = Inr (b, prog')" "link_ok link" "tags_ok link prog"
    and "\<And>n. run svm_exec stop link prog n (prog, s, st) \<noteq> Failed"
  shows "(\<exists>n. run svm_exec stop link prog n (prog, s, st) = Halted e st') \<longleftrightarrow>
    (\<exists>n. run svm_exec stop link prog' n (prog', s, st) = Halted e st')"
proof (cases b)
  case True
  then have "prog' = peep prog" using optimise_peep [OF assms(1)] by simp
  then show ?thesis using svm.peephole.preserved [of stop link prog s st] assms
    by (simp add: peep_ok_def)
next
  case False
  then have "prog' = prog" using optimise_peep [OF assms(1)] by simp
  then show ?thesis by simp
qed

lemma optimise_example: "optimise [pushItem 1, opItem iPOP] = Inr (True, [])"
proof -
  have "first_on windowMethods [pushItem 1, opItem iPOP] = Some ([], 2)"
    by (simp add: windowMethods_def simple_on_def PushPop_def)
  then have "peep [pushItem 1, opItem iPOP] = []" by (simp add: peep_Some)
  then show ?thesis by (simp add: optimise_def optimiseLoop_peep)
qed

theorem peephole_correct_witness:
  "(\<exists>n. run svm_exec ExplicitlyTerminated (\<lambda>_. 0) [pushItem 1, opItem iPOP] n
      ([pushItem 1, opItem iPOP], [], initialState) = Halted ExplicitlyTerminated initialState) \<longleftrightarrow>
   (\<exists>n. run svm_exec ExplicitlyTerminated (\<lambda>_. 0) [] n ([], [], initialState) =
      Halted ExplicitlyTerminated initialState)"
proof (rule peephole_correct [OF optimise_example])
  show "link_ok (\<lambda>_. 0)" by (simp add: link_ok_def)
  show "tags_ok (\<lambda>_. 0) [pushItem 1, opItem iPOP]" by (simp add: tags_ok_def)
  let ?P = "[pushItem 1, opItem iPOP]"
  have halted: "run svm_exec ExplicitlyTerminated (\<lambda>_. 0) ?P (Suc (Suc (Suc 0))) (?P, [], initialState) =
      Halted ExplicitlyTerminated initialState"
  proof -
    have "step svm_exec ExplicitlyTerminated (\<lambda>_. 0) ?P (pushItem 1 # r, [], w) = Running (r, [1], w)" for r w
      by simp
    then show ?thesis by (simp add: svm.step_pop del: step.simps(2))
  qed
  fix n
  show "run svm_exec ExplicitlyTerminated (\<lambda>_. 0) ?P n (?P, [], initialState) \<noteq> Failed"
  proof
    assume "run svm_exec ExplicitlyTerminated (\<lambda>_. 0) ?P n (?P, [], initialState) = Failed"
    from run_Failed_mono [OF this, of "n + 3"] run_Halted_mono [OF halted, of "n + 3"] show False by simp
  qed
qed

text \<open>
  C27: one round of the optimiser computes the rewriting by the first applicable method
  from the left, and it does not lose or add a jump target.
\<close>

theorem optimise_rewrites:
  "optimise items = Inr (b, items') \<Longrightarrow>
     items' = (if b then peep items else items) \<and>
     find_tag link items' v = map_option (\<lambda>r. if b then peep r else r) (find_tag link items v)"
  using optimise_peep [of items b items'] by (cases b) (simp_all add: find_tag_peep option.map_ident)

theorem optimise_rewrites_witness: "peep [pushItem 1, opItem iPOP] = []"
  using optimise_rewrites [OF optimise_example] by simp

end
