(* ===== verification/Std_Map.thy ===== *)
theory Std_Map
  imports Prelude
begin

text \<open>
  \<open>std::map\<close>, as far as the code uses it: the entries in the order of the keys, which is
  the order the code iterates in. The locale \<open>ordered_map\<close> states what the code relies on;
  its lemmas hold for every implementation, and sorted association lists are one.
\<close>

type_synonym ('k, 'v) std_map = "('k \<times> 'v) list"

section \<open>The interface\<close>

locale ordered_map =
  fixes entries :: "'m \<Rightarrow> ('k::linorder \<times> 'v) list"
    and mempty :: "'m"
    and put :: "'k \<Rightarrow> 'v \<Rightarrow> 'm \<Rightarrow> 'm"
    and del :: "'k \<Rightarrow> 'm \<Rightarrow> 'm"
    and get :: "'m \<Rightarrow> 'k \<Rightarrow> 'v option"
    and invar :: "'m \<Rightarrow> bool"
  assumes sorted_entries: "invar m \<Longrightarrow> sorted_wrt (<) (map fst (entries m))"
    and get_entries: "invar m \<Longrightarrow> get m = map_of (entries m)"
    and get_empty: "get mempty = (\<lambda>_. None)"
    and get_put: "invar m \<Longrightarrow> get (put k v m) = (get m)(k \<mapsto> v)"
    and get_del: "invar m \<Longrightarrow> get (del k m) = (get m)(k := None)"
    and invar_empty: "invar mempty"
    and invar_put: "invar m \<Longrightarrow> invar (put k v m)"
    and invar_del: "invar m \<Longrightarrow> invar (del k m)"
begin

lemma keys_distinct: "invar m \<Longrightarrow> distinct (map fst (entries m))"
  using sorted_entries strict_sorted_iff by blast

lemma get_iff_entry: "invar m \<Longrightarrow> get m k = Some v \<longleftrightarrow> (k, v) \<in> set (entries m)"
  by (simp add: get_entries keys_distinct)

text \<open>Putting a sequence of entries, the last one for a key wins.\<close>

definition puts :: "('k \<times> 'v) list \<Rightarrow> 'm \<Rightarrow> 'm" where
  "puts kvs m = foldl (\<lambda>m (k, v). put k v m) m kvs"

lemma invar_puts: "invar m \<Longrightarrow> invar (puts kvs m)"
  unfolding puts_def by (induction kvs arbitrary: m) (auto simp: invar_put)

lemma get_puts: "invar m \<Longrightarrow> get (puts kvs m) = get m ++ map_of (rev kvs)"
proof (induction kvs arbitrary: m)
  case Nil
  then show ?case by (simp add: puts_def)
next
  case (Cons kv kvs)
  obtain k v where "kv = (k, v)" by (cases kv)
  with Cons.IH [of "put k v m"] Cons.prems show ?case
    by (simp add: puts_def invar_put get_put map_add_def fun_eq_iff split: option.splits)
qed

text \<open>Two maps with the same entries are iterated in the same order.\<close>

lemma entries_unique:
  assumes "invar m" "invar m'" "get m = get m'"
  shows "entries m = entries m'"
proof -
  have entries: "entries x = map (\<lambda>k. (k, the (get x k))) (map fst (entries x))" if "invar x" for x
    using that keys_distinct [OF that] by (auto simp: get_entries comp_def intro!: map_idI [symmetric])
  have "set (map fst (entries m)) = set (map fst (entries m'))"
    using assms by (metis dom_map_of_conv_image_fst get_entries list.set_map)
  then have "map fst (entries m) = map fst (entries m')"
    using sorted_entries assms(1,2) strict_sorted_equal by blast
  with entries [OF assms(1)] entries [OF assms(2)] assms(3) show ?thesis by metis
qed

end

section \<open>Sorted association lists\<close>

text \<open>\<open>m[k] = v\<close>, \<open>m.insert\<close>, which keeps an entry there is, and \<open>m.erase\<close>.\<close>

fun map_put :: "'k::linorder \<Rightarrow> 'v \<Rightarrow> ('k, 'v) std_map \<Rightarrow> ('k, 'v) std_map" where
  "map_put k v [] = [(k, v)]"
| "map_put k v ((k', v') # m) =
     (if k < k' then (k, v) # (k', v') # m
      else if k = k' then (k, v) # m
      else (k', v') # map_put k v m)"

definition map_insert :: "'k::linorder \<Rightarrow> 'v \<Rightarrow> ('k, 'v) std_map \<Rightarrow> ('k, 'v) std_map" where
  "map_insert k v m = (if map_of m k = None then map_put k v m else m)"

fun map_erase :: "'k::linorder \<Rightarrow> ('k, 'v) std_map \<Rightarrow> ('k, 'v) std_map" where
  "map_erase k [] = []"
| "map_erase k ((k', v') # m) = (if k = k' then m else (k', v') # map_erase k m)"

definition map_invar :: "('k::linorder, 'v) std_map \<Rightarrow> bool" where
  "map_invar m \<longleftrightarrow> sorted_wrt (<) (map fst m)"

lemma map_invar_simps [simp]:
  "map_invar []"
  "map_invar ((k, v) # m) \<longleftrightarrow> (\<forall>x \<in> set m. k < fst x) \<and> map_invar m"
  by (simp_all add: map_invar_def)

lemma map_of_put [simp]: "map_invar m \<Longrightarrow> map_of (map_put k v m) = (map_of m)(k \<mapsto> v)"
  by (induction k v m rule: map_put.induct) auto

lemma set_map_put: "set (map_put k v m) \<subseteq> insert (k, v) (set m)"
  by (induction k v m rule: map_put.induct) auto

lemma map_invar_put [simp]: "map_invar m \<Longrightarrow> map_invar (map_put k v m)"
  by (induction k v m rule: map_put.induct) (use set_map_put in \<open>fastforce+\<close>)

lemma set_map_erase: "set (map_erase k m) \<subseteq> set m"
  by (induction k m rule: map_erase.induct) auto

lemma map_invar_erase [simp]: "map_invar m \<Longrightarrow> map_invar (map_erase k m)"
  by (induction k m rule: map_erase.induct) (use set_map_erase in \<open>fastforce+\<close>)

lemma map_of_none: "map_invar m \<Longrightarrow> \<forall>x \<in> set m. k < fst x \<Longrightarrow> map_of m k = None"
  by (induction m) auto

lemma map_of_erase [simp]: "map_invar m \<Longrightarrow> map_of (map_erase k m) = (map_of m)(k := None)"
  by (induction k m rule: map_erase.induct) (auto simp: fun_eq_iff map_of_none)

lemma map_of_insert [simp]:
  "map_invar m \<Longrightarrow> map_of (map_insert k v m) = (if map_of m k = None then (map_of m)(k \<mapsto> v) else map_of m)"
  by (simp add: map_insert_def)

lemma map_invar_insert [simp]: "map_invar m \<Longrightarrow> map_invar (map_insert k v m)"
  by (simp add: map_insert_def)

interpretation alist: ordered_map "\<lambda>m. m" "[]" map_put map_erase map_of map_invar
proof
  show "map_invar m \<Longrightarrow> sorted_wrt (<) (map fst m)" for m :: "('a \<times> 'b) list"
    by (simp add: map_invar_def)
qed simp_all

text \<open>The copies of \<open>m.insert\<close> for a whole range: entries of \<open>m\<close> win.\<close>

definition map_insert_all :: "('k::linorder, 'v) std_map \<Rightarrow> ('k, 'v) std_map \<Rightarrow> ('k, 'v) std_map" where
  "map_insert_all new m = foldl (\<lambda>m (k, v). map_insert k v m) m new"

lemma map_insert_all_spec:
  "map_invar m \<Longrightarrow> map_invar (map_insert_all new m) \<and>
     map_of (map_insert_all new m) = map_of new ++ map_of m"
proof (induction new arbitrary: m)
  case Nil
  then show ?case by (simp add: map_insert_all_def)
next
  case (Cons kv new)
  obtain k v where "kv = (k, v)" by (cases kv)
  with Cons.IH [of "map_insert k v m"] Cons.prems show ?case
    by (auto simp: map_insert_all_def map_add_def fun_eq_iff split: option.splits)
qed

end
