(* ===== verification/Svm_Version.thy ===== *)
theory Svm_Version
  imports Instructions
begin

text \<open>
  liblangutil/SVMVersion.h and SVMVersion.cpp: the versions of the machine the compiler
  can target, ordered by age, and what each of them has.
\<close>

datatype SVMVersion =
  Homestead | TangerineWhistle | SpuriousDragon | Byzantium | Constantinople | Petersburg

fun version_index :: "SVMVersion \<Rightarrow> nat" where
  "version_index Homestead = 0"
| "version_index TangerineWhistle = 1"
| "version_index SpuriousDragon = 2"
| "version_index Byzantium = 3"
| "version_index Constantinople = 4"
| "version_index Petersburg = 5"

lemma version_index_inject: "version_index a = version_index b \<longleftrightarrow> a = b"
  by (cases a; cases b) simp_all

instantiation SVMVersion :: linorder
begin

definition less_eq_SVMVersion :: "SVMVersion \<Rightarrow> SVMVersion \<Rightarrow> bool" where
  "less_eq_SVMVersion a b \<longleftrightarrow> version_index a \<le> version_index b"

definition less_SVMVersion :: "SVMVersion \<Rightarrow> SVMVersion \<Rightarrow> bool" where
  "less_SVMVersion a b \<longleftrightarrow> version_index a < version_index b"

instance
  by standard
    (auto simp: less_eq_SVMVersion_def less_SVMVersion_def version_index_inject [symmetric])

end

fun version_name :: "SVMVersion \<Rightarrow> string" where
  "version_name Homestead = ''homestead''"
| "version_name TangerineWhistle = ''tangerineWhistle''"
| "version_name SpuriousDragon = ''spuriousDragon''"
| "version_name Byzantium = ''byzantium''"
| "version_name Constantinople = ''constantinople''"
| "version_name Petersburg = ''petersburg''"

definition allVersions :: "SVMVersion list" where
  "allVersions = [Homestead, TangerineWhistle, SpuriousDragon, Byzantium, Constantinople, Petersburg]"

definition version_fromString :: "string \<Rightarrow> SVMVersion option" where
  "version_fromString version = find (\<lambda>v. version = version_name v) allVersions"

definition supportsReturndata :: "SVMVersion \<Rightarrow> bool" where
  "supportsReturndata v \<longleftrightarrow> v \<ge> Byzantium"

definition hasStaticCall :: "SVMVersion \<Rightarrow> bool" where
  "hasStaticCall v \<longleftrightarrow> v \<ge> Byzantium"

definition hasBitwiseShifting :: "SVMVersion \<Rightarrow> bool" where
  "hasBitwiseShifting v \<longleftrightarrow> v \<ge> Constantinople"

definition hasCreate2 :: "SVMVersion \<Rightarrow> bool" where
  "hasCreate2 v \<longleftrightarrow> v \<ge> Constantinople"

definition hasExtCodeHash :: "SVMVersion \<Rightarrow> bool" where
  "hasExtCodeHash v \<longleftrightarrow> v \<ge> Constantinople"

definition canOvsrchargeGasForCall :: "SVMVersion \<Rightarrow> bool" where
  "canOvsrchargeGasForCall v \<longleftrightarrow> v \<ge> TangerineWhistle"

definition hasOpcode :: "SVMVersion \<Rightarrow> instruction \<Rightarrow> bool" where
  "hasOpcode v i =
     (if i = iRETURNDATACOPY \<or> i = iRETURNDATASIZE then supportsReturndata v
      else if i = iSTATICCALL then hasStaticCall v
      else if i = iSHL \<or> i = iSHR \<or> i = iSAR then hasBitwiseShifting v
      else if i = iCREATE2 then hasCreate2 v
      else if i = iEXTCODEHASH then hasExtCodeHash v
      else True)"

lemmas version_defs = supportsReturndata_def hasStaticCall_def hasBitwiseShifting_def hasCreate2_def
  hasExtCodeHash_def canOvsrchargeGasForCall_def less_eq_SVMVersion_def less_SVMVersion_def

section \<open>Properties\<close>

text \<open>
  the names of the versions are read back, every other string is refused, and a
  later version has every opcode of an earlier one.
\<close>

theorem versions_roundtrip_monotone:
  "version_fromString (version_name v) = Some v \<and>
   (version_fromString s = Some v \<longleftrightarrow> s = version_name v) \<and>
   (hasOpcode v i \<longrightarrow> hasOpcode (max v v') i)"
proof (intro conjI impI)
  show "version_fromString s = Some v \<longleftrightarrow> s = version_name v"
    by (cases v) (auto simp: version_fromString_def allVersions_def)
  then show "version_fromString (version_name v) = Some v"
    by (cases v) (simp_all add: version_fromString_def allVersions_def)
  show "hasOpcode (max v v') i" if "hasOpcode v i"
    using that by (auto simp: hasOpcode_def version_defs max_def split: if_splits)
qed

theorem versions_roundtrip_monotone_witness: "hasOpcode (max Byzantium Petersburg) iSTATICCALL"
proof -
  have "hasOpcode Byzantium iSTATICCALL" by (simp add: hasOpcode_def version_defs)
  then show ?thesis using versions_roundtrip_monotone [of Byzantium "[]" iSTATICCALL Petersburg] by blast
qed

end
