(* ===== verification/Gas_Costs.thy ===== *)
theory Gas_Costs
  imports Svm_Version "HOL-Library.Extended_Nat"
begin

text \<open>
  libsvmasm/GasMeter.h and the parts of GasMeter.cpp that need no knowledge of the
  machine's state: the gas constants, the cost of an instruction by its tier, the cost of
  data, and the consumptions that may be infinite.
\<close>

section \<open>The constants\<close>

definition tier0Gas :: nat where "tier0Gas = 0"
definition tier1Gas :: nat where "tier1Gas = 2"
definition tier2Gas :: nat where "tier2Gas = 3"
definition tier3Gas :: nat where "tier3Gas = 5"
definition tier4Gas :: nat where "tier4Gas = 8"
definition tier5Gas :: nat where "tier5Gas = 10"
definition tier6Gas :: nat where "tier6Gas = 20"

definition extCodeGas :: "SVMVersion \<Rightarrow> nat" where
  "extCodeGas v = (if v \<ge> TangerineWhistle then 700 else 20)"

definition balanceGas :: "SVMVersion \<Rightarrow> nat" where
  "balanceGas v = (if v \<ge> TangerineWhistle then 400 else 20)"

definition expGas :: nat where "expGas = 10"

definition expByteGas :: "SVMVersion \<Rightarrow> nat" where
  "expByteGas v = (if v \<ge> SpuriousDragon then 50 else 10)"

definition keccak256Gas :: nat where "keccak256Gas = 30"
definition keccak256WordGas :: nat where "keccak256WordGas = 6"

definition sloadGas :: "SVMVersion \<Rightarrow> nat" where
  "sloadGas v = (if v \<ge> TangerineWhistle then 200 else 50)"

definition sstoreSetGas :: nat where "sstoreSetGas = 20000"
definition sstoreResetGas :: nat where "sstoreResetGas = 5000"
definition logGas :: nat where "logGas = 375"
definition logDataGas :: nat where "logDataGas = 8"
definition logTopicGas :: nat where "logTopicGas = 375"
definition createGas :: nat where "createGas = 32000"

definition callGas :: "SVMVersion \<Rightarrow> nat" where
  "callGas v = (if v \<ge> TangerineWhistle then 700 else 40)"

definition callValueTransferGas :: nat where "callValueTransferGas = 9000"
definition callNewAccountGas :: nat where "callNewAccountGas = 25000"

definition selfdestructGas :: "SVMVersion \<Rightarrow> nat" where
  "selfdestructGas v = (if v \<ge> TangerineWhistle then 5000 else 0)"

definition gas_memoryGas :: nat where "gas_memoryGas = 3"
definition quadCoeffDiv :: nat where "quadCoeffDiv = 512"
definition createDataGas :: nat where "createDataGas = 200"
definition txDataZeroGas :: nat where "txDataZeroGas = 4"
definition txDataNonZeroGas :: nat where "txDataNonZeroGas = 68"
definition copyGas :: nat where "copyGas = 3"

lemmas gas_constants = tier0Gas_def tier1Gas_def tier2Gas_def tier3Gas_def tier4Gas_def tier5Gas_def
  tier6Gas_def expGas_def expByteGas_def keccak256Gas_def keccak256WordGas_def sstoreSetGas_def
  sstoreResetGas_def logGas_def logDataGas_def logTopicGas_def createGas_def callGas_def
  callValueTransferGas_def callNewAccountGas_def selfdestructGas_def gas_memoryGas_def
  quadCoeffDiv_def createDataGas_def txDataZeroGas_def txDataNonZeroGas_def copyGas_def
  extCodeGas_def balanceGas_def sloadGas_def

section \<open>Instructions and data\<close>

definition runGas :: "instruction \<Rightarrow> nat result" where
  "runGas i =
     (if i = iJUMPDEST then Inr 1
      else case info_gasPriceTier (instructionInfo i) of
          Tier_Zero \<Rightarrow> Inr tier0Gas
        | Tier_Base \<Rightarrow> Inr tier1Gas
        | Tier_VeryLow \<Rightarrow> Inr tier2Gas
        | Tier_Low \<Rightarrow> Inr tier3Gas
        | Tier_Mid \<Rightarrow> Inr tier4Gas
        | Tier_High \<Rightarrow> Inr tier5Gas
        | Tier_Ext \<Rightarrow> Inr tier6Gas
        | _ \<Rightarrow> Inl OptimizerException)"

definition dataGas :: "bytes \<Rightarrow> bool \<Rightarrow> u256 result" where
  "dataGas data inCreation =
     (let gas = (if inCreation
                 then foldl (\<lambda>gas b. gas + (if b \<noteq> 0 then txDataNonZeroGas else txDataZeroGas)) 0 data
                 else createDataGas * length data)
      in assertThrow (gas < 2 ^ 256 - 1) OptimizerException (Inr (of_nat gas)))"

section \<open>Consumptions\<close>

record GasConsumption =
  gc_value :: u256
  gc_isInfinite :: bool

definition gas_of :: "u256 \<Rightarrow> GasConsumption" where
  "gas_of v = \<lparr>gc_value = v, gc_isInfinite = False\<rparr>"

definition gas_infinite :: GasConsumption where
  "gas_infinite = \<lparr>gc_value = 0, gc_isInfinite = True\<rparr>"

definition gas_add :: "GasConsumption \<Rightarrow> GasConsumption \<Rightarrow> GasConsumption" where
  "gas_add a b =
     (let a = (if gc_isInfinite b \<and> \<not> gc_isInfinite a then gas_infinite else a)
      in if gc_isInfinite a then a
         else (let v = unat (gc_value a) + unat (gc_value b)
               in if v > 2 ^ 256 - 1 then gas_infinite else a\<lparr>gc_value := of_nat v\<rparr>))"

text \<open>The order of the pairs of the flag and the value.\<close>

definition gas_less :: "GasConsumption \<Rightarrow> GasConsumption \<Rightarrow> bool" where
  "gas_less a b \<longleftrightarrow>
     \<not> gc_isInfinite a \<and> gc_isInfinite b \<or>
     gc_isInfinite a = gc_isInfinite b \<and> gc_value a < gc_value b"

text \<open>What a consumption means: a number, or infinity.\<close>

definition gas_meaning :: "GasConsumption \<Rightarrow> enat" where
  "gas_meaning g = (if gc_isInfinite g then \<infinity> else enat (unat (gc_value g)))"

lemma runGas_cases:
  assumes "info_gasPriceTier (instructionInfo i) \<notin>
    {Tier_ExtCode, Tier_Balance, Tier_Special, Tier_Invalid}"
  shows "\<exists>g \<le> 20. runGas i = Inr g"
  using assms
  by (cases "info_gasPriceTier (instructionInfo i)") (auto simp: runGas_def gas_constants)

lemma foldl_gas:
  "foldl (\<lambda>gas b. gas + (if b \<noteq> 0 then txDataNonZeroGas else txDataZeroGas)) g data \<le>
     g + 68 * length (data :: bytes)"
  by (induction data arbitrary: g) (fastforce simp: gas_constants intro: order.trans)+

lemma dataGas_total: "length data < 2 ^ 200 \<Longrightarrow> \<exists>g. dataGas data inCreation = Inr g"
  using foldl_gas [of 0 data] by (auto simp: dataGas_def gas_constants Let_def assertThrow_def)

lemma unat_less_256: "unat (w :: u256) < 2 ^ 256"
  using unsigned_less [of w, where 'a = nat] by simp

section \<open>Properties\<close>

text \<open>
  C37: adding consumptions is addition of extended numbers, where a sum that does not fit
  256 bits counts as infinite: no consumption is ever underestimated by a wrap-around.
\<close>

theorem gas_add_meaning:
  "gas_meaning (gas_add a b) =
     (if gas_meaning a + gas_meaning b \<le> enat (2 ^ 256 - 1) then gas_meaning a + gas_meaning b else \<infinity>)"
proof (cases "gc_isInfinite a \<or> gc_isInfinite b")
  case True
  then show ?thesis by (auto simp: gas_meaning_def gas_add_def gas_infinite_def Let_def)
next
  case False
  let ?v = "unat (gc_value a) + unat (gc_value b)"
  have "unat (of_nat ?v :: u256) = ?v" if "?v \<le> 2 ^ 256 - 1"
    using that unfolding unat_of_nat_u256 by (intro mod_less) simp
  with False show ?thesis
    by (auto simp: gas_meaning_def gas_add_def gas_infinite_def Let_def)
qed

end
