(* ===== verification/Assembly_Data.thy ===== *)
theory Assembly_Data
  imports Assembly_Items Keccak Std_Map "HOL-Library.List_Lexorder" "HOL-Library.Char_ord"
begin

text \<open>
  libsvmasm/Assembly.h and the first part of Assembly.cpp: the state of an assembly and
  the operations that build it. An assembly owns its items, data and names, and has a
  list of sub-assemblies. The assembled object, a cache, is not part of the state.
\<close>

record AssemblyData =
  a_usedTags :: "32 word"
  a_namedTags :: "(string, size_t) std_map"
  a_items :: AssemblyItems
  a_data :: "(u256, bytes) std_map"
  a_auxiliaryData :: bytes
  a_strings :: "(u256, string) std_map"
  a_libraries :: "(u256, string) std_map"
  a_deposit :: int
  a_currentSourceLocation :: SourceLocation

datatype Assembly = Assembly (own: AssemblyData) (m_subs: "Assembly list")

definition emptyAssembly :: Assembly where
  "emptyAssembly = Assembly
     \<lparr>a_usedTags = 1, a_namedTags = [], a_items = [], a_data = [], a_auxiliaryData = [],
      a_strings = [], a_libraries = [], a_deposit = 0, a_currentSourceLocation = noLocation\<rparr> []"

definition keccakWord :: "bytes \<Rightarrow> u256" where
  "keccakWord bs = fromBigEndian (keccak256 bs)"

section \<open>New items\<close>

definition newTag :: "AssemblyData \<Rightarrow> (AssemblyItem \<times> AssemblyData) result" where
  "newTag a = assertThrow (a_usedTags a < 0xffffffff) AssemblyException
     (Inr (mkItem Tag (ucast (a_usedTags a)), a\<lparr>a_usedTags := a_usedTags a + 1\<rparr>))"

definition newPushTag :: "AssemblyData \<Rightarrow> (AssemblyItem \<times> AssemblyData) result" where
  "newPushTag a = assertThrow (a_usedTags a < 0xffffffff) AssemblyException
     (Inr (mkItem PushTag (ucast (a_usedTags a)), a\<lparr>a_usedTags := a_usedTags a + 1\<rparr>))"

definition namedTag :: "string \<Rightarrow> AssemblyData \<Rightarrow> (AssemblyItem \<times> AssemblyData) result" where
  "namedTag name a =
     assertThrow (name \<noteq> []) AssemblyException
      (case map_of (a_namedTags a) name of
         Some t \<Rightarrow> Inr (mkItem Tag (ucast t), a)
       | None \<Rightarrow> bind_result (newTag a) (\<lambda>(tag, a).
           Inr (mkItem Tag (ucast (ucast (m_data tag) :: size_t)),
                a\<lparr>a_namedTags := map_put name (ucast (m_data tag)) (a_namedTags a)\<rparr>)))"

definition newData :: "bytes \<Rightarrow> AssemblyData \<Rightarrow> AssemblyItem \<times> AssemblyData" where
  "newData d a =
     (let h = keccakWord d
      in (mkItem PushData h, a\<lparr>a_data := map_put h d (a_data a)\<rparr>))"

definition newPushString :: "string \<Rightarrow> AssemblyData \<Rightarrow> AssemblyItem \<times> AssemblyData" where
  "newPushString s a =
     (let h = keccakWord (asBytes s)
      in (mkItem PushString h, a\<lparr>a_strings := map_put h s (a_strings a)\<rparr>))"

definition newPushLibraryAddress :: "string \<Rightarrow> AssemblyData \<Rightarrow> AssemblyItem \<times> AssemblyData" where
  "newPushLibraryAddress identifier a =
     (let h = keccakWord (asBytes identifier)
      in (mkItem PushLibraryAddress h, a\<lparr>a_libraries := map_put h identifier (a_libraries a)\<rparr>))"

definition newSub :: "Assembly \<Rightarrow> Assembly \<Rightarrow> AssemblyItem \<times> Assembly" where
  "newSub sub a =
     (mkItem PushSub (of_nat (length (m_subs a))), Assembly (own a) (m_subs a @ [sub]))"

section \<open>Appending\<close>

definition append_item :: "AssemblyItem \<Rightarrow> AssemblyData \<Rightarrow> AssemblyData result" where
  "append_item i a =
     assertThrow (0 \<le> a_deposit a) AssemblyException
       (Inr (let i' = (if isEmptyLoc (m_location i) \<and> \<not> isEmptyLoc (a_currentSourceLocation a)
                       then i\<lparr>m_location := a_currentSourceLocation a\<rparr> else i)
             in a\<lparr>a_deposit := a_deposit a + item_deposit i, a_items := a_items a @ [i']\<rparr>))"

definition append_new :: "AssemblyItem \<times> AssemblyData \<Rightarrow> AssemblyData result" where
  "append_new = (\<lambda>(i, a). append_item i a)"

definition append_string :: "string \<Rightarrow> AssemblyData \<Rightarrow> AssemblyData result" where
  "append_string s a = append_new (newPushString s a)"

definition append_bytes :: "bytes \<Rightarrow> AssemblyData \<Rightarrow> AssemblyData result" where
  "append_bytes d a = append_new (newData d a)"

definition appendProgramSize :: "AssemblyData \<Rightarrow> AssemblyData result" where
  "appendProgramSize a = append_item (mkItem PushProgramSize 0) a"

definition appendLibraryAddress :: "string \<Rightarrow> AssemblyData \<Rightarrow> AssemblyData result" where
  "appendLibraryAddress identifier a = append_new (newPushLibraryAddress identifier a)"

text \<open>The jumps to a fresh tag return the item appended for it, with its location.\<close>

definition appendJumpOp :: "instruction \<Rightarrow> AssemblyData \<Rightarrow> (AssemblyItem \<times> AssemblyData) result" where
  "appendJumpOp i a =
     bind_result (newPushTag a) (\<lambda>(tag, a).
     bind_result (append_item tag a) (\<lambda>a.
     (let ret = last (a_items a)
      in bind_result (append_item (opItem i) a) (\<lambda>a. Inr (ret, a)))))"

definition appendJump :: "AssemblyData \<Rightarrow> (AssemblyItem \<times> AssemblyData) result" where
  "appendJump = appendJumpOp iJUMP"

definition appendJumpI :: "AssemblyData \<Rightarrow> (AssemblyItem \<times> AssemblyData) result" where
  "appendJumpI = appendJumpOp iJUMPI"

definition appendJumpOpTo ::
    "instruction \<Rightarrow> AssemblyItem \<Rightarrow> AssemblyData \<Rightarrow> (AssemblyItem \<times> AssemblyData) result" where
  "appendJumpOpTo i tag a =
     bind_result (item_pushTag tag) (\<lambda>p.
     bind_result (append_item p a) (\<lambda>a.
     (let ret = last (a_items a)
      in bind_result (append_item (opItem i) a) (\<lambda>a. Inr (ret, a)))))"

definition appendJumpTo :: "AssemblyItem \<Rightarrow> AssemblyData \<Rightarrow> (AssemblyItem \<times> AssemblyData) result" where
  "appendJumpTo = appendJumpOpTo iJUMP"

definition appendJumpITo :: "AssemblyItem \<Rightarrow> AssemblyData \<Rightarrow> (AssemblyItem \<times> AssemblyData) result" where
  "appendJumpITo = appendJumpOpTo iJUMPI"

definition pushSubroutineSize :: "size_t \<Rightarrow> AssemblyData \<Rightarrow> AssemblyData result" where
  "pushSubroutineSize subRoutine a = append_item (mkItem PushSubSize (ucast subRoutine)) a"

definition pushSubroutineOffset :: "size_t \<Rightarrow> AssemblyData \<Rightarrow> AssemblyData result" where
  "pushSubroutineOffset subRoutine a = append_item (mkItem PushSub (ucast subRoutine)) a"

definition appendSubroutine :: "Assembly \<Rightarrow> Assembly \<Rightarrow> (AssemblyItem \<times> Assembly) result" where
  "appendSubroutine asm a =
     (let (sub, a) = newSub asm a
      in bind_result (append_item (mkItem PushSubSize (ucast (ucast (m_data sub) :: size_t))) (own a))
           (\<lambda>d. Inr (sub, Assembly d (m_subs a))))"

definition appendAuxiliaryDataToEnd :: "bytes \<Rightarrow> AssemblyData \<Rightarrow> AssemblyData" where
  "appendAuxiliaryDataToEnd d a = a\<lparr>a_auxiliaryData := a_auxiliaryData a @ d\<rparr>"

definition adjustDeposit :: "int \<Rightarrow> AssemblyData \<Rightarrow> AssemblyData result" where
  "adjustDeposit adjustment a =
     (let a = a\<lparr>a_deposit := a_deposit a + adjustment\<rparr>
      in assertThrow (0 \<le> a_deposit a) InvalidDeposit (Inr a))"

definition setDeposit :: "int \<Rightarrow> AssemblyData \<Rightarrow> AssemblyData result" where
  "setDeposit dep a =
     (let a = a\<lparr>a_deposit := dep\<rparr> in assertThrow (0 \<le> a_deposit a) InvalidDeposit (Inr a))"

definition setSourceLocation :: "SourceLocation \<Rightarrow> AssemblyData \<Rightarrow> AssemblyData" where
  "setSourceLocation loc a = a\<lparr>a_currentSourceLocation := loc\<rparr>"

definition injectStart :: "AssemblyItem \<Rightarrow> AssemblyData \<Rightarrow> AssemblyData" where
  "injectStart i a = a\<lparr>a_items := i # a_items a\<rparr>"

definition backString :: "AssemblyData \<Rightarrow> string result" where
  "backString a =
     (if a_items a \<noteq> [] \<and> m_type (last (a_items a)) = PushString
      then (case map_of (a_strings a) (m_data (last (a_items a))) of
              Some s \<Rightarrow> Inr s | None \<Rightarrow> Inl OutOfRange)
      else Inr [])"

section \<open>Appending an assembly\<close>

text \<open>The numbers of the appended tags and sub-assemblies move past those in use.\<close>

definition shiftItem :: "32 word \<Rightarrow> nat \<Rightarrow> AssemblyItem \<Rightarrow> AssemblyItem" where
  "shiftItem usedTags subs i =
     (case m_type i of
        Tag \<Rightarrow> i\<lparr>m_data := m_data i + ucast usedTags\<rparr>
      | PushTag \<Rightarrow> i\<lparr>m_data := m_data i + ucast usedTags\<rparr>
      | PushSub \<Rightarrow> i\<lparr>m_data := m_data i + of_nat subs\<rparr>
      | PushSubSize \<Rightarrow> i\<lparr>m_data := m_data i + of_nat subs\<rparr>
      | _ \<Rightarrow> i)"

fun append_items :: "AssemblyItems \<Rightarrow> AssemblyData \<Rightarrow> AssemblyData result" where
  "append_items [] a = Inr a"
| "append_items (i # is) a = bind_result (append_item i a) (append_items is)"

definition append_assembly :: "Assembly \<Rightarrow> Assembly \<Rightarrow> Assembly result" where
  "append_assembly b a =
     (let newDeposit = a_deposit (own a) + a_deposit (own b)
      in bind_result
           (append_items (map (shiftItem (a_usedTags (own a)) (length (m_subs a))) (a_items (own b))) (own a))
           (\<lambda>d. Inr (Assembly
              (d\<lparr>a_deposit := newDeposit,
                 a_usedTags := a_usedTags d + a_usedTags (own b),
                 a_data := map_insert_all (a_data (own b)) (a_data d),
                 a_strings := map_insert_all (a_strings (own b)) (a_strings d),
                 a_libraries := map_insert_all (a_libraries (own b)) (a_libraries d)\<rparr>)
              (m_subs a @ m_subs b))))"

text \<open>With a lower deposit asked for, the surplus is popped.\<close>

definition append_assembly_deposit :: "Assembly \<Rightarrow> int \<Rightarrow> Assembly \<Rightarrow> Assembly result" where
  "append_assembly_deposit b dep a =
     assertThrow (dep \<le> a_deposit (own b)) InvalidDeposit
       (bind_result (append_assembly b a) (\<lambda>a.
        bind_result (append_items (replicate (nat (a_deposit (own b) - dep)) (opItem iPOP)) (own a))
          (\<lambda>d. Inr (Assembly d (m_subs a)))))"

end
