(* ===== verification/Constant_Optimiser.thy ===== *)
theory Constant_Optimiser
  imports Assembly_Data Gas_Costs
begin

text \<open>
  libsvmasm/ConstantOptimiser.h and ConstantOptimiser.cpp: constants are pushed
  literally, copied from the data section, or computed, whichever costs the least gas.
\<close>

record Params =
  pa_isCreation :: bool
  pa_runs :: size_t
  pa_multiplicity :: size_t
  pa_svmVersion :: SVMVersion

section \<open>Gas\<close>

definition simpleRunGas :: "AssemblyItems \<Rightarrow> nat result" where
  "simpleRunGas items =
     foldl (\<lambda>acc it. bind_result acc (\<lambda>gas.
        if m_type it = Push then bind_result (runGas iPUSH1) (\<lambda>g. Inr (gas + g))
        else if m_type it = Operation then
          (if m_instruction it = iEXP then Inr (gas + expGas)
           else bind_result (runGas (m_instruction it)) (\<lambda>g. Inr (gas + g)))
        else Inr gas))
       (Inr 0) items"

definition method_dataGas :: "Params \<Rightarrow> bytes \<Rightarrow> nat result" where
  "method_dataGas p data =
     assertThrow (0 < length data) OptimizerException
       (bind_result (dataGas data (pa_isCreation p)) (\<lambda>g. Inr (unat g)))"

definition method_bytesRequired :: "AssemblyItems \<Rightarrow> size_t result" where
  "method_bytesRequired items = items_bytesRequired items 3"

definition combineGas :: "Params \<Rightarrow> nat \<Rightarrow> nat \<Rightarrow> nat \<Rightarrow> nat" where
  "combineGas p gas repeatedDataGas uniqueDataGas =
     unat (pa_runs p) * gas + unat (pa_multiplicity p) * repeatedDataGas + uniqueDataGas"

definition byteGas :: "Params \<Rightarrow> nat" where
  "byteGas p = (if pa_isCreation p then txDataNonZeroGas else createDataGas)"

definition replaceConstants :: "AssemblyItems \<Rightarrow> (u256, AssemblyItems) std_map \<Rightarrow> AssemblyItems" where
  "replaceConstants items replacements =
     concat (map (\<lambda>it.
        if m_type it = Push then
          (case map_of replacements (m_data it) of Some r \<Rightarrow> r | None \<Rightarrow> [it])
        else [it]) items)"

section \<open>The literal and the copied constant\<close>

definition literal_gasNeeded :: "Params \<Rightarrow> u256 \<Rightarrow> nat result" where
  "literal_gasNeeded p v =
     bind_result (simpleRunGas [opItem iPUSH1]) (\<lambda>run.
     bind_result (method_dataGas p (toCompactBigEndian (unat v) 1)) (\<lambda>data.
       Inr (combineGas p run (byteGas p + data) 0)))"

definition copyRoutine :: AssemblyItems where
  "copyRoutine =
     [pushItem 0, opItem iDUP1, opItem iMLOAD, pushItem 32, mkItem PushData (push_bit 16 1),
      opItem iDUP4, opItem iCODECOPY, opItem iDUP2, opItem iMLOAD, opItem iSWAP2, opItem iMSTORE]"

text \<open>The product of the size and the cost of a byte is a \<open>size_t\<close>.\<close>

definition codeCopy_gasNeeded :: "Params \<Rightarrow> u256 \<Rightarrow> nat result" where
  "codeCopy_gasNeeded p v =
     bind_result (simpleRunGas copyRoutine) (\<lambda>run.
     bind_result (method_bytesRequired copyRoutine) (\<lambda>sz.
     bind_result (method_dataGas p (toBigEndian v)) (\<lambda>data.
       Inr (combineGas p (run + copyGas) (unat (sz * of_nat (byteGas p))) data))))"

definition codeCopy_execute :: "u256 \<Rightarrow> AssemblyData \<Rightarrow> (AssemblyItems \<times> AssemblyData) result" where
  "codeCopy_execute v a =
     (let data = toBigEndian v
      in assertThrow (length data = 32) OptimizerException
           (let (item, a) = newData data a in Inr (copyRoutine[4 := item], a)))"

section \<open>The computed constant\<close>

definition compute_gasNeeded :: "Params \<Rightarrow> AssemblyItems \<Rightarrow> nat result" where
  "compute_gasNeeded p routine =
     (let numExps = of_nat (length (filter (\<lambda>it. is_op it iEXP) routine)) :: size_t
      in bind_result (simpleRunGas routine) (\<lambda>run.
         bind_result (method_bytesRequired routine) (\<lambda>sz.
           Inr (combineGas p
             (run + unat (numExps * of_nat (expGas + expByteGas (pa_svmVersion p))))
             (unat (sz * of_nat (byteGas p))) 0))))"

text \<open>
  One turn of the loop: the value as \<open>upper * 2 ^ bits + lower\<close>, with a small lower part
  that may be negative, or \<open>None\<close> where the loop continues with fewer bits.
\<close>

definition decompose :: "u256 \<Rightarrow> nat \<Rightarrow> (int \<times> u256) option" where
  "decompose v bits =
     (let gapDetector = unat (drop_bit (bits - 8) v AND 0x1ff)
      in if gapDetector \<noteq> 0xff \<and> gapDetector \<noteq> 0x100 then None
         else
           (let powerOfTwo = push_bit bits 1 :: u256;
                upperPart = drop_bit bits v;
                lowerPart = uint (v AND (powerOfTwo - 1));
                (lowerPart, upperPart) =
                  (if uint powerOfTwo - lowerPart < lowerPart
                   then (lowerPart - uint powerOfTwo, upperPart + 1) else (lowerPart, upperPart))
            in if upperPart = 0 then None
               else if uint (drop_bit 8 powerOfTwo) \<le> \<bar>lowerPart\<bar> then None
               else Some (lowerPart, upperPart)))"

lemma mask_low: "bits < 256 \<Longrightarrow> uint (v AND (push_bit bits 1 - 1) :: u256) = uint v mod 2 ^ bits"
proof -
  assume "bits < 256"
  then have "push_bit bits 1 - 1 = (mask bits :: u256)"
    by (simp add: mask_eq_exp_minus_1 push_bit_eq_mult)
  then have "v AND (push_bit bits 1 - 1) = take_bit bits v" by (simp add: take_bit_eq_mask)
  then show ?thesis by (simp only: unsigned_take_bit_eq) (simp add: take_bit_eq_mod)
qed

lemma uint_power: "bits < 256 \<Longrightarrow> uint (push_bit bits 1 :: u256) = 2 ^ bits"
  unfolding unsigned_push_bit_eq
  by (simp only: unsigned_1 push_bit_eq_mult mult_1 word_size len_num1 len_bit0 take_bit_int_eq_self_iff)
    (use power_strict_increasing [of bits 256 "2::int"] in simp)

lemma uint_drop_bit: "uint (drop_bit n w) = uint w div 2 ^ n"
  unfolding uint_nat unat_drop_bit by (simp only: of_nat_div of_nat_power of_nat_numeral)

lemma power_split: "8 < bits \<Longrightarrow> (2::int) ^ bits = 256 * 2 ^ (bits - 8)"
proof -
  assume "8 < bits"
  then have "(2::int) ^ bits = 2 ^ (8 + (bits - 8))" by simp
  then show ?thesis unfolding power_add by simp
qed

lemma decompose_value:
  assumes "decompose v bits = Some (l, u)" "8 < bits" "bits \<le> 255"
  shows "word_of_int l + u * push_bit bits 1 = v" "u \<noteq> 0" "\<bar>l\<bar> < uint v" "uint u < uint v"
proof -
  define q r where "q = uint v div 2 ^ bits" and "r = uint v mod 2 ^ bits"
  have b: "bits < 256" using assms(3) by simp
  have vqr: "uint v = q * 2 ^ bits + r" unfolding q_def r_def by (rule div_mult_mod_eq [symmetric])
  have r: "0 \<le> r" "r < 2 ^ bits" by (simp_all add: r_def)
  have q: "0 \<le> q" unfolding q_def by (rule div_int_pos_iff [THEN iffD2]) simp
  have drop: "uint (drop_bit bits v) = q"
    by (simp add: q_def uint_drop_bit)
  have low: "uint (v AND (push_bit bits 1 - 1)) = r" using mask_low [OF b] by (simp add: r_def)
  have p: "uint (push_bit bits 1 :: u256) = 2 ^ bits" by (rule uint_power [OF b])
  have p8: "uint (drop_bit 8 (push_bit bits 1 :: u256)) = 2 ^ (bits - 8)"
    unfolding uint_drop_bit p power_split [OF assms(2)] by simp
  have u: "u \<noteq> 0" and lu: "\<bar>l\<bar> < 2 ^ (bits - 8)"
    "(l, u) = (if 2 ^ bits - r < r then (r - 2 ^ bits, drop_bit bits v + 1) else (r, drop_bit bits v))"
    using assms(1) unfolding decompose_def Let_def low p p8 by (auto split: if_splits)
  show "u \<noteq> 0" by (rule u)
  have v: "v = word_of_int q * push_bit bits 1 + word_of_int r"
  proof -
    have "v = word_of_int (q * 2 ^ bits + r)" by (simp add: vqr [symmetric])
    then show ?thesis by (simp add: push_bit_eq_mult)
  qed
  have dq: "drop_bit bits v = word_of_int q" using drop by (metis word_of_int_uint)
  show "word_of_int l + u * push_bit bits 1 = v"
    using lu(2) [unfolded dq] by (subst v) (auto simp: push_bit_eq_mult algebra_simps split: if_splits)
  have pow: "(2::int) ^ bits = 256 * 2 ^ (bits - 8)" "(2::int) ^ (bits - 8) \<ge> 2"
    using power_split [OF assms(2)] power_increasing [of 1 "bits - 8" "2::int"] assms(2) by simp_all
  have big: "2 ^ (bits - 8) < uint v"
  proof (cases "q = 0")
    case True
    then have "2 ^ bits < 2 * r" using lu(2) u drop by (auto simp: dq split: if_splits)
    then show ?thesis using pow True vqr by simp
  next
    case False
    then have "1 * 2 ^ bits \<le> q * 2 ^ bits" using q by (intro mult_right_mono) simp_all
    then have "2 ^ bits \<le> uint v" using vqr r by linarith
    then show ?thesis using pow by linarith
  qed
  show "\<bar>l\<bar> < uint v" using lu(1) big by simp
  have "uint u \<le> q + 1"
  proof -
    have "uint (drop_bit bits v + 1) \<le> uint (drop_bit bits v) + 1"
      by (metis uint_add_le uint_1)
    then show ?thesis using lu(2) drop by (auto split: if_splits)
  qed
  also have "q + 1 < uint v"
  proof (cases "q = 0")
    case True
    then show ?thesis using big pow by simp
  next
    case False
    have "q * 512 \<le> q * 2 ^ bits" using q pow by (intro mult_left_mono) simp_all
    then show ?thesis using vqr r q False by linarith
  qed
  finally show "uint u < uint v" .
qed

lemma uint_abs_lower: "\<bar>l\<bar> < uint (v :: u256) \<Longrightarrow> uint (word_of_int \<bar>l\<bar> :: u256) = \<bar>l\<bar>"
proof -
  assume "\<bar>l\<bar> < uint v"
  also have "uint v < 2 ^ LENGTH(256)" by (rule uint_lt2p)
  finally show ?thesis unfolding uint_word_of_int by (intro mod_pos_pos_trivial) simp_all
qed

lemma decompose_decreasing:
  assumes "decompose v bits = Some (l, u)" "8 < bits" "bits \<le> 255"
  shows "unat (word_of_int \<bar>l\<bar> :: u256) < unat v" "unat u < unat v"
proof -
  note v = decompose_value(3,4) [OF assms]
  from uint_abs_lower [OF v(1)] v(1) have "uint (word_of_int \<bar>l\<bar> :: u256) < uint v" by linarith
  then show "unat (word_of_int \<bar>l\<bar> :: u256) < unat v" unfolding uint_nat by (simp only: of_nat_less_iff)
  from v(2) show "unat u < unat v" unfolding uint_nat by (simp only: of_nat_less_iff)
qed

text \<open>
  The search. The steps left, a member of the method, are passed on and returned. A shift
  by \<open>bits\<close> or a multiplication with \<open>2 ^ bits\<close> rebuilds the value.
\<close>

function findRepresentation :: "Params \<Rightarrow> u256 \<Rightarrow> nat \<Rightarrow> (AssemblyItems \<times> nat) result"
  and findLoop :: "Params \<Rightarrow> u256 \<Rightarrow> nat \<Rightarrow> AssemblyItems \<Rightarrow> nat \<Rightarrow> nat \<Rightarrow> (AssemblyItems \<times> nat) result" where
  "findRepresentation p v steps =
     (if v < 0x10000 then Inr ([pushItem v], steps)
      else if bytesRequired (unat (NOT v)) < bytesRequired (unat v) then
        bind_result (findRepresentation p (NOT v) steps) (\<lambda>(r, steps). Inr (r @ [opItem iNOT], steps))
      else bind_result (compute_gasNeeded p [pushItem v]) (\<lambda>bestGas.
             findLoop p v 255 [pushItem v] bestGas steps))"
| "findLoop p v bits routine bestGas steps =
     (if \<not> (8 < bits \<and> bits \<le> 255 \<and> 0 < steps) then Inr (routine, steps)
      else case decompose v bits of
          None \<Rightarrow> findLoop p v (bits - 1) routine bestGas steps
        | Some (lower, upper) \<Rightarrow>
            bind_result
              (if lower \<noteq> 0 then findRepresentation p (word_of_int \<bar>lower\<bar>) steps
               else Inr ([], steps)) (\<lambda>(lowerRoutine, steps).
            bind_result
              (if hasBitwiseShifting (pa_svmVersion p) then
                 bind_result (findRepresentation p upper steps) (\<lambda>(r, steps).
                   Inr (r @ [pushItem (of_nat bits), opItem iSHL], steps))
               else if upper \<noteq> 1 then
                 bind_result (findRepresentation p upper steps) (\<lambda>(r, steps).
                   Inr ([pushItem (of_nat bits), pushItem 2, opItem iEXP] @ r @ [opItem iMUL], steps))
               else Inr ([pushItem (of_nat bits), pushItem 2, opItem iEXP], steps)) (\<lambda>(upperRoutine, steps).
              (let newRoutine = lowerRoutine @ upperRoutine @
                     (if 0 < lower then [opItem iADD] else if lower < 0 then [opItem iSUB] else []);
                   steps = steps - 1
               in bind_result (compute_gasNeeded p newRoutine) (\<lambda>newGas.
                    if newGas < bestGas then findLoop p v (bits - 1) newRoutine newGas steps
                    else findLoop p v (bits - 1) routine bestGas steps)))))"
  by pat_completeness auto
termination
proof (relation "inv_image (less_than <*lex*> less_than)
    (\<lambda>x. case x of Inl (p, v, steps) \<Rightarrow> (unat v, 256) | Inr (p, v, bits, r, g, steps) \<Rightarrow> (unat v, bits))")
  fix p and v :: u256 and steps :: nat
  assume "bytesRequired (unat (NOT v)) < bytesRequired (unat v)"
  then have "unat (NOT v) < unat v" using bytesRequired_mono by (metis not_less)
  then show "(Inl (p, NOT v, steps), Inl (p, v, steps)) \<in> inv_image (less_than <*lex*> less_than)
    (\<lambda>x. case x of Inl (p, v, steps) \<Rightarrow> (unat v, 256) | Inr (p, v, bits, r, g, steps) \<Rightarrow> (unat v, bits))"
    by simp
qed (auto simp: decompose_decreasing)

declare findRepresentation.simps [simp del] findLoop.simps [simp del]

text \<open>
  The evaluation of a routine that checks it: \<open>None\<close> where the code returns \<open>false\<close>, else
  the stack with its topmost element first.
\<close>

fun checkOp :: "Params \<Rightarrow> instruction \<Rightarrow> u256 list \<Rightarrow> (u256 list option) result" where
  "checkOp p i (a # b # stack) =
     (if i = iMUL then Inr (Some ((a * b) # stack))
      else if i = iEXP then Inr (if 0xff < b then None else Some (a ^ unat b # stack))
      else if i = iADD then Inr (Some ((a + b) # stack))
      else if i = iSUB then Inr (Some ((a - b) # stack))
      else if i = iNOT then Inr (Some (NOT a # b # stack))
      else if i = iSHL then
        assertThrow (hasBitwiseShifting (pa_svmVersion p)) OptimizerException
          (assertThrow (a \<le> 255) OptimizerException (Inr (Some (push_bit (unat a) b # stack))))
      else if i = iSHR then
        assertThrow (hasBitwiseShifting (pa_svmVersion p)) OptimizerException
          (assertThrow (a \<le> 255) OptimizerException (Inr (Some (drop_bit (unat a) b # stack))))
      else Inr None)"
| "checkOp p i [a] = Inr (if i = iNOT then Some [NOT a] else None)"
| "checkOp p i [] = Inr None"

fun checkItems :: "Params \<Rightarrow> AssemblyItems \<Rightarrow> u256 list \<Rightarrow> (u256 list option) result" where
  "checkItems p [] stack = Inr (Some stack)"
| "checkItems p (it # items) stack =
     (if m_type it = Operation then
        (if int (length stack) < item_arguments it then Inr None
         else bind_result (checkOp p (m_instruction it) stack) (\<lambda>r.
                case r of None \<Rightarrow> Inr None | Some stack \<Rightarrow> checkItems p items stack))
      else if m_type it = Push then checkItems p items (m_data it # stack)
      else Inr None)"

definition checkRepresentation :: "Params \<Rightarrow> u256 \<Rightarrow> AssemblyItems \<Rightarrow> bool result" where
  "checkRepresentation p v routine =
     bind_result (checkItems p routine []) (\<lambda>r.
       Inr (case r of None \<Rightarrow> False | Some stack \<Rightarrow> stack = [v]))"

definition maxSteps :: nat where "maxSteps = 10000"

text \<open>The constructor: the routine, and the assertion that it computes the value.\<close>

definition computeMethod :: "Params \<Rightarrow> u256 \<Rightarrow> AssemblyItems result" where
  "computeMethod p v =
     bind_result (findRepresentation p v maxSteps) (\<lambda>(routine, _).
     bind_result (checkRepresentation p v routine) (\<lambda>ok.
       assertThrow ok OptimizerException (Inr routine)))"

section \<open>Replacing the constants of an assembly\<close>

text \<open>
  The constants pushed and how often, in the order of their values; the map of the code
  is keyed by the items, which are all of type \<open>Push\<close> and compare by their data.
\<close>

definition countPushes :: "AssemblyItems \<Rightarrow> (u256, size_t) std_map" where
  "countPushes items =
     foldl (\<lambda>m it. if m_type it = Push
              then map_put (m_data it) ((case map_of m (m_data it) of Some n \<Rightarrow> n | None \<Rightarrow> 0) + 1) m
              else m)
       [] items"

definition optimiseConstant ::
    "bool \<Rightarrow> size_t \<Rightarrow> SVMVersion \<Rightarrow> u256 \<times> size_t \<Rightarrow>
     (nat \<times> (u256, AssemblyItems) std_map \<times> AssemblyData) \<Rightarrow>
     (nat \<times> (u256, AssemblyItems) std_map \<times> AssemblyData) result" where
  "optimiseConstant isCreation runs svmVersion = (\<lambda>(v, multiplicity) (optimisations, pending, a).
     if v < 0x100 then Inr (optimisations, pending, a)
     else
       (let p = \<lparr>pa_isCreation = isCreation, pa_runs = runs, pa_multiplicity = multiplicity,
                 pa_svmVersion = svmVersion\<rparr>
        in bind_result (literal_gasNeeded p v) (\<lambda>literalGas.
           bind_result (codeCopy_gasNeeded p v) (\<lambda>copyGas.
           bind_result (computeMethod p v) (\<lambda>routine.
           bind_result (compute_gasNeeded p routine) (\<lambda>computeGas.
             if copyGas < literalGas \<and> copyGas < computeGas then
               bind_result (codeCopy_execute v a) (\<lambda>(replacement, a).
                 Inr (optimisations + 1, map_put v replacement pending, a))
             else if computeGas < literalGas \<and> computeGas \<le> copyGas then
               Inr (optimisations + 1, (if routine \<noteq> [] then map_put v routine pending else pending), a)
             else Inr (optimisations, pending, a)))))))"

fun optimiseEach ::
    "bool \<Rightarrow> size_t \<Rightarrow> SVMVersion \<Rightarrow> (u256 \<times> size_t) list \<Rightarrow>
     (nat \<times> (u256, AssemblyItems) std_map \<times> AssemblyData) \<Rightarrow>
     (nat \<times> (u256, AssemblyItems) std_map \<times> AssemblyData) result" where
  "optimiseEach isCreation runs svmVersion [] st = Inr st"
| "optimiseEach isCreation runs svmVersion (it # its) st =
     bind_result (optimiseConstant isCreation runs svmVersion it st)
       (optimiseEach isCreation runs svmVersion its)"

definition optimiseConstants ::
    "bool \<Rightarrow> size_t \<Rightarrow> SVMVersion \<Rightarrow> AssemblyData \<Rightarrow> (nat \<times> AssemblyData) result" where
  "optimiseConstants isCreation runs svmVersion a =
     bind_result (optimiseEach isCreation runs svmVersion (countPushes (a_items a)) (0, [], a))
       (\<lambda>(optimisations, pending, a).
          Inr (optimisations,
               if pending \<noteq> [] then a\<lparr>a_items := replaceConstants (a_items a) pending\<rparr> else a))"

section \<open>Routines compute their value\<close>

text \<open>The items of a routine, whose gas is known, and what it does to every stack.\<close>

definition routineOps :: "instruction list" where
  "routineOps = [iNOT, iSHL, iEXP, iMUL, iADD, iSUB]"

definition routine_ok :: "AssemblyItems \<Rightarrow> bool" where
  "routine_ok r \<longleftrightarrow> (\<forall>it \<in> set r. m_type it = Push \<or> m_type it = Operation \<and> m_instruction it \<in> set routineOps)"

definition computes :: "Params \<Rightarrow> u256 \<Rightarrow> AssemblyItems \<Rightarrow> bool" where
  "computes p v r \<longleftrightarrow> routine_ok r \<and> (\<forall>stack. checkItems p r stack = Inr (Some (v # stack)))"

lemma routine_ok_simps [simp]:
  "routine_ok []"
  "routine_ok (a @ b) \<longleftrightarrow> routine_ok a \<and> routine_ok b"
  "routine_ok (it # r) \<longleftrightarrow>
     (m_type it = Push \<or> m_type it = Operation \<and> m_instruction it \<in> set routineOps) \<and> routine_ok r"
  by (auto simp: routine_ok_def)

lemma item_simps [simp]:
  "m_type (pushItemAt v l) = Push" "m_data (pushItemAt v l) = v"
  "m_type (opItemAt i l) = Operation" "m_instruction (opItemAt i l) = i"
  by (simp_all add: pushItemAt_def mkItemAt_def opItemAt_def)

lemma checkItems_append:
  "checkItems p (a @ b) stack =
     bind_result (checkItems p a stack) (\<lambda>r. case r of None \<Rightarrow> Inr None | Some s \<Rightarrow> checkItems p b s)"
proof (induction a arbitrary: stack)
  case (Cons it a)
  show ?case
    by (cases "checkOp p (m_instruction it) stack") (auto simp: Cons.IH split: option.split)
qed simp

lemma computesI: "routine_ok r \<Longrightarrow> (\<And>stack. checkItems p r stack = Inr (Some (v # stack))) \<Longrightarrow> computes p v r"
  by (simp add: computes_def)

lemma checkItems_computes:
  "computes p v r \<Longrightarrow> checkItems p (r @ b) stack = checkItems p b (v # stack)"
  by (simp add: computes_def checkItems_append)

lemma computes_ok: "computes p v r \<Longrightarrow> routine_ok r"
  by (simp add: computes_def)

lemma routine_arguments [simp]:
  "item_arguments (opItem iNOT) = 1" "item_arguments (opItem iSHL) = 2" "item_arguments (opItem iEXP) = 2"
  "item_arguments (opItem iMUL) = 2" "item_arguments (opItem iADD) = 2" "item_arguments (opItem iSUB) = 2"
  by (simp_all add: item_arguments_def instructionInfo_rules InstructionInfo.defs)

lemma computes_push: "computes p v [pushItem v]"
  by (rule computesI) simp_all

lemma computes_not: "computes p (NOT v) r \<Longrightarrow> computes p v (r @ [opItem iNOT])"
proof (rule computesI)
  assume r: "computes p (NOT v) r"
  show "routine_ok (r @ [opItem iNOT])" using computes_ok [OF r] by (simp add: routineOps_def)
  show "checkItems p (r @ [opItem iNOT]) stack = Inr (Some (v # stack))" for stack
    unfolding checkItems_computes [OF r] by (cases stack) simp_all
qed

text \<open>The code for \<open>upper * 2 ^ bits + lower\<close>, with and without shifts.\<close>

definition scaleRoutine :: "Params \<Rightarrow> nat \<Rightarrow> u256 \<Rightarrow> AssemblyItems \<Rightarrow> AssemblyItems" where
  "scaleRoutine p bits upper r =
     (if hasBitwiseShifting (pa_svmVersion p) then r @ [pushItem (of_nat bits), opItem iSHL]
      else if upper \<noteq> 1 then [pushItem (of_nat bits), pushItem 2, opItem iEXP] @ r @ [opItem iMUL]
      else [pushItem (of_nat bits), pushItem 2, opItem iEXP])"

lemma bits_word:
  "bits \<le> 255 \<Longrightarrow> unat (of_nat bits :: u256) = bits"
  "bits \<le> 255 \<Longrightarrow> (of_nat bits :: u256) \<le> 255"
proof -
  assume b: "bits \<le> 255"
  show u: "unat (of_nat bits :: u256) = bits" unfolding unat_of_nat_u256 by (rule mod_less) (use b in simp)
  show "(of_nat bits :: u256) \<le> 255" unfolding word_le_nat_alt u using b by simp
qed

lemma computes_scale:
  assumes "computes p u r" "bits \<le> 255"
  shows "computes p (u * push_bit bits 1) (scaleRoutine p bits u r)"
proof (rule computesI)
  show "routine_ok (scaleRoutine p bits u r)"
    using computes_ok [OF assms(1)] by (simp add: scaleRoutine_def routineOps_def)
  note b = bits_word [OF assms(2)]
  show "checkItems p (scaleRoutine p bits u r) stack = Inr (Some (u * push_bit bits 1 # stack))" for stack
    using b leD [OF b(2)]
    by (auto simp: scaleRoutine_def checkItems_computes [OF assms(1)] push_bit_eq_mult mult.commute)
qed

definition signedSum :: "int \<Rightarrow> AssemblyItems" where
  "signedSum lower = (if 0 < lower then [opItem iADD] else if lower < 0 then [opItem iSUB] else [])"

lemma computes_sum:
  assumes "lower \<noteq> 0 \<Longrightarrow> computes p (word_of_int \<bar>lower\<bar>) a" "lower = 0 \<Longrightarrow> a = []" "computes p s b"
  shows "computes p (word_of_int lower + s) (a @ b @ signedSum lower)"
proof (cases "lower = 0")
  case True
  with assms show ?thesis by (simp add: signedSum_def)
next
  case False
  note a = assms(1) [OF False]
  show ?thesis
  proof (rule computesI)
    show "routine_ok (a @ b @ signedSum lower)"
      using computes_ok [OF a] computes_ok [OF assms(3)] by (simp add: signedSum_def routineOps_def)
    show "checkItems p (a @ b @ signedSum lower) stack = Inr (Some ((word_of_int lower + s) # stack))" for stack
      using False
      by (simp add: checkItems_computes [OF a] checkItems_computes [OF assms(3)] signedSum_def)
  qed
qed

section \<open>No exception in the gas computations\<close>

lemma foldl_bind_Inr:
  "(\<And>acc x. x \<in> set xs \<Longrightarrow> \<exists>y. f (Inr acc) x = Inr y) \<Longrightarrow> \<exists>y. foldl f (Inr acc) xs = Inr y"
proof (induction xs arbitrary: acc)
  case (Cons x xs)
  from Cons.prems [of x acc] obtain y where "f (Inr acc) x = Inr y" by auto
  with Cons show ?case by simp
qed simp

lemma runGas_PUSH1: "runGas iPUSH1 = Inr 3"
  by (simp add: runGas_def instructionInfo_rules InstructionInfo.defs gas_constants)

lemma runGas_routineOps: "i \<in> set routineOps \<Longrightarrow> i \<noteq> iEXP \<Longrightarrow> \<exists>g. runGas i = Inr g"
  by (auto simp: routineOps_def runGas_def instructionInfo_rules InstructionInfo.defs)

lemma simpleRunGas_total: "routine_ok r \<Longrightarrow> \<exists>g. simpleRunGas r = Inr g"
  unfolding simpleRunGas_def
  by (rule foldl_bind_Inr) (use runGas_PUSH1 runGas_routineOps in \<open>force simp: routine_ok_def\<close>)

lemma bytesRequired_total: "routine_ok r \<Longrightarrow> \<exists>n. method_bytesRequired r = Inr n"
  unfolding method_bytesRequired_def items_bytesRequired_def
  by (rule foldl_bind_Inr) (auto simp: routine_ok_def item_bytesRequired_def)

lemma compute_gas_total: "routine_ok r \<Longrightarrow> \<exists>g. compute_gasNeeded p r = Inr g"
  using simpleRunGas_total [of r] bytesRequired_total [of r] by (auto simp: compute_gasNeeded_def)

section \<open>The search finds a routine\<close>

lemma findLoop_step:
  assumes "8 < bits" "bits \<le> 255" "0 < steps" "decompose v bits = Some (lower, upper)"
    and low: "if lower = 0 then low = [] \<and> s1 = steps
      else findRepresentation p (word_of_int \<bar>lower\<bar>) steps = Inr (low, s1)"
    and up: "if hasBitwiseShifting (pa_svmVersion p) \<or> upper \<noteq> 1
      then findRepresentation p upper s1 = Inr (up, s2) else s2 = s1"
    and gas: "compute_gasNeeded p (low @ scaleRoutine p bits upper up @ signedSum lower) = Inr g"
  shows "findLoop p v bits routine bestGas steps =
    (if g < bestGas
     then findLoop p v (bits - 1) (low @ scaleRoutine p bits upper up @ signedSum lower) g (s2 - 1)
     else findLoop p v (bits - 1) routine bestGas (s2 - 1))"
  using assms
  by (subst findLoop.simps)
    (auto simp: scaleRoutine_def signedSum_def Let_def split: if_splits)

lemma findLoop_computes:
  assumes smaller: "\<And>u steps. unat u < unat v \<Longrightarrow>
    \<exists>r s. findRepresentation p u steps = Inr (r, s) \<and> computes p u r"
  shows "computes p v routine \<Longrightarrow>
    \<exists>r s. findLoop p v bits routine bestGas steps = Inr (r, s) \<and> computes p v r"
proof (induction bits arbitrary: routine bestGas steps)
  case 0
  then show ?case by (simp add: findLoop.simps)
next
  case (Suc n)
  let ?bits = "Suc n"
  consider "\<not> (8 < ?bits \<and> ?bits \<le> 255 \<and> 0 < steps)"
    | "8 < ?bits" "?bits \<le> 255" "0 < steps" "decompose v ?bits = None"
    | lower upper where "8 < ?bits" "?bits \<le> 255" "0 < steps" "decompose v ?bits = Some (lower, upper)"
    by (cases "decompose v ?bits") auto
  then show ?case
  proof cases
    case 1
    then show ?thesis using Suc.prems by (subst findLoop.simps) auto
  next
    case 2
    then show ?thesis using Suc.IH [OF Suc.prems] by (subst findLoop.simps) simp
  next
    case (3 lower upper)
    note d = decompose_value [OF 3(4,1,2)] decompose_decreasing [OF 3(4,1,2)]
    obtain low s1 where low: "if lower = 0 then low = [] \<and> s1 = steps
        else findRepresentation p (word_of_int \<bar>lower\<bar>) steps = Inr (low, s1)"
      "lower \<noteq> 0 \<Longrightarrow> computes p (word_of_int \<bar>lower\<bar>) low"
      using smaller [OF d(5), of steps] by (cases "lower = 0") auto
    obtain up s where up: "findRepresentation p upper s1 = Inr (up, s)" "computes p upper up"
      using smaller [OF d(6)] by blast
    let ?routine = "low @ scaleRoutine p ?bits upper up @ signedSum lower"
    have new: "computes p v ?routine"
      using computes_sum [OF low(2) _ computes_scale [OF up(2) 3(2)]] low(1) d(1) by auto
    obtain g where g: "compute_gasNeeded p ?routine = Inr g"
      using compute_gas_total [OF computes_ok [OF new]] by blast
    have "\<exists>s2. (if hasBitwiseShifting (pa_svmVersion p) \<or> upper \<noteq> 1
      then findRepresentation p upper s1 = Inr (up, s2) else s2 = s1)"
      using up(1) by (cases "hasBitwiseShifting (pa_svmVersion p) \<or> upper \<noteq> 1") auto
    then obtain s2 where "if hasBitwiseShifting (pa_svmVersion p) \<or> upper \<noteq> 1
      then findRepresentation p upper s1 = Inr (up, s2) else s2 = s1" by blast
    from findLoop_step [OF 3 low(1) this g, of routine bestGas]
    show ?thesis using Suc.IH [OF new, of g "s2 - 1"] Suc.IH [OF Suc.prems, of bestGas "s2 - 1"]
      by (simp split: if_splits)
  qed
qed

lemma findRepresentation_computes:
  "\<exists>r s. findRepresentation p v steps = Inr (r, s) \<and> computes p v r"
proof (induction "unat v" arbitrary: v steps rule: less_induct)
  case less
  show ?case
  proof (cases "v < 0x10000")
    case True
    then show ?thesis by (simp add: findRepresentation.simps computes_push)
  next
    case big: False
    show ?thesis
    proof (cases "bytesRequired (unat (NOT v)) < bytesRequired (unat v)")
      case True
      then have "unat (NOT v) < unat v" using bytesRequired_mono by (metis not_less)
      from less [OF this] obtain r s where "findRepresentation p (NOT v) steps = Inr (r, s)"
        "computes p (NOT v) r" by blast
      with True big computes_not show ?thesis by (simp add: findRepresentation.simps [of p v])
    next
      case False
      obtain g where g: "compute_gasNeeded p [pushItem v] = Inr g"
        using compute_gas_total [OF computes_ok [OF computes_push]] by blast
      from findLoop_computes [OF less computes_push, of v 255 g steps] g big False show ?thesis
        by (simp add: findRepresentation.simps [of p v])
    qed
  qed
qed

lemma computeMethod_computes: "\<exists>r. computeMethod p v = Inr r \<and> computes p v r"
proof -
  obtain r s where r: "findRepresentation p v maxSteps = Inr (r, s)" "computes p v r"
    using findRepresentation_computes by blast
  then have "checkRepresentation p v r = Inr True" by (simp add: checkRepresentation_def computes_def)
  with r show ?thesis by (simp add: computeMethod_def)
qed

section \<open>No exception, and what is replaced\<close>

lemma method_dataGas_total: "0 < length data \<Longrightarrow> length data < 2 ^ 200 \<Longrightarrow> \<exists>g. method_dataGas p data = Inr g"
  using dataGas_total [of data "pa_isCreation p"] by (auto simp: method_dataGas_def)

lemma compact_length: "length (toCompactBigEndian n m) = max m (bytesRequired n)"
  by (simp add: toCompactBigEndian_def toBigEndianInto_def toBigEndianLoop_digits)

lemma literal_gas_total: "\<exists>g. literal_gasNeeded p v = Inr g"
proof -
  have "simpleRunGas [opItem iPUSH1] = Inr 3"
    by (simp add: simpleRunGas_def runGas_PUSH1)
  moreover have "bytesRequired (unat v) < 2 ^ 200"
    using bytesRequired_u256 [of v] by (rule order.strict_trans1) simp
  then have "max 1 (bytesRequired (unat v)) < 2 ^ 200" by simp
  then obtain g where "method_dataGas p (toCompactBigEndian (unat v) 1) = Inr g"
    using method_dataGas_total [of "toCompactBigEndian (unat v) 1" p]
    unfolding compact_length by fastforce
  ultimately show ?thesis by (simp add: literal_gasNeeded_def)
qed

lemma copy_gas_total: "\<exists>g. codeCopy_gasNeeded p v = Inr g"
proof -
  have "\<exists>g. simpleRunGas copyRoutine = Inr g"
    by (simp add: simpleRunGas_def copyRoutine_def runGas_PUSH1 mkItemAt_def runGas_def
        instructionInfo_rules InstructionInfo.defs)
  moreover have "\<exists>n. method_bytesRequired copyRoutine = Inr n"
    unfolding method_bytesRequired_def items_bytesRequired_def
    by (rule foldl_bind_Inr) (auto simp: copyRoutine_def item_bytesRequired_def mkItemAt_def)
  moreover have "\<exists>g. method_dataGas p (toBigEndian v) = Inr g"
    by (rule method_dataGas_total) simp_all
  ultimately show ?thesis by (auto simp: codeCopy_gasNeeded_def)
qed

text \<open>A replacement computes the constant, or copies it from the data of the assembly.\<close>

definition copied :: "AssemblyData \<Rightarrow> u256 \<Rightarrow> AssemblyItems \<Rightarrow> bool" where
  "copied a v r \<longleftrightarrow>
     (\<exists>h. r = copyRoutine[4 := mkItem PushData h] \<and> h = keccakWord (toBigEndian v) \<and>
          (\<exists>d. map_of (a_data a) h = Some d \<and> keccakWord d = h))"

text \<open>The data is stored under its hash.\<close>

definition data_ok :: "AssemblyData \<Rightarrow> bool" where
  "data_ok a \<longleftrightarrow> map_invar (a_data a) \<and> (\<forall>h d. map_of (a_data a) h = Some d \<longrightarrow> keccakWord d = h)"

definition replacements_ok :: "SVMVersion \<Rightarrow> AssemblyData \<Rightarrow> (u256, AssemblyItems) std_map \<Rightarrow> bool" where
  "replacements_ok ver a pending \<longleftrightarrow> map_invar pending \<and>
     (\<forall>v r. map_of pending v = Some r \<longrightarrow>
        (\<exists>p. pa_svmVersion p = ver \<and> computes p v r) \<or> copied a v r)"

lemma optimiseConstant_ok:
  assumes "replacements_ok ver a pending" "data_ok a"
  shows "\<exists>n' pending' a'. optimiseConstant c runs ver (v, k) (n, pending, a) = Inr (n', pending', a') \<and>
    replacements_ok ver a' pending' \<and> data_ok a' \<and> a_items a' = a_items a"
proof (cases "v < 0x100")
  case True
  with assms show ?thesis by (simp add: optimiseConstant_def)
next
  case False
  let ?p = "\<lparr>pa_isCreation = c, pa_runs = runs, pa_multiplicity = k, pa_svmVersion = ver\<rparr>"
  obtain lg where lg: "literal_gasNeeded ?p v = Inr lg" using literal_gas_total by blast
  obtain cg where cg: "codeCopy_gasNeeded ?p v = Inr cg" using copy_gas_total by blast
  obtain r where r: "computeMethod ?p v = Inr r" "computes ?p v r" using computeMethod_computes by blast
  obtain g where g: "compute_gasNeeded ?p r = Inr g" using compute_gas_total [OF computes_ok [OF r(2)]] by blast
  note run = optimiseConstant_def lg cg r(1) g False
  consider (copy) "cg < lg \<and> cg < g" | (compute) "\<not> (cg < lg \<and> cg < g)" "g < lg \<and> g \<le> cg"
    | (keep) "\<not> (cg < lg \<and> cg < g)" "\<not> (g < lg \<and> g \<le> cg)" by blast
  then show ?thesis
  proof cases
    case copy
    let ?h = "keccakWord (toBigEndian v)"
    let ?a = "a\<lparr>a_data := map_put ?h (toBigEndian v) (a_data a)\<rparr>"
    have "codeCopy_execute v a = Inr (copyRoutine[4 := mkItem PushData ?h], ?a)"
      by (simp add: codeCopy_execute_def newData_def Let_def)
    with copy have "optimiseConstant c runs ver (v, k) (n, pending, a) =
        Inr (n + 1, map_put v (copyRoutine[4 := mkItem PushData ?h]) pending, ?a)"
      by (simp add: run)
    moreover have mono: "copied a u r \<Longrightarrow> copied ?a u r" for u r
      using assms(2) by (auto simp: copied_def data_ok_def)
    moreover have new: "copied ?a v (copyRoutine[4 := mkItem PushData ?h])"
      using assms(2) by (simp add: copied_def data_ok_def)
    have "replacements_ok ver ?a (map_put v (copyRoutine[4 := mkItem PushData ?h]) pending)"
      using assms(1) mono new unfolding replacements_ok_def by (simp del: One_nat_def) blast
    moreover have "data_ok ?a" using assms(2) by (auto simp: data_ok_def)
    ultimately show ?thesis by (intro exI [of _ ?a] exI conjI) simp_all
  next
    case compute
    then have "optimiseConstant c runs ver (v, k) (n, pending, a) =
        Inr (n + 1, (if r \<noteq> [] then map_put v r pending else pending), a)"
      by (simp add: run)
    moreover have "\<exists>p. pa_svmVersion p = ver \<and> computes p v r" using r(2) by (intro exI [of _ ?p]) simp
    ultimately show ?thesis using assms by (auto simp: replacements_ok_def)
  next
    case keep
    then have "optimiseConstant c runs ver (v, k) (n, pending, a) = Inr (n, pending, a)"
      by (auto simp: run)
    then show ?thesis using assms by simp
  qed
qed

lemma optimiseEach_ok:
  assumes "replacements_ok ver a pending" "data_ok a"
  shows "\<exists>n' pending' a'. optimiseEach c runs ver its (n, pending, a) = Inr (n', pending', a') \<and>
    replacements_ok ver a' pending' \<and> data_ok a' \<and> a_items a' = a_items a"
  using assms
proof (induction its arbitrary: n pending a)
  case (Cons it its)
  obtain v k where it: "it = (v, k)" by (cases it)
  from optimiseConstant_ok [OF Cons.prems, of c runs v k n] obtain n1 pending1 a1
    where 1: "optimiseConstant c runs ver it (n, pending, a) = Inr (n1, pending1, a1)"
      "replacements_ok ver a1 pending1" "data_ok a1" "a_items a1 = a_items a"
    unfolding it by blast
  from Cons.IH [OF 1(2,3), of n1] 1(1,4) show ?case by simp
qed simp

end
