(* ===== verification/Constant_Correct.thy ===== *)
theory Constant_Correct
  imports Constant_Optimiser Rewriting
begin

text \<open>
  What the constant optimiser's code does when it runs: the routines push the constant
  they stand for, so that replacing constants by computations preserves executions.
\<close>

section \<open>Routines on the item machine\<close>

context instruction_semantics
begin

lemma step_routine_op:
  assumes "m_type it = Operation" "m_instruction it \<in> set routineOps"
    and "checkOp p (m_instruction it) stack = Inr (Some stack')"
    and "\<not> int (length stack) < item_arguments it"
  shows "step exec stop link P (it # r, stack @ s, w) = Running (r, stack' @ s, w)"
proof -
  let ?i = "m_instruction it"
  have op: "is_op it ?i" using assms(1) by (simp add: is_op_def)
  have arith: "?i \<in> set arithInstructions"
    using assms(2) by (auto simp: routineOps_def arithInstructions_def)
  show ?thesis
  proof (cases "?i = iNOT")
    case True
    then have one: "info_args (instructionInfo ?i) = 1"
      by (simp add: instructionInfo_rules InstructionInfo.defs)
    then obtain a st where st: "stack = a # st"
      using assms(1,4) by (cases stack) (simp_all add: item_arguments_def)
    have "stack' = NOT a # st" using assms(3) st True by (cases st) simp_all
    then show ?thesis
      using True by (simp add: step_unary [OF op arith one] st evalArith_def del: step.simps)
  next
    case False
    with assms(2) have i: "?i \<in> {iSHL, iEXP, iMUL, iADD, iSUB}" by (auto simp: routineOps_def)
    then have two: "info_args (instructionInfo ?i) = 2"
      by (auto simp: instructionInfo_rules InstructionInfo.defs)
    then obtain a b st where st: "stack = a # b # st"
      using assms(1,4) by (cases stack; cases "tl stack") (simp_all add: item_arguments_def)
    have "stack' = the (evalArith ?i [a, b]) # st"
      using i assms(3) unfolding st
      by (elim insertE emptyE) (auto simp: evalArith_def exp256_power leD split: if_splits)
    then show ?thesis by (simp add: step_binary [OF op arith two] st del: step.simps)
  qed
qed

lemma run_checkItems:
  "routine_ok items \<Longrightarrow> checkItems p items stack = Inr (Some stack') \<Longrightarrow>
     run exec stop link P (length items) (items @ r, stack @ s, w) = Running (r, stack' @ s, w)"
proof (induction items arbitrary: stack)
  case (Cons it items)
  show ?case
  proof (cases "m_type it = Push")
    case True
    with Cons show ?thesis using Cons.IH [of "m_data it # stack"] by simp
  next
    case False
    then have op: "m_type it = Operation" "m_instruction it \<in> set routineOps" "routine_ok items"
      using Cons.prems(1) by auto
    then obtain st where st: "\<not> int (length stack) < item_arguments it"
      "checkOp p (m_instruction it) stack = Inr (Some st)" "checkItems p items st = Inr (Some stack')"
      using Cons.prems(2) by (auto simp: bind_result_Inr_iff split: if_splits option.splits)
    from step_routine_op [OF op(1,2) st(2,1)] Cons.IH [OF op(3) st(3)] show ?thesis
      by (simp del: step.simps)
  qed
qed simp

lemma run_computes:
  "computes p v r \<Longrightarrow> run exec stop link P (length r) (r @ rest, s, w) = Running (rest, v # s, w)"
  using run_checkItems [of r p "[]" "[v]" stop link P rest s w] by (simp add: computes_def)

lemma straight_computes:
  assumes "m_type it = Push" "computes p (m_data it) r"
  shows "straight exec stop link [it] r"
proof (rule straightI, rule disjI2, intro exI conjI allI)
  fix s w P rest
  show "1 \<le> (1::nat)" by simp
  show "run exec stop link P 1 ([it] @ rest, s, w) = Running (rest, m_data it # s, w)"
    using assms(1) by simp
  show "run exec stop link P (length r) (r @ rest, s, w) = Running (rest, m_data it # s, w)"
    by (rule run_computes [OF assms(2)])
qed

end

section \<open>Replacing constants by computations\<close>

definition computed :: "(u256, AssemblyItems) std_map \<Rightarrow> bool" where
  "computed pending \<longleftrightarrow> (\<forall>v r. map_of pending v = Some r \<longrightarrow> (\<exists>p. computes p v r))"

definition replaceConstant :: "(u256, AssemblyItems) std_map \<Rightarrow> AssemblyItem \<Rightarrow> AssemblyItems" where
  "replaceConstant pending it =
     (if m_type it = Push then
        (case map_of pending (m_data it) of Some r \<Rightarrow> r | None \<Rightarrow> [it])
      else [it])"

lemma replaceConstants_itemwise: "replaceConstants items pending = itemwise (replaceConstant pending) items"
  by (simp add: replaceConstants_def itemwise_def replaceConstant_def [abs_def])

lemma routine_no_tag: "routine_ok r \<Longrightarrow> it \<in> set r \<Longrightarrow> m_type it \<noteq> Tag"
  by (auto simp: routine_ok_def)

lemma find_tag_replaceConstants:
  assumes "computed pending"
  shows "find_tag link (replaceConstants items pending) v =
    map_option (\<lambda>t. replaceConstants t pending) (find_tag link items v)"
proof (induction items)
  case (Cons it items)
  have "find_tag link (replaceConstant pending it @ rest) v =
      (if m_type it = Tag \<and> link it = v then Some (it # rest) else find_tag link rest v)" for rest
  proof (cases "replaceConstant pending it = [it]")
    case False
    then obtain r where r: "m_type it = Push" "map_of pending (m_data it) = Some r" "replaceConstant pending it = r"
      by (auto simp: replaceConstant_def split: if_splits option.splits)
    then have "\<forall>x \<in> set r. m_type x \<noteq> Tag"
      using assms computes_ok routine_no_tag unfolding computed_def by blast
    with r show ?thesis by (simp add: find_tag_append)
  qed simp
  with Cons show ?case by (auto simp: replaceConstants_itemwise replaceConstant_def)
qed (simp add: replaceConstants_itemwise)

sublocale instruction_semantics \<subseteq> constants:
  rewriting exec "\<lambda>items. replaceConstants items pending" "\<lambda>_ _ _ _. computed pending" for pending
proof
  fix stop :: 'e and link prog items s and w :: 'w
  assume c: "computed pending"
  have "simulated exec stop link (\<lambda>_. computed pending) (itemwise (replaceConstant pending)) prog items s w"
  proof (rule itemwise_simulated)
    fix it r
    show "replaceConstant pending it = [it] \<or> straight exec stop link [it] (replaceConstant pending it)"
    proof (cases "replaceConstant pending it = [it]")
      case False
      then obtain x where x: "m_type it = Push" "map_of pending (m_data it) = Some x"
        "replaceConstant pending it = x"
        by (auto simp: replaceConstant_def split: if_splits option.splits)
      then obtain p where "computes p (m_data it) x" using c unfolding computed_def by blast
      from straight_computes [OF x(1) this] show ?thesis by (simp add: x(3))
    qed simp
  next
    fix v t assume "find_tag link prog v = Some t"
    then show "find_tag link (itemwise (replaceConstant pending) prog) v =
        Some (itemwise (replaceConstant pending) t)"
      using find_tag_replaceConstants [OF c, of link prog v] by (simp add: replaceConstants_itemwise)
  qed (rule c)
  then show "simulated exec stop link (\<lambda>_. computed pending)
      (\<lambda>items. replaceConstants items pending) prog items s w"
    by (simp add: replaceConstants_itemwise)
qed

section \<open>The copied constant\<close>

text \<open>
  The copy routine on the repository's interpreter: it leaves the constant on the stack
  and the memory as it was, apart from its size, which covers the first word.
\<close>

definition copyRoutineFor :: "AssemblyItem \<Rightarrow> AssemblyItems" where
  "copyRoutineFor dataItem = copyRoutine[4 := dataItem]"

definition grown :: "InterpreterState \<Rightarrow> InterpreterState" where
  "grown st = st\<lparr>st_msize := max (st_msize st) 32,
     st_memory := st_memory st @ replicate (32 - length (st_memory st)) 0\<rparr>"

definition room :: "InterpreterState \<Rightarrow> bool" where
  "room st \<longleftrightarrow> length (st_memory st) < 2 ^ 64 \<and> 32 < unat (st_maxMemSize st)"

lemma access_first_word: "room st \<Longrightarrow> accessMemory 0 0x20 st = (True, grown st)"
proof -
  assume room: "room st"
  have n: "((0::u256) + 0x20 + 0x1f) AND NOT 0x1f = 32" by simp
  have lt: "(32::u256) < ucast (st_maxMemSize st)"
    using room unfolding word_less_nat_alt unat_ucast_size room_def by simp
  have len: "(of_nat (length (st_memory st)) < (32::u256)) \<longleftrightarrow> length (st_memory st) < 32"
  proof -
    have "length (st_memory st) < 2 ^ 256" using room by (simp add: room_def)
    then show ?thesis unfolding word_less_nat_alt unat_of_nat_u256 by simp
  qed
  show ?thesis
    unfolding accessMemory_def Let_def n using lt len
    by (simp add: grown_def)
qed

lemma grown_long: "32 \<le> length (st_memory st) \<Longrightarrow> 32 \<le> st_msize st \<Longrightarrow> grown st = st"
  by (simp add: grown_def max_def)

lemma length_grown: "32 \<le> length (st_memory (grown st))"
  by (simp add: grown_def)

lemma eval_first_word:
  assumes "room st"
  shows "svm_exec iMLOAD [0] st = (Inr (fromBigEndian (take 32 (st_memory (grown st)))), grown st)"
    "svm_exec iMSTORE [0, x] st =
       (Inr 0, (grown st)\<lparr>st_memory := toBigEndian x @ drop 32 (st_memory (grown st))\<rparr>)"
  using access_first_word [OF assms]
  by (simp_all add: svm_exec_def svm_eval_def evalArith_def evalBlockchain_def evalMemory_def
      instructionInfo_rules InstructionInfo.defs)

lemma copy_word:
  assumes "take 32 (drop (unat off) source) = data" "length data = 32" "length source < 2 ^ 64"
    and mem: "32 \<le> length mem"
  shows "copyZeroExtended mem source 0 (ucast (off :: u256)) 32 = Some (data @ drop 32 mem)"
proof -
  obtain m where m: "copyZeroExtended mem source 0 (ucast off) 32 = Some m"
    using mem by (simp add: copyZeroExtended_def)
  have long: "unat off + 32 \<le> length source" using assms(1,2) by auto
  have off: "unat (ucast off :: size_t) = unat off"
    using long assms(3) by (simp add: unsigned_ucast_eq take_bit_nat_eq_self)
  have "m = data @ drop 32 mem"
  proof (rule nth_equalityI)
    show "length m = length (data @ drop 32 mem)"
      using length_copyZeroExtended [OF m] assms(2) mem by simp
    fix j assume "j < length m"
    then have j: "j < length mem" using length_copyZeroExtended [OF m] by simp
    show "m ! j = (data @ drop 32 mem) ! j"
    proof (cases "j < 32")
      case True
      have "unat (ucast off + of_nat j :: size_t) = unat off + j"
        using long assms(3) True off by (simp add: unat_word_ariths unat_of_nat)
      then show ?thesis
        using nth_copyZeroExtended [OF m j] True long assms(1,2)
        by (simp add: nth_append Let_def) (metis add.commute nth_drop nth_take add_leD1)
    next
      case False
      then show ?thesis using nth_copyZeroExtended [OF m j] assms(2) mem j by (simp add: nth_append)
    qed
  qed
  with m show ?thesis by simp
qed

lemma eval_codecopy:
  assumes "room st" "take 32 (drop (unat off) (st_code st)) = data" "length data = 32" "length (st_code st) < 2 ^ 64"
  shows "svm_exec iCODECOPY [0, off, 0x20] st =
    (Inr 0, (grown st)\<lparr>st_memory := data @ drop 32 (st_memory (grown st))\<rparr>)"
proof -
  have "copyZeroExtended (st_memory (grown st)) (st_code st) 0 (ucast off) 32 =
      Some (data @ drop 32 (st_memory (grown st)))"
    by (rule copy_word [OF assms(2-4) length_grown])
  then show ?thesis
    using access_first_word [OF assms(1)]
    by (simp add: svm_exec_def svm_eval_def evalArith_def evalBlockchain_def copyToMemory_def grown_def
        instructionInfo_rules InstructionInfo.defs)
qed

lemma step_generic:
  assumes "generic_op i" "svm_exec i args st = (Inr v, st')"
    and "info_args (instructionInfo i) = int (length args)"
  shows "step svm_exec stop link P (opItem i # r, args @ s, st) =
    Running (r, (if info_ret (instructionInfo i) = 1 then [v] else []) @ s, st')"
  using assms by (simp add: opItemAt_def step_op_generic)

lemma memory_ops:
  "generic_op iMLOAD" "generic_op iMSTORE" "generic_op iCODECOPY"
  "info_args (instructionInfo iMLOAD) = 1" "info_ret (instructionInfo iMLOAD) = 1"
  "info_args (instructionInfo iMSTORE) = 2" "info_ret (instructionInfo iMSTORE) = 0"
  "info_args (instructionInfo iCODECOPY) = 3" "info_ret (instructionInfo iCODECOPY) = 0"
  by (simp_all add: generic_op_def isPushInstruction_def isDupInstruction_def isSwapInstruction_def
      word_le_nat_alt instructionInfo_rules InstructionInfo.defs)

lemma stack_ops:
  "step svm_exec stop link P (opItem iDUP1 # r, a # s, st) = Running (r, a # a # s, st)"
  "step svm_exec stop link P (opItem iDUP2 # r, a # b # s, st) = Running (r, b # a # b # s, st)"
  "step svm_exec stop link P (opItem iDUP4 # r, a # b # c # d # s, st) = Running (r, d # a # b # c # d # s, st)"
  "step svm_exec stop link P (opItem iSWAP2 # r, a # b # c # s, st) = Running (r, c # b # a # s, st)"
proof -
  have "sem_isDupInstruction (opItem i)" if "i \<in> {iDUP1, iDUP2, iDUP4}" for i
    using that by (auto simp: sem_isDupInstruction_def isDupInstruction_def)
  note d = step_dup [OF this, of _ svm_exec stop link P r]
  have "sem_isSwapInstruction (opItem iSWAP2)"
    by (simp add: sem_isSwapInstruction_def isSwapInstruction_def)
  note w = step_swap [OF this, of svm_exec stop link P r]
  show "step svm_exec stop link P (opItem iDUP1 # r, a # s, st) = Running (r, a # a # s, st)"
    "step svm_exec stop link P (opItem iDUP2 # r, a # b # s, st) = Running (r, b # a # b # s, st)"
    "step svm_exec stop link P (opItem iDUP4 # r, a # b # c # d # s, st) = Running (r, d # a # b # c # d # s, st)"
    by (simp_all add: d getDupNumber_def del: step.simps)
  show "step svm_exec stop link P (opItem iSWAP2 # r, a # b # c # s, st) = Running (r, c # b # a # s, st)"
  proof -
    have "unat (getSwapNumber (m_instruction (opItem iSWAP2))) = Suc (Suc 0)"
      by (simp add: getSwapNumber_def)
    then show ?thesis unfolding w by simp
  qed
qed

lemma step_pushItem:
  "step exec stop link P (pushItem v # r, s, w) = Running (r, v # s, w)"
  "m_type it = PushData \<Longrightarrow> step exec stop link P (it # r, s, w) = Running (r, link it # s, w)"
  by (simp_all add: pushItemAt_def mkItemAt_def)

lemma copyRoutine_run:
  assumes "room st" "length (st_memory st) < 2 ^ 64 - 32" "m_type d = PushData"
    and data: "take 32 (drop (unat (link d)) (st_code st)) = toBigEndian v"
    and code: "length (st_code st) < 2 ^ 64"
  shows "run svm_exec stop link P 11 (copyRoutineFor d @ r, s, st) = Running (r, v # s, grown st)"
proof -
  define st1 where "st1 = grown st"
  define st2 where "st2 = st1\<lparr>st_memory := toBigEndian v @ drop 32 (st_memory st1)\<rparr>"
  define x where "x = (fromBigEndian (take 32 (st_memory st1)) :: u256)"
  have len1: "32 \<le> length (st_memory st1)" "32 \<le> st_msize st1"
    using length_grown [of st] by (simp add: st1_def) (simp add: st1_def grown_def)
  have room1: "room st1"
    using assms(1,2) by (simp add: st1_def grown_def room_def)
  have room2: "room st2" using room1 len1 by (simp add: st2_def room_def)
  have g1: "grown st1 = st1" by (rule grown_long [OF len1])
  have g2: "grown st2 = st2" by (rule grown_long) (use len1 in \<open>simp_all add: st2_def\<close>)
  have code1: "st_code st1 = st_code st" by (simp add: st1_def grown_def)
  have load1: "svm_exec iMLOAD [0] st = (Inr x, st1)"
    using eval_first_word(1) [OF assms(1)] by (simp add: x_def st1_def)
  have copy: "svm_exec iCODECOPY [0, link d, 0x20] st1 = (Inr 0, st2)"
    using eval_codecopy [OF room1, of "link d" "toBigEndian v"] data code by (simp add: g1 st2_def code1)
  have load2: "svm_exec iMLOAD [0] st2 = (Inr v, st2)"
    using eval_first_word(1) [OF room2] by (simp add: g2) (simp add: st2_def fromBigEndian_toBigEndian)
  have store: "svm_exec iMSTORE [0, x] st2 = (Inr 0, st1)"
    using eval_first_word(2) [OF room2, of x] len1
    by (simp add: g2) (simp add: st2_def x_def toBigEndian_fromBigEndian)
  have routine: "copyRoutineFor d @ r =
      pushItem 0 # opItem iDUP1 # opItem iMLOAD # pushItem 32 # d # opItem iDUP4 # opItem iCODECOPY #
      opItem iDUP2 # opItem iMLOAD # opItem iSWAP2 # opItem iMSTORE # r"
    by (simp add: copyRoutineFor_def copyRoutine_def)
  show ?thesis unfolding routine
    using step_generic [OF memory_ops(1) load1] step_generic [OF memory_ops(1) load2]
      step_generic [OF memory_ops(2) store] step_generic [OF memory_ops(3) copy]
    by (simp add: stack_ops step_pushItem assms(3) memory_ops st1_def [symmetric] eval_nat_numeral del: step.simps)
qed

section \<open>Properties\<close>

text \<open>
  C31: for every constant and all parameters the search ends with a routine, no exception
  is thrown and the assertion of the constructor holds; executed, the routine pushes the
  constant, whatever the stack and the world.
\<close>

theorem computeMethod_correct:
  "\<exists>routine. computeMethod p v = Inr routine \<and>
     (\<forall>P rest s st. run svm_exec stop link P (length routine) (routine @ rest, s, st) =
        Running (rest, v # s, st))"
proof -
  obtain r where "computeMethod p v = Inr r" "computes p v r" using computeMethod_computes by blast
  then show ?thesis using svm.run_computes [OF \<open>computes p v r\<close>] by blast
qed

text \<open>
  C32: the copy routine pushes the constant it copies from the code and restores the
  memory, which at most has grown to its first word.
\<close>

theorem copyRoutine_correct:
  assumes "length (st_memory st) < 2 ^ 63" "32 < unat (st_maxMemSize st)" "m_type d = PushData"
    and "take 32 (drop (unat (link d)) (st_code st)) = toBigEndian v" "length (st_code st) < 2 ^ 64"
  shows "run svm_exec stop link P 11 (copyRoutine[4 := d] @ rest, s, st) =
    Running (rest, v # s, st\<lparr>st_msize := max (st_msize st) 32,
      st_memory := st_memory st @ replicate (32 - length (st_memory st)) 0\<rparr>)"
proof -
  have "room st" "length (st_memory st) < 2 ^ 64 - 32" using assms(1,2) by (simp_all add: room_def)
  with copyRoutine_run [of st d link v stop P rest s] assms(3-5) show ?thesis
    by (simp add: copyRoutineFor_def grown_def)
qed

theorem copyRoutine_correct_witness:
  "run svm_exec ExplicitlyTerminated (\<lambda>_. 0) [] 11 (copyRoutine[4 := mkItem PushData 5] @ [], [],
      initialState\<lparr>st_code := toBigEndian 1000\<rparr>) =
   Running ([], [1000], initialState\<lparr>st_code := toBigEndian 1000, st_msize := 32,
      st_memory := replicate 32 0\<rparr>)"
  using copyRoutine_correct [of "initialState\<lparr>st_code := toBigEndian 1000\<rparr>" "mkItem PushData 5" "\<lambda>_. 0" 1000
      ExplicitlyTerminated "[]" "[]" "[]"]
  by (simp add: initialState_def mkItemAt_def)

text \<open>
  C33: the optimisation of the constants of an assembly never throws, and it replaces a
  constant only by a routine that computes it or by one that copies it from the data of
  the assembly, where its big-endian bytes, or others with the same hash, are stored.
\<close>

theorem optimiseConstants_total:
  assumes "data_ok a"
  shows "\<exists>n pending a'. optimiseConstants isCreation runs ver a =
      Inr (n, a'\<lparr>a_items := replaceConstants (a_items a) pending\<rparr>) \<and> data_ok a' \<and>
    (\<forall>v r. map_of pending v = Some r \<longrightarrow> (\<exists>p. pa_svmVersion p = ver \<and> computes p v r) \<or> copied a' v r)"
proof -
  have "replacements_ok ver a []" by (simp add: replacements_ok_def)
  from optimiseEach_ok [OF this assms, of isCreation runs "countPushes (a_items a)" 0]
  obtain n pending a' where e: "optimiseEach isCreation runs ver (countPushes (a_items a)) (0, [], a) =
      Inr (n, pending, a')" "replacements_ok ver a' pending" "data_ok a'" "a_items a' = a_items a"
    by blast
  have "replaceConstants items [] = items" for items
    by (induction items) (simp_all add: replaceConstants_def)
  then have "optimiseConstants isCreation runs ver a =
      Inr (n, a'\<lparr>a_items := replaceConstants (a_items a) pending\<rparr>)"
    using e(1,4) by (cases "pending = []") (simp_all add: optimiseConstants_def)
  then show ?thesis using e(2,3) unfolding replacements_ok_def by blast
qed

theorem optimiseConstants_total_witness:
  "\<exists>n pending a'. optimiseConstants True 200 Petersburg ((own emptyAssembly)\<lparr>a_items := [pushItem (2 ^ 255)]\<rparr>) =
     Inr (n, a'\<lparr>a_items := replaceConstants [pushItem (2 ^ 255)] pending\<rparr>)"
proof -
  have "data_ok ((own emptyAssembly)\<lparr>a_items := [pushItem (2 ^ 255)]\<rparr>)"
    by (simp add: data_ok_def emptyAssembly_def)
  from optimiseConstants_total [OF this, of True 200 Petersburg] show ?thesis by auto
qed

text \<open>
  C34: replacing constants by routines that compute them preserves executions: a program
  that does not fail halts with the same exception and the same state as before.
\<close>

theorem computed_constants_preserved:
  assumes "\<And>v r. map_of pending v = Some r \<Longrightarrow> \<exists>p. computes p v r"
    and "\<And>n. run svm_exec stop link prog n (prog, s, st) \<noteq> Failed"
  shows "(\<exists>n. run svm_exec stop link prog n (prog, s, st) = Halted e st') \<longleftrightarrow>
    (\<exists>n. run svm_exec stop link (replaceConstants prog pending) n (replaceConstants prog pending, s, st) =
       Halted e st')"
  using svm.constants.preserved [of pending stop link prog s st e st'] assms by (simp add: computed_def)

theorem computed_constants_preserved_witness:
  "(\<exists>n. run svm_exec ExplicitlyTerminated (\<lambda>_. 0) [pushItem (NOT 7)] n ([pushItem (NOT 7)], [], initialState) =
      Halted ExplicitlyTerminated initialState) \<longleftrightarrow>
   (\<exists>n. run svm_exec ExplicitlyTerminated (\<lambda>_. 0) (replaceConstants [pushItem (NOT 7)] [(NOT 7, [pushItem 7, opItem iNOT])]) n
      (replaceConstants [pushItem (NOT 7)] [(NOT 7, [pushItem 7, opItem iNOT])], [], initialState) =
      Halted ExplicitlyTerminated initialState)"
proof (rule computed_constants_preserved)
  fix v :: u256 and r assume "map_of [(NOT 7, [pushItem 7, opItem iNOT])] v = Some r"
  then have "v = NOT 7" "r = [pushItem 7] @ [opItem iNOT]" by (simp_all split: if_splits)
  moreover have "computes p (NOT 7) ([pushItem 7] @ [opItem iNOT])" for p
    by (rule computes_not) (use computes_push [of p 7] in simp)
  ultimately show "\<exists>p. computes p v r" by blast
next
  fix n
  show "run svm_exec ExplicitlyTerminated (\<lambda>_. 0) [pushItem (NOT 7)] n ([pushItem (NOT 7)], [], initialState) \<noteq> Failed"
  proof (cases n)
    case (Suc m)
    then show ?thesis by (cases m) simp_all
  qed simp
qed

end
