(* ===== verification/Jumpdest_Remover.thy ===== *)
theory Jumpdest_Remover
  imports Rewriting
begin

text \<open>
  libsvmasm/JumpdestRemover.cpp: tags that no item pushes, here or in an enclosing
  assembly, are removed. Executions that jump only to tags that are pushed are the same.
\<close>

section \<open>The pass\<close>

definition referencedTags :: "AssemblyItems \<Rightarrow> size_t \<Rightarrow> size_t set" where
  "referencedTags items subId =
     set (concat (map (\<lambda>it.
       if m_type it = PushTag then
         (case splitForeignPushTag it of
            Inr (sub, tag) \<Rightarrow> if sub = subId then [tag] else []
          | Inl _ \<Rightarrow> [])
       else []) items))"

definition keepItem :: "size_t set \<Rightarrow> AssemblyItem \<Rightarrow> bool result" where
  "keepItem references it =
     (if m_type it \<noteq> Tag then Inr True
      else bind_result (splitForeignPushTag it) (\<lambda>(sub, tag).
             assertThrow (sub = - 1) OptimizerException (Inr (tag \<in> references))))"

fun removeTags :: "size_t set \<Rightarrow> AssemblyItems \<Rightarrow> AssemblyItems result" where
  "removeTags references [] = Inr []"
| "removeTags references (it # items) =
     bind_result (keepItem references it) (\<lambda>keep.
     bind_result (removeTags references items) (\<lambda>rest. Inr (if keep then it # rest else rest)))"

definition removeJumpdests :: "size_t set \<Rightarrow> AssemblyItems \<Rightarrow> (bool \<times> AssemblyItems) result" where
  "removeJumpdests tagsReferencedFromOutside items =
     bind_result (removeTags (referencedTags items (- 1) \<union> tagsReferencedFromOutside) items) (\<lambda>items'.
       Inr (length items' \<noteq> length items, items'))"

section \<open>What is removed\<close>

lemma tag_of_data:
  "m_type it = Tag \<or> m_type it = PushTag \<Longrightarrow> m_data it < 2 ^ 64 \<Longrightarrow>
     splitForeignPushTag it = Inr (- 1, ucast (m_data it))"
proof -
  assume t: "m_type it = Tag \<or> m_type it = PushTag" and d: "m_data it < 2 ^ 64"
  have "drop_bit 64 (m_data it) = 0"
    using d unfolding word_less_nat_alt word_unat_eq_iff by (simp add: unat_drop_bit)
  moreover have "m_data it AND 0xffffffffffffffff = m_data it"
  proof -
    have "(0xffffffffffffffff :: u256) = mask 64" by (simp add: mask_eq_exp_minus_1)
    then have "m_data it AND 0xffffffffffffffff = take_bit 64 (m_data it)" by (simp add: take_bit_eq_mask)
    also have "\<dots> = m_data it"
      using d unfolding word_less_nat_alt word_unat_eq_iff
      by (simp add: unsigned_take_bit_eq take_bit_nat_eq_self)
    finally show ?thesis .
  qed
  ultimately show ?thesis using t by (auto simp: splitForeignPushTag_def)
qed

text \<open>The function the items are filtered by, when no exception is thrown.\<close>

definition keptTag :: "size_t set \<Rightarrow> AssemblyItem \<Rightarrow> bool" where
  "keptTag references it \<longleftrightarrow> m_type it \<noteq> Tag \<or> ucast (m_data it) \<in> references"

lemma split_low: "splitForeignPushTag it = Inr (s, t) \<Longrightarrow> t = ucast (m_data it)"
proof -
  assume "splitForeignPushTag it = Inr (s, t)"
  then have "t = ucast (m_data it AND 0xffffffffffffffff)" by (auto simp: splitForeignPushTag_def Let_def)
  also have "\<dots> = ucast (take_bit 64 (m_data it))"
    by (simp add: take_bit_eq_mask mask_eq_exp_minus_1)
  also have "\<dots> = ucast (m_data it)"
    by (rule bit_word_eqI) (simp add: bit_simps)
  finally show ?thesis .
qed

lemma small_data: "d < 2 ^ 64 \<Longrightarrow> (ucast (ucast (d :: u256) :: size_t) :: u256) = d"
  unfolding word_less_nat_alt word_unat_eq_iff by (simp add: unsigned_ucast_eq unsigned_take_bit_eq take_bit_nat_eq_self)

lemma ucast_back: "(ucast (ucast (t :: size_t) :: u256) :: size_t) = t"
  by (rule bit_word_eqI) (simp add: bit_simps)

lemma foreign_data:
  assumes "m_data it < 2 ^ 128" "m_type it = PushTag"
  shows "splitForeignPushTag it = Inr (- 1, t) \<longleftrightarrow> m_data it = ucast t"
    "\<exists>s t. splitForeignPushTag it = Inr (s, t) \<and> (s = - 1 \<longrightarrow> m_data it = ucast t)"
proof -
  let ?d = "drop_bit 64 (m_data it)"
  have split: "splitForeignPushTag it = Inr (ucast (?d - 1), ucast (m_data it))"
    using assms(2) split_low [of it] by (auto simp: splitForeignPushTag_def Let_def)
  have d: "unat ?d < 2 ^ 64"
    using assms(1) unfolding word_less_nat_alt by (simp add: unat_drop_bit)
  have own: "ucast (?d - 1) = (- 1 :: size_t) \<longleftrightarrow> m_data it < 2 ^ 64"
  proof
    assume minus: "ucast (?d - 1) = (- 1 :: size_t)"
    show "m_data it < 2 ^ 64"
    proof (rule ccontr)
      assume "\<not> m_data it < 2 ^ 64"
      then have "1 \<le> unat ?d" unfolding word_less_nat_alt by (simp add: unat_drop_bit)
      then have "unat (?d - 1) = unat ?d - 1" by (simp add: unat_sub_if')
      moreover have "unat (ucast (?d - 1) :: size_t) = unat (?d - 1) mod 2 ^ 64" by (simp add: unsigned_ucast_eq take_bit_eq_mod)
      moreover have "unat (- 1 :: size_t) = 2 ^ 64 - 1" by (simp add: unsigned_minus_1_eq_mask mask_eq_exp_minus_1)
      ultimately show False using d minus \<open>1 \<le> unat ?d\<close> by simp
    qed
  next
    assume "m_data it < 2 ^ 64"
    from tag_of_data [OF _ this] split assms(2) show "ucast (?d - 1) = (- 1 :: size_t)" by simp
  qed
  have low: "m_data it = ucast (ucast (m_data it) :: size_t)" if "m_data it < 2 ^ 64"
    using that by (rule small_data [symmetric])
  have small: "(ucast t :: u256) < 2 ^ 64" for t :: size_t
    using unsigned_less [of t, where 'a=nat] unfolding word_less_nat_alt by (simp add: unsigned_ucast_eq take_bit_eq_mod)
  show "splitForeignPushTag it = Inr (- 1, t) \<longleftrightarrow> m_data it = ucast t"
    using split own low small [of t] ucast_back [of t] by auto
  show "\<exists>s t. splitForeignPushTag it = Inr (s, t) \<and> (s = - 1 \<longrightarrow> m_data it = ucast t)"
    using split own low by auto
qed

lemma removeTags_filter: "removeTags references items = Inr items' \<Longrightarrow> items' = filter (keptTag references) items"
proof (induction items arbitrary: items')
  case (Cons it items)
  then obtain keep rest where k: "keepItem references it = Inr keep" and "removeTags references items = Inr rest"
    and items': "items' = (if keep then it # rest else rest)"
    by (auto simp: bind_result_Inr_iff)
  then have "rest = filter (keptTag references) items" using Cons.IH by blast
  moreover have "keep = keptTag references it"
    using k split_low by (auto simp: keepItem_def keptTag_def bind_result_Inr_iff split: if_splits)
  ultimately show ?case by (simp add: items')
qed simp

lemma removeTags_own:
  "removeTags references items = Inr items' \<Longrightarrow> it \<in> set items \<Longrightarrow> m_type it = Tag \<Longrightarrow> \<exists>t. splitForeignPushTag it = Inr (- 1, t)"
  by (induction items arbitrary: items') (auto simp: keepItem_def bind_result_Inr_iff split: if_splits prod.splits)

lemma removeTags_total:
  "\<forall>it \<in> set items. m_type it = Tag \<longrightarrow> m_data it < 2 ^ 64 \<Longrightarrow> \<exists>items'. removeTags references items = Inr items'"
  by (induction items) (auto simp: keepItem_def tag_of_data)

section \<open>Executions\<close>

text \<open>The label the next step jumps to.\<close>

fun jump_target :: "'w config \<Rightarrow> u256 option" where
  "jump_target (it # items, v # stack, w) =
     (if is_op it iJUMP then Some v
      else if is_op it iJUMPI \<and> stack \<noteq> [] \<and> hd stack \<noteq> 0 then Some v
      else None)"
| "jump_target c = None"

lemma step_no_jump:
  assumes "\<not> is_op it iJUMP" "\<not> is_op it iJUMPI"
  shows "step exec stop link P (it # r, s, w) = step exec stop link Q (it # r, s, w)"
  using assms by (cases "m_type it") (simp_all add: step_op_def is_op_def)

lemma jump_target_step:
  assumes jump: "\<forall>P r. step exec stop link P (it # r, s, w) = jump_to link P v s' w"
    and t: "find_tag link prog v = Some t"
  shows "jump_target (it # r, s, w) = Some v"
proof -
  have go: "step exec stop link prog (it # r, s, w) = Running (t, s', w)" for r
    using jump t by (simp add: jump_to_def)
  have stop: "step exec stop link [] (it # r, s, w) = Failed" for r
    using jump by (simp add: jump_to_def)
  have same: "find_tag link prog u = Some t \<Longrightarrow> u = v" for u
    using find_tag_label [OF t] find_tag_label [of link prog u t] by auto
  consider "is_op it iJUMP" | "\<not> is_op it iJUMP" "is_op it iJUMPI" | "\<not> is_op it iJUMP" "\<not> is_op it iJUMPI" by blast
  then show ?thesis
  proof cases
    case 1
    then show ?thesis using go [of r] same unfolding jump_step [OF 1]
      by (auto simp: jump_to_def split: list.splits option.splits)
  next
    case 2
    have "step exec stop link prog (it # [], s, w) = Running (t, s', w)" by (rule go)
    moreover have "t \<noteq> []" using find_tag_label [OF t] by blast
    ultimately show ?thesis using 2 same unfolding jumpi_step [OF 2(2)]
      by (auto simp: jump_to_def split: list.splits option.splits if_splits)
  next
    case 3
    then show ?thesis using step_no_jump [OF 3, of exec stop link prog r s w "[]"] go stop by simp
  qed
qed

lemma find_tag_filter:
  assumes "find_tag link prog v = Some t" "tags_ok link prog"
    and "\<exists>tag \<in> set prog. m_type tag = Tag \<and> link tag = v \<and> keptTag references tag"
  shows "find_tag link (filter (keptTag references) prog) v = Some (filter (keptTag references) t)"
  using assms
proof (induction prog)
  case (Cons it prog)
  show ?case
  proof (cases "m_type it = Tag \<and> link it = v")
    case True
    have "keptTag references it"
    proof -
      obtain tag where tag: "tag \<in> set (it # prog)" "m_type tag = Tag" "link tag = v" "keptTag references tag"
        using Cons.prems(3) by blast
      have "v \<notin> link ` {x \<in> set prog. m_type x = Tag}"
        using Cons.prems(2) True by (auto simp: tags_ok_def)
      then have "tag = it" using tag by auto
      then show ?thesis using tag(4) by simp
    qed
    with True Cons.prems(1) show ?thesis by auto
  next
    case False
    then have "find_tag link (filter (keptTag references) prog) v = Some (filter (keptTag references) t)"
      using Cons by (auto simp: tags_ok_def split: if_splits)
    with False show ?thesis by (cases "keptTag references it") auto
  qed
qed simp

definition jumps_ok ::
    "('e, 'w) exec \<Rightarrow> size_t set \<Rightarrow> 'e \<Rightarrow> (AssemblyItem \<Rightarrow> u256) \<Rightarrow> AssemblyItems \<Rightarrow> 'w config \<Rightarrow> bool" where
  "jumps_ok exec references stop link prog c \<longleftrightarrow>
     tags_ok link prog \<and>
     (\<forall>n c' v. run exec stop link prog n c = Running c' \<longrightarrow> jump_target c' = Some v \<longrightarrow>
        (\<exists>tag \<in> set prog. m_type tag = Tag \<and> link tag = v \<and> keptTag references tag))"

lemma jumps_ok_step:
  assumes "jumps_ok exec references stop link prog c" "step exec stop link prog c = Running c'"
  shows "jumps_ok exec references stop link prog c'"
  unfolding jumps_ok_def
proof (intro conjI allI impI)
  show "tags_ok link prog" using assms(1) by (simp add: jumps_ok_def)
  fix n c2 v assume "run exec stop link prog n c' = Running c2" "jump_target c2 = Some v"
  moreover from this(1) have "run exec stop link prog (Suc n) c = Running c2" using assms(2) by simp
  ultimately show "\<exists>tag \<in> set prog. m_type tag = Tag \<and> link tag = v \<and> keptTag references tag"
    using assms(1) unfolding jumps_ok_def by blast
qed

lemma filter_itemwise: "filter P items = itemwise (\<lambda>it. if P it then [it] else []) items"
  by (induction items) simp_all

sublocale instruction_semantics \<subseteq> jumpdests:
  rewriting exec "filter (keptTag references)" "jumps_ok exec references" for references
proof
  fix stop :: 'e and link prog items s and w :: 'w
  assume ok: "jumps_ok exec references stop link prog (items, s, w)"
  let ?f = "\<lambda>it. if keptTag references it then [it] else []"
  have eq: "filter (keptTag references) = itemwise ?f" by (rule ext) (rule filter_itemwise)
  show "simulated exec stop link (jumps_ok exec references stop link prog)
      (filter (keptTag references)) prog items s w"
    unfolding eq
  proof (rule itemwise_simulated)
    show "jumps_ok exec references stop link prog (items, s, w)" by (rule ok)
    show "jumps_ok exec references stop link prog c'"
      if "jumps_ok exec references stop link prog c" "step exec stop link prog c = Running c'" for c c'
      using jumps_ok_step [OF that] .
    fix it r assume items: "items = it # r"
    show "?f it = [it] \<or> straight exec stop link [it] (?f it)"
    proof (cases "keptTag references it")
      case False
      then have tag: "m_type it = Tag" by (simp add: keptTag_def)
      have "straight exec stop link [it] []"
        by (rule straightI, rule disjI2, intro exI [of _ 1] exI [of _ 0] exI conjI allI) (simp_all add: tag)
      with False show ?thesis by simp
    qed simp
    fix v s' t
    assume jump: "\<forall>P r. step exec stop link P (it # r, s, w) = jump_to link P v s' w"
      and t: "find_tag link prog v = Some t"
    have "run exec stop link prog 0 (items, s, w) = Running (it # r, s, w)" by (simp add: items)
    then show "find_tag link (itemwise ?f prog) v = Some (itemwise ?f t)"
      using find_tag_filter [OF t] ok jump_target_step [OF jump t, of r]
      unfolding jumps_ok_def eq [symmetric] by blast
  qed
qed

section \<open>Properties\<close>

text \<open>A tag of this assembly that is pushed by one of the items, or referred to from outside.\<close>

definition pushedTag :: "AssemblyItems \<Rightarrow> size_t set \<Rightarrow> AssemblyItem \<Rightarrow> bool" where
  "pushedTag items outside tag \<longleftrightarrow>
     ucast (m_data tag) \<in> outside \<or> (\<exists>p \<in> set items. m_type p = PushTag \<and> m_data p = m_data tag)"

lemma referenced_iff:
  "tag \<in> referencedTags items subId \<longleftrightarrow> (\<exists>p \<in> set items. m_type p = PushTag \<and> splitForeignPushTag p = Inr (subId, tag))"
proof (induction items)
  case (Cons it items)
  have "referencedTags (it # items) subId =
      (if m_type it = PushTag \<and> (\<exists>t. splitForeignPushTag it = Inr (subId, t))
       then insert (snd (projr (splitForeignPushTag it))) (referencedTags items subId) else referencedTags items subId)"
  proof (cases "m_type it = PushTag")
    case True
    obtain s t where "splitForeignPushTag it = Inr (s, t)" using True by (auto simp: splitForeignPushTag_def Let_def)
    with True show ?thesis by (auto simp: referencedTags_def)
  qed (simp add: referencedTags_def)
  then show ?case unfolding Cons.IH [symmetric] by (auto simp: Cons.IH)
qed (simp add: referencedTags_def)

lemma pushed_referenced:
  assumes "m_type p = PushTag" "p \<in> set items" "m_type tag = Tag" "m_data p = m_data tag" "splitForeignPushTag tag = Inr (- 1, t)"
  shows "ucast (m_data tag) \<in> referencedTags items (- 1)"
proof -
  have "splitForeignPushTag p = splitForeignPushTag tag" using assms by (simp add: splitForeignPushTag_def)
  with assms(1,2,5) split_low [OF assms(5)] show ?thesis unfolding referenced_iff by auto
qed

lemma referenced_pushed:
  assumes "ucast (m_data tag) \<in> referencedTags items (- 1)" "m_data tag < 2 ^ 64"
    and "\<forall>p \<in> set items. m_type p = PushTag \<longrightarrow> m_data p < 2 ^ 128"
  shows "\<exists>p \<in> set items. m_type p = PushTag \<and> m_data p = m_data tag"
proof -
  from assms(1) obtain p where p: "p \<in> set items" "m_type p = PushTag" "splitForeignPushTag p = Inr (- 1, ucast (m_data tag))"
    unfolding referenced_iff by blast
  then have "m_data p = ucast (ucast (m_data tag) :: size_t)" using foreign_data(1) assms(3) by blast
  with p small_data [OF assms(2)] show ?thesis by auto
qed

text \<open>
  C35: exactly the tags are removed that no item pushes and that are not referred to from outside, and the
  result tells whether there were any.
\<close>

theorem removeJumpdests_spec:
  assumes "\<forall>it \<in> set items. m_type it = Tag \<longrightarrow> m_data it < 2 ^ 64"
    and "\<forall>it \<in> set items. m_type it = PushTag \<longrightarrow> m_data it < 2 ^ 128"
  shows "removeJumpdests outside items =
    Inr (\<exists>it \<in> set items. m_type it = Tag \<and> \<not> pushedTag items outside it,
         filter (\<lambda>it. m_type it = Tag \<longrightarrow> pushedTag items outside it) items)"
proof -
  let ?R = "referencedTags items (- 1) \<union> outside"
  have kept: "keptTag ?R it \<longleftrightarrow> (m_type it = Tag \<longrightarrow> pushedTag items outside it)" if "it \<in> set items" for it
    using that assms pushed_referenced [of _ items it] referenced_pushed [of it items] tag_of_data [of it]
    by (auto simp: keptTag_def pushedTag_def)
  obtain items' where items': "removeTags ?R items = Inr items'" using removeTags_total [OF assms(1)] by blast
  then have "items' = filter (keptTag ?R) items" by (rule removeTags_filter)
  also have "\<dots> = filter (\<lambda>it. m_type it = Tag \<longrightarrow> pushedTag items outside it) items"
    by (rule filter_cong) (use kept in auto)
  finally have items'': "items' = filter (\<lambda>it. m_type it = Tag \<longrightarrow> pushedTag items outside it) items" .
  have "length (filter P items) \<noteq> length items \<longleftrightarrow> (\<exists>it \<in> set items. \<not> P it)" for P
    by (metis filter_True length_filter_less less_irrefl)
  then show ?thesis unfolding removeJumpdests_def items' bind_result.simps unfolding items'' by simp
qed

theorem removeJumpdests_spec_witness:
  "removeJumpdests {} [mkItem Tag 1, mkItem PushTag 2, mkItem Tag 2] = Inr (True, [mkItem PushTag 2, mkItem Tag 2])"
proof -
  let ?items = "[mkItem Tag 1, mkItem PushTag 2, mkItem Tag 2]"
  have "\<forall>it \<in> set ?items. m_type it = Tag \<longrightarrow> m_data it < 2 ^ 64" "\<forall>it \<in> set ?items. m_type it = PushTag \<longrightarrow> m_data it < 2 ^ 128"
    by (simp_all add: mkItemAt_def)
  from removeJumpdests_spec [OF this, of "{}"] show ?thesis by (simp add: mkItemAt_def pushedTag_def)
qed

text \<open>
  C36: removing tags preserves the executions of programs that jump only to tags that are pushed, by an item of
  the program or outside of it: a program with distinct labels that does not fail halts as before.
\<close>

theorem removeJumpdests_correct:
  assumes "removeJumpdests outside prog = Inr (b, prog')" "tags_ok link prog"
    and jumps: "\<And>n c v. run svm_exec stop link prog n (prog, s, st) = Running c \<Longrightarrow> jump_target c = Some v \<Longrightarrow>
      \<exists>tag \<in> set prog. m_type tag = Tag \<and> link tag = v \<and> pushedTag prog outside tag"
    and "\<And>n. run svm_exec stop link prog n (prog, s, st) \<noteq> Failed"
  shows "(\<exists>n. run svm_exec stop link prog n (prog, s, st) = Halted e st') \<longleftrightarrow>
    (\<exists>n. run svm_exec stop link prog' n (prog', s, st) = Halted e st')"
proof -
  let ?R = "referencedTags prog (- 1) \<union> outside"
  from assms(1) have removed: "removeTags ?R prog = Inr prog'" by (auto simp: removeJumpdests_def bind_result_Inr_iff)
  then have prog': "prog' = filter (keptTag ?R) prog" by (rule removeTags_filter)
  have "keptTag ?R tag" if "tag \<in> set prog" "m_type tag = Tag" "pushedTag prog outside tag" for tag
    using that pushed_referenced removeTags_own [OF removed that(1,2)] unfolding keptTag_def pushedTag_def by blast
  with assms(2) jumps have "jumps_ok svm_exec ?R stop link prog (prog, s, st)" unfolding jumps_ok_def by blast
  from svm.jumpdests.preserved [OF this] assms(4) show ?thesis unfolding prog' by blast
qed

text \<open>A jump over a tag that is not pushed.\<close>

theorem removeJumpdests_correct_witness:
  "\<exists>n. run svm_exec ExplicitlyTerminated m_data [mkItem PushTag 2, opItem iJUMP, mkItem Tag 2, opItem iSTOP] n
     ([mkItem PushTag 2, opItem iJUMP, mkItem Tag 2, opItem iSTOP], [], initialState) = Halted ExplicitlyTerminated initialState"
proof -
  let ?prog = "[mkItem PushTag 2, opItem iJUMP, mkItem Tag 1, mkItem Tag 2, opItem iSTOP]"
  let ?run = "\<lambda>n. run svm_exec ExplicitlyTerminated m_data ?prog n (?prog, [], initialState)"
  have "removeJumpdests {} ?prog = Inr (True, [mkItem PushTag 2, opItem iJUMP, mkItem Tag 2, opItem iSTOP])"
    using removeJumpdests_spec [of ?prog "{}"] by (simp add: mkItemAt_def pushedTag_def)
  moreover have "tags_ok m_data ?prog" by (simp add: tags_ok_def mkItemAt_def)
  moreover have run: "?run (Suc n) =
      (case n of 0 \<Rightarrow> Running (tl ?prog, [2], initialState)
       | Suc 0 \<Rightarrow> Running ([mkItem Tag 2, opItem iSTOP], [], initialState)
       | Suc (Suc 0) \<Rightarrow> Running ([opItem iSTOP], [], initialState)
       | _ \<Rightarrow> Halted ExplicitlyTerminated initialState)" for n
    by (simp add: mkItemAt_def step_op_def jump_to_def isPushInstruction_def isDupInstruction_def isSwapInstruction_def
        instructionInfo_rules InstructionInfo.defs svm_exec_def svm_eval_def evalArith_def evalBlockchain_def
        evalMemory_def evalCalls_def split: nat.split)
  moreover have "\<exists>tag \<in> set ?prog. m_type tag = Tag \<and> m_data tag = v \<and> pushedTag ?prog {} tag"
    if "?run n = Running c" "jump_target c = Some v" for n c v
  proof -
    have "v = 2" using that by (cases n) (auto simp only: run, auto simp: is_op_def mkItemAt_def split: nat.splits if_splits)
    then show ?thesis by (simp add: mkItemAt_def pushedTag_def)
  qed
  moreover have "?run n \<noteq> Failed" for n by (cases n) (simp, simp only: run, simp split: nat.split)
  moreover have "?run (Suc (Suc (Suc (Suc 0)))) = Halted ExplicitlyTerminated initialState" unfolding run by simp
  ultimately show ?thesis
    using removeJumpdests_correct [of "{}" ?prog True _ m_data ExplicitlyTerminated "[]" initialState
        ExplicitlyTerminated initialState] by blast
qed

end
