(* ===== verification/Linker_Object.thy ===== *)
theory Linker_Object
  imports Keccak Std_Map "HOL-Library.List_Lexorder" "HOL-Library.Char_ord"
begin

text \<open>
  libsvmasm/LinkerObject.h and LinkerObject.cpp: code with the positions where addresses of
  libraries are missing. An address, 20 bytes in the code, is a word of 160 bits; offsets
  are natural numbers, as no byte string is longer than \<open>size_t\<close> can count.
\<close>

record LinkerObject =
  lo_bytecode :: bytes
  lo_linkReferences :: "(nat, string) std_map"

definition emptyObject :: LinkerObject where
  "emptyObject = \<lparr>lo_bytecode = [], lo_linkReferences = []\<rparr>"

section \<open>Operations\<close>

text \<open>Copying bytes into a list that is long enough.\<close>

definition overwrite :: "nat \<Rightarrow> 'a list \<Rightarrow> 'a list \<Rightarrow> 'a list" where
  "overwrite pos new xs = take pos xs @ new @ drop (pos + length new) xs"

definition object_append :: "LinkerObject \<Rightarrow> LinkerObject \<Rightarrow> LinkerObject" where
  "object_append a b =
     \<lparr>lo_bytecode = lo_bytecode a @ lo_bytecode b,
      lo_linkReferences = foldl (\<lambda>m (pos, name). map_put (pos + length (lo_bytecode a)) name m)
        (lo_linkReferences a) (lo_linkReferences b)\<rparr>"

text \<open>A name without an address may match by the part behind its first colon.\<close>

definition matchLibrary :: "string \<Rightarrow> (string, u160) std_map \<Rightarrow> u160 option" where
  "matchLibrary name addresses =
     (case map_of addresses name of
        Some a \<Rightarrow> Some a
      | None \<Rightarrow>
          (case dropWhile (\<lambda>c. c \<noteq> CHR '':'') name of
             [] \<Rightarrow> None
           | _ # simple \<Rightarrow> map_of addresses simple))"

fun linkEach ::
    "(string, u160) std_map \<Rightarrow> (nat \<times> string) list \<Rightarrow> bytes \<times> (nat, string) std_map \<Rightarrow> bytes \<times> (nat, string) std_map" where
  "linkEach addresses [] (code, remaining) = (code, remaining)"
| "linkEach addresses ((pos, name) # refs) (code, remaining) =
     (case matchLibrary name addresses of
        Some a \<Rightarrow> linkEach addresses refs (overwrite pos (toBigEndian160 a) code, remaining)
      | None \<Rightarrow> linkEach addresses refs (code, map_insert pos name remaining))"

definition link_object :: "(string, u160) std_map \<Rightarrow> LinkerObject \<Rightarrow> LinkerObject" where
  "link_object addresses ob =
     (let (code, remaining) = linkEach addresses (lo_linkReferences ob) (lo_bytecode ob, [])
      in \<lparr>lo_bytecode = code, lo_linkReferences = remaining\<rparr>)"

definition libraryPlaceholder :: "string \<Rightarrow> string" where
  "libraryPlaceholder name =
     ''$'' @ take 34 (toHex (keccak256 (asBytes name)) DontAdd Lower) @ ''$''"

definition object_toHex :: "LinkerObject \<Rightarrow> string" where
  "object_toHex ob =
     foldl (\<lambda>hex (pos, name).
       let pos = pos * 2;
           hash = libraryPlaceholder name;
           hex = hex[pos := CHR ''_'', pos + 1 := CHR ''_'', pos + 38 := CHR ''_'', pos + 39 := CHR ''_'']
       in foldl (\<lambda>hex i. hex[pos + 2 + i := hash ! i]) hex [0..<36])
      (toHex (lo_bytecode ob) DontAdd Lower) (lo_linkReferences ob)"

section \<open>Objects with places for the addresses\<close>

text \<open>References in order, each with 20 bytes of its own inside the code.\<close>

definition object_ok :: "LinkerObject \<Rightarrow> bool" where
  "object_ok ob \<longleftrightarrow> sorted_wrt (\<lambda>a b. fst a + 20 \<le> fst b) (lo_linkReferences ob) \<and>
     (\<forall>(pos, name) \<in> set (lo_linkReferences ob). pos + 20 \<le> length (lo_bytecode ob))"

definition shift_refs :: "nat \<Rightarrow> (nat \<times> 'a) list \<Rightarrow> (nat \<times> 'a) list" where
  "shift_refs n refs = map (\<lambda>(pos, name). (pos + n, name)) refs"

text \<open>The code with each address at its place, and the references without one.\<close>

definition resolve :: "(string, u160) std_map \<Rightarrow> (nat \<times> string) list \<Rightarrow> bytes \<Rightarrow> bytes" where
  "resolve addresses refs code =
     foldl (\<lambda>code (pos, name). case matchLibrary name addresses of
        Some a \<Rightarrow> overwrite pos (toBigEndian160 a) code | None \<Rightarrow> code) code refs"

definition unresolved :: "(string, u160) std_map \<Rightarrow> (nat \<times> string) list \<Rightarrow> (nat \<times> string) list" where
  "unresolved addresses refs = filter (\<lambda>(pos, name). matchLibrary name addresses = None) refs"

lemma length_overwrite [simp]: "pos + length new \<le> length xs \<Longrightarrow> length (overwrite pos new xs) = length xs"
  by (simp add: overwrite_def)

lemma nth_overwrite:
  "pos + length new \<le> length xs \<Longrightarrow> i < length xs \<Longrightarrow>
     overwrite pos new xs ! i = (if pos \<le> i \<and> i < pos + length new then new ! (i - pos) else xs ! i)"
  by (auto simp: overwrite_def nth_append min_def)

lemma overwrite_append1:
  "pos + length new \<le> length xs \<Longrightarrow> overwrite pos new (xs @ ys) = overwrite pos new xs @ ys"
  by (simp add: overwrite_def)

lemma overwrite_append2: "overwrite (pos + length xs) new (xs @ ys) = xs @ overwrite pos new ys"
  by (simp add: overwrite_def add.commute add.left_commute)

lemma length_toBigEndian160 [simp]: "length (toBigEndian160 a) = 20"
  by (simp add: toBigEndian160_def toBigEndianInto_digits)

lemma map_put_last: "\<forall>x \<in> set m. fst x < k \<Longrightarrow> map_put k v m = m @ [(k, v)]"
  by (induction k v m rule: map_put.induct) auto

lemma map_insert_last: "\<forall>x \<in> set m. fst x < k \<Longrightarrow> map_insert k v m = m @ [(k, v)]"
proof -
  assume k: "\<forall>x \<in> set m. fst x < k"
  then have "map_of m k = None" by (auto simp: map_of_eq_None_iff)
  with map_put_last [OF k] show ?thesis by (simp add: map_insert_def)
qed

lemma linkEach_eq:
  "sorted_wrt (\<lambda>a b. fst a + 20 \<le> fst b) refs \<Longrightarrow> \<forall>x \<in> set remaining. \<forall>y \<in> set refs. fst x < fst y \<Longrightarrow>
     linkEach addresses refs (code, remaining) = (resolve addresses refs code, remaining @ unresolved addresses refs)"
proof (induction addresses refs "(code, remaining)" arbitrary: code remaining rule: linkEach.induct)
  case (2 addresses pos name refs code remaining)
  have "map_insert pos name remaining = remaining @ [(pos, name)]"
    using 2(4) by (intro map_insert_last) simp
  with 2 show ?case
    by (force simp: resolve_def unresolved_def split: option.splits)
qed (simp add: resolve_def unresolved_def)

lemma link_object_eq:
  "object_ok ob \<Longrightarrow> link_object addresses ob =
     \<lparr>lo_bytecode = resolve addresses (lo_linkReferences ob) (lo_bytecode ob),
      lo_linkReferences = unresolved addresses (lo_linkReferences ob)\<rparr>"
  by (simp add: link_object_def linkEach_eq object_ok_def)

lemma puts_shifted:
  "\<forall>x \<in> set m. \<forall>y \<in> set refs. fst x < fst y + n \<Longrightarrow> sorted_wrt (\<lambda>a b. fst a + 20 \<le> fst b) refs \<Longrightarrow>
     foldl (\<lambda>m (pos, name). map_put (pos + n) name m) m refs = m @ shift_refs n refs"
proof (induction refs arbitrary: m)
  case (Cons r refs)
  obtain pos name where r: "r = (pos, name)" by (cases r)
  have "map_put (pos + n) name m = m @ [(pos + n, name)]"
    using Cons.prems(1) by (intro map_put_last) (auto simp: r)
  moreover have "\<forall>x \<in> set (m @ [(pos + n, name)]). \<forall>y \<in> set refs. fst x < fst y + n"
    using Cons.prems by (force simp: r)
  ultimately show ?case using Cons.IH [of "m @ [(pos + n, name)]"] Cons.prems(2) by (simp add: r shift_refs_def)
qed (simp add: shift_refs_def)

lemma object_append_eq:
  assumes "object_ok a" "object_ok b"
  shows "object_append a b =
     \<lparr>lo_bytecode = lo_bytecode a @ lo_bytecode b,
      lo_linkReferences = lo_linkReferences a @ shift_refs (length (lo_bytecode a)) (lo_linkReferences b)\<rparr>"
proof -
  have "\<forall>x \<in> set (lo_linkReferences a). \<forall>y \<in> set (lo_linkReferences b). fst x < fst y + length (lo_bytecode a)"
    using assms by (force simp: object_ok_def)
  with assms(2) show ?thesis by (simp add: object_append_def puts_shifted object_ok_def)
qed

lemma sorted_shift_refs [simp]:
  "sorted_wrt (\<lambda>a b. fst a + 20 \<le> fst b) (shift_refs n refs) \<longleftrightarrow> sorted_wrt (\<lambda>a b. fst a + 20 \<le> fst b) refs"
  by (simp add: shift_refs_def sorted_wrt_map case_prod_unfold)

lemma object_append_ok: "object_ok a \<Longrightarrow> object_ok b \<Longrightarrow> object_ok (object_append a b)"
  by (simp add: object_append_eq) (fastforce simp: object_ok_def sorted_wrt_append shift_refs_def sorted_wrt_map case_prod_unfold)

lemma length_resolve:
  "\<forall>x \<in> set refs. fst x + 20 \<le> length code \<Longrightarrow> length (resolve addresses refs code) = length code"
  unfolding resolve_def by (induction refs arbitrary: code) (auto split: option.splits)

lemma resolve_append1:
  "\<forall>x \<in> set refs. fst x + 20 \<le> length code \<Longrightarrow> resolve addresses refs (code @ rest) = resolve addresses refs code @ rest"
  unfolding resolve_def by (induction refs arbitrary: code) (auto simp: overwrite_append1 split: option.splits)

lemma resolve_append2:
  "resolve addresses (shift_refs (length pre) refs) (pre @ code) = pre @ resolve addresses refs code"
  unfolding resolve_def shift_refs_def
  by (induction refs arbitrary: code) (auto simp: overwrite_append2 split: option.splits)

lemma unresolved_shift: "unresolved addresses (shift_refs n refs) = shift_refs n (unresolved addresses refs)"
  by (induction refs) (auto simp: unresolved_def shift_refs_def)

lemma link_object_ok: "object_ok ob \<Longrightarrow> object_ok (link_object addresses ob)"
proof -
  assume ok: "object_ok ob"
  then have "length (resolve addresses (lo_linkReferences ob) (lo_bytecode ob)) = length (lo_bytecode ob)"
    by (intro length_resolve) (auto simp: object_ok_def)
  with ok show ?thesis
    unfolding link_object_eq [OF ok] object_ok_def by (auto simp: unresolved_def sorted_wrt_filter)
qed

section \<open>Writing at several places\<close>

definition overwrites :: "(nat \<times> 'a list) list \<Rightarrow> 'a list \<Rightarrow> 'a list" where
  "overwrites ws xs = foldl (\<lambda>xs (pos, new). overwrite pos new xs) xs ws"

definition disjoint_inside :: "(nat \<times> 'a list) list \<Rightarrow> nat \<Rightarrow> bool" where
  "disjoint_inside ws n \<longleftrightarrow> sorted_wrt (\<lambda>a b. fst a + length (snd a) \<le> fst b) ws \<and>
     (\<forall>(pos, new) \<in> set ws. pos + length new \<le> n)"

lemma overwrites_simps [simp]:
  "overwrites [] xs = xs"
  "overwrites ((pos, new) # ws) xs = overwrites ws (overwrite pos new xs)"
  by (simp_all add: overwrites_def)

lemma disjoint_inside_Cons:
  "disjoint_inside ((pos, new) # ws) n \<longleftrightarrow>
     (\<forall>w \<in> set ws. pos + length new \<le> fst w) \<and> pos + length new \<le> n \<and> disjoint_inside ws n"
  by (auto simp: disjoint_inside_def)

lemma length_overwrites: "disjoint_inside ws (length xs) \<Longrightarrow> length (overwrites ws xs) = length xs"
  by (induction ws arbitrary: xs) (auto simp: disjoint_inside_Cons)

lemma overwrites_outside:
  "disjoint_inside ws (length xs) \<Longrightarrow> i < length xs \<Longrightarrow>
     \<forall>(pos, new) \<in> set ws. \<not> (pos \<le> i \<and> i < pos + length new) \<Longrightarrow> overwrites ws xs ! i = xs ! i"
proof (induction ws arbitrary: xs)
  case (Cons w ws)
  obtain pos new where w: "w = (pos, new)" by (cases w)
  have "overwrites ws (overwrite pos new xs) ! i = overwrite pos new xs ! i"
    using Cons.prems by (intro Cons.IH) (auto simp: w disjoint_inside_Cons)
  also have "\<dots> = xs ! i" using Cons.prems by (auto simp: w disjoint_inside_Cons nth_overwrite)
  finally show ?case by (simp add: w)
qed simp

lemma overwrites_inside:
  "disjoint_inside ws (length xs) \<Longrightarrow> (pos, new) \<in> set ws \<Longrightarrow> i < length new \<Longrightarrow>
     overwrites ws xs ! (pos + i) = new ! i"
proof (induction ws arbitrary: xs)
  case (Cons w ws)
  obtain p n where w: "w = (p, n)" by (cases w)
  have len: "length (overwrite p n xs) = length xs" using Cons.prems(1) by (simp add: w disjoint_inside_Cons)
  show ?case
  proof (cases "(pos, new) \<in> set ws")
    case True
    then show ?thesis using Cons len by (simp add: w disjoint_inside_Cons)
  next
    case False
    then have [simp]: "p = pos" "n = new" using Cons.prems(2) by (auto simp: w)
    have "overwrites ws (overwrite pos new xs) ! (pos + i) = overwrite pos new xs ! (pos + i)"
      using Cons.prems len
      by (intro overwrites_outside) (fastforce simp: w disjoint_inside_Cons disjoint_inside_def)+
    also have "\<dots> = new ! i" using Cons.prems by (simp add: w disjoint_inside_Cons nth_overwrite)
    finally show ?thesis by (simp add: w)
  qed
qed simp

lemma overwrites_slice:
  assumes "disjoint_inside ws (length xs)" "(pos, new) \<in> set ws"
  shows "take (length new) (drop pos (overwrites ws xs)) = new"
proof (rule nth_equalityI)
  have "pos + length new \<le> length xs" using assms by (auto simp: disjoint_inside_def)
  then show "length (take (length new) (drop pos (overwrites ws xs))) = length new"
    by (simp add: length_overwrites [OF assms(1)])
  then show "take (length new) (drop pos (overwrites ws xs)) ! i = new ! i"
    if "i < length (take (length new) (drop pos (overwrites ws xs)))" for i
    using overwrites_inside [OF assms, of i] that by simp
qed

section \<open>Linking\<close>

definition addressed :: "(string, u160) std_map \<Rightarrow> (nat \<times> string) list \<Rightarrow> (nat \<times> bytes) list" where
  "addressed addresses refs = concat (map (\<lambda>(pos, name).
     case matchLibrary name addresses of Some a \<Rightarrow> [(pos, toBigEndian160 a)] | None \<Rightarrow> []) refs)"

lemma set_addressed:
  "(pos, bs) \<in> set (addressed addresses refs) \<longleftrightarrow>
     (\<exists>name a. (pos, name) \<in> set refs \<and> matchLibrary name addresses = Some a \<and> bs = toBigEndian160 a)"
proof (induction refs)
  case (Cons r refs)
  obtain p name where r: "r = (p, name)" by (cases r)
  show ?case using Cons by (cases "matchLibrary name addresses") (auto simp: addressed_def r)
qed (simp add: addressed_def)

lemma resolve_addressed: "resolve addresses refs code = overwrites (addressed addresses refs) code"
  by (induction refs arbitrary: code) (auto simp: resolve_def addressed_def split: option.splits)

lemma sorted_addressed:
  "sorted_wrt (\<lambda>a b. fst a + 20 \<le> fst b) refs \<Longrightarrow>
     sorted_wrt (\<lambda>a b. fst a + length (snd a) \<le> fst b) (addressed addresses refs)"
proof (induction refs)
  case (Cons r refs)
  obtain pos name where r: "r = (pos, name)" by (cases r)
  have "\<forall>w \<in> set (addressed addresses refs). pos + 20 \<le> fst w"
    using Cons.prems by (force simp: r set_addressed)
  with Cons show ?case by (auto simp: r addressed_def split: option.splits)
qed (simp add: addressed_def)

lemma disjoint_addressed:
  "object_ok ob \<Longrightarrow> disjoint_inside (addressed addresses (lo_linkReferences ob)) (length (lo_bytecode ob))"
  by (fastforce simp: disjoint_inside_def object_ok_def sorted_addressed set_addressed)

lemma linked_slice:
  assumes "object_ok ob" "(pos, name) \<in> set (lo_linkReferences ob)" "matchLibrary name addresses = Some a"
  shows "take 20 (drop pos (lo_bytecode (link_object addresses ob))) = toBigEndian160 a"
proof -
  have "(pos, toBigEndian160 a) \<in> set (addressed addresses (lo_linkReferences ob))"
    using assms(2,3) by (auto simp: set_addressed)
  from overwrites_slice [OF disjoint_addressed [OF assms(1)] this] show ?thesis
    by (simp add: link_object_eq [OF assms(1)] resolve_addressed)
qed

section \<open>The text\<close>

definition placeholder :: "string \<Rightarrow> string" where
  "placeholder name = ''__'' @ libraryPlaceholder name @ ''__''"

lemma length_toHex: "length (toHex bs DontAdd c) = 2 * length bs"
  by (simp add: toHex_def)

lemma length_libraryPlaceholder [simp]: "length (libraryPlaceholder name) = 36"
  by (simp add: libraryPlaceholder_def length_toHex)

lemma length_placeholder [simp]: "length (placeholder name) = 40"
  by (simp add: placeholder_def)

lemma foldl_update:
  "n \<le> length h \<Longrightarrow> p + n \<le> length hex \<Longrightarrow>
     foldl (\<lambda>hex i. hex[p + i := h ! i]) hex [0..<n] = overwrite p (take n h) hex"
proof (induction n)
  case (Suc n)
  then have "foldl (\<lambda>hex i. hex[p + i := h ! i]) hex [0..<Suc n] = (overwrite p (take n h) hex)[p + n := h ! n]"
    by simp
  also have "\<dots> = overwrite p (take n h @ [h ! n]) hex"
    using Suc.prems by (intro nth_equalityI) (auto simp: nth_overwrite nth_list_update nth_append less_Suc_eq)
  also have "take n h @ [h ! n] = take (Suc n) h" using Suc.prems by (simp add: take_Suc_conv_app_nth)
  finally show ?case .
qed (simp add: overwrite_def)

lemma placeholder_step:
  assumes "pos + 40 \<le> length hex"
  shows "foldl (\<lambda>hex i. hex[pos + 2 + i := libraryPlaceholder name ! i])
      (hex[pos := CHR ''_'', pos + 1 := CHR ''_'', pos + 38 := CHR ''_'', pos + 39 := CHR ''_'']) [0..<36] =
    overwrite pos (placeholder name) hex"
proof -
  have nth: "placeholder name ! i = (if i < 2 \<or> 38 \<le> i then CHR ''_'' else libraryPlaceholder name ! (i - 2))"
    if "i < 40" for i
  proof (cases "i < 2")
    case True
    then show ?thesis by (auto simp: placeholder_def less_2_cases_iff)
  next
    case False
    then obtain j where i: "i = Suc (Suc j)" by (metis less_2_cases_iff not0_implies_Suc One_nat_def)
    have "j < 36 \<or> j = 36 \<or> j = 37" using that unfolding i by linarith
    then consider "j < 36" | "j = 36" | "j = 37" by blast
    then show ?thesis by cases (simp_all add: placeholder_def i nth_append)
  qed
  show ?thesis using assms
    by (subst foldl_update)
      (auto intro!: nth_equalityI simp: nth_overwrite nth_list_update nth)
qed

lemma disjoint_placeholders:
  assumes "object_ok ob"
  shows "disjoint_inside (map (\<lambda>(pos, name). (2 * pos, placeholder name)) (lo_linkReferences ob)) (2 * length (lo_bytecode ob))"
  using assms
  by (auto simp: disjoint_inside_def object_ok_def sorted_wrt_map case_prod_unfold placeholder_def
      elim!: sorted_wrt_mono_rel [rotated])

lemma object_toHex_overwrites:
  assumes "object_ok ob"
  shows "object_toHex ob = overwrites (map (\<lambda>(pos, name). (2 * pos, placeholder name)) (lo_linkReferences ob))
    (toHex (lo_bytecode ob) DontAdd Lower)"
proof -
  have "\<forall>(pos, name) \<in> set refs. 2 * pos + 40 \<le> length hex \<Longrightarrow>
     foldl (\<lambda>hex (pos, name).
       let pos = pos * 2;
           hash = libraryPlaceholder name;
           hex = hex[pos := CHR ''_'', pos + 1 := CHR ''_'', pos + 38 := CHR ''_'', pos + 39 := CHR ''_'']
       in foldl (\<lambda>hex i. hex[pos + 2 + i := hash ! i]) hex [0..<36]) hex refs =
     overwrites (map (\<lambda>(pos, name). (2 * pos, placeholder name)) refs) hex" for refs hex
  proof (induction refs arbitrary: hex)
    case (Cons r refs)
    obtain pos name where r: "r = (pos, name)" by (cases r)
    have p: "2 * pos + 40 \<le> length hex" using Cons.prems by (simp add: r)
    then have len: "length (overwrite (2 * pos) (placeholder name) hex) = length hex"
      by (simp add: placeholder_def)
    show ?case
      using Cons.IH [of "overwrite (2 * pos) (placeholder name) hex"] Cons.prems placeholder_step [OF p, of name]
      unfolding len by (simp add: r Let_def mult.commute)
  qed simp
  moreover have "\<forall>(pos, name) \<in> set (lo_linkReferences ob). 2 * pos + 40 \<le> length (toHex (lo_bytecode ob) DontAdd Lower)"
    using assms by (fastforce simp: object_ok_def length_toHex)
  ultimately show ?thesis unfolding object_toHex_def by blast
qed

section \<open>Properties\<close>

text \<open>
  C40: linking an object, whose references have disjoint places inside the code, keeps it
  such an object: every address found is written at each of its places, the references
  left are those without an address, all other bytes stay; and linking again with the
  same addresses changes nothing.
\<close>

theorem link_correct:
  assumes "object_ok ob" and ob': "ob' = link_object addresses ob"
  shows "object_ok ob' \<and> length (lo_bytecode ob') = length (lo_bytecode ob) \<and>
    lo_linkReferences ob' = filter (\<lambda>(pos, name). matchLibrary name addresses = None) (lo_linkReferences ob) \<and>
    (\<forall>(pos, name) \<in> set (lo_linkReferences ob). \<forall>a. matchLibrary name addresses = Some a \<longrightarrow>
       take 20 (drop pos (lo_bytecode ob')) = toBigEndian160 a) \<and>
    (\<forall>i < length (lo_bytecode ob).
       (\<forall>(pos, name) \<in> set (lo_linkReferences ob). matchLibrary name addresses \<noteq> None \<longrightarrow> \<not> (pos \<le> i \<and> i < pos + 20)) \<longrightarrow>
       lo_bytecode ob' ! i = lo_bytecode ob ! i) \<and>
    link_object addresses ob' = ob'"
proof (intro conjI)
  note link = link_object_eq [OF assms(1), of addresses] and dis = disjoint_addressed [OF assms(1), of addresses]
  show ok: "object_ok ob'" unfolding ob' by (rule link_object_ok [OF assms(1)])
  show refs: "lo_linkReferences ob' = filter (\<lambda>(pos, name). matchLibrary name addresses = None) (lo_linkReferences ob)"
    unfolding ob' link by (simp add: unresolved_def)
  show "length (lo_bytecode ob') = length (lo_bytecode ob)"
    unfolding ob' link by (simp add: resolve_addressed length_overwrites [OF dis])
  show "\<forall>(pos, name) \<in> set (lo_linkReferences ob). \<forall>a. matchLibrary name addresses = Some a \<longrightarrow>
       take 20 (drop pos (lo_bytecode ob')) = toBigEndian160 a"
    unfolding ob' using linked_slice [OF assms(1)] by blast
  have "lo_bytecode ob' ! i = lo_bytecode ob ! i" if "i < length (lo_bytecode ob)"
    "\<forall>(pos, name) \<in> set (lo_linkReferences ob). matchLibrary name addresses \<noteq> None \<longrightarrow> \<not> (pos \<le> i \<and> i < pos + 20)" for i
  proof -
    have "\<forall>(pos, new) \<in> set (addressed addresses (lo_linkReferences ob)). \<not> (pos \<le> i \<and> i < pos + length new)"
      using that(2) by (fastforce simp: set_addressed)
    from overwrites_outside [OF dis that(1) this] show ?thesis unfolding ob' link by (simp add: resolve_addressed)
  qed
  then show "\<forall>i < length (lo_bytecode ob).
       (\<forall>(pos, name) \<in> set (lo_linkReferences ob). matchLibrary name addresses \<noteq> None \<longrightarrow> \<not> (pos \<le> i \<and> i < pos + 20)) \<longrightarrow>
       lo_bytecode ob' ! i = lo_bytecode ob ! i" by blast
  have "addressed addresses (lo_linkReferences ob') = []"
    unfolding refs addressed_def by (auto split: option.splits)
  moreover have "unresolved addresses (lo_linkReferences ob') = lo_linkReferences ob'"
    unfolding refs unresolved_def by simp
  ultimately show "link_object addresses ob' = ob'"
    using link_object_eq [OF ok, of addresses] by (simp add: resolve_addressed)
qed

theorem link_correct_witness:
  "take 20 (drop 1 (lo_bytecode (link_object [(''L'', 5)]
       \<lparr>lo_bytecode = 0x73 # replicate 20 0, lo_linkReferences = [(1, ''a:L'')]\<rparr>))) = toBigEndian160 5"
proof -
  have "object_ok \<lparr>lo_bytecode = 0x73 # replicate 20 0, lo_linkReferences = [(1, ''a:L'')]\<rparr>"
    by (simp add: object_ok_def)
  moreover have "matchLibrary ''a:L'' [(''L'', 5)] = Some 5" by (simp add: matchLibrary_def)
  ultimately show ?thesis
    using link_correct [OF _ refl, of "\<lparr>lo_bytecode = 0x73 # replicate 20 0, lo_linkReferences = [(1, ''a:L'')]\<rparr>" "[(''L'', 5)]"]
    by simp
qed

text \<open>
  linking commutes with joining objects, so the assemblies of a contract may be linked
  before or after they are joined.
\<close>

theorem link_append:
  assumes "object_ok a" "object_ok b"
  shows "link_object addresses (object_append a b) =
    object_append (link_object addresses a) (link_object addresses b)"
proof -
  have inside: "\<forall>x \<in> set (lo_linkReferences a). fst x + 20 \<le> length (lo_bytecode a)"
    using assms(1) by (fastforce simp: object_ok_def)
  have split: "resolve addresses (xs @ ys) code = resolve addresses ys (resolve addresses xs code)" for xs ys code
    by (simp add: resolve_def)
  have "resolve addresses (lo_linkReferences a @ shift_refs (length (lo_bytecode a)) (lo_linkReferences b))
      (lo_bytecode a @ lo_bytecode b) =
    resolve addresses (lo_linkReferences a) (lo_bytecode a) @ resolve addresses (lo_linkReferences b) (lo_bytecode b)"
    unfolding split resolve_append1 [OF inside]
    using resolve_append2 [of addresses "resolve addresses (lo_linkReferences a) (lo_bytecode a)"]
    by (simp add: length_resolve [OF inside])
  then show ?thesis
    using assms link_object_eq [OF object_append_ok [OF assms], of addresses]
    by (simp add: object_append_eq link_object_ok)
      (simp add: link_object_eq length_resolve [OF inside] unresolved_def shift_refs_def filter_map comp_def case_prod_unfold)
qed

theorem link_append_witness:
  "link_object [(''L'', 5)] (object_append \<lparr>lo_bytecode = [1], lo_linkReferences = []\<rparr>
       \<lparr>lo_bytecode = 0x73 # replicate 20 0, lo_linkReferences = [(1, ''L'')]\<rparr>) =
   object_append (link_object [(''L'', 5)] \<lparr>lo_bytecode = [1], lo_linkReferences = []\<rparr>)
     (link_object [(''L'', 5)] \<lparr>lo_bytecode = 0x73 # replicate 20 0, lo_linkReferences = [(1, ''L'')]\<rparr>)"
  by (rule link_append) (simp_all add: object_ok_def)

text \<open>
  the text of an object has two digits for every byte; at every missing address stand
  40 characters that name the library, and every other byte has its two digits.
\<close>

theorem toHex_placeholders:
  assumes "object_ok ob"
  shows "length (object_toHex ob) = 2 * length (lo_bytecode ob) \<and>
    (\<forall>(pos, name) \<in> set (lo_linkReferences ob).
       take 40 (drop (2 * pos) (object_toHex ob)) = ''__'' @ libraryPlaceholder name @ ''__'') \<and>
    (\<forall>i < 2 * length (lo_bytecode ob).
       (\<forall>(pos, name) \<in> set (lo_linkReferences ob). \<not> (pos \<le> i div 2 \<and> i div 2 < pos + 20)) \<longrightarrow>
       object_toHex ob ! i = toHex (lo_bytecode ob) DontAdd Lower ! i)"
proof (intro conjI)
  note hex = object_toHex_overwrites [OF assms]
  have dis: "disjoint_inside (map (\<lambda>(pos, name). (2 * pos, placeholder name)) (lo_linkReferences ob))
      (length (toHex (lo_bytecode ob) DontAdd Lower))"
    using disjoint_placeholders [OF assms] by (simp add: length_toHex)
  show "length (object_toHex ob) = 2 * length (lo_bytecode ob)"
    unfolding hex by (simp add: length_overwrites [OF dis] length_toHex)
  have "take 40 (drop (2 * pos) (object_toHex ob)) = ''__'' @ libraryPlaceholder name @ ''__''"
    if "(pos, name) \<in> set (lo_linkReferences ob)" for pos name
  proof -
    have "(2 * pos, placeholder name) \<in> set (map (\<lambda>(pos, name). (2 * pos, placeholder name)) (lo_linkReferences ob))"
      using that by force
    from overwrites_slice [OF dis this] show ?thesis unfolding hex by (simp add: placeholder_def)
  qed
  then show "\<forall>(pos, name) \<in> set (lo_linkReferences ob).
       take 40 (drop (2 * pos) (object_toHex ob)) = ''__'' @ libraryPlaceholder name @ ''__''" by blast
  have "object_toHex ob ! i = toHex (lo_bytecode ob) DontAdd Lower ! i" if "i < 2 * length (lo_bytecode ob)"
    "\<forall>(pos, name) \<in> set (lo_linkReferences ob). \<not> (pos \<le> i div 2 \<and> i div 2 < pos + 20)" for i
  proof -
    have "\<forall>(pos, new) \<in> set (map (\<lambda>(pos, name). (2 * pos, placeholder name)) (lo_linkReferences ob)).
        \<not> (pos \<le> i \<and> i < pos + length new)"
      using that(2) by (fastforce simp: placeholder_def)
    with that(1) show ?thesis unfolding hex by (intro overwrites_outside [OF dis]) (simp_all add: length_toHex)
  qed
  then show "\<forall>i < 2 * length (lo_bytecode ob).
       (\<forall>(pos, name) \<in> set (lo_linkReferences ob). \<not> (pos \<le> i div 2 \<and> i div 2 < pos + 20)) \<longrightarrow>
       object_toHex ob ! i = toHex (lo_bytecode ob) DontAdd Lower ! i" by blast
qed

theorem toHex_placeholders_witness:
  "take 40 (drop 2 (object_toHex \<lparr>lo_bytecode = 0x73 # replicate 20 0, lo_linkReferences = [(1, ''L'')]\<rparr>)) =
     ''__'' @ libraryPlaceholder ''L'' @ ''__''"
  using toHex_placeholders [of "\<lparr>lo_bytecode = 0x73 # replicate 20 0, lo_linkReferences = [(1, ''L'')]\<rparr>"]
  by (simp add: object_ok_def)

end
