(* ===== verification/Assembler.thy ===== *)
theory Assembler
  imports Assembly_Data Linker_Object
begin

text \<open>
  The assembler, libsvmasm/Assembly.cpp: the size of the code, the bytes of each item with
  places for what is not known yet, and the data behind the code with the places filled in.
\<close>

section \<open>The size of the code\<close>

text \<open>Sums of \<open>unsigned\<close> numbers, which wrap at 32 bits.\<close>

definition dataSize :: "AssemblyData \<Rightarrow> 32 word" where
  "dataSize a = foldl (\<lambda>ret (h, d). ret + of_nat (length d)) 1 (a_data a)"

fun itemsSize :: "32 word \<Rightarrow> AssemblyItems \<Rightarrow> 32 word \<Rightarrow> 32 word result" where
  "itemsSize tagSize [] ret = Inr ret"
| "itemsSize tagSize (it # items) ret =
     bind_result (item_bytesRequired it tagSize) (\<lambda>n. itemsSize tagSize items (ret + n))"

lemma bytesRequired_unsigned: "bytesRequired (unat (w :: 32 word)) \<le> 4"
  using unsigned_less [of w, where 'a=nat] by (simp add: bytesRequired_le_iff)

text \<open>The loop ends when the size fits the addresses, at the latest with 4 bytes.\<close>

function assembly_bytesRequired :: "AssemblyData \<Rightarrow> 32 word \<Rightarrow> 32 word result" where
  "assembly_bytesRequired a tagSize =
     bind_result (itemsSize tagSize (a_items a) (dataSize a)) (\<lambda>ret.
       if bytesRequired (unat ret) \<le> unat tagSize then Inr ret
       else assembly_bytesRequired a (tagSize + 1))"
  by pat_completeness auto
termination
proof (relation "measure (\<lambda>(a, tagSize). 4 - unat tagSize)")
  fix a :: AssemblyData and tagSize ret :: "32 word"
  assume "\<not> bytesRequired (unat ret) \<le> unat tagSize"
  then have "unat tagSize < 4" using bytesRequired_unsigned [of ret] by simp
  moreover from this have "unat (tagSize + 1) = unat tagSize + 1" by (simp add: unat_word_ariths)
  ultimately show "((a, tagSize + 1), a, tagSize) \<in> measure (\<lambda>(a, tagSize). 4 - unat tagSize)" by simp
qed simp

declare assembly_bytesRequired.simps [simp del]

section \<open>The bytes of the items\<close>

text \<open>
  What the loop over the items keeps: the code, the positions of the tags, and for every
  place to fill in its position in the code. The positions of the tags are \<open>None\<close> for the
  value \<open>size_t(-1)\<close>. The positions of data and of the size are kept as \<open>unsigned\<close>, and wrap at 32
  bits. The items come back with the values pushed that are known now.
\<close>

record Emission =
  em_code :: bytes
  em_links :: "(nat, string) std_map"
  em_tagPositions :: "nat option list"
  em_tagRef :: "(nat, size_t \<times> size_t) std_map"
  em_dataRef :: "(u256 \<times> 32 word) list"
  em_subRef :: "(size_t \<times> nat) list"
  em_sizeRef :: "32 word list"
  em_items :: AssemblyItems

record Widths =
  bytesPerTag :: nat
  bytesPerDataRef :: nat

text \<open>\<open>(uint8_t)Instruction::PUSH1 - 1 + n\<close>\<close>

definition pushOpcode :: "nat \<Rightarrow> byte" where
  "pushOpcode n = iPUSH1 - 1 + of_nat n"

definition pushBytes :: "nat \<Rightarrow> bytes" where
  "pushBytes v =
     (let b = max 1 (bytesRequired v)
      in pushOpcode b # toBigEndianInto v (replicate b 0))"

definition stringBytes :: "string \<Rightarrow> bytes" where
  "stringBytes s = (let bs = take 32 (asBytes s) in bs @ replicate (32 - length bs) 0)"

definition emitTag :: "AssemblyItem \<Rightarrow> Emission \<Rightarrow> Emission result" where
  "emitTag it em =
     assertThrow (m_data it \<noteq> 0) AssemblyException
      (bind_result (splitForeignPushTag it) (\<lambda>(sub, _).
       assertThrow (sub = - 1) AssemblyException
      (assertThrow (length (em_code em) < 0xffffffff) AssemblyException
        (let tag = unat (ucast (m_data it) :: size_t) in
         if length (em_tagPositions em) \<le> tag then Inl UndefinedBehaviour
         else assertThrow (em_tagPositions em ! tag = None) AssemblyException
           (Inr (em\<lparr>em_tagPositions := (em_tagPositions em)[tag := Some (length (em_code em))],
                    em_code := em_code em @ [iJUMPDEST]\<rparr>))))))"

definition invalidTagPosition :: "AssemblyItem \<Rightarrow> Emission \<Rightarrow> Emission result" where
  "invalidTagPosition it em =
     (if m_type it \<noteq> Tag then
        (case em_tagPositions em of
           [] \<Rightarrow> Inl UndefinedBehaviour
         | None # ps \<Rightarrow> Inr (em\<lparr>em_tagPositions := Some (length (em_code em)) # ps\<rparr>)
         | Some p # ps \<Rightarrow> Inr em)
      else Inr em)"

definition emitCase ::
    "AssemblyData \<Rightarrow> LinkerObject list \<Rightarrow> Widths \<Rightarrow> AssemblyItem \<Rightarrow> Emission \<Rightarrow> Emission result" where
  "emitCase a subs w it em =
     (let code = em_code em;
          tagPush = pushOpcode (bytesPerTag w);
          dataRefPush = pushOpcode (bytesPerDataRef w);
          hole = replicate (bytesPerDataRef w) 0;
          done = (\<lambda>it em. Inr (em\<lparr>em_items := em_items em @ [it]\<rparr>))
      in case m_type it of
        Operation \<Rightarrow> done it (em\<lparr>em_code := code @ [m_instruction it]\<rparr>)
      | PushString \<Rightarrow>
          (case map_of (a_strings a) (m_data it) of
             None \<Rightarrow> Inl OutOfRange
           | Some s \<Rightarrow> done it (em\<lparr>em_code := code @ iPUSH32 # stringBytes s\<rparr>))
      | Push \<Rightarrow> done it (em\<lparr>em_code := code @ pushBytes (unat (m_data it))\<rparr>)
      | PushTag \<Rightarrow>
          bind_result (splitForeignPushTag it) (\<lambda>ref.
            done it (em\<lparr>em_tagRef := map_put (length code + 1) ref (em_tagRef em),
                        em_code := code @ tagPush # replicate (bytesPerTag w) 0\<rparr>))
      | PushData \<Rightarrow>
          done it (em\<lparr>em_dataRef := em_dataRef em @ [(m_data it, of_nat (length code + 1))],
                      em_code := code @ dataRefPush # hole\<rparr>)
      | PushSub \<Rightarrow>
          done it (em\<lparr>em_subRef := em_subRef em @ [(ucast (m_data it), length code + 1)],
                      em_code := code @ dataRefPush # hole\<rparr>)
      | PushSubSize \<Rightarrow>
          (let i = unat (ucast (m_data it) :: size_t) in
           if length subs \<le> i then Inl OutOfRange
           else
             (let s = length (lo_bytecode (subs ! i))
              in done (it\<lparr>m_pushedValue := Some (of_nat s)\<rparr>) (em\<lparr>em_code := code @ pushBytes s\<rparr>)))
      | PushProgramSize \<Rightarrow>
          done it (em\<lparr>em_sizeRef := em_sizeRef em @ [of_nat (length code + 1)],
                      em_code := code @ dataRefPush # hole\<rparr>)
      | PushLibraryAddress \<Rightarrow>
          (case map_of (a_libraries a) (m_data it) of
             None \<Rightarrow> Inl OutOfRange
           | Some name \<Rightarrow>
               done it (em\<lparr>em_links := map_put (length code + 1) name (em_links em),
                           em_code := code @ iPUSH20 # replicate 20 0\<rparr>))
      | PushDeployTimeAddress \<Rightarrow> done it (em\<lparr>em_code := code @ iPUSH20 # replicate 20 0\<rparr>)
      | Tag \<Rightarrow> bind_result (emitTag it em) (done it)
      | UndefinedItem \<Rightarrow> Inl InvalidOpcode)"

definition emitItem ::
    "AssemblyData \<Rightarrow> LinkerObject list \<Rightarrow> Widths \<Rightarrow> AssemblyItem \<Rightarrow> Emission \<Rightarrow> Emission result" where
  "emitItem a subs w it em = bind_result (invalidTagPosition it em) (emitCase a subs w it)"

fun emitItems ::
    "AssemblyData \<Rightarrow> LinkerObject list \<Rightarrow> Widths \<Rightarrow> AssemblyItems \<Rightarrow> Emission \<Rightarrow> Emission result" where
  "emitItems a subs w [] em = Inr em"
| "emitItems a subs w (it # items) em = bind_result (emitItem a subs w it em) (emitItems a subs w items)"

section \<open>Filling in\<close>

definition patch :: "nat \<Rightarrow> nat \<Rightarrow> nat \<Rightarrow> bytes \<Rightarrow> bytes" where
  "patch pos n v code = overwrite pos (toBigEndianInto v (take n (drop pos code))) code"

definition patchAll :: "nat list \<Rightarrow> nat \<Rightarrow> nat \<Rightarrow> bytes \<Rightarrow> bytes" where
  "patchAll ps n v code = foldl (\<lambda>code pos. patch pos n v code) code ps"

definition refsTo :: "'k \<Rightarrow> ('k \<times> nat) list \<Rightarrow> nat list" where
  "refsTo k refs = map snd (filter (\<lambda>r. fst r = k) refs)"

text \<open>Sub-assemblies are appended in their order, those no item refers to are left out.\<close>

fun placeSubs :: "nat \<Rightarrow> (size_t \<times> nat) list \<Rightarrow> size_t \<Rightarrow> LinkerObject list \<Rightarrow> LinkerObject \<Rightarrow> LinkerObject" where
  "placeSubs n refs i [] ob = ob"
| "placeSubs n refs i (sub # subs) ob =
     (let ps = refsTo i refs
      in placeSubs n refs (i + 1) subs
        (if ps = [] then ob
         else object_append
           (ob\<lparr>lo_bytecode := patchAll ps n (length (lo_bytecode ob)) (lo_bytecode ob)\<rparr>) sub))"

fun fillTags ::
    "nat \<Rightarrow> nat option list \<Rightarrow> nat option list list \<Rightarrow> (nat, size_t \<times> size_t) std_map \<Rightarrow> bytes \<Rightarrow> bytes result" where
  "fillTags n ownTags subs [] code = Inr code"
| "fillTags n ownTags subs ((ref, subId, tagId) # refs) code =
     assertThrow (subId = - 1 \<or> unat subId < length subs) AssemblyException
      (let tagPositions = (if subId = - 1 then ownTags else subs ! unat subId)
       in assertThrow (unat tagId < length tagPositions) AssemblyException
         (case tagPositions ! unat tagId of
            None \<Rightarrow> Inl AssemblyException
          | Some pos \<Rightarrow> assertThrow (bytesRequired pos \<le> n) AssemblyException
              (fillTags n ownTags subs refs (patch ref n pos code))))"

fun placeData :: "nat \<Rightarrow> ('k \<times> nat) list \<Rightarrow> ('k, bytes) std_map \<Rightarrow> bytes \<Rightarrow> bytes" where
  "placeData n refs [] code = code"
| "placeData n refs ((h, d) # data) code =
     (let ps = refsTo h refs
      in placeData n refs data
        (if ps = [] then code else patchAll ps n (length code) code @ d))"

section \<open>The assembler\<close>

record Assembled =
  as_object :: LinkerObject
  as_tagPositions :: "nat option list"
  as_items :: AssemblyItems

text \<open>The greatest position of a tag in a sub-assembly, at least 1.\<close>

definition subTagSize :: "Assembled list \<Rightarrow> nat" where
  "subTagSize subs =
     foldl (\<lambda>sz sub. foldl (\<lambda>sz p. case p of None \<Rightarrow> sz | Some tagPos \<Rightarrow> if tagPos > sz then tagPos else sz)
       sz (as_tagPositions sub)) 1 subs"

definition bytesIncludingData :: "AssemblyData \<Rightarrow> LinkerObject list \<Rightarrow> 32 word \<Rightarrow> 32 word" where
  "bytesIncludingData a objects bytesRequiredForCode =
     foldl (\<lambda>sz sub. sz + of_nat (length (lo_bytecode sub)))
       (bytesRequiredForCode + 1 + of_nat (length (a_auxiliaryData a))) objects"

definition widths :: "AssemblyData \<Rightarrow> LinkerObject list \<Rightarrow> 32 word \<Rightarrow> Widths" where
  "widths a objects bytesRequiredForCode =
     \<lparr>bytesPerTag = bytesRequired (unat bytesRequiredForCode),
      bytesPerDataRef = bytesRequired (unat (bytesIncludingData a objects bytesRequiredForCode))\<rparr>"

definition assembleWith :: "AssemblyData \<Rightarrow> Assembled list \<Rightarrow> Assembled result" where
  "assembleWith a subs =
     bind_result (assembly_bytesRequired a (of_nat (subTagSize subs))) (\<lambda>bytesRequiredForCode.
     (let objects = map as_object subs;
          w = widths a objects bytesRequiredForCode
      in bind_result
           (emitItems a objects w (a_items a)
             \<lparr>em_code = [], em_links = [], em_tagPositions = replicate (unat (a_usedTags a)) None,
              em_tagRef = [], em_dataRef = [], em_subRef = [], em_sizeRef = [], em_items = []\<rparr>)
           (\<lambda>em.
            (let code = em_code em @
                   (if subs \<noteq> [] \<or> a_data a \<noteq> [] \<or> a_auxiliaryData a \<noteq> [] then [iINVALID] else []);
                 ob = placeSubs (bytesPerDataRef w) (em_subRef em) 0 objects
                   \<lparr>lo_bytecode = code, lo_linkReferences = em_links em\<rparr>
             in bind_result
                  (fillTags (bytesPerTag w) (em_tagPositions em) (map as_tagPositions subs) (em_tagRef em)
                    (lo_bytecode ob)) (\<lambda>code.
                (let code = placeData (bytesPerDataRef w) (map (apsnd unat) (em_dataRef em)) (a_data a) code @ a_auxiliaryData a;
                     code = patchAll (map unat (em_sizeRef em)) (bytesPerDataRef w) (length code) code
                 in Inr \<lparr>as_object = ob\<lparr>lo_bytecode := code\<rparr>, as_tagPositions = em_tagPositions em,
                         as_items = em_items em\<rparr>))))))"

fun assemble :: "Assembly \<Rightarrow> Assembled result"
  and assembleSubs :: "Assembly list \<Rightarrow> Assembled list result" where
  "assemble (Assembly a subs) = bind_result (assembleSubs subs) (assembleWith a)"
| "assembleSubs [] = Inr []"
| "assembleSubs (sub # subs) =
     bind_result (assemble sub) (\<lambda>r. bind_result (assembleSubs subs) (\<lambda>rs. Inr (r # rs)))"

end
