(* ===== verification/Assembler_Layout.thy ===== *)
theory Assembler_Layout
  imports Assembler
begin

text \<open>
  What the assembler produces: the bytes of the items, one after the other, then the sub-assemblies
  and the data that are pushed and the auxiliary data, with the operand of every push filled in by the
  last bytes of the position it stands for. The positions of operands have 32 bits, as in the code.
\<close>

section \<open>Code with operands to fill in\<close>

text \<open>The items with their positions in the code.\<close>

fun located :: "(AssemblyItem \<Rightarrow> nat) \<Rightarrow> nat \<Rightarrow> AssemblyItems \<Rightarrow> (nat \<times> AssemblyItem) list" where
  "located len pos [] = []"
| "located len pos (it # items) = (pos, it) # located len (pos + len it) items"

lemma map_snd_located [simp]: "map snd (located len pos items) = items"
  by (induction items arbitrary: pos) simp_all

lemma located_ge: "(p, it) \<in> set (located len pos items) \<Longrightarrow> pos \<le> p"
  by (induction items arbitrary: pos) (auto, metis add_leD1)

lemma located_append:
  "located len pos (xs @ ys) = located len pos xs @ located len (pos + sum_list (map len xs)) ys"
  by (induction xs arbitrary: pos) (simp_all add: add.assoc)

text \<open>The bytes \<open>d\<close> stand at position \<open>start\<close> in a tail that begins at position \<open>r\<close>.\<close>

definition placed :: "nat \<Rightarrow> bytes \<Rightarrow> bytes \<Rightarrow> nat \<Rightarrow> bool" where
  "placed r tail d start \<longleftrightarrow> (\<exists>pre post. tail = pre @ d @ post \<and> start = r + length pre)"

lemma placed_append: "placed r tail d start \<Longrightarrow> placed r (tail @ rest) d start"
  unfolding placed_def by (metis append.assoc)

text \<open>The position a reference to a tag stands for.\<close>

definition target :: "nat option list \<Rightarrow> nat option list list \<Rightarrow> size_t \<times> size_t \<Rightarrow> nat option" where
  "target ownTags subs ref =
     (let tagPositions = (if fst ref = - 1 then ownTags else subs ! unat (fst ref))
      in if unat (snd ref) < length tagPositions then tagPositions ! unat (snd ref) else None)"

text \<open>The data that is referred to, in the order of the table.\<close>

definition selected :: "'k set \<Rightarrow> ('k \<times> bytes) list \<Rightarrow> bytes" where
  "selected ks data = concat (map snd (filter (\<lambda>kd. fst kd \<in> ks) data))"

lemma selected_simps [simp]:
  "selected ks [] = []" "selected ks ((k, d) # data) = (if k \<in> ks then d else []) @ selected ks data"
  by (simp_all add: selected_def)

text \<open>
  The bytes of an item depend on the value of its operand, for the items that have one;
  it stands behind the first byte, with the width the item asks for.
\<close>

locale layout =
  fixes item_bytes :: "nat \<Rightarrow> AssemblyItem \<Rightarrow> bytes"
    and width :: "AssemblyItem \<Rightarrow> nat"
  assumes length_value: "length (item_bytes v it) = length (item_bytes 0 it)"
    and nonempty: "item_bytes v it \<noteq> []"
    and no_operand: "width it = 0 \<Longrightarrow> item_bytes v it = item_bytes 0 it"
    and operand: "0 < width it \<Longrightarrow> item_bytes v it = hd (item_bytes 0 it) # be_digits (width it) v"
begin

abbreviation len :: "AssemblyItem \<Rightarrow> nat" where
  "len it \<equiv> length (item_bytes 0 it)"

definition render :: "(nat \<Rightarrow> nat) \<Rightarrow> (nat \<times> AssemblyItem) list \<Rightarrow> bytes" where
  "render vals loc = concat (map (\<lambda>(p, it). item_bytes (vals p) it) loc)"

lemma render_simps [simp]:
  "render vals [] = []"
  "render vals ((p, it) # loc) = item_bytes (vals p) it @ render vals loc"
  "render vals (loc @ loc') = render vals loc @ render vals loc'"
  by (simp_all add: render_def)

lemma render_items:
  "\<forall>(p, it) \<in> set loc. item_bytes (vals p) it = item_bytes (v it) it \<Longrightarrow>
     render vals loc = concat (map (\<lambda>it. item_bytes (v it) it) (map snd loc))"
  by (induction loc) auto

lemma length_render: "length (render vals (located len pos items)) = sum_list (map len items)"
proof (induction items arbitrary: pos)
  case (Cons it items)
  then show ?case using length_value [of "vals pos" it] by simp
qed simp

lemma located_gt: "(p, it') \<in> set (located len (pos + len it) items) \<Longrightarrow> pos < p"
proof -
  assume "(p, it') \<in> set (located len (pos + len it) items)"
  then have "pos + len it \<le> p" by (rule located_ge)
  moreover have "0 < len it" using nonempty [of 0 it] by blast
  ultimately show ?thesis by linarith
qed

lemma distinct_located: "distinct (map fst (located len pos items))"
  by (induction items arbitrary: pos) (auto dest: located_gt)

lemma located_unique:
  "(p, it) \<in> set (located len pos items) \<Longrightarrow> (p, it') \<in> set (located len pos items) \<Longrightarrow> it = it'"
  using distinct_located eq_key_imp_eq_value by metis

lemma render_upd: "\<forall>x \<in> set loc. fst x \<noteq> p \<Longrightarrow> render (vals(p := v)) loc = render vals loc"
  by (induction loc) auto

lemma render_slice:
  "(p, it) \<in> set (located len (length pre) items) \<Longrightarrow>
     \<exists>rest. drop p (pre @ render vals (located len (length pre) items) @ tail) = item_bytes (vals p) it @ rest"
proof (induction items arbitrary: pre)
  case (Cons i items)
  show ?case
  proof (cases "p = length pre")
    case True
    then have "it = i" using located_unique [of p it "length pre" "i # items" i] Cons.prems by simp
    with True show ?thesis by simp
  next
    case False
    note value_i = length_value [of "vals (length pre)" i]
    let ?pre = "pre @ item_bytes (vals (length pre)) i"
    have "(p, it) \<in> set (located len (length ?pre) items)" using Cons.prems False by (simp add: value_i)
    from Cons.IH [OF this] show ?thesis by (simp add: value_i)
  qed
qed simp

lemma patch_head: "patch (length pre + 1) (width it) v (pre @ item_bytes u it @ rest) = pre @ item_bytes v it @ rest"
proof (cases "width it = 0")
  case True
  have "patch pos 0 v code = code" for pos code
    by (simp add: patch_def overwrite_def toBigEndianInto_digits)
  with True show ?thesis using no_operand [OF True, of u] no_operand [OF True, of v] by metis
next
  case False
  have "overwrite (1 + length pre) new (pre @ b # be_digits (width it) u @ rest) =
      pre @ b # new @ rest" if "length new = width it" for new b
    using that by (simp add: overwrite_def)
  then show ?thesis using operand [of it u] operand [of it v] False
    by (simp add: patch_def toBigEndianInto_digits)
qed

lemma patch_render:
  "(p, it) \<in> set (located len (length pre) items) \<Longrightarrow>
     patch (p + 1) (width it) v (pre @ render vals (located len (length pre) items) @ tail) =
     pre @ render (vals(p := v)) (located len (length pre) items) @ tail"
proof (induction items arbitrary: pre)
  case (Cons i items)
  show ?case
  proof (cases "p = length pre")
    case True
    then have "it = i" using located_unique [of p it "length pre" "i # items" i] Cons.prems by simp
    moreover have "\<forall>x \<in> set (located len (length pre + len i) items). fst x \<noteq> p"
      using True by (auto dest: located_gt)
    ultimately show ?thesis using patch_head [of pre i v] True
      by (simp add: render_upd fun_upd_same del: fun_upd_apply)
  next
    case False
    note value_i = length_value [of "vals (length pre)" i]
    let ?pre = "pre @ item_bytes (vals (length pre)) i"
    have "(p, it) \<in> set (located len (length ?pre) items)" using Cons.prems False by (simp add: value_i)
    from Cons.IH [OF this] False show ?thesis by (simp add: value_i)
  qed
qed simp

text \<open>Patching a set of places with one value.\<close>

lemma patchAll_render:
  assumes "\<forall>q \<in> set ps. \<exists>p it. q = Suc p \<and> (p, it) \<in> set (located len 0 items) \<and> width it = n"
  shows "patchAll ps n v (render vals (located len 0 items) @ tail) =
    render (\<lambda>p. if Suc p \<in> set ps then v else vals p) (located len 0 items) @ tail"
  using assms(1)
proof (induction ps arbitrary: vals)
  case (Cons q ps)
  from Cons.prems obtain p it where p: "q = Suc p" "(p, it) \<in> set (located len 0 items)" "width it = n" by auto
  have "patch q n v (render vals (located len 0 items) @ tail) =
      render (vals(p := v)) (located len 0 items) @ tail"
    using patch_render [of p it "[]" items v vals tail] p by simp
  moreover have "(\<lambda>x. if Suc x \<in> set ps then v else (vals(p := v)) x) = (\<lambda>x. if Suc x \<in> set (q # ps) then v else vals x)"
    by (auto simp: p(1))
  ultimately show ?case using Cons.IH [of "vals(p := v)"] Cons.prems
    by (simp add: patchAll_def del: fun_upd_apply)
qed (simp add: patchAll_def)

lemma placeData_render:
  assumes "set pl \<subseteq> set (located len 0 items)" "\<forall>(p, it) \<in> set pl. width it = n"
    and "distinct (map fst data)" "r = sum_list (map len items)"
  shows "\<exists>vals' tail' val. placeData n (map (\<lambda>(p, it). (key it, Suc p)) pl) data (render vals (located len 0 items) @ tail) =
      render vals' (located len 0 items) @ tail @ tail' \<and> tail' = selected (key ` snd ` set pl) data \<and>
    (\<forall>p. p \<notin> fst ` set pl \<longrightarrow> vals' p = vals p) \<and>
    (\<forall>(p, it) \<in> set pl. vals' p = (if key it \<in> fst ` set data then val (key it) else vals p)) \<and>
    (\<forall>(k, d) \<in> set data. k \<in> key ` snd ` set pl \<longrightarrow> placed r (tail @ tail') d (val k))"
  using assms(3)
proof (induction data arbitrary: vals tail)
  case Nil
  then show ?case by (intro exI [of _ vals] exI [of _ "[]"]) simp
next
  case (Cons kd data)
  obtain k d where kd: "kd = (k, d)" by (cases kd)
  let ?refs = "map (\<lambda>(p, it). (key it, Suc p)) pl"
  have ps: "Suc p \<in> set (refsTo k ?refs) \<longleftrightarrow> (\<exists>it. (p, it) \<in> set pl \<and> key it = k)" for p
    by (force simp: refsTo_def)
  have none: "refsTo k ?refs = [] \<longleftrightarrow> k \<notin> key ` snd ` set pl"
    by (force simp: refsTo_def filter_empty_conv)
  define at where "at = r + length tail"
  define vals1 where "vals1 = (\<lambda>p. if Suc p \<in> set (refsTo k ?refs) then at else vals p)"
  define tail1 where "tail1 = (if refsTo k ?refs = [] then [] else d)"
  have step: "placeData n ?refs (kd # data) (render vals (located len 0 items) @ tail) =
      placeData n ?refs data (render vals1 (located len 0 items) @ tail @ tail1)"
  proof (cases "refsTo k ?refs = []")
    case True
    then show ?thesis by (simp add: kd vals1_def tail1_def)
  next
    case False
    have "\<forall>q \<in> set (refsTo k ?refs). \<exists>p it. q = Suc p \<and> (p, it) \<in> set (located len 0 items) \<and> width it = n"
      using assms(1,2) by (fastforce simp: refsTo_def)
    from patchAll_render [OF this, of at vals tail] False show ?thesis
      by (simp add: kd vals1_def tail1_def at_def length_render assms(4))
  qed
  have vals1: "vals1 p = (if key it = k then at else vals p)" if "(p, it) \<in> set pl" for p it
    using that assms(1) located_unique [of p _ 0 items it] by (auto simp: vals1_def ps)
  have "distinct (map fst data)" and k: "k \<notin> fst ` set data" using Cons.prems by (auto simp: kd)
  from Cons.IH [OF this(1), of vals1 "tail @ tail1"] obtain vals' tail' val where IH:
    "placeData n ?refs data (render vals1 (located len 0 items) @ tail @ tail1) =
      render vals' (located len 0 items) @ (tail @ tail1) @ tail'"
    and tail': "tail' = selected (key ` snd ` set pl) data"
    and IH':
    "\<forall>p. p \<notin> fst ` set pl \<longrightarrow> vals' p = vals1 p"
    "\<forall>(p, it) \<in> set pl. vals' p = (if key it \<in> fst ` set data then val (key it) else vals1 p)"
    "\<forall>(k, d) \<in> set data. k \<in> key ` snd ` set pl \<longrightarrow> placed r ((tail @ tail1) @ tail') d (val k)"
    by auto
  define val' where "val' = val(k := at)"
  have start: "placed r (tail @ tail1 @ tail') d at" if "k \<in> key ` snd ` set pl"
    using that none by (auto simp: tail1_def placed_def at_def)
  have A: "\<forall>p. p \<notin> fst ` set pl \<longrightarrow> vals' p = vals p"
    using IH'(1) by (force simp: vals1_def ps)
  have B: "\<forall>(p, it) \<in> set pl. vals' p = (if key it \<in> fst ` set (kd # data) then val' (key it) else vals p)"
  proof (clarify)
    fix p it assume p: "(p, it) \<in> set pl"
    have "vals' p = (if key it \<in> fst ` set data then val (key it) else vals1 p)" using IH'(2) p by blast
    with k vals1 [OF p] show "vals' p = (if key it \<in> fst ` set (kd # data) then val' (key it) else vals p)"
      by (auto simp: kd val'_def)
  qed
  have C: "\<forall>(k', d') \<in> set (kd # data). k' \<in> key ` snd ` set pl \<longrightarrow> placed r (tail @ tail1 @ tail') d' (val' k')"
  proof (intro ballI)
    fix x assume x: "x \<in> set (kd # data)"
    obtain k' d' where k': "x = (k', d')" by (cases x)
    have "placed r (tail @ tail1 @ tail') d' (val' k')" if mem: "k' \<in> key ` snd ` set pl"
    proof (cases "x = kd")
      case True
      then show ?thesis using start mem by (simp add: k' kd val'_def)
    next
      case False
      then have "(k', d') \<in> set data" using x k' by simp
      moreover from this have "k' \<noteq> k" using k by force
      moreover have "placed r ((tail @ tail1) @ tail') d' (val k')" using IH'(3) mem calculation(1) by blast
      ultimately show ?thesis by (simp add: val'_def)
    qed
    then show "case x of (k', d') \<Rightarrow> k' \<in> key ` snd ` set pl \<longrightarrow> placed r (tail @ tail1 @ tail') d' (val' k')"
      by (simp add: k')
  qed
  have "placeData n ?refs (kd # data) (render vals (located len 0 items) @ tail) =
      render vals' (located len 0 items) @ tail @ tail1 @ tail'" using step IH by simp
  moreover have "tail1 @ tail' = selected (key ` snd ` set pl) (kd # data)"
    using none by (simp add: kd tail1_def tail')
  ultimately show ?case using A B C by blast
qed

lemma fillTags_render:
  assumes "fillTags n ownTags subs (map (\<lambda>(p, it). (Suc p, ref it)) pl) (render vals (located len 0 items) @ tail) = Inr code"
    and "set pl \<subseteq> set (located len 0 items)" "\<forall>(p, it) \<in> set pl. width it = n"
  shows "\<exists>vals'. code = render vals' (located len 0 items) @ tail \<and>
    (\<forall>p. p \<notin> fst ` set pl \<longrightarrow> vals' p = vals p) \<and>
    (\<forall>(p, it) \<in> set pl. target ownTags subs (ref it) = Some (vals' p) \<and> bytesRequired (vals' p) \<le> n \<and>
       (fst (ref it) = - 1 \<or> unat (fst (ref it)) < length subs))"
  using assms
proof (induction pl arbitrary: vals)
  case (Cons x pl)
  obtain p it where x: "x = (p, it)" by (cases x)
  obtain s t where r: "ref it = (s, t)" by (cases "ref it")
  from Cons.prems(1) obtain pos where pos: "target ownTags subs (ref it) = Some pos" "bytesRequired pos \<le> n"
      "s = - 1 \<or> unat s < length subs"
    and rest: "fillTags n ownTags subs (map (\<lambda>(p, it). (Suc p, ref it)) pl)
      (patch (Suc p) n pos (render vals (located len 0 items) @ tail)) = Inr code"
    by (auto simp: x r target_def Let_def split: option.splits cong: if_cong)
  have "patch (Suc p) n pos (render vals (located len 0 items) @ tail) =
      render (vals(p := pos)) (located len 0 items) @ tail"
    using patch_render [of p it "[]" items pos vals tail] Cons.prems(2,3) by (simp add: x)
  with rest have "fillTags n ownTags subs (map (\<lambda>(p, it). (Suc p, ref it)) pl)
      (render (vals(p := pos)) (located len 0 items) @ tail) = Inr code" by simp
  moreover have "set pl \<subseteq> set (located len 0 items)" "\<forall>(p, it) \<in> set pl. width it = n" using Cons.prems(2,3) by auto
  ultimately obtain vals' where IH:
    "code = render vals' (located len 0 items) @ tail" "\<forall>q. q \<notin> fst ` set pl \<longrightarrow> vals' q = (vals(p := pos)) q"
    "\<forall>(p, it) \<in> set pl. target ownTags subs (ref it) = Some (vals' p) \<and> bytesRequired (vals' p) \<le> n \<and>
       (fst (ref it) = - 1 \<or> unat (fst (ref it)) < length subs)"
    using Cons.IH [of "vals(p := pos)"] by blast
  have "vals' p = pos"
  proof (cases "p \<in> fst ` set pl")
    case True
    then obtain i where "(p, i) \<in> set pl" by auto
    moreover from this have "i = it"
      using Cons.prems(2) located_unique [of p i 0 items it] by (auto simp: x)
    ultimately show ?thesis using IH(3) pos(1) by auto
  qed (use IH(2) in simp)
  with IH pos show ?case by (intro exI [of _ vals']) (auto simp: x r)
qed auto

end

section \<open>The items of an assembly\<close>

definition operandWidth :: "Widths \<Rightarrow> AssemblyItem \<Rightarrow> nat" where
  "operandWidth w it =
     (case m_type it of
        PushTag \<Rightarrow> bytesPerTag w
      | PushData \<Rightarrow> bytesPerDataRef w
      | PushSub \<Rightarrow> bytesPerDataRef w
      | PushProgramSize \<Rightarrow> bytesPerDataRef w
      | _ \<Rightarrow> 0)"

definition itemBytes :: "AssemblyData \<Rightarrow> LinkerObject list \<Rightarrow> Widths \<Rightarrow> nat \<Rightarrow> AssemblyItem \<Rightarrow> bytes" where
  "itemBytes a subs w v it =
     (case m_type it of
        Operation \<Rightarrow> [m_instruction it]
      | Tag \<Rightarrow> [iJUMPDEST]
      | Push \<Rightarrow> pushBytes (unat (m_data it))
      | PushString \<Rightarrow> iPUSH32 # stringBytes (the (map_of (a_strings a) (m_data it)))
      | PushSubSize \<Rightarrow> pushBytes (length (lo_bytecode (subs ! unat (ucast (m_data it) :: size_t))))
      | PushTag \<Rightarrow> pushOpcode (operandWidth w it) # be_digits (operandWidth w it) v
      | PushData \<Rightarrow> pushOpcode (operandWidth w it) # be_digits (operandWidth w it) v
      | PushSub \<Rightarrow> pushOpcode (operandWidth w it) # be_digits (operandWidth w it) v
      | PushProgramSize \<Rightarrow> pushOpcode (operandWidth w it) # be_digits (operandWidth w it) v
      | PushLibraryAddress \<Rightarrow> iPUSH20 # replicate 20 0
      | PushDeployTimeAddress \<Rightarrow> iPUSH20 # replicate 20 0
      | UndefinedItem \<Rightarrow> [iINVALID])"

interpretation code: layout "itemBytes a subs w" "operandWidth w" for a subs w
proof
  show "length (itemBytes a subs w v it) = length (itemBytes a subs w 0 it)" for v it
    by (simp add: itemBytes_def split: AssemblyItemType.splits)
  show "itemBytes a subs w v it \<noteq> []" for v it
    by (simp add: itemBytes_def pushBytes_def Let_def split: AssemblyItemType.splits)
  show "itemBytes a subs w v it = itemBytes a subs w 0 it" if "operandWidth w it = 0" for v it
    using that by (simp add: itemBytes_def operandWidth_def split: AssemblyItemType.splits)
  show "itemBytes a subs w v it = hd (itemBytes a subs w 0 it) # be_digits (operandWidth w it) v"
    if "0 < operandWidth w it" for v it
    using that by (simp add: itemBytes_def operandWidth_def split: AssemblyItemType.splits)
qed

section \<open>The loop over the items\<close>

definition tagId :: "AssemblyItem \<Rightarrow> nat" where
  "tagId it = unat (ucast (m_data it) :: size_t)"

definition tagRef :: "AssemblyItem \<Rightarrow> size_t \<times> size_t" where
  "tagRef it = (ucast (drop_bit 64 (m_data it) - 1), ucast (m_data it AND 0xffffffffffffffff))"

definition withPushedValue :: "LinkerObject list \<Rightarrow> AssemblyItem \<Rightarrow> AssemblyItem" where
  "withPushedValue subs it =
     (if m_type it = PushSubSize
      then it\<lparr>m_pushedValue := Some (of_nat (length (lo_bytecode (subs ! tagId it))))\<rparr> else it)"

lemma split_tagRef: "m_type it = Tag \<or> m_type it = PushTag \<Longrightarrow> splitForeignPushTag it = Inr (tagRef it)"
  by (auto simp: splitForeignPushTag_def tagRef_def Let_def)

lemma be_digits_0 [simp]: "be_digits n 0 = replicate n 0"
proof (induction n)
  case (Suc n)
  then show ?case by (simp add: replicate_append_same)
qed simp

text \<open>What an item needs to be assembled.\<close>

definition item_ok :: "AssemblyData \<Rightarrow> LinkerObject list \<Rightarrow> AssemblyItem \<Rightarrow> bool" where
  "item_ok a subs it \<longleftrightarrow> m_type it \<noteq> UndefinedItem \<and>
     (m_type it = PushString \<longrightarrow> map_of (a_strings a) (m_data it) \<noteq> None) \<and>
     (m_type it = PushLibraryAddress \<longrightarrow> map_of (a_libraries a) (m_data it) \<noteq> None) \<and>
     (m_type it = PushSubSize \<longrightarrow> tagId it < length subs)"

lemma emitTag_effects:
  assumes "emitTag it em = Inr em'" "m_type it = Tag"
  shows "em' = em\<lparr>em_tagPositions := (em_tagPositions em)[tagId it := Some (length (em_code em))],
      em_code := em_code em @ [iJUMPDEST]\<rparr> \<and>
    tagId it < length (em_tagPositions em) \<and> em_tagPositions em ! tagId it = None \<and>
    fst (tagRef it) = - 1 \<and> m_data it \<noteq> 0"
  using assms by (auto simp: emitTag_def tagId_def split_tagRef Let_def split: prod.splits if_splits)

lemma emitCase_effects:
  assumes "emitCase a subs w it em = Inr em'"
  shows "em_code em' = em_code em @ itemBytes a subs w 0 it"
    "em_links em' = (if m_type it = PushLibraryAddress
       then map_put (length (em_code em) + 1) (the (map_of (a_libraries a) (m_data it))) (em_links em) else em_links em)"
    "em_tagRef em' = (if m_type it = PushTag then map_put (length (em_code em) + 1) (tagRef it) (em_tagRef em) else em_tagRef em)"
    "em_dataRef em' = em_dataRef em @ (if m_type it = PushData then [(m_data it, of_nat (length (em_code em) + 1))] else [])"
    "em_subRef em' = em_subRef em @ (if m_type it = PushSub then [(ucast (m_data it), length (em_code em) + 1)] else [])"
    "em_sizeRef em' = em_sizeRef em @ (if m_type it = PushProgramSize then [of_nat (length (em_code em) + 1)] else [])"
    "em_items em' = em_items em @ [withPushedValue subs it]"
    "item_ok a subs it"
    "em_tagPositions em' = (if m_type it = Tag then (em_tagPositions em)[tagId it := Some (length (em_code em))]
       else em_tagPositions em)"
    "m_type it = Tag \<Longrightarrow> tagId it < length (em_tagPositions em) \<and> em_tagPositions em ! tagId it = None \<and>
       fst (tagRef it) = - 1 \<and> m_data it \<noteq> 0"
  using assms
  by (cases "m_type it"; auto simp: emitCase_def itemBytes_def operandWidth_def tagId_def withPushedValue_def item_ok_def
      split_tagRef bind_result_Inr_iff Let_def dest: emitTag_effects split: option.splits if_splits)+

lemma invalidTagPosition_effects:
  assumes "invalidTagPosition it em = Inr em'"
  shows "em_tagPositions em' = (if m_type it = Tag then em_tagPositions em
       else (em_tagPositions em)[0 := Some (case hd (em_tagPositions em) of None \<Rightarrow> length (em_code em) | Some p \<Rightarrow> p)])"
    "m_type it \<noteq> Tag \<Longrightarrow> em_tagPositions em \<noteq> []"
    "em_code em' = em_code em" "em_links em' = em_links em" "em_tagRef em' = em_tagRef em"
    "em_dataRef em' = em_dataRef em" "em_subRef em' = em_subRef em" "em_sizeRef em' = em_sizeRef em"
    "em_items em' = em_items em"
  using assms by (auto simp: invalidTagPosition_def split: list.splits option.splits if_splits)

text \<open>The state after the items \<open>done\<close>, in terms of their positions.\<close>

definition itemLocs :: "AssemblyData \<Rightarrow> LinkerObject list \<Rightarrow> Widths \<Rightarrow> AssemblyItems \<Rightarrow> (nat \<times> AssemblyItem) list" where
  "itemLocs a subs w items = located (\<lambda>it. length (itemBytes a subs w 0 it)) 0 items"

definition places :: "AssemblyItemType \<Rightarrow> (nat \<times> AssemblyItem) list \<Rightarrow> (nat \<times> AssemblyItem) list" where
  "places ty loc = filter (\<lambda>l. m_type (snd l) = ty) loc"

definition tags_at :: "(nat \<times> AssemblyItem) list \<Rightarrow> nat option list \<Rightarrow> bool" where
  "tags_at loc ps \<longleftrightarrow>
     (\<forall>(p, it) \<in> set (places Tag loc). tagId it < length ps \<and> ps ! tagId it = Some p \<and> fst (tagRef it) = - 1 \<and> m_data it \<noteq> 0) \<and>
     (\<forall>t p. t < length ps \<longrightarrow> ps ! t = Some p \<longrightarrow>
        (\<exists>it. (p, it) \<in> set loc \<and> (if m_type it = Tag then tagId it = t else t = 0)))"

definition emitted :: "AssemblyData \<Rightarrow> LinkerObject list \<Rightarrow> Widths \<Rightarrow> AssemblyItems \<Rightarrow> Emission \<Rightarrow> bool" where
  "emitted a subs w items em \<longleftrightarrow>
     (let loc = itemLocs a subs w items in
      em_code em = code.render a subs w (\<lambda>_. 0) loc \<and>
      em_links em = map (\<lambda>(p, it). (p + 1, the (map_of (a_libraries a) (m_data it)))) (places PushLibraryAddress loc) \<and>
      em_tagRef em = map (\<lambda>(p, it). (p + 1, tagRef it)) (places PushTag loc) \<and>
      em_dataRef em = map (\<lambda>(p, it). (m_data it, of_nat (p + 1))) (places PushData loc) \<and>
      em_subRef em = map (\<lambda>(p, it). (ucast (m_data it), p + 1)) (places PushSub loc) \<and>
      em_sizeRef em = map (\<lambda>(p, it). of_nat (p + 1)) (places PushProgramSize loc) \<and>
      em_items em = map (withPushedValue subs) items \<and>
      (\<forall>it \<in> set items. item_ok a subs it) \<and>
      length (em_tagPositions em) = unat (a_usedTags a) \<and>
      tags_at loc (em_tagPositions em))"

lemma places_simps [simp]:
  "places ty [] = []"
  "places ty (loc @ loc') = places ty loc @ places ty loc'"
  "places ty ((p, it) # loc) = (if m_type it = ty then (p, it) # places ty loc else places ty loc)"
  by (simp_all add: places_def)

lemma itemLocs_snoc:
  "itemLocs a subs w (items @ [it]) = itemLocs a subs w items @ [(length (code.render a subs w vals (itemLocs a subs w items)), it)]"
  by (simp add: itemLocs_def located_append code.length_render)

lemma itemLocs_less:
  "(p, it) \<in> set (itemLocs a subs w items) \<Longrightarrow> p < length (code.render a subs w vals (itemLocs a subs w items))"
proof (induction items rule: rev_induct)
  case (snoc i items)
  have "0 < length (itemBytes a subs w v i)" for v using code.nonempty by blast
  with snoc show ?case by (auto simp: itemLocs_snoc [where vals = vals])
qed (simp add: itemLocs_def)

lemma places_less:
  "x \<in> set (places ty (itemLocs a subs w items)) \<Longrightarrow> fst x < length (code.render a subs w vals (itemLocs a subs w items))"
  using itemLocs_less [of "fst x" "snd x"] by (auto simp: places_def)

lemma places_map_put:
  assumes "n = length (code.render a subs w vals (itemLocs a subs w items))"
  shows "map_put (Suc n) v (map (\<lambda>(p, it). (Suc p, f it)) (places ty (itemLocs a subs w items))) =
    map (\<lambda>(p, it). (Suc p, f it)) (places ty (itemLocs a subs w items)) @ [(Suc n, v)]"
  using places_less [where vals = vals, of _ ty a subs w items] assms
  by (intro map_put_last) force

lemma tags_at_snoc_other:
  assumes "tags_at loc ps" "m_type it \<noteq> Tag" "ps \<noteq> []"
  shows "tags_at (loc @ [(n, it)]) (ps[0 := Some (case hd ps of None \<Rightarrow> n | Some p \<Rightarrow> p)])"
  unfolding tags_at_def
proof (intro conjI allI impI ballI)
  have hd: "hd ps = ps ! 0" using assms(3) by (simp add: hd_conv_nth)
  fix l assume "l \<in> set (places Tag (loc @ [(n, it)]))"
  moreover obtain p i where "l = (p, i)" by (cases l)
  ultimately have l: "l = (p, i)" "(p, i) \<in> set (places Tag loc)" using assms(2) by simp_all
  with assms(1) have "tagId i < length ps" "ps ! tagId i = Some p" "fst (tagRef i) = - 1" "m_data i \<noteq> 0"
    by (auto simp: tags_at_def)
  then show "case l of (p, i) \<Rightarrow> tagId i < length (ps[0 := Some (case hd ps of None \<Rightarrow> n | Some p \<Rightarrow> p)]) \<and>
      ps[0 := Some (case hd ps of None \<Rightarrow> n | Some p \<Rightarrow> p)] ! tagId i = Some p \<and> fst (tagRef i) = - 1 \<and> m_data i \<noteq> 0"
    by (cases "tagId i = 0") (auto simp: l hd)
next
  fix t p assume t: "t < length (ps[0 := Some (case hd ps of None \<Rightarrow> n | Some p \<Rightarrow> p)])"
    and p: "ps[0 := Some (case hd ps of None \<Rightarrow> n | Some p \<Rightarrow> p)] ! t = Some p"
  have hd: "hd ps = ps ! 0" using assms(3) by (simp add: hd_conv_nth)
  have old: "\<exists>i. (p, i) \<in> set loc \<and> (if m_type i = Tag then tagId i = t else t = 0)" if "ps ! t = Some p"
    using assms(1) t that by (simp add: tags_at_def)
  show "\<exists>i. (p, i) \<in> set (loc @ [(n, it)]) \<and> (if m_type i = Tag then tagId i = t else t = 0)"
  proof (cases "t = 0 \<and> ps ! 0 = None")
    case True
    then have "p = n" using p t by (simp add: hd)
    with True assms(2) show ?thesis by auto
  next
    case False
    then have "ps ! t = Some p" using p t by (cases "t = 0") (auto simp: hd)
    with old show ?thesis by auto
  qed
qed

lemma tags_at_snoc_tag:
  assumes "tags_at loc ps" "m_type it = Tag" "tagId it < length ps" "ps ! tagId it = None"
    and "fst (tagRef it) = - 1" "m_data it \<noteq> 0"
  shows "tags_at (loc @ [(n, it)]) (ps[tagId it := Some n])"
  unfolding tags_at_def
proof (intro conjI allI impI ballI)
  fix l assume "l \<in> set (places Tag (loc @ [(n, it)]))"
  moreover obtain p i where l: "l = (p, i)" by (cases l)
  ultimately consider "(p, i) \<in> set (places Tag loc)" | "p = n" "i = it" using assms(2) by auto
  then show "case l of (p, i) \<Rightarrow> tagId i < length (ps[tagId it := Some n]) \<and>
      ps[tagId it := Some n] ! tagId i = Some p \<and> fst (tagRef i) = - 1 \<and> m_data i \<noteq> 0"
  proof cases
    case 1
    with assms(1) have "tagId i < length ps" "ps ! tagId i = Some p" "fst (tagRef i) = - 1" "m_data i \<noteq> 0"
      by (auto simp: tags_at_def)
    moreover from this(2) assms(4) have "tagId it \<noteq> tagId i" by auto
    ultimately show ?thesis by (simp add: l)
  qed (use assms in \<open>simp add: l\<close>)
next
  fix t p assume t: "t < length (ps[tagId it := Some n])" and p: "ps[tagId it := Some n] ! t = Some p"
  show "\<exists>i. (p, i) \<in> set (loc @ [(n, it)]) \<and> (if m_type i = Tag then tagId i = t else t = 0)"
  proof (cases "t = tagId it")
    case True
    with p t assms(2) show ?thesis by auto
  next
    case False
    with p t have "t < length ps" "ps ! t = Some p" by simp_all
    with assms(1) have "\<exists>i. (p, i) \<in> set loc \<and> (if m_type i = Tag then tagId i = t else t = 0)"
      unfolding tags_at_def by blast
    then show ?thesis by auto
  qed
qed

lemma emitItem_emitted:
  assumes "emitted a subs w items em" "emitItem a subs w it em = Inr em'"
  shows "emitted a subs w (items @ [it]) em'"
proof -
  let ?loc = "itemLocs a subs w items"
  let ?n = "length (code.render a subs w (\<lambda>_. 0) ?loc)"
  obtain em1 where em1: "invalidTagPosition it em = Inr em1" "emitCase a subs w it em1 = Inr em'"
    using assms(2) by (auto simp: emitItem_def bind_result_Inr_iff)
  note i = invalidTagPosition_effects [OF em1(1)] and c = emitCase_effects [OF em1(2)]
  note snoc = itemLocs_snoc [where vals = "\<lambda>_. 0", of a subs w items it]
  have e: "em_code em = code.render a subs w (\<lambda>_. 0) ?loc"
    "em_links em = map (\<lambda>(p, it). (p + 1, the (map_of (a_libraries a) (m_data it)))) (places PushLibraryAddress ?loc)"
    "em_tagRef em = map (\<lambda>(p, it). (p + 1, tagRef it)) (places PushTag ?loc)"
    "em_dataRef em = map (\<lambda>(p, it). (m_data it, of_nat (p + 1))) (places PushData ?loc)"
    "em_subRef em = map (\<lambda>(p, it). (ucast (m_data it), p + 1)) (places PushSub ?loc)"
    "em_sizeRef em = map (\<lambda>(p, it). of_nat (p + 1)) (places PushProgramSize ?loc)"
    "em_items em = map (withPushedValue subs) items"
    "\<forall>it \<in> set items. item_ok a subs it" "length (em_tagPositions em) = unat (a_usedTags a)"
    "tags_at ?loc (em_tagPositions em)"
    using assms(1) by (simp_all add: emitted_def Let_def)
  have "tags_at (?loc @ [(?n, it)]) (em_tagPositions em')"
  proof (cases "m_type it = Tag")
    case True
    with tags_at_snoc_tag [OF e(10) True, of ?n] c(9,10) i(1,3) e(1) show ?thesis by simp
  next
    case False
    with tags_at_snoc_other [OF e(10) False i(2) [OF False], of ?n] show ?thesis
      unfolding c(9) i(1) i(3) e(1) by simp
  qed
  moreover have "length (em_tagPositions em') = unat (a_usedTags a)" using c(9) i(1) e(9) by simp
  ultimately show ?thesis
    unfolding emitted_def Let_def snoc
    by (intro conjI; (simp add: c(1-8) i(3-) places_map_put [OF refl] e(1-7) e(8))?)
qed

lemma emitItems_emitted:
  "emitted a subs w done em \<Longrightarrow> emitItems a subs w items em = Inr em' \<Longrightarrow> emitted a subs w (done @ items) em'"
proof (induction items arbitrary: "done" em)
  case (Cons it items)
  then obtain em1 where "emitItem a subs w it em = Inr em1" "emitItems a subs w items em1 = Inr em'"
    by (auto simp: bind_result_Inr_iff)
  with Cons.IH [OF emitItem_emitted [OF Cons.prems(1)]] show ?case by simp
qed simp

section \<open>The assembled code\<close>

fun numbered :: "size_t \<Rightarrow> LinkerObject list \<Rightarrow> (size_t \<times> bytes) list" where
  "numbered i [] = []"
| "numbered i (sub # subs) = (i, lo_bytecode sub) # numbered (i + 1) subs"

lemma placeSubs_numbered:
  "lo_bytecode (placeSubs n refs i subs ob) = placeData n refs (numbered i subs) (lo_bytecode ob)"
  by (induction n refs i subs ob rule: placeSubs.induct) (simp_all add: object_append_def Let_def)

lemma numbered_index:
  "j < length subs \<Longrightarrow> (i + of_nat j, lo_bytecode (subs ! j)) \<in> set (numbered i subs)"
proof (induction subs arbitrary: i j)
  case (Cons sub subs)
  show ?case
  proof (cases j)
    case (Suc k)
    with Cons.IH [of k "i + 1"] Cons.prems show ?thesis by (simp add: add.assoc add.commute add.left_commute)
  qed simp
qed simp

lemma fst_numbered: "map fst (numbered i subs) = map (\<lambda>j. i + of_nat j) [0..<length subs]"
proof (induction subs arbitrary: i)
  case (Cons sub subs)
  have "map (\<lambda>j. i + of_nat j) [0..<Suc n] = i # map (\<lambda>j. i + 1 + of_nat j) [0..<n]" for n
    by (simp add: upt_conv_Cons map_Suc_upt [symmetric] comp_def add.assoc del: upt_Suc)
  with Cons show ?case by simp
qed simp

lemma distinct_numbered: "length subs \<le> 2 ^ 64 \<Longrightarrow> distinct (map fst (numbered i subs))"
  unfolding fst_numbered distinct_map inj_on_def
  by (simp, simp add: word_unat_eq_iff unat_of_nat)

definition slice_at :: "bytes \<Rightarrow> nat \<Rightarrow> bytes \<Rightarrow> bool" where
  "slice_at code v d \<longleftrightarrow> v + length d \<le> length code \<and> take (length d) (drop v code) = d"

definition operand_ok :: "AssemblyData \<Rightarrow> Assembled list \<Rightarrow> nat option list \<Rightarrow> bytes \<Rightarrow> nat \<Rightarrow> AssemblyItem \<Rightarrow> bool" where
  "operand_ok a subs positions code v it \<longleftrightarrow>
     (case m_type it of
        Tag \<Rightarrow> tagId it < length positions \<and> positions ! tagId it = Some v
      | PushTag \<Rightarrow> target positions (map as_tagPositions subs) (tagRef it) = Some v \<and>
          (fst (tagRef it) = - 1 \<or> unat (fst (tagRef it)) < length subs)
      | PushData \<Rightarrow> (\<forall>d. map_of (a_data a) (m_data it) = Some d \<longrightarrow> slice_at code v d)
      | PushSub \<Rightarrow> tagId it < length subs \<longrightarrow> slice_at code v (lo_bytecode (as_object (subs ! tagId it)))
      | PushProgramSize \<Rightarrow> v = length code
      | _ \<Rightarrow> True)"

definition laid_out :: "AssemblyData \<Rightarrow> Assembled list \<Rightarrow> Widths \<Rightarrow> (AssemblyItem \<Rightarrow> nat) \<Rightarrow> bytes \<Rightarrow> Assembled \<Rightarrow> bool" where
  "laid_out a subs w opval tail r \<longleftrightarrow>
     (let objects = map as_object subs in
      lo_bytecode (as_object r) = concat (map (\<lambda>it. itemBytes a objects w (opval it) it) (a_items a)) @ tail \<and>
      (\<forall>it \<in> set (a_items a). item_ok a objects it \<and>
         operand_ok a subs (as_tagPositions r) (lo_bytecode (as_object r)) (opval it) it \<and>
         (m_type it = PushTag \<longrightarrow> bytesRequired (opval it) \<le> bytesPerTag w)) \<and>
      tags_at (itemLocs a objects w (a_items a)) (as_tagPositions r) \<and>
      length (as_tagPositions r) = unat (a_usedTags a) \<and>
      as_items r = map (withPushedValue objects) (a_items a))"

lemma emitted_initial:
  "emitted a subs w [] \<lparr>em_code = [], em_links = [], em_tagPositions = replicate (unat (a_usedTags a)) None,
     em_tagRef = [], em_dataRef = [], em_subRef = [], em_sizeRef = [], em_items = []\<rparr>"
  by (simp add: emitted_def itemLocs_def tags_at_def)

lemma placed_slice:
  assumes "placed r tail d v" "length code = r"
  shows "slice_at (code @ tail) v d"
  using assms by (auto simp: placed_def slice_at_def)

lemma places_subset: "set (places ty loc) \<subseteq> set loc"
  by (auto simp: places_def)

lemma places_at:
  "(p, it) \<in> set (itemLocs a subs w items) \<Longrightarrow> (p, it') \<in> set (places ty (itemLocs a subs w items)) \<Longrightarrow> it' = it \<and> m_type it = ty"
  using code.located_unique [of p it a subs w 0 items it'] by (auto simp: places_def itemLocs_def)

text \<open>Filling in keeps the length.\<close>

lemma length_patch [simp]: "length (patch pos n v code) = length code"
  by (auto simp: patch_def overwrite_def toBigEndianInto_digits min_def)

lemma length_patchAll [simp]: "length (patchAll ps n v code) = length code"
  unfolding patchAll_def by (induction ps arbitrary: code) simp_all

lemma length_placeData: "length code \<le> length (placeData n refs data code)"
proof (induction n refs data code rule: placeData.induct)
  case (2 n refs h d data code)
  then show ?case by (auto simp: Let_def elim: order_trans [rotated])
qed simp

lemma length_fillTags: "fillTags n ownTags subs refs code = Inr code' \<Longrightarrow> length code' = length code"
  by (induction n ownTags subs refs code rule: fillTags.induct) (auto simp: Let_def split: option.splits)

text \<open>
  What stands behind the items: an \<open>INVALID\<close>, the sub-assemblies that are pushed and the data that is
  pushed, each once and in the order of their tables, and the auxiliary data.
\<close>

definition assembledTail :: "AssemblyData \<Rightarrow> LinkerObject list \<Rightarrow> bytes" where
  "assembledTail a objects =
     (if objects \<noteq> [] \<or> a_data a \<noteq> [] \<or> a_auxiliaryData a \<noteq> [] then [iINVALID] else []) @
     selected {ucast (m_data it) | it. it \<in> set (a_items a) \<and> m_type it = PushSub} (numbered 0 objects) @
     selected {m_data it | it. it \<in> set (a_items a) \<and> m_type it = PushData} (a_data a) @
     a_auxiliaryData a"

lemma places_items: "snd ` set (places ty (itemLocs a subs w items)) = {it \<in> set items. m_type it = ty}"
proof -
  have "set items = snd ` set (itemLocs a subs w items)" by (metis itemLocs_def list.set_map map_snd_located)
  then show ?thesis by (force simp: places_def)
qed

lemma assembleWith_layout:
  assumes "assembleWith a subs = Inr r" "length subs \<le> 2 ^ 64" "distinct (map fst (a_data a))"
    and bound: "length (lo_bytecode (as_object r)) < 2 ^ 32"
  shows "\<exists>size opval. assembly_bytesRequired a (of_nat (subTagSize subs)) = Inr size \<and>
    laid_out a subs (widths a (map as_object subs) size) opval (assembledTail a (map as_object subs)) r"
proof -
  define objects where "objects = map as_object subs"
  from assms(1) obtain size w em code where size: "assembly_bytesRequired a (of_nat (subTagSize subs)) = Inr size"
    and w: "w = widths a objects size"
    and em: "emitItems a objects w (a_items a)
         \<lparr>em_code = [], em_links = [], em_tagPositions = replicate (unat (a_usedTags a)) None,
          em_tagRef = [], em_dataRef = [], em_subRef = [], em_sizeRef = [], em_items = []\<rparr> = Inr em"
    and tags: "fillTags (bytesPerTag w) (em_tagPositions em) (map as_tagPositions subs) (em_tagRef em)
          (lo_bytecode (placeSubs (bytesPerDataRef w) (em_subRef em) 0 objects
             \<lparr>lo_bytecode = em_code em @ (if subs \<noteq> [] \<or> a_data a \<noteq> [] \<or> a_auxiliaryData a \<noteq> [] then [iINVALID] else []),
              lo_linkReferences = em_links em\<rparr>)) = Inr code"
    and r: "lo_bytecode (as_object r) = patchAll (map unat (em_sizeRef em)) (bytesPerDataRef w)
          (length (placeData (bytesPerDataRef w) (map (apsnd unat) (em_dataRef em)) (a_data a) code @ a_auxiliaryData a))
          (placeData (bytesPerDataRef w) (map (apsnd unat) (em_dataRef em)) (a_data a) code @ a_auxiliaryData a)"
      "as_tagPositions r = em_tagPositions em" "as_items r = em_items em"
    by (auto simp: assembleWith_def bind_result_Inr_iff Let_def objects_def)
  let ?n = "bytesPerDataRef w"
  define loc where "loc = itemLocs a objects w (a_items a)"
  define inv where "inv = (if subs \<noteq> [] \<or> a_data a \<noteq> [] \<or> a_auxiliaryData a \<noteq> [] then [iINVALID] else [])"
  define R where "R = sum_list (map (\<lambda>it. length (itemBytes a objects w 0 it)) (a_items a))"
  let ?render = "\<lambda>vals. code.render a objects w vals loc"
  have loc: "loc = located (\<lambda>it. length (itemBytes a objects w 0 it)) 0 (a_items a)" by (simp add: loc_def itemLocs_def)
  have len: "length (?render vals) = R" for vals by (simp add: loc R_def code.length_render)
  have sub: "set (places ty loc) \<subseteq> set (located (\<lambda>it. length (itemBytes a objects w 0 it)) 0 (a_items a))" for ty
    unfolding loc by (rule places_subset)
  have unique: "(p, it) \<in> set loc \<Longrightarrow> p \<in> fst ` set (places ty loc) \<Longrightarrow> m_type it = ty" for p it ty
    unfolding loc_def using places_at by fastforce
  have mem: "(p, it) \<in> set loc \<Longrightarrow> m_type it = ty \<Longrightarrow> (p, it) \<in> set (places ty loc)" for p it ty
    by (simp add: places_def)
  have width: "\<forall>(p, it) \<in> set (places ty loc). operandWidth w it = (if ty = PushTag then bytesPerTag w else ?n)"
    if "ty \<in> {PushTag, PushSub, PushData, PushProgramSize}" for ty
    using that by (auto simp: places_def operandWidth_def)
  have e0: "em_code em = ?render (\<lambda>_. 0)"
    "em_dataRef em = map (\<lambda>(p, it). (m_data it, of_nat (Suc p))) (places PushData loc)"
    "em_sizeRef em = map (\<lambda>(p, it). of_nat (Suc p)) (places PushProgramSize loc)"
    using emitItems_emitted [OF emitted_initial em] by (simp_all add: emitted_def Let_def loc_def)
  have "R \<le> length (lo_bytecode (as_object r))"
    using length_fillTags [OF tags] length_placeData [of "em_code em @ inv" ?n "em_subRef em" "numbered 0 objects"]
      length_placeData [of code ?n "map (apsnd unat) (em_dataRef em)" "a_data a"] len [of "\<lambda>_. 0"]
    unfolding r(1) placeSubs_numbered inv_def [symmetric] by (simp add: e0(1))
  with bound have small: "unat (of_nat (Suc p) :: 32 word) = Suc p" if "(p, it) \<in> set (places ty loc)" for p it ty
    using that places_less [of "(p, it)" ty a objects w "a_items a" "\<lambda>_. 0"] len [of "\<lambda>_. 0"]
    by (simp add: loc_def unat_of_nat take_bit_nat_eq_self del: of_nat_Suc)
  have refs: "map (apsnd unat) (em_dataRef em) = map (\<lambda>(p, it). (m_data it, Suc p)) (places PushData loc)"
    "map unat (em_sizeRef em) = map (\<lambda>(p, it). Suc p) (places PushProgramSize loc)"
    unfolding e0(2,3) using small by (auto simp del: of_nat_Suc)
  have e: "em_code em = ?render (\<lambda>_. 0)"
    "em_tagRef em = map (\<lambda>(p, it). (Suc p, tagRef it)) (places PushTag loc)"
    "map (apsnd unat) (em_dataRef em) = map (\<lambda>(p, it). (m_data it, Suc p)) (places PushData loc)"
    "em_subRef em = map (\<lambda>(p, it). (ucast (m_data it), Suc p)) (places PushSub loc)"
    "map unat (em_sizeRef em) = map (\<lambda>(p, it). Suc p) (places PushProgramSize loc)"
    "em_items em = map (withPushedValue objects) (a_items a)" "\<forall>it \<in> set (a_items a). item_ok a objects it"
    "length (em_tagPositions em) = unat (a_usedTags a)" "tags_at loc (em_tagPositions em)"
    using emitItems_emitted [OF emitted_initial em] refs by (simp_all add: emitted_def Let_def loc_def)
  \<comment> \<open>the sub-assemblies\<close>
  from code.placeData_render [OF sub [of PushSub], where n = ?n and data = "numbered 0 objects" and r = R
      and key = "\<lambda>it. ucast (m_data it)" and vals = "\<lambda>_. 0" and tail = inv]
  obtain vals1 tail1 value1 where 1: "placeData ?n (em_subRef em) (numbered 0 objects) (?render (\<lambda>_. 0) @ inv) = ?render vals1 @ inv @ tail1"
    and tail1: "tail1 = selected ((\<lambda>it. ucast (m_data it)) ` snd ` set (places PushSub loc)) (numbered 0 objects)"
    and other1: "\<forall>p. p \<notin> fst ` set (places PushSub loc) \<longrightarrow> vals1 p = 0"
    and sub1: "\<forall>(p, it) \<in> set (places PushSub loc).
      vals1 p = (if ucast (m_data it) \<in> fst ` set (numbered 0 objects) then value1 (ucast (m_data it)) else 0)"
    and placed1: "\<forall>(k, d) \<in> set (numbered 0 objects). k \<in> (\<lambda>it. ucast (m_data it)) ` snd ` set (places PushSub loc) \<longrightarrow>
      placed R (inv @ tail1) d (value1 k)"
    using width [of PushSub] distinct_numbered [of objects 0] assms(2)
    unfolding loc [symmetric] R_def [symmetric] e(4) by (auto simp: objects_def)
  \<comment> \<open>the tags\<close>
  have "fillTags (bytesPerTag w) (em_tagPositions em) (map as_tagPositions subs)
      (map (\<lambda>(p, it). (Suc p, tagRef it)) (places PushTag loc)) (?render vals1 @ inv @ tail1) = Inr code"
    using tags unfolding placeSubs_numbered inv_def [symmetric] by (simp add: e 1 [unfolded e(4)])
  from code.fillTags_render [OF this [unfolded loc] sub [unfolded loc], folded loc] width [of PushTag]
  obtain vals2 where 2: "code = ?render vals2 @ inv @ tail1"
    and other2: "\<forall>p. p \<notin> fst ` set (places PushTag loc) \<longrightarrow> vals2 p = vals1 p"
    and tag2: "\<forall>(p, it) \<in> set (places PushTag loc).
      target (em_tagPositions em) (map as_tagPositions subs) (tagRef it) = Some (vals2 p) \<and> bytesRequired (vals2 p) \<le> bytesPerTag w \<and>
      (fst (tagRef it) = - 1 \<or> unat (fst (tagRef it)) < length (map as_tagPositions subs))"
    by auto
  \<comment> \<open>the data\<close>
  from code.placeData_render [OF sub [of PushData], where n = ?n and data = "a_data a" and r = R
      and key = m_data and vals = vals2 and tail = "inv @ tail1"]
  obtain vals3 tail3 value3 where 3: "placeData ?n (map (apsnd unat) (em_dataRef em)) (a_data a) code =
      ?render vals3 @ inv @ tail1 @ tail3"
    and tail3: "tail3 = selected (m_data ` snd ` set (places PushData loc)) (a_data a)"
    and other3: "\<forall>p. p \<notin> fst ` set (places PushData loc) \<longrightarrow> vals3 p = vals2 p"
    and data3: "\<forall>(p, it) \<in> set (places PushData loc).
      vals3 p = (if m_data it \<in> fst ` set (a_data a) then value3 (m_data it) else vals2 p)"
    and placed3: "\<forall>(k, d) \<in> set (a_data a). k \<in> m_data ` snd ` set (places PushData loc) \<longrightarrow>
      placed R ((inv @ tail1) @ tail3) d (value3 k)"
    using width [of PushData] assms(3)
    unfolding loc [symmetric] R_def [symmetric] e(3) 2 by auto
  \<comment> \<open>the size\<close>
  define tail where "tail = inv @ tail1 @ tail3 @ a_auxiliaryData a"
  define total where "total = length (?render vals3 @ tail)"
  define vals where "vals = (\<lambda>p. if Suc p \<in> set (map unat (em_sizeRef em)) then total else vals3 p)"
  have "\<forall>q \<in> set (map unat (em_sizeRef em)). \<exists>p it. q = Suc p \<and>
      (p, it) \<in> set (located (\<lambda>it. length (itemBytes a objects w 0 it)) 0 (a_items a)) \<and> operandWidth w it = ?n"
    using sub [of PushProgramSize] width [of PushProgramSize] unfolding e(5) by fastforce
  from code.patchAll_render [OF this, of total vals3 tail]
  have final: "lo_bytecode (as_object r) = ?render vals @ tail"
    unfolding r(1) 3 loc [symmetric] vals_def by (simp add: total_def tail_def)
  define opval where "opval it =
     (case m_type it of
        Tag \<Rightarrow> the (em_tagPositions em ! tagId it)
      | PushTag \<Rightarrow> the (target (em_tagPositions em) (map as_tagPositions subs) (tagRef it))
      | PushSub \<Rightarrow> if ucast (m_data it) \<in> fst ` set (numbered 0 objects) then value1 (ucast (m_data it)) else 0
      | PushData \<Rightarrow> if m_data it \<in> fst ` set (a_data a) then value3 (m_data it) else 0
      | PushProgramSize \<Rightarrow> total
      | _ \<Rightarrow> 0)" for it
  have size_ref: "Suc p \<in> set (map unat (em_sizeRef em)) \<longleftrightarrow> m_type it = PushProgramSize" if "(p, it) \<in> set loc" for p it
  proof -
    have "Suc p \<in> set (map unat (em_sizeRef em)) \<longleftrightarrow> p \<in> fst ` set (places PushProgramSize loc)"
      unfolding e(5) by force
    with unique [OF that] mem [OF that] show ?thesis by force
  qed
  have vals: "vals p = opval it" if it: "(p, it) \<in> set loc" "0 < operandWidth w it" for p it
  proof -
    have not: "m_type it \<noteq> ty \<Longrightarrow> p \<notin> fst ` set (places ty loc)" for ty using unique [OF it(1)] by blast
    consider "m_type it = PushTag" | "m_type it = PushData" | "m_type it = PushSub" | "m_type it = PushProgramSize"
      using it(2) by (cases "m_type it") (simp_all add: operandWidth_def)
    then show ?thesis
    proof cases
      case 1
      then have "vals p = vals2 p" using size_ref [OF it(1)] other3 not [of PushData] by (simp add: vals_def)
      then show ?thesis using tag2 mem [OF it(1) 1] 1 by (auto simp: opval_def)
    next
      case 2
      then have "vals p = vals3 p" "vals2 p = 0"
        using size_ref [OF it(1)] other2 other1 not [of PushTag] not [of PushSub] by (simp_all add: vals_def)
      moreover have "vals3 p = (if m_data it \<in> fst ` set (a_data a) then value3 (m_data it) else vals2 p)"
        using data3 mem [OF it(1) 2] by blast
      ultimately show ?thesis using 2 by (simp add: opval_def)
    next
      case 3
      then have "vals p = vals1 p"
        using size_ref [OF it(1)] other3 other2 not [of PushData] not [of PushTag] by (simp add: vals_def)
      moreover have "vals1 p = (if ucast (m_data it) \<in> fst ` set (numbered 0 objects) then value1 (ucast (m_data it)) else 0)"
        using sub1 mem [OF it(1) 3] by blast
      ultimately show ?thesis using 3 by (simp add: opval_def)
    next
      case 4
      then show ?thesis using size_ref [OF it(1)] by (simp add: vals_def opval_def)
    qed
  qed
  have bytes: "\<forall>(p, it) \<in> set loc. itemBytes a objects w (vals p) it = itemBytes a objects w (opval it) it"
  proof (clarify)
    fix p it assume it: "(p, it) \<in> set loc"
    show "itemBytes a objects w (vals p) it = itemBytes a objects w (opval it) it"
    proof (cases "operandWidth w it = 0")
      case True
      then show ?thesis using code.no_operand by metis
    next
      case False
      then show ?thesis using vals [OF it] by simp
    qed
  qed
  have final': "lo_bytecode (as_object r) = concat (map (\<lambda>it. itemBytes a objects w (opval it) it) (a_items a)) @ tail"
    unfolding final code.render_items [OF bytes] by (simp add: loc)
  have slices: "placed R tail d s \<Longrightarrow> slice_at (lo_bytecode (as_object r)) s d" for d s
    unfolding final by (rule placed_slice) (simp_all add: len)
  have ok: "operand_ok a subs (as_tagPositions r) (lo_bytecode (as_object r)) (opval it) it \<and>
      (m_type it = PushTag \<longrightarrow> bytesRequired (opval it) \<le> bytesPerTag w)" if "it \<in> set (a_items a)" for it
  proof -
    have "it \<in> snd ` set loc" using that by (metis list.set_map loc map_snd_located)
    then obtain p where it: "(p, it) \<in> set loc" by force
    consider "m_type it = Tag" | "m_type it = PushTag" | "m_type it = PushData" | "m_type it = PushSub"
      | "m_type it = PushProgramSize" | "m_type it \<notin> {Tag, PushTag, PushData, PushSub, PushProgramSize}" by blast
    then show ?thesis
    proof cases
      case 1
      then show ?thesis using mem [OF it 1] e(9) by (auto simp: operand_ok_def opval_def r(2) tags_at_def)
    next
      case 2
      then show ?thesis using tag2 mem [OF it 2] by (auto simp: operand_ok_def opval_def r(2))
    next
      case 3
      have "slice_at (lo_bytecode (as_object r)) (opval it) d" if d: "map_of (a_data a) (m_data it) = Some d" for d
      proof (rule slices)
        have k: "m_data it \<in> m_data ` snd ` set (places PushData loc)" using mem [OF it 3] by force
        then have "placed R ((inv @ tail1) @ tail3) d (value3 (m_data it))" using placed3 map_of_SomeD [OF d] by blast
        moreover have "opval it = value3 (m_data it)" using 3 map_of_SomeD [OF d] by (force simp: opval_def)
        ultimately show "placed R tail d (opval it)" unfolding tail_def using placed_append by fastforce
      qed
      with 3 show ?thesis by (simp add: operand_ok_def)
    next
      case 4
      have "slice_at (lo_bytecode (as_object r)) (opval it) (lo_bytecode (as_object (subs ! tagId it)))" if j: "tagId it < length subs"
      proof (rule slices)
        have "(0 + of_nat (tagId it), lo_bytecode (objects ! tagId it)) \<in> set (numbered 0 objects)"
          using j by (intro numbered_index) (simp add: objects_def)
        then have n: "(ucast (m_data it), lo_bytecode (as_object (subs ! tagId it))) \<in> set (numbered 0 objects)"
          using j by (simp add: objects_def tagId_def)
        have "ucast (m_data it) \<in> (\<lambda>it. ucast (m_data it) :: size_t) ` snd ` set (places PushSub loc)" using mem [OF it 4] by force
        with placed1 n have "placed R (inv @ tail1) (lo_bytecode (as_object (subs ! tagId it))) (value1 (ucast (m_data it)))" by blast
        moreover have "opval it = value1 (ucast (m_data it))" using 4 n by (force simp: opval_def)
        ultimately show "placed R tail (lo_bytecode (as_object (subs ! tagId it))) (opval it)"
          using placed_append [of R "inv @ tail1" _ _ "tail3 @ a_auxiliaryData a"] by (simp add: tail_def)
      qed
      with 4 show ?thesis by (simp add: operand_ok_def)
    next
      case 5
      moreover have "length (lo_bytecode (as_object r)) = total"
        unfolding final total_def by (simp add: len)
      ultimately show ?thesis by (simp add: operand_ok_def opval_def)
    next
      case 6
      then show ?thesis by (auto simp: operand_ok_def split: AssemblyItemType.splits)
    qed
  qed
  have "laid_out a subs w opval tail r"
    unfolding laid_out_def Let_def objects_def [symmetric] loc_def [symmetric]
    using final' ok e(6-9) r(2,3) by auto
  moreover have "tail = assembledTail a objects"
    unfolding tail_def tail1 tail3 inv_def assembledTail_def loc_def places_items by (simp add: objects_def setcompr_eq_image)
  ultimately show ?thesis using size w unfolding objects_def by auto
qed

end
