(* ===== verification/Assembler_Links.thy ===== *)
theory Assembler_Links
  imports Assembler_Layout
begin

text \<open>
  The references to libraries in the assembled object: they have places of their own, so
  the object can be linked, and every item for a library address has one.
\<close>

section \<open>References to libraries\<close>

lemma object_ok_code: "object_ok ob \<Longrightarrow> length (lo_bytecode ob) \<le> length code \<Longrightarrow> object_ok (ob\<lparr>lo_bytecode := code\<rparr>)"
  by (fastforce simp: object_ok_def)

lemma placeSubs_object_ok:
  "object_ok ob \<Longrightarrow> \<forall>sub \<in> set subs. object_ok sub \<Longrightarrow> object_ok (placeSubs n refs i subs ob) \<and>
     (\<forall>l \<in> set (lo_linkReferences ob). l \<in> set (lo_linkReferences (placeSubs n refs i subs ob)))"
proof (induction n refs i subs ob rule: placeSubs.induct)
  case (2 n refs i sub subs ob)
  let ?ob = "ob\<lparr>lo_bytecode := patchAll (refsTo i refs) n (length (lo_bytecode ob)) (lo_bytecode ob)\<rparr>"
  have "object_ok ?ob" using 2(2) by (intro object_ok_code) simp_all
  moreover have "object_ok sub" using 2(3) by simp
  ultimately have "object_ok (object_append ?ob sub)"
    "set (lo_linkReferences ob) \<subseteq> set (lo_linkReferences (object_append ?ob sub))"
    by (simp add: object_append_ok) (simp add: object_append_eq \<open>object_ok ?ob\<close> \<open>object_ok sub\<close>)
  with 2 show ?case by (auto simp: Let_def simp del: length_patchAll)
qed simp

lemma sorted_places:
  assumes "\<forall>it. m_type it = ty \<longrightarrow> length (itemBytes a subs w 0 it) \<ge> Suc n"
  shows "sorted_wrt (\<lambda>x y. fst x + n < fst y) (places ty (itemLocs a subs w items)) \<and>
    (\<forall>x \<in> set (places ty (itemLocs a subs w items)). fst x + n < length (code.render a subs w (\<lambda>_. 0) (itemLocs a subs w items)))"
proof (induction items rule: rev_induct)
  case Nil
  then show ?case by (simp add: itemLocs_def)
next
  case (snoc it items)
  then show ?case using assms
    by (auto simp: itemLocs_snoc [where vals = "\<lambda>_. 0"] sorted_wrt_append)
qed

lemma emitted_object_ok:
  assumes "emitted a subs w items em"
  shows "object_ok \<lparr>lo_bytecode = em_code em @ rest, lo_linkReferences = em_links em\<rparr>"
proof -
  have "\<forall>it. m_type it = PushLibraryAddress \<longrightarrow> length (itemBytes a subs w 0 it) \<ge> Suc 20"
    by (simp add: itemBytes_def)
  from sorted_places [OF this, of items] assms show ?thesis
    unfolding object_ok_def
    by (auto simp: emitted_def Let_def sorted_wrt_map case_prod_unfold intro: sorted_wrt_mono_rel [rotated])
qed

lemma assembleWith_links:
  assumes "assembleWith a subs = Inr r" "\<forall>sub \<in> set subs. object_ok (as_object sub)"
  shows "object_ok (as_object r) \<and> (\<exists>size. assembly_bytesRequired a (of_nat (subTagSize subs)) = Inr size \<and>
    (\<forall>(p, it) \<in> set (itemLocs a (map as_object subs) (widths a (map as_object subs) size) (a_items a)).
      m_type it = PushLibraryAddress \<longrightarrow>
        (p + 1, the (map_of (a_libraries a) (m_data it))) \<in> set (lo_linkReferences (as_object r))))"
proof -
  define objects where "objects = map as_object subs"
  from assms(1) obtain size w em code where size: "assembly_bytesRequired a (of_nat (subTagSize subs)) = Inr size"
    and w: "w = widths a objects size"
    and em: "emitItems a objects w (a_items a)
         \<lparr>em_code = [], em_links = [], em_tagPositions = replicate (unat (a_usedTags a)) None,
          em_tagRef = [], em_dataRef = [], em_subRef = [], em_sizeRef = [], em_items = []\<rparr> = Inr em"
    and tags: "fillTags (bytesPerTag w) (em_tagPositions em) (map as_tagPositions subs) (em_tagRef em)
          (lo_bytecode (placeSubs (bytesPerDataRef w) (em_subRef em) 0 objects
             \<lparr>lo_bytecode = em_code em @ (if subs \<noteq> [] \<or> a_data a \<noteq> [] \<or> a_auxiliaryData a \<noteq> [] then [iINVALID] else []),
              lo_linkReferences = em_links em\<rparr>)) = Inr code"
    and r: "as_object r = placeSubs (bytesPerDataRef w) (em_subRef em) 0 objects
             \<lparr>lo_bytecode = em_code em @ (if subs \<noteq> [] \<or> a_data a \<noteq> [] \<or> a_auxiliaryData a \<noteq> [] then [iINVALID] else []),
              lo_linkReferences = em_links em\<rparr>
       \<lparr>lo_bytecode := patchAll (map unat (em_sizeRef em)) (bytesPerDataRef w)
          (length (placeData (bytesPerDataRef w) (map (apsnd unat) (em_dataRef em)) (a_data a) code @ a_auxiliaryData a))
          (placeData (bytesPerDataRef w) (map (apsnd unat) (em_dataRef em)) (a_data a) code @ a_auxiliaryData a)\<rparr>"
    by (auto simp: assembleWith_def bind_result_Inr_iff Let_def objects_def)
  have e: "emitted a objects w (a_items a) em" using emitItems_emitted [OF emitted_initial em] by simp
  note ob = placeSubs_object_ok [OF emitted_object_ok [OF e], of objects "bytesPerDataRef w" "em_subRef em" 0]
  have "\<forall>sub \<in> set objects. object_ok sub" using assms(2) by (simp add: objects_def)
  note ob = ob [OF this]
  have "length code \<le> length (placeData (bytesPerDataRef w) (map (apsnd unat) (em_dataRef em)) (a_data a) code)" by (rule length_placeData)
  with length_fillTags [OF tags] ob have "object_ok (as_object r)" unfolding r by (intro object_ok_code) auto
  moreover have "(p + 1, the (map_of (a_libraries a) (m_data it))) \<in> set (lo_linkReferences (as_object r))"
    if "(p, it) \<in> set (itemLocs a objects w (a_items a))" "m_type it = PushLibraryAddress" for p it
  proof -
    have "(p, it) \<in> set (places PushLibraryAddress (itemLocs a objects w (a_items a)))" using that by (simp add: places_def)
    then have "(p + 1, the (map_of (a_libraries a) (m_data it))) \<in> set (em_links em)"
      using e by (force simp: emitted_def Let_def)
    with ob show ?thesis unfolding r by auto
  qed
  ultimately show ?thesis using size unfolding w objects_def by blast
qed

lemma assemble_object_ok:
  shows "assemble asm = Inr r \<Longrightarrow> object_ok (as_object r)"
    and "assembleSubs subs = Inr rs \<Longrightarrow> \<forall>sub \<in> set rs. object_ok (as_object sub)"
proof (induction asm and subs arbitrary: r and rs rule: assemble_assembleSubs.induct)
  case (1 a subs)
  then show ?case using assembleWith_links by (auto simp: bind_result_Inr_iff)
qed (auto simp: bind_result_Inr_iff)

end
