(* ===== verification/Bytecode_Machine.thy ===== *)
theory Bytecode_Machine
  imports Assembler_Layout Rewriting
begin

text \<open>
  Execution of bytecode, the level below the assembly items: a position in the code instead
  of the items that remain, immediate data instead of \<open>link\<close>, and jumps to positions where
  an instruction starts that is a \<open>JUMPDEST\<close>. The other instructions act as in the item
  machine. The assembled code of a list of items is shown to execute as the items do.
\<close>

section \<open>The machine\<close>

datatype ('e, 'w) byte_progress = Next "nat \<times> u256 list \<times> 'w" | Stopped 'e 'w | Stuck

definition immediate :: "byte \<Rightarrow> nat" where
  "immediate i = (if isPushInstruction i then unat (getPushNumber i) else 0)"

fun instructionStarts :: "nat \<Rightarrow> bytes \<Rightarrow> nat list" where
  "instructionStarts pos [] = []"
| "instructionStarts pos (i # bs) = pos # instructionStarts (pos + 1 + immediate i) (drop (immediate i) bs)"

definition byte_jump :: "bytes \<Rightarrow> u256 \<Rightarrow> u256 list \<Rightarrow> 'w \<Rightarrow> ('e, 'w) byte_progress" where
  "byte_jump code v s w =
     (if unat v < length code \<and> code ! unat v = iJUMPDEST \<and> unat v \<in> set (instructionStarts 0 code)
      then Next (unat v, s, w) else Stuck)"

text \<open>Immediate data that reaches over the end of the code is filled up with zeros.\<close>

definition byte_step :: "('e, 'w) exec \<Rightarrow> 'e \<Rightarrow> bytes \<Rightarrow> nat \<times> u256 list \<times> 'w \<Rightarrow> ('e, 'w) byte_progress" where
  "byte_step exec stop code = (\<lambda>(pc, s, w).
     if length code \<le> pc then Stopped stop w
     else
       (let i = code ! pc; n = immediate i in
        if isPushInstruction i
        then Next (pc + 1 + n, of_nat (beval (take n (drop (pc + 1) code @ replicate n 0))) # s, w)
        else if i = iJUMP then (case s of v # s \<Rightarrow> byte_jump code v s w | _ \<Rightarrow> Stuck)
        else if i = iJUMPI then
          (case s of v # c # s \<Rightarrow> if c \<noteq> 0 then byte_jump code v s w else Next (pc + 1, s, w) | _ \<Rightarrow> Stuck)
        else (case step_op exec (\<lambda>_. 0) [] i ([], s, w) of
                Running (_, s, w) \<Rightarrow> Next (pc + 1, s, w)
              | Halted e w \<Rightarrow> Stopped e w
              | Failed \<Rightarrow> Stuck)))"

primrec byte_run :: "('e, 'w) exec \<Rightarrow> 'e \<Rightarrow> bytes \<Rightarrow> nat \<Rightarrow> nat \<times> u256 list \<times> 'w \<Rightarrow> ('e, 'w) byte_progress" where
  "byte_run exec stop code 0 c = Next c"
| "byte_run exec stop code (Suc n) c =
     (case byte_step exec stop code c of
        Next c' \<Rightarrow> byte_run exec stop code n c'
      | Stopped e w \<Rightarrow> Stopped e w
      | Stuck \<Rightarrow> Stuck)"

section \<open>Encoded instructions\<close>

lemma pushOpcode_push:
  assumes "1 \<le> n" "n \<le> 32"
  shows "isPushInstruction (pushOpcode n) \<and> unat (getPushNumber (pushOpcode n)) = n"
proof -
  have "list_all (\<lambda>n. isPushInstruction (pushOpcode n) \<and> unat (getPushNumber (pushOpcode n)) = n) [1..<33]"
    by (simp add: upt_rec isPushInstruction_def pushOpcode_def getPushNumber_def)
  with assms show ?thesis unfolding list_all_iff by simp
qed

lemma push_opcodes: "pushOpcode 20 = iPUSH20" "pushOpcode 32 = iPUSH32"
  by (simp_all add: pushOpcode_def)

text \<open>The bytes of one instruction: an opcode and the immediate data it takes.\<close>

definition whole_instruction :: "bytes \<Rightarrow> bool" where
  "whole_instruction bs \<longleftrightarrow> bs \<noteq> [] \<and> length bs = Suc (immediate (hd bs))"

lemma whole_push: "1 \<le> n \<Longrightarrow> n \<le> 32 \<Longrightarrow> length bs = n \<Longrightarrow> whole_instruction (pushOpcode n # bs)"
  using pushOpcode_push [of n] by (simp add: whole_instruction_def immediate_def)

lemma starts_concat:
  "\<forall>bs \<in> set bss. whole_instruction bs \<Longrightarrow>
     set (instructionStarts pos (concat bss @ tail)) =
     {pos + length (concat pre) | pre bs post. bss = pre @ bs # post} \<union>
     set (instructionStarts (pos + length (concat bss)) tail)"
proof (induction bss arbitrary: pos)
  case (Cons bs bss)
  then obtain i imm where bs: "bs = i # imm" "length imm = immediate i"
    by (cases bs) (auto simp: whole_instruction_def)
  have split: "{pos + length (concat pre) | pre b post. bs # bss = pre @ b # post} =
      insert pos {pos + length bs + length (concat pre) | pre b post. bss = pre @ b # post}"
  proof (intro equalityI subsetI)
    fix x assume "x \<in> {pos + length (concat pre) | pre b post. bs # bss = pre @ b # post}"
    then obtain pre b post where "x = pos + length (concat pre)" "bs # bss = pre @ b # post" by blast
    then show "x \<in> insert pos {pos + length bs + length (concat pre) | pre b post. bss = pre @ b # post}"
      by (cases pre) (auto simp: add.assoc)
  next
    fix x assume "x \<in> insert pos {pos + length bs + length (concat pre) | pre b post. bss = pre @ b # post}"
    then consider "x = pos" | pre b post where "x = pos + length bs + length (concat pre)" "bss = pre @ b # post" by blast
    then show "x \<in> {pos + length (concat pre) | pre b post. bs # bss = pre @ b # post}"
    proof cases
      case 1
      then have "x = pos + length (concat [])" "bs # bss = [] @ bs # bss" by simp_all
      then show ?thesis by blast
    next
      case 2
      then have "x = pos + length (concat (bs # pre))" "bs # bss = (bs # pre) @ b # post" by simp_all
      then show ?thesis by blast
    qed
  qed
  from Cons.IH [of "pos + length bs"] Cons.prems show ?case
    unfolding split by (simp add: bs add.assoc)
qed simp

lemma byte_push:
  assumes "1 \<le> n" "n \<le> 32" "length imm = n"
  shows "byte_step exec stop (pre @ (pushOpcode n # imm) @ post) (length pre, s, w) =
    Next (length pre + length (pushOpcode n # imm), of_nat (beval imm) # s, w)"
  using pushOpcode_push [OF assms(1,2)] assms(3)
  by (simp add: byte_step_def nth_append immediate_def Let_def)

lemma byte_other:
  assumes "\<not> isPushInstruction i"
  shows "byte_step exec stop (pre @ [i] @ post) (length pre, s, w) =
    (if i = iJUMP then (case s of v # s \<Rightarrow> byte_jump (pre @ [i] @ post) v s w | _ \<Rightarrow> Stuck)
     else if i = iJUMPI then
       (case s of v # c # s \<Rightarrow> if c \<noteq> 0 then byte_jump (pre @ [i] @ post) v s w else Next (length pre + 1, s, w) | _ \<Rightarrow> Stuck)
     else (case step_op exec (\<lambda>_. 0) [] i ([], s, w) of
             Running (_, s, w) \<Rightarrow> Next (length pre + 1, s, w)
           | Halted e w \<Rightarrow> Stopped e w
           | Failed \<Rightarrow> Stuck))"
  using assms by (simp add: byte_step_def nth_append Let_def split: list.split)

lemma beval_pushBytes:
  assumes "v < 2 ^ 256"
  shows "\<exists>n imm. pushBytes v = pushOpcode n # imm \<and> 1 \<le> n \<and> n \<le> 32 \<and> length imm = n \<and> beval imm = v"
proof -
  let ?n = "max 1 (bytesRequired v)"
  have "v < 256 ^ 32" using assms by simp
  then have "?n \<le> 32" by (simp add: bytesRequired_le_iff del: power_numeral)
  moreover have "v < 256 ^ ?n" using bytesRequired_le_iff [of v ?n] by simp
  ultimately show ?thesis
    by (intro exI [of _ ?n] exI [of _ "be_digits ?n v"])
      (simp add: pushBytes_def Let_def toBigEndianInto_digits beval_be_digits)
qed

lemma length_stringBytes [simp]: "length (stringBytes s) = 32"
  by (simp add: stringBytes_def Let_def)

lemma step_op_end:
  assumes "\<not> isPushInstruction i" "i \<noteq> iJUMP" "i \<noteq> iJUMPI"
  shows "step_op exec link prog i (r, s, w) =
    (case step_op exec (\<lambda>_. 0) [] i ([], s, w) of
       Running (_, s, w) \<Rightarrow> Running (r, s, w) | Halted e w \<Rightarrow> Halted e w | Failed \<Rightarrow> Failed)"
  using assms by (auto simp: step_op_def Let_def split: prod.splits sum.splits option.splits)

lemma beval_zeros [simp]: "beval (replicate n 0) = 0"
  using beval_be_digits [of n 0] by simp

section \<open>The values of the items\<close>

definition labelOf :: "Assembled \<Rightarrow> Assembled list \<Rightarrow> AssemblyItem \<Rightarrow> u256" where
  "labelOf r subs it =
     (case target (as_tagPositions r) (map as_tagPositions subs) (tagRef it) of
        Some v \<Rightarrow> if v < 2 ^ 32 then of_nat v else 0
      | None \<Rightarrow> 0)"

definition linked :: "AssemblyData \<Rightarrow> Assembled list \<Rightarrow> Widths \<Rightarrow> (AssemblyItem \<Rightarrow> nat) \<Rightarrow> Assembled \<Rightarrow> AssemblyItem \<Rightarrow> u256" where
  "linked a subs w opval r it =
     (case m_type it of
        PushString \<Rightarrow> of_nat (beval (stringBytes (the (map_of (a_strings a) (m_data it)))))
      | PushSubSize \<Rightarrow> of_nat (length (lo_bytecode (as_object (subs ! tagId it))))
      | PushData \<Rightarrow> of_nat (opval it mod 256 ^ bytesPerDataRef w)
      | PushSub \<Rightarrow> of_nat (opval it mod 256 ^ bytesPerDataRef w)
      | PushProgramSize \<Rightarrow> of_nat (opval it mod 256 ^ bytesPerDataRef w)
      | Tag \<Rightarrow> labelOf r subs it
      | PushTag \<Rightarrow> labelOf r subs it
      | _ \<Rightarrow> 0)"

text \<open>What the sizes and the items have to be for the code to be read as it was meant.\<close>

definition assembly_fits :: "AssemblyData \<Rightarrow> Assembled list \<Rightarrow> Widths \<Rightarrow> Assembled \<Rightarrow> bool" where
  "assembly_fits a subs w r \<longleftrightarrow>
     bytesPerTag w \<in> {1..4} \<and> bytesPerDataRef w \<in> {1..4} \<and>
     (\<forall>x \<in> set (r # subs). length (lo_bytecode (as_object x)) < 2 ^ 32) \<and>
     (\<forall>it \<in> set (a_items a). m_type it = Operation \<longrightarrow> \<not> isPushInstruction (m_instruction it))"

lemma low_64: "(ucast (x AND 0xffffffffffffffff :: u256) :: size_t) = ucast x"
proof -
  have "x AND 0xffffffffffffffff = take_bit 64 x" by (simp add: take_bit_eq_mask mask_eq_exp_minus_1)
  then show ?thesis by (simp only:) (rule bit_word_eqI, simp add: bit_simps)
qed

lemma tagRef_own: "fst (tagRef it) = - 1 \<Longrightarrow> target ownTags subs (tagRef it) = (if tagId it < length ownTags then ownTags ! tagId it else None)"
  by (simp add: target_def tagRef_def tagId_def low_64)

text \<open>Every item that pushes is a push instruction for the value it is linked to.\<close>

lemma item_push:
  assumes lay: "laid_out a subs w opval tail r" and fits: "assembly_fits a subs w r"
    and it: "it \<in> set (a_items a)" "m_type it \<noteq> Operation" "m_type it \<noteq> Tag"
  shows "\<exists>n imm. itemBytes a (map as_object subs) w (opval it) it = pushOpcode n # imm \<and>
    1 \<le> n \<and> n \<le> 32 \<and> length imm = n \<and> m_type it \<noteq> UndefinedItem \<and>
    (if m_type it = Push then m_data it else linked a subs w opval r it) = of_nat (beval imm)"
proof -
  have item: "item_ok a (map as_object subs) it"
      "operand_ok a subs (as_tagPositions r) (lo_bytecode (as_object r)) (opval it) it"
      "m_type it = PushTag \<longrightarrow> bytesRequired (opval it) \<le> bytesPerTag w"
    using lay it(1) by (auto simp: laid_out_def Let_def)
  have w: "1 \<le> bytesPerTag w" "bytesPerTag w \<le> 4" "1 \<le> bytesPerDataRef w" "bytesPerDataRef w \<le> 4"
    using fits by (simp_all add: assembly_fits_def)
  have hole: ?thesis if "operandWidth w it = n" "1 \<le> n" "n \<le> 4" "m_type it \<in> {PushTag, PushData, PushSub, PushProgramSize}"
    "linked a subs w opval r it = of_nat (opval it mod 256 ^ n)" for n
    using that by (intro exI [of _ n] exI [of _ "be_digits n (opval it)"])
      (auto simp: itemBytes_def beval_be_digits)
  show ?thesis
  proof (cases "m_type it")
    case Push
    then show ?thesis using beval_pushBytes [of "unat (m_data it)"] unsigned_less [of "m_data it", where 'a=nat]
      by (auto simp: itemBytes_def)
  next
    case PushString
    then show ?thesis by (intro exI [of _ 32] exI [of _ "stringBytes (the (map_of (a_strings a) (m_data it)))"])
      (simp add: itemBytes_def linked_def push_opcodes)
  next
    case PushTag
    have "opval it < 256 ^ bytesPerTag w" using item(3) PushTag by (simp add: bytesRequired_le_iff)
    moreover have "256 ^ bytesPerTag w \<le> (256::nat) ^ 4" using w(2) by (intro power_increasing) simp_all
    ultimately have "linked a subs w opval r it = of_nat (opval it mod 256 ^ bytesPerTag w)"
      using item(2) PushTag by (simp add: linked_def operand_ok_def labelOf_def)
    then show ?thesis using PushTag w by (intro hole [of "bytesPerTag w"]) (simp_all add: operandWidth_def)
  next
    case PushSubSize
    have "tagId it < length subs" using item(1) PushSubSize by (simp add: item_ok_def)
    then have "length (lo_bytecode (as_object (subs ! tagId it))) < 2 ^ 32"
      using fits nth_mem unfolding assembly_fits_def by fastforce
    then have len: "length (lo_bytecode (as_object (subs ! tagId it))) < 2 ^ 256" by simp
    from beval_pushBytes [OF this] obtain n imm where
      "pushBytes (length (lo_bytecode (as_object (subs ! tagId it)))) = pushOpcode n # imm"
      "1 \<le> n" "n \<le> 32" "length imm = n" "beval imm = length (lo_bytecode (as_object (subs ! tagId it)))" by blast
    then show ?thesis using PushSubSize \<open>tagId it < length subs\<close>
      by (intro exI [of _ n] exI [of _ imm]) (simp add: itemBytes_def linked_def tagId_def)
  next
    case PushLibraryAddress
    then show ?thesis by (intro exI [of _ 20] exI [of _ "replicate 20 0"])
      (simp add: itemBytes_def linked_def push_opcodes)
  next
    case PushDeployTimeAddress
    then show ?thesis by (intro exI [of _ 20] exI [of _ "replicate 20 0"])
      (simp add: itemBytes_def linked_def push_opcodes)
  next
    case UndefinedItem
    then show ?thesis using item(1) by (simp add: item_ok_def)
  next
    case PushData
    then show ?thesis using w by (intro hole [of "bytesPerDataRef w"]) (simp_all add: operandWidth_def linked_def)
  next
    case PushSub
    then show ?thesis using w by (intro hole [of "bytesPerDataRef w"]) (simp_all add: operandWidth_def linked_def)
  next
    case PushProgramSize
    then show ?thesis using w by (intro hole [of "bytesPerDataRef w"]) (simp_all add: operandWidth_def linked_def)
  qed (use it in simp_all)
qed

lemma item_whole:
  assumes "laid_out a subs w opval tail r" "assembly_fits a subs w r" "it \<in> set (a_items a)"
  shows "whole_instruction (itemBytes a (map as_object subs) w (opval it) it)"
proof (cases "m_type it = Operation \<or> m_type it = Tag")
  case True
  then show ?thesis using assms(2,3)
    by (auto simp: itemBytes_def whole_instruction_def immediate_def assembly_fits_def isPushInstruction_def word_le_nat_alt)
next
  case False
  with item_push [OF assms] obtain n imm where "itemBytes a (map as_object subs) w (opval it) it = pushOpcode n # imm"
    "1 \<le> n" "n \<le> 32" "length imm = n" by auto
  with whole_push show ?thesis by simp
qed

section \<open>The code executes as the items do\<close>

definition codeOf :: "AssemblyData \<Rightarrow> Assembled list \<Rightarrow> Widths \<Rightarrow> (AssemblyItem \<Rightarrow> nat) \<Rightarrow> AssemblyItems \<Rightarrow> bytes" where
  "codeOf a subs w opval items = concat (map (\<lambda>it. itemBytes a (map as_object subs) w (opval it) it) items)"

lemma codeOf_simps [simp]:
  "codeOf a subs w opval [] = []"
  "codeOf a subs w opval (it # items) = itemBytes a (map as_object subs) w (opval it) it @ codeOf a subs w opval items"
  "codeOf a subs w opval (xs @ ys) = codeOf a subs w opval xs @ codeOf a subs w opval ys"
  by (simp_all add: codeOf_def)

lemma length_codeOf:
  "length (codeOf a subs w opval items) = sum_list (map (\<lambda>it. length (itemBytes a (map as_object subs) w 0 it)) items)"
proof (induction items)
  case (Cons it items)
  then show ?case using code.length_value [of a "map as_object subs" w "opval it" it] by simp
qed simp

lemma tag_label:
  assumes lay: "laid_out a subs w opval tail r" and fits: "assembly_fits a subs w r"
    and items: "a_items a = pre @ tag # post" and tag: "m_type tag = Tag"
  shows "linked a subs w opval r tag = of_nat (length (codeOf a subs w opval pre))"
    "length (codeOf a subs w opval pre) < 2 ^ 32"
    "as_tagPositions r ! tagId tag = Some (length (codeOf a subs w opval pre))"
    "tagId tag < length (as_tagPositions r)"
proof -
  let ?p = "length (codeOf a subs w opval pre)"
  have code: "lo_bytecode (as_object r) = codeOf a subs w opval (a_items a) @ tail"
    and tags: "tags_at (itemLocs a (map as_object subs) w (a_items a)) (as_tagPositions r)"
    using lay by (simp_all add: laid_out_def Let_def codeOf_def)
  have "(?p, tag) \<in> set (places Tag (itemLocs a (map as_object subs) w (a_items a)))"
    using tag by (simp add: items itemLocs_def located_append length_codeOf)
  with tags show pos: "as_tagPositions r ! tagId tag = Some ?p" "tagId tag < length (as_tagPositions r)"
    by (auto simp: tags_at_def)
  show less: "?p < 2 ^ 32" using fits code by (simp add: assembly_fits_def items)
  have "fst (tagRef tag) = - 1"
    using tags \<open>(?p, tag) \<in> _\<close> by (auto simp: tags_at_def)
  with pos less tag show "linked a subs w opval r tag = of_nat ?p"
    by (simp add: linked_def labelOf_def tagRef_own)
qed

lemma jump_code:
  assumes lay: "laid_out a subs w opval tail r" and fits: "assembly_fits a subs w r"
    and t: "find_tag (linked a subs w opval r) (a_items a) v = Some rest"
  shows "\<exists>pre. a_items a = pre @ rest \<and>
    byte_jump (lo_bytecode (as_object r)) v s st = Next (length (codeOf a subs w opval pre), s, st)"
proof -
  let ?B = "\<lambda>it. itemBytes a (map as_object subs) w (opval it) it"
  obtain pre tag post where items: "a_items a = pre @ tag # post" "rest = tag # post" "m_type tag = Tag"
    using find_tag_Some [OF t] by auto
  have "linked a subs w opval r tag = v" using find_tag_label [OF t] items(2) by simp
  let ?p = "length (codeOf a subs w opval pre)"
  note label = tag_label [OF lay fits items(1,3)]
  have v: "unat v = ?p"
    using label(1,2) \<open>linked a subs w opval r tag = v\<close> by (auto simp: unat_of_nat)
  have code: "lo_bytecode (as_object r) = codeOf a subs w opval pre @ ?B tag @ codeOf a subs w opval post @ tail"
    using lay by (simp add: laid_out_def Let_def codeOf_def items(1))
  have tag: "?B tag = [iJUMPDEST]" using items(3) by (simp add: itemBytes_def)
  have "\<forall>bs \<in> set (map ?B (a_items a)). whole_instruction bs" using item_whole [OF lay fits] by auto
  from starts_concat [OF this, of 0 tail]
  have "?p \<in> set (instructionStarts 0 (lo_bytecode (as_object r)))"
    using lay by (auto simp: laid_out_def Let_def items(1) codeOf_def)
  then have "byte_jump (lo_bytecode (as_object r)) v s st = Next (?p, s, st)"
    by (simp add: byte_jump_def v) (simp add: code tag nth_append)
  with items show ?thesis by blast
qed

lemma step_code:
  assumes lay: "laid_out a subs w opval tail r" and fits: "assembly_fits a subs w r"
    and items: "a_items a = before @ it # rest"
  shows "case step exec stop (linked a subs w opval r) (a_items a) (it # rest, s, st) of
      Running (rest', s', st') \<Rightarrow> \<exists>before'. a_items a = before' @ rest' \<and>
        byte_step exec stop (lo_bytecode (as_object r)) (length (codeOf a subs w opval before), s, st) =
          Next (length (codeOf a subs w opval before'), s', st')
    | Halted e st' \<Rightarrow> byte_step exec stop (lo_bytecode (as_object r)) (length (codeOf a subs w opval before), s, st) = Stopped e st'
    | Failed \<Rightarrow> True"
proof -
  let ?link = "linked a subs w opval r" and ?code = "lo_bytecode (as_object r)"
  let ?pc = "length (codeOf a subs w opval before)"
  let ?bytes = "itemBytes a (map as_object subs) w (opval it) it"
  have code: "?code = codeOf a subs w opval before @ ?bytes @ codeOf a subs w opval rest @ tail"
    using lay by (simp add: laid_out_def Let_def codeOf_def items)
  have next_item: "\<exists>before'. a_items a = before' @ rest \<and>
      byte_step exec stop ?code (?pc, s, st) = Next (length (codeOf a subs w opval before'), s', st')"
    if "byte_step exec stop ?code (?pc, s, st) = Next (?pc + length ?bytes, s', st')" for s' st'
    using that by (intro exI [of _ "before @ [it]"]) (simp add: items)
  have jump: "case jump_to ?link (a_items a) v s' st of
      Running (rest', s', st') \<Rightarrow> \<exists>before'. a_items a = before' @ rest' \<and>
        byte_jump ?code v s'' st = Next (length (codeOf a subs w opval before'), s', st')
    | Halted e st' \<Rightarrow> X e st' | Failed \<Rightarrow> True" if "s'' = s'" for v s' s'' X
    using jump_code [OF lay fits, of v _ s' st] that by (auto simp: jump_to_def split: option.split)
  show ?thesis
  proof (cases "m_type it = Operation \<or> m_type it = Tag")
    case True
    define i where "i = (if m_type it = Tag then iJUMPDEST else m_instruction it)"
    have bytes: "?bytes = [i]" using True by (auto simp: itemBytes_def i_def)
    have i: "\<not> isPushInstruction i"
      using True fits by (auto simp: i_def assembly_fits_def items isPushInstruction_def word_le_nat_alt)
    have st: "step exec stop ?link (a_items a) (it # rest, s, st) = step_op exec ?link (a_items a) i (rest, s, st)"
      using True by (auto simp: i_def step_op_def isPushInstruction_def isDupInstruction_def isSwapInstruction_def)
    note b = byte_other [OF i, of exec stop "codeOf a subs w opval before" "codeOf a subs w opval rest @ tail" s st,
        folded code [unfolded bytes]]
    consider "i = iJUMP" | "i = iJUMPI" | "i \<noteq> iJUMP" "i \<noteq> iJUMPI" by blast
    then show ?thesis
    proof cases
      case 1
      then have "step_op exec ?link (a_items a) i (rest, s, st) =
          (case s of v # s' \<Rightarrow> jump_to ?link (a_items a) v s' st | _ \<Rightarrow> Failed)"
        by (simp add: step_op_def isPushInstruction_def isDupInstruction_def isSwapInstruction_def)
      with b 1 jump [OF refl] show ?thesis unfolding st by (cases s) (simp_all cong: progress.case_cong)
    next
      case 2
      then have o: "step_op exec ?link (a_items a) i (rest, s, st) =
          (case s of v # c # s' \<Rightarrow> if c \<noteq> 0 then jump_to ?link (a_items a) v s' st else Running (rest, s', st) | _ \<Rightarrow> Failed)"
        by (simp add: step_op_def isPushInstruction_def isDupInstruction_def isSwapInstruction_def)
      show ?thesis
      proof (cases "\<exists>v c s'. s = v # c # s'")
        case True
        then obtain v c s' where s: "s = v # c # s'" by blast
        show ?thesis
        proof (cases "c = 0")
          case True
          then have "byte_step exec stop ?code (?pc, s, st) = Next (?pc + length ?bytes, s', st)"
            using b 2 by (simp add: s bytes)
          from next_item [OF this] True show ?thesis unfolding st o by (simp add: s)
        next
          case False
          then have "byte_step exec stop ?code (?pc, s, st) = byte_jump ?code v s' st" using b 2 by (simp add: s)
          with jump [OF refl] False show ?thesis unfolding st o by (simp add: s cong: progress.case_cong)
        qed
      next
        case False
        then show ?thesis unfolding st o by (auto split: list.split)
      qed
    next
      case 3
      then have "byte_step exec stop ?code (?pc, s, st) =
          (case step_op exec (\<lambda>_. 0) [] i ([], s, st) of
             Running (_, s, w) \<Rightarrow> Next (?pc + length ?bytes, s, w)
           | Halted e w \<Rightarrow> Stopped e w
           | Failed \<Rightarrow> Stuck)" using b by (simp add: bytes split: progress.split)
      with next_item step_op_end [OF i 3, of exec ?link "a_items a" rest s st] show ?thesis
        unfolding st by (auto split: progress.split)
    qed
  next
    case False
    with item_push [OF lay fits, of it] items obtain n imm where
      imm: "?bytes = pushOpcode n # imm" "1 \<le> n" "n \<le> 32" "length imm = n"
      and pushed: "m_type it \<noteq> UndefinedItem" "(if m_type it = Push then m_data it else ?link it) = of_nat (beval imm)"
      by auto
    have st: "step exec stop ?link (a_items a) (it # rest, s, st) = Running (rest, of_nat (beval imm) # s, st)"
      using False pushed by (cases "m_type it") auto
    have "byte_step exec stop ?code (?pc, s, st) = Next (?pc + length ?bytes, of_nat (beval imm) # s, st)"
      using byte_push [OF imm(2-4), of exec stop "codeOf a subs w opval before" "codeOf a subs w opval rest @ tail" s st]
      unfolding code imm(1) by simp
    from next_item [OF this] show ?thesis unfolding st by simp
  qed
qed

lemma run_code:
  assumes lay: "laid_out a subs w opval tail r" and fits: "assembly_fits a subs w r"
    and "a_items a = before @ rest"
    and "\<And>m s' st'. run exec stop (linked a subs w opval r) (a_items a) m (rest, s, st) \<noteq> Running ([], s', st')"
  shows "case run exec stop (linked a subs w opval r) (a_items a) n (rest, s, st) of
      Running (rest', s', st') \<Rightarrow> \<exists>before'. a_items a = before' @ rest' \<and>
        byte_run exec stop (lo_bytecode (as_object r)) n (length (codeOf a subs w opval before), s, st) =
          Next (length (codeOf a subs w opval before'), s', st')
    | Halted e st' \<Rightarrow> byte_run exec stop (lo_bytecode (as_object r)) n (length (codeOf a subs w opval before), s, st) = Stopped e st'
    | Failed \<Rightarrow> True"
  using assms(3,4)
proof (induction n arbitrary: before rest s st)
  case 0
  then show ?case by auto
next
  case (Suc n)
  let ?link = "linked a subs w opval r"
  obtain it rest1 where rest: "rest = it # rest1" using Suc.prems(2) [of 0 s st] by (cases rest) auto
  note step = step_code [OF lay fits, of before it rest1 exec stop s st, folded rest, OF Suc.prems(1)]
  show ?case
  proof (cases "step exec stop ?link (a_items a) (rest, s, st)")
    case (Running c)
    obtain rest' s' st' where c: "c = (rest', s', st')" by (cases c)
    with step Running obtain before' where b: "a_items a = before' @ rest'"
      "byte_step exec stop (lo_bytecode (as_object r)) (length (codeOf a subs w opval before), s, st) =
        Next (length (codeOf a subs w opval before'), s', st')" by auto
    have "run exec stop ?link (a_items a) m (rest', s', st') \<noteq> Running ([], s2, st2)" for m s2 st2
      using Suc.prems(2) [of "Suc m" s2 st2] Running c by simp
    from Suc.IH [OF b(1) this] show ?thesis using Running c b(2) by (simp cong: progress.case_cong)
  next
    case (Halted e st')
    with step show ?thesis by simp
  next
    case Failed
    then show ?thesis by simp
  qed
qed

end
