(* ===== verification/Assembler_Properties.thy ===== *)
theory Assembler_Properties
  imports Assembler_Links Bytecode_Machine
begin

text \<open>
  What holds of the assembler as a whole: the layout of the code, its execution, its links,
  and an offset that does not fit the bytes reserved for it.
\<close>

lemma assemble_cases:
  "assemble (Assembly a subs) = Inr r \<Longrightarrow>
     \<exists>rs. assembleSubs subs = Inr rs \<and> length rs = length subs \<and> assembleWith a rs = Inr r"
proof -
  have "assembleSubs subs = Inr rs \<Longrightarrow> length rs = length subs" for subs rs
    by (induction subs arbitrary: rs) (auto simp: bind_result_Inr_iff)
  then show "assemble (Assembly a subs) = Inr r \<Longrightarrow> ?thesis" by (auto simp: bind_result_Inr_iff)
qed

section \<open>Layout\<close>

text \<open>
  C3: what the assembler returns for an assembly, of less than \<open>2^32\<close> bytes, is the bytes of its
  items, one item after the other, and behind them exactly: an \<open>INVALID\<close> if there are
  sub-assemblies, data or auxiliary data, the sub-assemblies that are pushed, the data that is pushed, each once and in the order of their tables,
  and the auxiliary data. The value of a pushed tag is the position of the tag, in this assembly or in a
  sub-assembly, and fits the bytes it has; a pushed data item or sub-assembly stands at the
  offset that is its value; the program size is the length of the code; the operands are the last
  bytes of these values, as many as are reserved (all of them, unless the case of C39 arises); and the
  positions recorded for the tags are those of their \<open>JUMPDEST\<close>s.
\<close>

theorem assemble_layout:
  assumes "assemble (Assembly a subs) = Inr r" "length subs \<le> 2 ^ 64" "distinct (map fst (a_data a))"
    and "length (lo_bytecode (as_object r)) < 2 ^ 32"
  shows "\<exists>rs size opval. assembleSubs subs = Inr rs \<and>
    assembly_bytesRequired a (of_nat (subTagSize rs)) = Inr size \<and>
    laid_out a rs (widths a (map as_object rs) size) opval (assembledTail a (map as_object rs)) r"
  using assemble_cases [OF assms(1)] assembleWith_layout [of a _ r] assms(2-) by metis

section \<open>Execution\<close>

lemma operand_linked:
  assumes lay: "laid_out a subs w opval tail r" and fits: "assembly_fits a subs w r"
    and fit: "length (lo_bytecode (as_object r)) < 256 ^ bytesPerDataRef w" and it: "it \<in> set (a_items a)"
  shows "operand_ok a subs (as_tagPositions r) (lo_bytecode (as_object r)) (unat (linked a subs w opval r it)) it"
proof -
  have item: "operand_ok a subs (as_tagPositions r) (lo_bytecode (as_object r)) (opval it) it"
      "m_type it = PushTag \<longrightarrow> bytesRequired (opval it) \<le> bytesPerTag w"
    and tags: "tags_at (itemLocs a (map as_object subs) w (a_items a)) (as_tagPositions r)"
    using lay it by (auto simp: laid_out_def Let_def)
  have ref: "opval it < 2 ^ 32 \<Longrightarrow> opval it < 256 ^ bytesPerDataRef w \<Longrightarrow> m_type it \<in> {PushData, PushSub, PushProgramSize} \<Longrightarrow>
      unat (linked a subs w opval r it) = opval it"
    by (auto simp: linked_def unat_of_nat)
  have code: "length (lo_bytecode (as_object r)) < 2 ^ 32" using fits by (simp add: assembly_fits_def)
  show ?thesis
  proof (cases "m_type it")
    case Tag
    then obtain pre post where items: "a_items a = pre @ it # post" using split_list [OF it] by blast
    from tag_label [OF lay fits items Tag] Tag show ?thesis by (simp add: operand_ok_def unat_of_nat)
  next
    case PushTag
    have "opval it < 256 ^ bytesPerTag w" using item(2) PushTag by (simp add: bytesRequired_le_iff)
    moreover have "256 ^ bytesPerTag w \<le> (256::nat) ^ 4" using fits by (intro power_increasing) (simp_all add: assembly_fits_def)
    ultimately have "opval it < 2 ^ 32" by simp
    then show ?thesis using item(1) PushTag by (simp add: operand_ok_def linked_def labelOf_def unat_of_nat)
  next
    case PushData
    have "slice_at (lo_bytecode (as_object r)) (unat (linked a subs w opval r it)) d"
      if "map_of (a_data a) (m_data it) = Some d" for d
    proof -
      have "slice_at (lo_bytecode (as_object r)) (opval it) d" using item(1) PushData that by (simp add: operand_ok_def)
      moreover from this have "opval it \<le> length (lo_bytecode (as_object r))" by (simp add: slice_at_def)
      ultimately show ?thesis using ref PushData fit code by simp
    qed
    then show ?thesis using PushData by (simp add: operand_ok_def)
  next
    case PushSub
    have "slice_at (lo_bytecode (as_object r)) (unat (linked a subs w opval r it)) (lo_bytecode (as_object (subs ! tagId it)))"
      if "tagId it < length subs"
    proof -
      have s: "slice_at (lo_bytecode (as_object r)) (opval it) (lo_bytecode (as_object (subs ! tagId it)))"
        using item(1) PushSub that by (simp add: operand_ok_def)
      moreover from this have "opval it \<le> length (lo_bytecode (as_object r))" by (simp add: slice_at_def)
      ultimately show ?thesis using ref PushSub fit code by simp
    qed
    then show ?thesis using PushSub by (simp add: operand_ok_def)
  next
    case PushProgramSize
    then show ?thesis using ref item(1) fit code by (simp add: operand_ok_def)
  qed (simp_all add: operand_ok_def)
qed

text \<open>
  C2: if the sizes fit the widths chosen for addresses, there are values for the items, equal
  for a tag and the items that push it, different for different tags, and correct for every
  operand, such that the assembled code executes like the list of items: a program that
  neither fails nor runs over the end of its items halts with the same exception and state.
\<close>

theorem assembled_code_executes:
  assumes "assemble (Assembly a subs) = Inr r" "length subs \<le> 2 ^ 64" "distinct (map fst (a_data a))"
    and rs: "assembleSubs subs = Inr rs" and size: "assembly_bytesRequired a (of_nat (subTagSize rs)) = Inr codeSize"
    and w: "w = widths a (map as_object rs) codeSize" and fits: "assembly_fits a rs w r"
  shows "\<exists>link.
    (\<forall>p t. m_type p = PushTag \<and> m_type t = Tag \<and> m_data p = m_data t \<longrightarrow> link p = link t) \<and>
    tags_ok link (a_items a) \<and>
    (length (lo_bytecode (as_object r)) < 256 ^ bytesPerDataRef w \<longrightarrow>
      (\<forall>it \<in> set (a_items a). operand_ok a rs (as_tagPositions r) (lo_bytecode (as_object r)) (unat (link it)) it)) \<and>
    (\<forall>s st e st'. (\<forall>n. run svm_exec stop link (a_items a) n (a_items a, s, st) \<noteq> Failed) \<longrightarrow>
      (\<forall>n s' st'. run svm_exec stop link (a_items a) n (a_items a, s, st) \<noteq> Running ([], s', st')) \<longrightarrow>
      (\<exists>n. run svm_exec stop link (a_items a) n (a_items a, s, st) = Halted e st') =
      (\<exists>n. byte_run svm_exec stop (lo_bytecode (as_object r)) n (0, s, st) = Stopped e st'))"
proof -
  have "length (lo_bytecode (as_object r)) < 2 ^ 32" using fits by (simp add: assembly_fits_def)
  then obtain opval tail where lay: "laid_out a rs w opval tail r"
    using assemble_cases [OF assms(1)] assembleWith_layout [of a rs r] rs size w assms(2,3) by auto
  let ?link = "linked a rs w opval r" and ?code = "lo_bytecode (as_object r)" and ?items = "a_items a"
  have labels: "?link p = ?link t" if "m_type p = PushTag" "m_type t = Tag" "m_data p = m_data t" for p t
    using that by (simp add: linked_def labelOf_def tagRef_def)
  have "(\<exists>n. run svm_exec stop ?link ?items n (?items, s, st) = Halted e st') =
      (\<exists>n. byte_run svm_exec stop ?code n (0, s, st) = Stopped e st')"
    if ok: "\<And>n. run svm_exec stop ?link ?items n (?items, s, st) \<noteq> Failed"
      and inside: "\<And>n s' st'. run svm_exec stop ?link ?items n (?items, s, st) \<noteq> Running ([], s', st')" for s st e st'
  proof -
    have sim: "case run svm_exec stop ?link ?items n (?items, s, st) of
        Running (rest', s', st') \<Rightarrow> \<exists>before'. ?items = before' @ rest' \<and>
          byte_run svm_exec stop ?code n (0, s, st) = Next (length (codeOf a rs w opval before'), s', st')
      | Halted e st' \<Rightarrow> byte_run svm_exec stop ?code n (0, s, st) = Stopped e st'
      | Failed \<Rightarrow> True" for n
      using run_code [OF lay fits, of "[]" ?items svm_exec stop s st n] inside
      unfolding codeOf_simps(1) list.size(3) by simp
    have "byte_run svm_exec stop ?code n (0, s, st) = Stopped e st' \<longleftrightarrow>
        run svm_exec stop ?link ?items n (?items, s, st) = Halted e st'" for n
      using sim [of n] ok [of n]
      by (cases "run svm_exec stop ?link ?items n (?items, s, st)") auto
    then show ?thesis by blast
  qed
  moreover have "tags_ok ?link ?items"
  proof -
    have less: "?link t \<noteq> ?link t'" if items: "?items = pre @ t # mid @ t' # post" and t: "m_type t = Tag" "m_type t' = Tag"
      for pre t mid t' post
    proof -
      let ?p = "length (codeOf a rs w opval pre)" and ?p' = "length (codeOf a rs w opval (pre @ t # mid))"
      have "?p < ?p'" using code.nonempty [of a "map as_object rs" w "opval t" t] by simp
      moreover have "?link t = of_nat ?p" "?p < 2 ^ 32" by (rule tag_label [OF lay fits items t(1)])+
      moreover have items': "?items = (pre @ t # mid) @ t' # post" by (simp add: items)
      have "?link t' = of_nat ?p'" "?p' < 2 ^ 32" by (rule tag_label [OF lay fits items' t(2)])+
      ultimately show ?thesis by (simp only: word_unat_eq_iff unat_of_nat_u256) simp
    qed
    have "?items = pre @ rest \<Longrightarrow> distinct (map ?link (filter (\<lambda>it. m_type it = Tag) rest))" for pre rest
    proof (induction rest arbitrary: pre)
      case (Cons t rest)
      have "?link t \<noteq> ?link t'" if "t' \<in> set rest" "m_type t = Tag" "m_type t' = Tag" for t'
        using split_list [OF that(1)] less [of pre t _ t'] Cons.prems that(2,3) by auto
      moreover have "distinct (map ?link (filter (\<lambda>it. m_type it = Tag) rest))"
        using Cons.IH [of "pre @ [t]"] Cons.prems by simp
      ultimately show ?case by auto
    qed simp
    then show ?thesis by (simp add: tags_ok_def)
  qed
  moreover have "operand_ok a rs (as_tagPositions r) ?code (unat (?link it)) it"
    if fit: "length ?code < 256 ^ bytesPerDataRef w" and it: "it \<in> set ?items" for it
    by (rule operand_linked [OF lay fits fit it])
  ultimately show ?thesis using labels by (intro exI [of _ ?link]) blast
qed

section \<open>An assembly in full\<close>

text \<open>A jump over an \<open>INVALID\<close> to a \<open>STOP\<close>.\<close>

definition jumpAssembly :: AssemblyData where
  "jumpAssembly = (own emptyAssembly)\<lparr>a_usedTags := 2,
     a_items := [mkItem PushTag 1, opItem iJUMP, opItem iINVALID, mkItem Tag 1, opItem iSTOP]\<rparr>"

lemma jumpAssembly_size: "assembly_bytesRequired jumpAssembly 1 = Inr 7"
  by (subst assembly_bytesRequired.simps)
    (simp add: jumpAssembly_def emptyAssembly_def item_bytesRequired_def dataSize_def bytesRequired_pos)

lemma replicate_2: "replicate 2 x = [x, x]"
  by (simp add: numeral_2_eq_2)

lemma jumpAssembly_assembled:
  "\<exists>r. assemble (Assembly jumpAssembly []) = Inr r \<and> lo_bytecode (as_object r) = [0x60, 4, 0x56, 0xfe, 0x5b, 0]"
  by (simp add: assembleWith_def subTagSize_def jumpAssembly_size widths_def bytesIncludingData_def bytesRequired_pos)
    (simp add: jumpAssembly_def emptyAssembly_def emitItem_def emitCase_def invalidTagPosition_def emitTag_def
      splitForeignPushTag_def pushOpcode_def patchAll_def patch_def overwrite_def toBigEndianInto_digits replicate_2 bytesRequired_le_iff)

section \<open>An offset that is cut off\<close>

text \<open>A large sub-assembly before a small one.\<close>

definition largeSub :: AssemblyData where
  "largeSub = (own emptyAssembly)\<lparr>a_auxiliaryData := replicate 65525 0\<rparr>"

definition smallSub :: AssemblyData where
  "smallSub = (own emptyAssembly)\<lparr>a_items := [opItem iSTOP]\<rparr>"

definition twoSubs :: AssemblyData where
  "twoSubs = (own emptyAssembly)\<lparr>a_items := [mkItem PushSub 0, mkItem PushSub 0, mkItem PushSub 1]\<rparr>"

lemma sizes_of_subs:
  "assembly_bytesRequired largeSub 1 = Inr 1" "assembly_bytesRequired smallSub 1 = Inr 2"
  "assembly_bytesRequired twoSubs 1 = Inr 7"
  by (subst assembly_bytesRequired.simps, simp add: largeSub_def smallSub_def twoSubs_def emptyAssembly_def
      item_bytesRequired_def dataSize_def bytesRequired_pos)+

lemma largeSub_assembled:
  "assemble (Assembly largeSub []) = Inr \<lparr>as_object = \<lparr>lo_bytecode = iINVALID # replicate 65525 0, lo_linkReferences = []\<rparr>,
     as_tagPositions = [None], as_items = []\<rparr>"
  by (simp add: assembleWith_def subTagSize_def sizes_of_subs widths_def)
    (simp add: largeSub_def emptyAssembly_def patchAll_def)

lemma smallSub_assembled:
  "assemble (Assembly smallSub []) = Inr \<lparr>as_object = \<lparr>lo_bytecode = [iSTOP], lo_linkReferences = []\<rparr>,
     as_tagPositions = [Some 0], as_items = [opItem iSTOP]\<rparr>"
  by (simp add: assembleWith_def subTagSize_def sizes_of_subs widths_def)
    (simp add: smallSub_def emptyAssembly_def patchAll_def emitItem_def emitCase_def invalidTagPosition_def)

lemma be_digits_2: "be_digits 2 n = [of_nat (n div 256 mod 256), of_nat (n mod 256)]"
  by (simp add: numeral_2_eq_2)

lemma twoSubs_assembled:
  assumes zs: "length zs = 65525"
    and large: "large = \<lparr>as_object = \<lparr>lo_bytecode = iINVALID # zs, lo_linkReferences = []\<rparr>, as_tagPositions = [None], as_items = []\<rparr>"
    and small: "small = \<lparr>as_object = \<lparr>lo_bytecode = [iSTOP], lo_linkReferences = []\<rparr>, as_tagPositions = [Some 0], as_items = [opItem iSTOP]\<rparr>"
  shows "\<exists>r. assembleWith twoSubs [large, small] = Inr r \<and>
    lo_bytecode (as_object r) = [0x61, 0, 10, 0x61, 0, 10, 0x61, 0, 0, 0xfe] @ iINVALID # zs @ [iSTOP]"
proof -
  have w: "widths twoSubs [as_object large, as_object small] 7 = \<lparr>bytesPerTag = 1, bytesPerDataRef = 2\<rparr>"
    by (simp add: widths_def bytesIncludingData_def zs large small twoSubs_def emptyAssembly_def bytesRequired_pos)
  have sub: "subTagSize [large, small] = 1" by (simp add: subTagSize_def large small)
  show ?thesis
    by (simp add: assembleWith_def sub sizes_of_subs w)
      (simp add: large small twoSubs_def emptyAssembly_def emitItem_def emitCase_def invalidTagPosition_def
        pushOpcode_def placeSubs.simps refsTo_def patchAll_def patch_def overwrite_def toBigEndianInto_digits
        replicate_2 be_digits_2 object_append_def zs)
qed

text \<open>An assembly with all kinds of operands, a sub-assembly, data, auxiliary data and a library.\<close>

definition fullAssembly :: AssemblyData where
  "fullAssembly = (own emptyAssembly)\<lparr>a_usedTags := 2, a_data := [(7, [0xaa, 0xbb])], a_auxiliaryData := [0xcc],
     a_libraries := [(5, ''a:L'')],
     a_items := [mkItem PushTag 1, opItem iJUMP, mkItem PushData 7, mkItem PushSub 0, mkItem PushProgramSize 0,
       mkItem PushLibraryAddress 5, mkItem Tag 1, opItem iSTOP]\<rparr>"

lemma fullAssembly_size: "assembly_bytesRequired fullAssembly 1 = Inr 38"
  by (subst assembly_bytesRequired.simps)
    (simp add: fullAssembly_def emptyAssembly_def item_bytesRequired_def dataSize_def bytesRequired_pos)

definition fullCode :: bytes where
  "fullCode = [0x60, 30, 0x56, 0x60, 34, 0x60, 33, 0x60, 37, 0x73] @ replicate 20 0 @ [0x5b, 0, 0xfe, 0, 0xaa, 0xbb, 0xcc]"

abbreviation smallResult :: Assembled where
  "smallResult \<equiv> \<lparr>as_object = \<lparr>lo_bytecode = [iSTOP], lo_linkReferences = []\<rparr>, as_tagPositions = [Some 0], as_items = [opItem iSTOP]\<rparr>"

definition fullEmission :: Emission where
  "fullEmission = \<lparr>em_code = [0x60, 0, 0x56, 0x60, 0, 0x60, 0, 0x60, 0, 0x73] @ replicate 20 0 @ [0x5b, 0],
     em_links = [(10, ''a:L'')], em_tagPositions = [Some 0, Some 30], em_tagRef = [(1, - 1, 1)], em_dataRef = [(7, 4)],
     em_subRef = [(0, 6)], em_sizeRef = [8], em_items = a_items fullAssembly\<rparr>"

lemma fullAssembly_emitted:
  "emitItems fullAssembly [as_object smallResult] \<lparr>bytesPerTag = 1, bytesPerDataRef = 1\<rparr> (a_items fullAssembly)
     \<lparr>em_code = [], em_links = [], em_tagPositions = replicate (unat (a_usedTags fullAssembly)) None,
      em_tagRef = [], em_dataRef = [], em_subRef = [], em_sizeRef = [], em_items = []\<rparr> = Inr fullEmission"
  by (simp add: fullAssembly_def fullEmission_def emptyAssembly_def emitItem_def emitCase_def invalidTagPosition_def
      emitTag_def splitForeignPushTag_def pushOpcode_def replicate_2)

lemma fullAssembly_assembled:
  "\<exists>r. assemble (Assembly fullAssembly [Assembly smallSub []]) = Inr r \<and> lo_bytecode (as_object r) = fullCode"
proof -
  have w: "widths fullAssembly [as_object smallResult] 38 = \<lparr>bytesPerTag = 1, bytesPerDataRef = 1\<rparr>"
    by (simp add: widths_def bytesIncludingData_def fullAssembly_def emptyAssembly_def bytesRequired_pos)
  have sub: "subTagSize [smallResult] = 1" by (simp add: subTagSize_def)
  have "a_data fullAssembly = [(7, [0xaa, 0xbb])]" "a_auxiliaryData fullAssembly = [0xcc]"
    by (simp_all add: fullAssembly_def)
  then have "\<exists>r. assembleWith fullAssembly [smallResult] = Inr r \<and> lo_bytecode (as_object r) = fullCode"
    unfolding assembleWith_def sub of_nat_1 fullAssembly_size bind_result.simps list.map Let_def w fullAssembly_emitted
    by (simp add: fullEmission_def fullCode_def placeSubs.simps refsTo_def patchAll_def patch_def overwrite_def
        toBigEndianInto_digits object_append_def bytesRequired_le_iff)
  then show ?thesis unfolding assemble.simps(1) [of fullAssembly] assembleSubs.simps smallSub_assembled by simp
qed

section \<open>Properties of single assemblies\<close>

theorem assemble_layout_witness:
  "\<exists>r rs codeSize opval. assemble (Assembly fullAssembly [Assembly smallSub []]) = Inr r \<and>
     lo_bytecode (as_object r) = fullCode \<and>
     laid_out fullAssembly rs (widths fullAssembly (map as_object rs) codeSize) opval
       (assembledTail fullAssembly (map as_object rs)) r"
proof -
  obtain r where r: "assemble (Assembly fullAssembly [Assembly smallSub []]) = Inr r" "lo_bytecode (as_object r) = fullCode"
    using fullAssembly_assembled by blast
  have "length [Assembly smallSub []] \<le> 2 ^ 64" "distinct (map fst (a_data fullAssembly))"
    "length (lo_bytecode (as_object r)) < 2 ^ 32"
    by (simp_all add: fullAssembly_def emptyAssembly_def r(2) fullCode_def)
  from assemble_layout [OF r(1) this] r show ?thesis by blast
qed

theorem assembled_code_executes_witness:
  "\<exists>r n. assemble (Assembly jumpAssembly []) = Inr r \<and>
     byte_run svm_exec ExplicitlyTerminated (lo_bytecode (as_object r)) n (0, [], initialState) =
       Stopped ExplicitlyTerminated initialState"
proof -
  obtain r where r: "assemble (Assembly jumpAssembly []) = Inr r"
    and code: "lo_bytecode (as_object r) = [0x60, 4, 0x56, 0xfe, 0x5b, 0]" using jumpAssembly_assembled by blast
  let ?items = "[mkItem PushTag 1, opItem iJUMP, opItem iINVALID, mkItem Tag 1, opItem iSTOP]"
  have items: "a_items jumpAssembly = ?items" by (simp add: jumpAssembly_def)
  have "assembly_fits jumpAssembly [] (widths jumpAssembly [] 7) r"
    by (simp add: assembly_fits_def code items widths_def bytesIncludingData_def bytesRequired_pos isPushInstruction_def)
      (simp add: jumpAssembly_def emptyAssembly_def bytesRequired_pos)
  moreover have "length ([] :: Assembly list) \<le> 2 ^ 64" "distinct (map fst (a_data jumpAssembly))"
    "assembly_bytesRequired jumpAssembly (of_nat (subTagSize [])) = Inr 7"
    using jumpAssembly_size by (simp_all add: jumpAssembly_def emptyAssembly_def subTagSize_def)
  ultimately obtain link where labels: "\<forall>p t. m_type p = PushTag \<and> m_type t = Tag \<and> m_data p = m_data t \<longrightarrow> link p = link t"
    and exec: "\<forall>s st e st'. (\<forall>n. run svm_exec ExplicitlyTerminated link ?items n (?items, s, st) \<noteq> Failed) \<longrightarrow>
      (\<forall>n s' st'. run svm_exec ExplicitlyTerminated link ?items n (?items, s, st) \<noteq> Running ([], s', st')) \<longrightarrow>
      (\<exists>n. run svm_exec ExplicitlyTerminated link ?items n (?items, s, st) = Halted e st') =
      (\<exists>n. byte_run svm_exec ExplicitlyTerminated (lo_bytecode (as_object r)) n (0, s, st) = Stopped e st')"
    using assembled_code_executes [OF r _ _ assembleSubs.simps(1), where stop = ExplicitlyTerminated and codeSize = 7
        and w = "widths jumpAssembly [] 7"] unfolding items by auto
  have label: "link (mkItem PushTag 1) = link (mkItem Tag 1)" using labels by simp
  have step: "run svm_exec ExplicitlyTerminated link ?items (Suc n) (?items, [], initialState) =
      (case n of 0 \<Rightarrow> Running (tl ?items, [link (mkItem Tag 1)], initialState)
       | Suc 0 \<Rightarrow> Running ([mkItem Tag 1, opItem iSTOP], [], initialState)
       | Suc (Suc 0) \<Rightarrow> Running ([opItem iSTOP], [], initialState)
       | _ \<Rightarrow> Halted ExplicitlyTerminated initialState)" for n
    by (simp add: label step_op_def jump_to_def isPushInstruction_def isDupInstruction_def isSwapInstruction_def
        instructionInfo_rules InstructionInfo.defs svm_exec_def svm_eval_def evalArith_def evalBlockchain_def
        evalMemory_def evalCalls_def split: nat.split)
  have "run svm_exec ExplicitlyTerminated link ?items n (?items, [], initialState) \<noteq> Failed \<and>
      run svm_exec ExplicitlyTerminated link ?items n (?items, [], initialState) \<noteq> Running ([], s', st')" for n s' st'
  proof (cases n)
    case (Suc m)
    then show ?thesis unfolding Suc step by (auto split: nat.split)
  qed simp
  moreover have "run svm_exec ExplicitlyTerminated link ?items (Suc (Suc (Suc (Suc 0)))) (?items, [], initialState) =
      Halted ExplicitlyTerminated initialState"
    unfolding step by simp
  ultimately have "\<exists>n. byte_run svm_exec ExplicitlyTerminated (lo_bytecode (as_object r)) n (0, [], initialState) =
      Stopped ExplicitlyTerminated initialState" using exec by blast
  with r show ?thesis by blast
qed

text \<open>
  C38: the assembled object can be linked, and linking it writes the address of a library
  behind the \<open>PUSH20\<close> of every item that asks for it.
\<close>

theorem assembled_links:
  assumes "assemble (Assembly a subs) = Inr r"
  shows "object_ok (as_object r) \<and>
    (\<exists>rs codeSize. assembleSubs subs = Inr rs \<and> assembly_bytesRequired a (of_nat (subTagSize rs)) = Inr codeSize \<and>
      (\<forall>(p, it) \<in> set (itemLocs a (map as_object rs) (widths a (map as_object rs) codeSize) (a_items a)).
        \<forall>name address. m_type it = PushLibraryAddress \<longrightarrow> map_of (a_libraries a) (m_data it) = Some name \<longrightarrow>
          matchLibrary name addresses = Some address \<longrightarrow>
          take 20 (drop (p + 1) (lo_bytecode (link_object addresses (as_object r)))) = toBigEndian160 address))"
proof -
  have ok: "object_ok (as_object r)" by (rule assemble_object_ok(1) [OF assms])
  obtain rs where rs: "assembleSubs subs = Inr rs" "assembleWith a rs = Inr r" using assemble_cases [OF assms] by blast
  from assembleWith_links [OF rs(2) assemble_object_ok(2) [OF rs(1)]] obtain codeSize where
    codeSize: "assembly_bytesRequired a (of_nat (subTagSize rs)) = Inr codeSize"
    and refs: "\<forall>(p, it) \<in> set (itemLocs a (map as_object rs) (widths a (map as_object rs) codeSize) (a_items a)).
      m_type it = PushLibraryAddress \<longrightarrow>
        (p + 1, the (map_of (a_libraries a) (m_data it))) \<in> set (lo_linkReferences (as_object r))" by blast
  have "take 20 (drop (p + 1) (lo_bytecode (link_object addresses (as_object r)))) = toBigEndian160 address"
    if "(p, it) \<in> set (itemLocs a (map as_object rs) (widths a (map as_object rs) codeSize) (a_items a))"
      "m_type it = PushLibraryAddress" "map_of (a_libraries a) (m_data it) = Some name" "matchLibrary name addresses = Some address"
    for p it name address
  proof -
    have "(p + 1, name) \<in> set (lo_linkReferences (as_object r))" using refs that(1-3) by force
    then show ?thesis using linked_slice [OF ok] that(4) by blast
  qed
  with rs(1) codeSize have "\<exists>rs codeSize. assembleSubs subs = Inr rs \<and> assembly_bytesRequired a (of_nat (subTagSize rs)) = Inr codeSize \<and>
      (\<forall>(p, it) \<in> set (itemLocs a (map as_object rs) (widths a (map as_object rs) codeSize) (a_items a)).
        \<forall>name address. m_type it = PushLibraryAddress \<longrightarrow> map_of (a_libraries a) (m_data it) = Some name \<longrightarrow>
          matchLibrary name addresses = Some address \<longrightarrow>
          take 20 (drop (p + 1) (lo_bytecode (link_object addresses (as_object r)))) = toBigEndian160 address)"
    by blast
  with ok show ?thesis by blast
qed

theorem assembled_links_witness:
  "\<exists>r. assemble (Assembly fullAssembly [Assembly smallSub []]) = Inr r \<and>
     take 20 (drop 10 (lo_bytecode (link_object [(''L'', 0x1234)] (as_object r)))) = toBigEndian160 0x1234"
proof -
  obtain r where r: "assemble (Assembly fullAssembly [Assembly smallSub []]) = Inr r" using fullAssembly_assembled by blast
  have subs: "assembleSubs [Assembly smallSub []] = Inr [smallResult]" by (simp add: smallSub_assembled del: assemble.simps)
  have size: "assembly_bytesRequired fullAssembly (of_nat (subTagSize [smallResult])) = Inr 38"
    using fullAssembly_size by (simp add: subTagSize_def)
  have "widths fullAssembly (map as_object [smallResult]) 38 = \<lparr>bytesPerTag = 1, bytesPerDataRef = 1\<rparr>"
    by (simp add: widths_def bytesIncludingData_def fullAssembly_def emptyAssembly_def bytesRequired_pos)
  then have loc: "(9, mkItem PushLibraryAddress 5) \<in>
      set (itemLocs fullAssembly (map as_object [smallResult]) (widths fullAssembly (map as_object [smallResult]) 38)
        (a_items fullAssembly))"
    by (simp add: itemLocs_def fullAssembly_def emptyAssembly_def itemBytes_def operandWidth_def)
  have "map_of (a_libraries fullAssembly) (m_data (mkItem PushLibraryAddress 5)) = Some ''a:L''"
    "m_type (mkItem PushLibraryAddress 5) = PushLibraryAddress" "matchLibrary ''a:L'' [(''L'', 0x1234)] = Some 0x1234"
    by (simp_all add: fullAssembly_def mkItemAt_def matchLibrary_def)
  with assembled_links [OF r, of "[(''L'', 0x1234)]"] loc r subs size show ?thesis by fastforce
qed

text \<open>
  C39: the width of data references is chosen from an estimate that counts fewer bytes for
  them than they take; when the code is longer than the estimate, an offset is cut off
  without an exception. Here the small sub-assembly stands at offset 65536, and the operand
  that refers to it, the last two bytes of the items, is 0.
\<close>

theorem offset_cut_off:
  "\<exists>r. assemble (Assembly twoSubs [Assembly largeSub [], Assembly smallSub []]) = Inr r \<and>
    take 3 (drop 6 (lo_bytecode (as_object r))) = [0x61, 0, 0] \<and>
    drop 65536 (lo_bytecode (as_object r)) = [iSTOP]"
proof -
  define zs :: bytes where "zs = replicate 65525 0"
  have zs: "length zs = 65525" by (simp add: zs_def)
  from twoSubs_assembled [OF zs refl refl] obtain r where
    "assemble (Assembly twoSubs [Assembly largeSub [], Assembly smallSub []]) = Inr r"
    "lo_bytecode (as_object r) = [0x61, 0, 10, 0x61, 0, 10, 0x61, 0, 0, 0xfe] @ iINVALID # zs @ [iSTOP]"
    unfolding zs_def assemble.simps(1) [of twoSubs] assembleSubs.simps largeSub_assembled smallSub_assembled by auto
  then show ?thesis by (intro exI [of _ r]) (simp add: zs)
qed

end
