(* ===== verification/Block_Deduplicator.thy ===== *)
theory Block_Deduplicator
  imports Jumpdest_Remover Std_Map
begin

text \<open>
  libsvmasm/BlockDeduplicator.h and BlockDeduplicator.cpp: tags whose blocks have the same
  items are unified, by replacing the tags that are pushed until nothing changes any more.
  The set of blocks seen, ordered by their contents, is a list of pairwise different blocks.
\<close>

section \<open>The pass\<close>

text \<open>What the block iterator visits: no tags, and nothing behind the end of the block.\<close>

definition isTag :: "AssemblyItem \<Rightarrow> bool" where
  "isTag it \<longleftrightarrow> m_type it = Tag"

function blockItems :: "AssemblyItems \<Rightarrow> AssemblyItems" where
  "blockItems [] = []"
| "blockItems (it # items) =
     it # (if altersControlFlow it \<and> \<not> item_eq it (opItem iJUMPI) then [] else blockItems (dropWhile isTag items))"
  by pat_completeness auto
termination
  by (relation "measure length") (auto intro: le_imp_less_Suc length_dropWhile_le)

definition pushSelf :: AssemblyItem where
  "pushSelf = mkItem PushTag (- 4)"

definition blockSeq :: "AssemblyItems \<Rightarrow> nat \<Rightarrow> AssemblyItems" where
  "blockSeq items i =
     (let pushOwn = (if i < length items \<and> m_type (items ! i) = Tag then mkItem PushTag (m_data (items ! i)) else pushSelf);
          visited = (if i < length items \<and> m_type (items ! i) = Tag then blockItems (dropWhile isTag (drop (Suc i) items))
                     else blockItems (drop i items))
      in map (\<lambda>it. if item_eq it pushOwn then pushSelf else it) visited)"

fun items_less :: "AssemblyItems \<Rightarrow> AssemblyItems \<Rightarrow> bool" where
  "items_less as [] = False"
| "items_less [] (b # bs) = True"
| "items_less (a # as) (b # bs) = (item_less a b \<or> \<not> item_less b a \<and> items_less as bs)"

definition blocks_less :: "AssemblyItems \<Rightarrow> nat \<Rightarrow> nat \<Rightarrow> bool" where
  "blocks_less items i j = (if i = j then False else items_less (blockSeq items i) (blockSeq items j))"

definition dedupStep ::
    "AssemblyItems \<Rightarrow> nat list \<times> (u256, u256) std_map \<Rightarrow> nat \<Rightarrow> nat list \<times> (u256, u256) std_map" where
  "dedupStep items = (\<lambda>(seen, replaced) i.
     if m_type (items ! i) \<noteq> Tag then (seen, replaced)
     else (case find (\<lambda>j. \<not> blocks_less items i j \<and> \<not> blocks_less items j i) seen of
             None \<Rightarrow> (seen @ [i], replaced)
           | Some j \<Rightarrow> (seen, map_put (m_data (items ! i)) (m_data (items ! j)) replaced)))"

definition dedupRound :: "AssemblyItems \<Rightarrow> (u256, u256) std_map \<Rightarrow> (u256, u256) std_map" where
  "dedupRound items replaced = snd (foldl (dedupStep items) ([], replaced) [0..<length items])"

definition replaceTag :: "(u256, u256) std_map \<Rightarrow> size_t \<Rightarrow> AssemblyItem \<Rightarrow> (bool \<times> AssemblyItem) result" where
  "replaceTag replacements subId it =
     (if m_type it \<noteq> PushTag then Inr (False, it)
      else bind_result (splitForeignPushTag it) (\<lambda>(s, tagId).
        if s \<noteq> subId then Inr (False, it)
        else (case map_of replacements (ucast tagId) of
                None \<Rightarrow> Inr (False, it)
              | Some v \<Rightarrow> bind_result (setPushTagSubIdAndTag it s (ucast v)) (\<lambda>it'. Inr (True, it')))))"

fun applyTagReplacement ::
    "AssemblyItems \<Rightarrow> (u256, u256) std_map \<Rightarrow> size_t \<Rightarrow> (bool \<times> AssemblyItems) result" where
  "applyTagReplacement [] replacements subId = Inr (False, [])"
| "applyTagReplacement (it # items) replacements subId =
     bind_result (replaceTag replacements subId it) (\<lambda>(c, it').
     bind_result (applyTagReplacement items replacements subId) (\<lambda>(c', items').
       Inr (c \<or> c', it' # items')))"

text \<open>The loop has no bound; \<open>None\<close> would be a run that does not end.\<close>

partial_function (option) dedupLoop ::
    "nat \<Rightarrow> (u256, u256) std_map \<Rightarrow> AssemblyItems \<Rightarrow> (nat \<times> (u256, u256) std_map \<times> AssemblyItems) result option" where
  "dedupLoop iterations replaced items =
     (let replaced = dedupRound items replaced
      in case applyTagReplacement items replaced (- 1) of
           Inl e \<Rightarrow> Some (Inl e)
         | Inr (changed, items) \<Rightarrow>
             if changed then dedupLoop (iterations + 1) replaced items
             else Some (Inr (iterations, replaced, items)))"

declare dedupLoop.simps [code]

definition deduplicate :: "AssemblyItems \<Rightarrow> (bool \<times> (u256, u256) std_map \<times> AssemblyItems) result option" where
  "deduplicate items =
     (if (\<exists>it \<in> set items. item_eq it (mkItem Tag (- 4)) \<or> item_eq it pushSelf) then Some (Inr (False, [], items))
      else (case dedupLoop 0 [] items of
              None \<Rightarrow> None
            | Some r \<Rightarrow> Some (bind_result r (\<lambda>(iterations, replaced, items).
                Inr (iterations > 0, replaced, items)))))"

section \<open>The order of the blocks\<close>

lemma items_equal: "\<not> items_less as bs \<and> \<not> items_less bs as \<longleftrightarrow> list_all2 item_eq as bs"
  by (induction as bs rule: items_less.induct) (auto simp: item_less_total neq_Nil_conv elim: items_less.elims)

section \<open>Renaming the tags that are pushed\<close>

definition rename :: "(u256 \<Rightarrow> u256) \<Rightarrow> AssemblyItem \<Rightarrow> AssemblyItem" where
  "rename f it = (if m_type it = PushTag then it\<lparr>m_data := f (m_data it)\<rparr> else it)"

definition renaming :: "(u256, u256) std_map \<Rightarrow> u256 \<Rightarrow> u256" where
  "renaming replaced d = (case map_of replaced d of Some v \<Rightarrow> v | None \<Rightarrow> d)"

lemma rename_sel [simp]:
  "m_type (rename f it) = m_type it" "m_instruction (rename f it) = m_instruction it"
  "m_type it \<noteq> PushTag \<Longrightarrow> rename f it = it"
  "m_type it = PushTag \<Longrightarrow> m_data (rename f it) = f (m_data it)"
  by (simp_all add: rename_def)

lemma ucast_less_64: "(ucast (t :: size_t) :: u256) < 2 ^ 64"
  using unsigned_less [of t, where 'a=nat] unfolding word_less_nat_alt by (simp add: unsigned_ucast_eq take_bit_eq_mod)

lemma replaceTag_rename:
  assumes "m_type it = PushTag \<longrightarrow> m_data it < 2 ^ 128" "\<forall>k v. map_of R k = Some v \<longrightarrow> k < 2 ^ 64 \<and> v < 2 ^ 64"
  shows "replaceTag R (- 1) it =
    Inr (m_type it = PushTag \<and> map_of R (m_data it) \<noteq> None, rename (renaming R) it)"
proof (cases "m_type it = PushTag")
  case True
  then have small: "m_data it < 2 ^ 128" using assms(1) by simp
  obtain s t where st: "splitForeignPushTag it = Inr (s, t)" "s = - 1 \<longrightarrow> m_data it = ucast t"
    using foreign_data(2) [OF small True] by blast
  show ?thesis
  proof (cases "s = - 1")
    case own: True
    with st have d: "m_data it = ucast t" by simp
    show ?thesis
    proof (cases "map_of R (m_data it)")
      case None
      then show ?thesis using True st own d by (simp add: replaceTag_def rename_def renaming_def)
    next
      case (Some v)
      then have "v < 2 ^ 64" using assms(2) by blast
      then have "setPushTagSubIdAndTag it (- 1) (ucast v) = Inr (it\<lparr>m_data := v\<rparr>)"
        using True small_data [of v] by (simp add: setPushTagSubIdAndTag_def setData_def Let_def)
      then show ?thesis using True st own d Some by (simp add: replaceTag_def rename_def renaming_def)
    qed
  next
    case False
    have "\<not> m_data it < 2 ^ 64"
    proof
      assume "m_data it < 2 ^ 64"
      from tag_of_data [OF _ this] True st(1) False show False by simp
    qed
    then have "map_of R (m_data it) = None" using assms(2) by (cases "map_of R (m_data it)") auto
    then show ?thesis using True st False by (simp add: replaceTag_def rename_def renaming_def)
  qed
qed (simp add: replaceTag_def rename_def)

lemma applyTagReplacement_rename:
  assumes "\<forall>it \<in> set items. m_type it = PushTag \<longrightarrow> m_data it < 2 ^ 128"
    and "\<forall>k v. map_of R k = Some v \<longrightarrow> k < 2 ^ 64 \<and> v < 2 ^ 64"
  shows "applyTagReplacement items R (- 1) =
    Inr (\<exists>it \<in> set items. m_type it = PushTag \<and> map_of R (m_data it) \<noteq> None, map (rename (renaming R)) items)"
  using assms by (induction items) (auto simp: replaceTag_rename)

section \<open>Blocks up to renaming\<close>

definition body :: "AssemblyItems \<Rightarrow> nat \<Rightarrow> AssemblyItems" where
  "body items i = blockItems (dropWhile isTag (drop (Suc i) items))"

lemma blockItems_rename: "blockItems (map (rename f) items) = map (rename f) (blockItems items)"
proof (induction items rule: blockItems.induct)
  case (2 it items)
  have "altersControlFlow (rename f it) = altersControlFlow it" by (simp add: altersControlFlow_def)
  moreover have "item_eq (rename f it) (opItem iJUMPI) = item_eq it (opItem iJUMPI)" by (simp add: item_eq_def)
  moreover have "isTag \<circ> rename f = isTag" by (simp add: isTag_def fun_eq_iff)
  ultimately show ?case using 2 by (simp add: dropWhile_map)
qed simp

lemma body_rename: "body (map (rename f) items) i = map (rename f) (body items i)"
proof -
  have "isTag \<circ> rename f = isTag" by (simp add: isTag_def fun_eq_iff)
  then show ?thesis by (simp add: body_def drop_map dropWhile_map blockItems_rename)
qed

definition same_up_to :: "(u256 \<times> u256) set \<Rightarrow> AssemblyItem \<Rightarrow> AssemblyItem \<Rightarrow> bool" where
  "same_up_to E a b \<longleftrightarrow>
     (if m_type a = PushTag \<and> m_type b = PushTag then (m_data a, m_data b) \<in> E else item_eq a b)"

text \<open>Tags that may be exchanged: their blocks are the same up to tags that may be exchanged.\<close>

definition exchangeable :: "AssemblyItems \<Rightarrow> (u256 \<times> u256) set \<Rightarrow> u256 \<Rightarrow> u256 \<Rightarrow> bool" where
  "exchangeable items E k v \<longleftrightarrow> k = v \<or>
     (\<exists>i < length items. \<exists>j < length items. m_type (items ! i) = Tag \<and> m_type (items ! j) = Tag \<and>
        m_data (items ! i) = k \<and> m_data (items ! j) = v \<and> list_all2 (same_up_to E) (body items i) (body items j))"

definition tag_bisimulation :: "AssemblyItems \<Rightarrow> (u256 \<times> u256) set \<Rightarrow> bool" where
  "tag_bisimulation items E \<longleftrightarrow> equiv UNIV E \<and> (\<forall>(k, v) \<in> E. exchangeable items E k v)"

definition tags_distinct :: "AssemblyItems \<Rightarrow> bool" where
  "tags_distinct items \<longleftrightarrow> (\<forall>i < length items. \<forall>j < length items.
     m_type (items ! i) = Tag \<and> m_type (items ! j) = Tag \<and> m_data (items ! i) = m_data (items ! j) \<longrightarrow> i = j)"

lemma same_up_to_mono: "E \<subseteq> E' \<Longrightarrow> same_up_to E a b \<Longrightarrow> same_up_to E' a b"
  by (auto simp: same_up_to_def)

lemma same_up_to_equiv:
  assumes "equiv UNIV E"
  shows "same_up_to E a a" "same_up_to E a b \<Longrightarrow> same_up_to E b a"
    "same_up_to E a b \<Longrightarrow> same_up_to E b c \<Longrightarrow> same_up_to E a c"
proof -
  note e = assms [unfolded equiv_def]
  show "same_up_to E a a" using e by (auto simp: same_up_to_def refl_on_def)
  show "same_up_to E a b \<Longrightarrow> same_up_to E b a"
    using e item_eq_sym by (auto simp: same_up_to_def sym_def split: if_splits)
  show "same_up_to E a b \<Longrightarrow> same_up_to E b c \<Longrightarrow> same_up_to E a c"
    using e item_eq_trans by (auto simp: same_up_to_def item_eq_def split: if_splits dest: transD)
qed

lemma list_all2_same_up_to:
  assumes "equiv UNIV E"
  shows "list_all2 (same_up_to E) xs xs"
    "list_all2 (same_up_to E) xs ys \<Longrightarrow> list_all2 (same_up_to E) ys xs"
    "list_all2 (same_up_to E) xs ys \<Longrightarrow> list_all2 (same_up_to E) ys zs \<Longrightarrow> list_all2 (same_up_to E) xs zs"
proof -
  note e = same_up_to_equiv [OF assms]
  show "list_all2 (same_up_to E) xs xs" by (rule list_all2_refl) (rule e(1))
  show "list_all2 (same_up_to E) xs ys \<Longrightarrow> list_all2 (same_up_to E) ys xs"
    by (auto simp: list_all2_conv_all_nth intro: e(2))
  show "list_all2 (same_up_to E) xs ys \<Longrightarrow> list_all2 (same_up_to E) ys zs \<Longrightarrow> list_all2 (same_up_to E) xs zs"
    by (rule list_all2_trans) (auto intro: e(3))
qed

text \<open>The equivalence generated by exchangeable pairs is such a relation.\<close>

lemma generated_bisimulation:
  assumes d: "tags_distinct items" and E: "E = (G \<union> G\<inverse>)\<^sup>*" and G: "\<forall>(k, v) \<in> G. exchangeable items E k v"
  shows "tag_bisimulation items E"
proof -
  have "sym (G \<union> G\<inverse>)" by (auto simp: sym_def)
  then have e: "equiv UNIV E" unfolding equiv_def E
    by (simp add: refl_rtrancl sym_rtrancl trans_rtrancl)
  note l = list_all2_same_up_to [OF e]
  have sym: "exchangeable items E k v \<Longrightarrow> exchangeable items E v k" for k v
    unfolding exchangeable_def using l(2) by blast
  have trans: "exchangeable items E k w" if kv: "exchangeable items E k v" and vw: "exchangeable items E v w" for k v w
  proof (cases "k = v \<or> v = w")
    case False
    with kv vw obtain i j j' m where "i < length items" "j < length items" "j' < length items" "m < length items"
      "m_type (items ! i) = Tag" "m_type (items ! j) = Tag" "m_type (items ! j') = Tag" "m_type (items ! m) = Tag"
      "m_data (items ! i) = k" "m_data (items ! j) = v" "m_data (items ! j') = v" "m_data (items ! m) = w"
      and bodies: "list_all2 (same_up_to E) (body items i) (body items j)" "list_all2 (same_up_to E) (body items j') (body items m)"
      unfolding exchangeable_def by blast
    moreover from this d have "j = j'" unfolding tags_distinct_def by metis
    ultimately show ?thesis unfolding exchangeable_def using l(3) by blast
  qed (use kv vw in auto)
  have "exchangeable items E k v" if "(k, v) \<in> E" for k v
    using that unfolding E
  proof (induction rule: rtrancl_induct)
    case base
    then show ?case by (simp add: exchangeable_def)
  next
    case (step y z)
    then have "exchangeable items E y z" using G sym by auto
    with step.IH show ?case unfolding E by (rule trans [unfolded E])
  qed
  with e show ?thesis by (auto simp: tag_bisimulation_def)
qed

section \<open>A round\<close>

text \<open>The pairs of tags a round may record: a tag and an earlier one with an equal block.\<close>

definition found :: "AssemblyItems \<Rightarrow> u256 \<Rightarrow> u256 \<Rightarrow> bool" where
  "found items k v \<longleftrightarrow> (\<exists>i < length items. \<exists>j < i. m_type (items ! i) = Tag \<and> m_type (items ! j) = Tag \<and>
     m_data (items ! i) = k \<and> m_data (items ! j) = v \<and> list_all2 item_eq (blockSeq items i) (blockSeq items j))"

lemma dedupRound_found:
  assumes "map_invar R"
  shows "map_invar (dedupRound items R) \<and>
    (\<forall>k v. map_of (dedupRound items R) k = Some v \<longrightarrow> map_of R k = Some v \<or> found items k v)"
proof -
  have "n \<le> length items \<Longrightarrow> (case foldl (dedupStep items) ([], R) [0..<n] of (seen, R') \<Rightarrow>
      (\<forall>j \<in> set seen. j < n \<and> m_type (items ! j) = Tag) \<and> map_invar R' \<and>
      (\<forall>k v. map_of R' k = Some v \<longrightarrow> map_of R k = Some v \<or> found items k v))" for n
  proof (induction n)
    case 0
    then show ?case using assms by simp
  next
    case (Suc n)
    obtain seen R' where s: "foldl (dedupStep items) ([], R) [0..<n] = (seen, R')" by fastforce
    with Suc have IH: "\<forall>j \<in> set seen. j < n \<and> m_type (items ! j) = Tag" "map_invar R'"
      "\<forall>k v. map_of R' k = Some v \<longrightarrow> map_of R k = Some v \<or> found items k v" by auto
    have step: "foldl (dedupStep items) ([], R) [0..<Suc n] = dedupStep items (seen, R') n" by (simp add: s)
    show ?case
    proof (cases "m_type (items ! n) = Tag")
      case False
      then show ?thesis using IH unfolding step by (auto simp: dedupStep_def)
    next
      case tag: True
      show ?thesis
      proof (cases "find (\<lambda>j. \<not> blocks_less items n j \<and> \<not> blocks_less items j n) seen")
        case None
        then show ?thesis using IH tag unfolding step by (auto simp: dedupStep_def)
      next
        case (Some j)
        then have j: "j \<in> set seen" "\<not> blocks_less items n j" "\<not> blocks_less items j n"
          by (auto simp: find_Some_iff)
        with IH(1) have "j < n" "m_type (items ! j) = Tag" by auto
        then have "found items (m_data (items ! n)) (m_data (items ! j))"
          using j(2,3) tag Suc.prems items_equal unfolding found_def blocks_less_def
          by (metis Suc_le_lessD less_irrefl)
        then show ?thesis using IH tag Some unfolding step by (auto simp: dedupStep_def split: if_splits)
      qed
    qed
  qed
  from this [of "length items"] show ?thesis by (auto simp: dedupRound_def split: prod.splits)
qed

text \<open>An earlier position makes a smaller rank.\<close>

definition rank :: "AssemblyItems \<Rightarrow> u256 \<Rightarrow> nat" where
  "rank items d = length (takeWhile (\<lambda>it. \<not> (m_type it = Tag \<and> m_data it = d)) items)"

lemma rank_index:
  assumes "tags_distinct items" "i < length items" "m_type (items ! i) = Tag" "m_data (items ! i) = d"
  shows "rank items d = i"
proof -
  let ?P = "\<lambda>it. \<not> (m_type it = Tag \<and> m_data it = d)"
  have "rank items d \<le> i"
  proof (rule ccontr)
    assume "\<not> rank items d \<le> i"
    then have i: "i < length (takeWhile ?P items)" by (simp add: rank_def)
    then have "takeWhile ?P items ! i \<in> set (takeWhile ?P items)" by (rule nth_mem)
    then have "?P (items ! i)" unfolding takeWhile_nth [OF i] by (rule set_takeWhileD [THEN conjunct2])
    with assms(3,4) show False by simp
  qed
  then have "rank items d < length items" using assms(2) by simp
  then have "\<not> ?P (items ! rank items d)" unfolding rank_def by (rule nth_length_takeWhile)
  then show ?thesis using assms \<open>rank items d < length items\<close> unfolding tags_distinct_def by blast
qed

lemma body_found:
  assumes items: "items = map (rename g) items0" and E: "equiv UNIV E" "\<forall>d. (d, g d) \<in> E" "(k, v) \<in> E"
    and self: "\<forall>it \<in> set items. \<not> item_eq it pushSelf"
    and f: "i < length items" "j < length items" "m_type (items ! i) = Tag" "m_type (items ! j) = Tag"
      "m_data (items ! i) = k" "m_data (items ! j) = v" "list_all2 item_eq (blockSeq items i) (blockSeq items j)"
  shows "list_all2 (same_up_to E) (body items0 i) (body items0 j)"
proof -
  have seq: "blockSeq items i = map (\<lambda>it. if item_eq it (mkItem PushTag (m_data (items ! i))) then pushSelf else it) (map (rename g) (body items0 i))"
    if "i < length items" "m_type (items ! i) = Tag" for i
    using that body_rename [of g items0 i] by (simp add: blockSeq_def body_def items)
  have inside: "it \<in> set (body items0 i) \<Longrightarrow> it \<in> set items0" for it i
  proof -
    have "set (blockItems xs) \<subseteq> set xs" for xs
      by (induction xs rule: blockItems.induct) (auto dest: set_dropWhileD)
    then show "it \<in> set (body items0 i) \<Longrightarrow> it \<in> set items0"
      unfolding body_def by (meson in_set_dropD set_dropWhileD subsetD)
  qed
  have rel: "same_up_to E x y" if eq: "item_eq (if item_eq (rename g x) (mkItem PushTag k) then pushSelf else rename g x)
      (if item_eq (rename g y) (mkItem PushTag v) then pushSelf else rename g y)"
    and xy: "x \<in> set items0" "y \<in> set items0" for x y
  proof -
    have no: "\<not> item_eq (rename g x) pushSelf" "\<not> item_eq (rename g y) pushSelf" using self xy by (simp_all add: items)
    have push: "(a, b) \<in> E" if "(g a, g b) \<in> E" for a b
      using E(1,2) that unfolding equiv_def by (meson symD transD)
    consider "item_eq (rename g x) (mkItem PushTag k)" "item_eq (rename g y) (mkItem PushTag v)" | "item_eq (rename g x) (rename g y)"
    proof (cases "item_eq (rename g x) (mkItem PushTag k)"; cases "item_eq (rename g y) (mkItem PushTag v)")
    qed (use eq no item_eq_sym [of pushSelf] in auto)
    then show ?thesis
    proof cases
      case 1
      then have "m_type x = PushTag" "m_type y = PushTag" "g (m_data x) = k" "g (m_data y) = v"
        by (auto simp: item_eq_def split: if_splits)
      with push [of "m_data x" "m_data y"] E(3) show ?thesis by (simp add: same_up_to_def)
    next
      case 2
      show ?thesis
      proof (cases "m_type x = PushTag")
        case True
        with 2 have y: "m_type y = PushTag" "g (m_data x) = g (m_data y)" by (auto simp: item_eq_def split: if_splits)
        have "(g (m_data x), g (m_data y)) \<in> E" unfolding y(2) using E(1) by (auto simp: equiv_def refl_on_def)
        with push [of "m_data x" "m_data y"] True y(1) show ?thesis by (simp add: same_up_to_def)
      next
        case False
        with 2 have "m_type y \<noteq> PushTag" by (auto simp: item_eq_def split: if_splits)
        with 2 False show ?thesis by (simp add: same_up_to_def)
      qed
    qed
  qed
  have "list_all2 (\<lambda>x y. item_eq (if item_eq (rename g x) (mkItem PushTag k) then pushSelf else rename g x)
      (if item_eq (rename g y) (mkItem PushTag v) then pushSelf else rename g y)) (body items0 i) (body items0 j)"
    using f(7) unfolding seq [OF f(1,3)] seq [OF f(2,4)] by (simp add: f(5,6) list_all2_map1 list_all2_map2)
  then show ?thesis by (rule list.rel_mono_strong) (auto intro: rel inside)
qed

section \<open>The loop\<close>

definition dedup_inv :: "AssemblyItems \<Rightarrow> (u256 \<times> u256) set \<Rightarrow> (u256, u256) std_map \<Rightarrow> AssemblyItems \<Rightarrow> bool" where
  "dedup_inv items0 E R items \<longleftrightarrow> tag_bisimulation items0 E \<and> map_invar R \<and>
     (\<exists>g. items = map (rename g) items0 \<and> (\<forall>d. (d, g d) \<in> E)) \<and>
     (\<forall>k v. map_of R k = Some v \<longrightarrow> (k, v) \<in> E \<and> rank items0 v < rank items0 k \<and> k < 2 ^ 64 \<and> v < 2 ^ 64) \<and>
     (\<forall>it \<in> set items. \<not> item_eq it pushSelf \<and> (m_type it = PushTag \<longrightarrow> m_data it < 2 ^ 128))"

lemma dedupRound_inv:
  assumes inv: "dedup_inv items0 E R items" and d: "tags_distinct items0"
    and tags: "\<forall>it \<in> set items0. m_type it = Tag \<longrightarrow> m_data it < 2 ^ 64"
  shows "\<exists>E'. E \<subseteq> E' \<and> dedup_inv items0 E' (dedupRound items R) items"
proof -
  obtain g where items: "items = map (rename g) items0" and g: "\<forall>d. (d, g d) \<in> E"
    using inv by (auto simp: dedup_inv_def)
  have bis: "tag_bisimulation items0 E" and R: "map_invar R"
    "\<forall>k v. map_of R k = Some v \<longrightarrow> (k, v) \<in> E \<and> rank items0 v < rank items0 k \<and> k < 2 ^ 64 \<and> v < 2 ^ 64"
    and self: "\<forall>it \<in> set items. \<not> item_eq it pushSelf"
    using inv by (auto simp: dedup_inv_def)
  define P where "P = {(k, v). found items k v}"
  define E' where "E' = (E \<union> P \<union> (E \<union> P)\<inverse>)\<^sup>*"
  have sub: "E \<subseteq> E'" "P \<subseteq> E'" unfolding E'_def by auto
  have "sym (E \<union> P \<union> (E \<union> P)\<inverse>)" by (auto simp: sym_def)
  then have e: "equiv UNIV E'" unfolding equiv_def E'_def
    by (simp add: refl_rtrancl sym_rtrancl trans_rtrancl)
  have item: "m_type (items ! i) = m_type (items0 ! i)" "m_type (items0 ! i) = Tag \<Longrightarrow> m_data (items ! i) = m_data (items0 ! i)"
    if "i < length items0" for i using that by (simp_all add: items)
  have found: "exchangeable items0 E' k v \<and> rank items0 v < rank items0 k \<and> k < 2 ^ 64 \<and> v < 2 ^ 64" if "found items k v" for k v
  proof -
    from that obtain i j where ij: "i < length items" "j < i" "m_type (items ! i) = Tag" "m_type (items ! j) = Tag"
      "m_data (items ! i) = k" "m_data (items ! j) = v" "list_all2 item_eq (blockSeq items i) (blockSeq items j)"
      unfolding found_def by blast
    have j: "j < length items" using ij(1,2) by simp
    have lens: "i < length items0" "j < length items0" using ij(1) j by (simp_all add: items)
    have t0: "m_type (items0 ! i) = Tag" "m_type (items0 ! j) = Tag" using ij(3,4) item(1) lens by simp_all
    have d0: "m_data (items0 ! i) = k" "m_data (items0 ! j) = v" using ij(5,6) item(2) [OF _ t0(1)] item(2) [OF _ t0(2)] lens by simp_all
    have "(k, v) \<in> E'" using that sub(2) by (auto simp: P_def)
    moreover have "\<forall>d. (d, g d) \<in> E'" using g sub(1) by blast
    ultimately have "list_all2 (same_up_to E') (body items0 i) (body items0 j)"
      using body_found [OF items e _ _ self ij(1) j ij(3-7)] by blast
    then have "exchangeable items0 E' k v" using lens t0 d0 unfolding exchangeable_def by blast
    moreover have "rank items0 v < rank items0 k"
      using rank_index [OF d lens(1) t0(1) d0(1)] rank_index [OF d lens(2) t0(2) d0(2)] ij(2) by simp
    moreover have "k < 2 ^ 64" "v < 2 ^ 64" using tags nth_mem lens t0 d0 by blast+
    ultimately show ?thesis by blast
  qed
  have "exchangeable items0 E' k v" if "(k, v) \<in> E \<union> P" for k v
  proof (cases "(k, v) \<in> E")
    case True
    then have "exchangeable items0 E k v" using bis by (auto simp: tag_bisimulation_def)
    moreover have "list_all2 (same_up_to E) xs ys \<Longrightarrow> list_all2 (same_up_to E') xs ys" for xs ys
      using list_all2_mono same_up_to_mono [OF sub(1)] by blast
    ultimately show ?thesis unfolding exchangeable_def by blast
  next
    case False
    with that found show ?thesis by (auto simp: P_def)
  qed
  then have "tag_bisimulation items0 E'"
    by (intro generated_bisimulation [OF d E'_def]) blast
  moreover have "\<forall>k v. map_of (dedupRound items R) k = Some v \<longrightarrow>
      (k, v) \<in> E' \<and> rank items0 v < rank items0 k \<and> k < 2 ^ 64 \<and> v < 2 ^ 64"
    using dedupRound_found [OF R(1), of items] R(2) found sub unfolding P_def by blast
  ultimately have "dedup_inv items0 E' (dedupRound items R) items"
    using inv g sub(1) dedupRound_found [OF R(1), of items] items unfolding dedup_inv_def by blast
  with sub(1) show ?thesis by blast
qed

definition pushed_rank :: "AssemblyItems \<Rightarrow> AssemblyItems \<Rightarrow> nat" where
  "pushed_rank items0 items = sum_list (map (\<lambda>it. if m_type it = PushTag then rank items0 (m_data it) else 0) items)"

lemma rename_decreases:
  assumes "\<forall>k v. map_of R k = Some v \<longrightarrow> rank items0 v < rank items0 k"
  shows "pushed_rank items0 (map (rename (renaming R)) items) \<le> pushed_rank items0 items \<and>
    ((\<exists>it \<in> set items. m_type it = PushTag \<and> map_of R (m_data it) \<noteq> None) \<longrightarrow>
      pushed_rank items0 (map (rename (renaming R)) items) < pushed_rank items0 items)"
proof (induction items)
  case (Cons it items)
  show ?case
  proof (cases "m_type it = PushTag \<and> map_of R (m_data it) \<noteq> None")
    case True
    then obtain v where "map_of R (m_data it) = Some v" by blast
    with assms True Cons show ?thesis by (fastforce simp: pushed_rank_def renaming_def)
  next
    case False
    then have "rename (renaming R) it = it" by (cases "m_type it = PushTag") (simp_all add: rename_def renaming_def)
    with False Cons show ?thesis by (auto simp: pushed_rank_def)
  qed
qed (simp add: pushed_rank_def)

lemma item_eq_pushSelf: "item_eq it pushSelf \<longleftrightarrow> m_type it = PushTag \<and> m_data it = - 4"
  by (auto simp: item_eq_def pushSelf_def)

lemma rename_inv:
  assumes inv: "dedup_inv items0 E R items"
  shows "dedup_inv items0 E R (map (rename (renaming R)) items)"
proof -
  obtain g where items: "items = map (rename g) items0" and g: "\<forall>d. (d, g d) \<in> E"
    using inv by (auto simp: dedup_inv_def)
  have R: "\<forall>k v. map_of R k = Some v \<longrightarrow> (k, v) \<in> E \<and> v < 2 ^ 64"
    and ok: "\<forall>it \<in> set items. \<not> item_eq it pushSelf \<and> (m_type it = PushTag \<longrightarrow> m_data it < 2 ^ 128)"
    and e: "equiv UNIV E"
    using inv by (auto simp: dedup_inv_def tag_bisimulation_def)
  have "map (rename (renaming R)) items = map (rename (renaming R \<circ> g)) items0"
    by (auto simp: items rename_def)
  moreover have "\<forall>d. (d, (renaming R \<circ> g) d) \<in> E"
  proof
    fix d show "(d, (renaming R \<circ> g) d) \<in> E"
      using R g e unfolding equiv_def by (cases "map_of R (g d)") (auto simp: renaming_def dest: transD)
  qed
  moreover have "\<forall>it \<in> set (map (rename (renaming R)) items). \<not> item_eq it pushSelf \<and> (m_type it = PushTag \<longrightarrow> m_data it < 2 ^ 128)"
  proof -
    have "\<not> item_eq (rename (renaming R) it) pushSelf \<and> (m_type it = PushTag \<longrightarrow> m_data (rename (renaming R) it) < 2 ^ 128)"
    if "it \<in> set items" for it
    proof (cases "map_of R (m_data it)")
    case None
    then have "rename (renaming R) it = it" by (simp add: rename_def renaming_def)
    with ok that show ?thesis by simp
  next
    case (Some v)
    then have v: "v < 2 ^ 64" using R by blast
    then have "v < 2 ^ 128" by (rule less_trans) simp
    moreover have "v \<noteq> - 4" using v by auto
    ultimately show ?thesis using Some by (auto simp: item_eq_pushSelf renaming_def)
    qed
    then show ?thesis by simp
  qed
  ultimately show ?thesis using inv unfolding dedup_inv_def by blast
qed

lemma dedupLoop_total:
  assumes d: "tags_distinct items0" and tags: "\<forall>it \<in> set items0. m_type it = Tag \<longrightarrow> m_data it < 2 ^ 64"
    and "dedup_inv items0 E R items"
  shows "\<exists>n' R' items' E'. dedupLoop n R items = Some (Inr (n', R', items')) \<and> dedup_inv items0 E' R' items' \<and>
    (\<forall>it \<in> set items'. m_type it = PushTag \<longrightarrow> map_of R' (m_data it) = None)"
  using assms(3)
proof (induction "pushed_rank items0 items" arbitrary: n R items E rule: less_induct)
  case less
  obtain E' where inv: "dedup_inv items0 E' (dedupRound items R) items"
    using dedupRound_inv [OF less.prems d tags] by blast
  let ?R = "dedupRound items R" and ?items = "map (rename (renaming (dedupRound items R))) items"
  let ?changed = "\<exists>it \<in> set items. m_type it = PushTag \<and> map_of ?R (m_data it) \<noteq> None"
  have app: "applyTagReplacement items ?R (- 1) = Inr (?changed, ?items)"
    by (rule applyTagReplacement_rename) (use inv in \<open>auto simp: dedup_inv_def\<close>)
  have new: "dedup_inv items0 E' ?R ?items" by (rule rename_inv [OF inv])
  show ?case
  proof (cases ?changed)
    case True
    then have "pushed_rank items0 ?items < pushed_rank items0 items"
      using rename_decreases [of ?R items0 items] inv by (simp add: dedup_inv_def)
    from less.hyps [OF this new, of "n + 1"] show ?thesis
      by (subst dedupLoop.simps) (simp only: Let_def app sum.case prod.case True if_True)
  next
    case False
    then have "?items = items" by (intro map_idI) (auto simp: rename_def renaming_def split: option.splits)
    with False inv show ?thesis
      by (subst dedupLoop.simps) (auto simp: Let_def app)
  qed
qed


lemma same_up_to_rename:
  assumes "equiv UNIV E" "\<forall>d. (d, g d) \<in> E"
  shows "list_all2 (same_up_to E) items (map (rename g) items)"
  using assms by (auto simp: list_all2_map2 list_all2_same same_up_to_def rename_def)

text \<open>Two tags in the order of their positions.\<close>

definition earlierTag :: "AssemblyItems \<Rightarrow> u256 \<Rightarrow> u256 \<Rightarrow> bool" where
  "earlierTag items v k \<longleftrightarrow> (\<exists>i < length items. \<exists>j < i. m_type (items ! j) = Tag \<and> m_data (items ! j) = v \<and>
     m_type (items ! i) = Tag \<and> m_data (items ! i) = k)"

lemma exchangeable_earlier:
  assumes "tags_distinct items" "exchangeable items E k v" "rank items v < rank items k"
  shows "earlierTag items v k"
proof -
  have "k \<noteq> v" using assms(3) by auto
  with assms(2) obtain i j where ij: "i < length items" "j < length items" "m_type (items ! i) = Tag" "m_type (items ! j) = Tag"
    "m_data (items ! i) = k" "m_data (items ! j) = v" unfolding exchangeable_def by blast
  with assms(3) rank_index [OF assms(1) ij(1,3,5)] rank_index [OF assms(1) ij(2,4,6)] have "j < i" by simp
  with ij show ?thesis unfolding earlierTag_def by blast
qed

text \<open>
  C10: On items whose tags are distinct and whose numbers fit, the deduplication returns: the loop
  ends. Every tag that is replaced is replaced by one that stands earlier in the items, and both are in
  a bisimulation: the blocks behind two such tags have the same items up to pushed tags that are
  again bisimilar. The items change only in the tags they push, to bisimilar ones, and no replaced tag
  is pushed any more.
\<close>

theorem deduplicate_sound:
  assumes "tags_distinct items" "\<forall>it \<in> set items. m_type it = Tag \<longrightarrow> m_data it < 2 ^ 64"
    and "\<forall>it \<in> set items. m_type it = PushTag \<longrightarrow> m_data it < 2 ^ 128"
  shows "\<exists>changed R items' E. deduplicate items = Some (Inr (changed, R, items')) \<and> tag_bisimulation items E \<and>
    (\<forall>k v. map_of R k = Some v \<longrightarrow> (k, v) \<in> E \<and> earlierTag items v k) \<and> list_all2 (same_up_to E) items items' \<and>
    (\<forall>it \<in> set items'. m_type it = PushTag \<longrightarrow> map_of R (m_data it) = None)"
proof -
  have id: "equiv UNIV Id" by (simp add: equiv_def refl_Id sym_Id trans_Id)
  have bis: "tag_bisimulation items Id" by (auto simp: tag_bisimulation_def id exchangeable_def)
  show ?thesis
  proof (cases "\<exists>it \<in> set items. item_eq it (mkItem Tag (- 4)) \<or> item_eq it pushSelf")
    case True
    then show ?thesis using bis list_all2_same_up_to(1) [OF id]
      by (intro exI [of _ False] exI [of _ "[]"] exI [of _ items] exI [of _ Id]) (simp add: deduplicate_def)
  next
    case False
    have "rename id = (\<lambda>it. it)" by (auto simp: rename_def fun_eq_iff)
    then have "dedup_inv items Id [] items" using bis False assms(3) by (auto simp: dedup_inv_def intro!: exI [of _ id])
    from dedupLoop_total [OF assms(1,2) this, of 0] obtain n R items' E where
      run: "dedupLoop 0 [] items = Some (Inr (n, R, items'))" "dedup_inv items E R items'"
      "\<forall>it \<in> set items'. m_type it = PushTag \<longrightarrow> map_of R (m_data it) = None" by blast
    then obtain g where "items' = map (rename g) items" "\<forall>d. (d, g d) \<in> E" by (auto simp: dedup_inv_def)
    moreover have E: "tag_bisimulation items E" "\<forall>k v. map_of R k = Some v \<longrightarrow> (k, v) \<in> E \<and> rank items v < rank items k"
      using run(2) by (auto simp: dedup_inv_def)
    moreover have order: "\<forall>k v. map_of R k = Some v \<longrightarrow> (k, v) \<in> E \<and> earlierTag items v k"
      using E exchangeable_earlier [OF assms(1)] unfolding tag_bisimulation_def by blast
    ultimately have "list_all2 (same_up_to E) items items'"
      using same_up_to_rename by (auto simp: tag_bisimulation_def)
    moreover have "deduplicate items = Some (Inr (n > 0, R, items'))"
      using False run(1) by (auto simp: deduplicate_def)
    ultimately show ?thesis using E(1) order run(3) by blast
  qed
qed

text \<open>Two loops with the same contents: the jump to the second becomes one to the first.\<close>

theorem deduplicate_sound_witness:
  "deduplicate [mkItem PushTag 2, mkItem Tag 1, mkItem PushTag 1, opItem iJUMP, mkItem Tag 2, mkItem PushTag 2, opItem iJUMP] =
     Some (Inr (True, [(2, 1)],
       [mkItem PushTag 1, mkItem Tag 1, mkItem PushTag 1, opItem iJUMP, mkItem Tag 2, mkItem PushTag 1, opItem iJUMP])) \<and>
   (\<exists>changed R items' E. deduplicate [mkItem PushTag 2, mkItem Tag 1, mkItem PushTag 1, opItem iJUMP, mkItem Tag 2, mkItem PushTag 2, opItem iJUMP] =
      Some (Inr (changed, R, items')) \<and>
    tag_bisimulation [mkItem PushTag 2, mkItem Tag 1, mkItem PushTag 1, opItem iJUMP, mkItem Tag 2, mkItem PushTag 2, opItem iJUMP] E \<and>
    (\<forall>k v. map_of R k = Some v \<longrightarrow>
      earlierTag [mkItem PushTag 2, mkItem Tag 1, mkItem PushTag 1, opItem iJUMP, mkItem Tag 2, mkItem PushTag 2, opItem iJUMP] v k) \<and>
    (\<forall>it \<in> set items'. m_type it = PushTag \<longrightarrow> map_of R (m_data it) = None))"
proof (rule conjI)
  show "deduplicate [mkItem PushTag 2, mkItem Tag 1, mkItem PushTag 1, opItem iJUMP, mkItem Tag 2, mkItem PushTag 2, opItem iJUMP] =
     Some (Inr (True, [(2, 1)],
       [mkItem PushTag 1, mkItem Tag 1, mkItem PushTag 1, opItem iJUMP, mkItem Tag 2, mkItem PushTag 1, opItem iJUMP]))"
    by code_simp
  let ?items = "[mkItem PushTag 2, mkItem Tag 1, mkItem PushTag 1, opItem iJUMP, mkItem Tag 2, mkItem PushTag 2, opItem iJUMP]"
  have "tags_distinct ?items" by (simp add: tags_distinct_def less_Suc_eq all_conj_distrib nth_Cons')
  then show "\<exists>changed R items' E. deduplicate ?items = Some (Inr (changed, R, items')) \<and> tag_bisimulation ?items E \<and>
    (\<forall>k v. map_of R k = Some v \<longrightarrow> earlierTag ?items v k) \<and>
    (\<forall>it \<in> set items'. m_type it = PushTag \<longrightarrow> map_of R (m_data it) = None)"
    using deduplicate_sound [of ?items] by (simp del: list_all2_Cons1) blast
qed

end
