(* ===== verification/Yul_Syntax.thy ===== *)
theory Yul_Syntax
  imports Source_Location Svm_Version Svm_Interpreter
begin

text \<open>
  libyul: the syntax tree (AsmData.h), the strings of identifiers (YulString.h), the dialects with
  their built-in functions (Dialect.h, backends/svm/SVMDialect.cpp) and the values of literals
  (Utilities.cpp).

  A unique pointer that the code always dereferences is its value; one that may be null is an
  option. A \<open>YulString\<close> is its string: the repository gives equal strings the same id.
\<close>

section \<open>Identifiers\<close>

type_synonym YulString = string
type_synonym YulType = string

text \<open>The hash is FNV; the characters are signed and sign-extended, as on the platforms built for.\<close>

definition yulstring_hash :: "YulString \<Rightarrow> u64" where
  "yulstring_hash v =
     foldl (\<lambda>hash c. (hash * 1099511628211) XOR scast (of_nat (of_char c) :: byte)) 14695981039346656037 v"

definition yulstring_less :: "YulString \<Rightarrow> YulString \<Rightarrow> bool" where
  "yulstring_less a b =
     (if yulstring_hash a < yulstring_hash b then True
      else if yulstring_hash b < yulstring_hash a then False
      else if a = b then False
      else string_less a b)"

section \<open>The syntax tree\<close>

record TypedName =
  tn_location :: SourceLocation
  tn_name :: YulString
  tn_type :: YulType

datatype LiteralKind = NumberLiteral | BooleanLiteral | StringLiteral

record Literal =
  li_location :: SourceLocation
  li_kind :: LiteralKind
  li_value :: YulString
  li_type :: YulType

record Identifier =
  id_location :: SourceLocation
  id_name :: YulString

datatype Expression =
    FunctionalInstruction SourceLocation instruction "Expression list"
  | FunctionCall SourceLocation Identifier "Expression list"
  | IdentifierExpression Identifier
  | LiteralExpression Literal

text \<open>
  The statements of strict assembly and of Yul. The plain instructions, labels and stack
  assignments of loose assembly are left out: every walker, the interpreter and every pass included,
  refuses them with an exception.
\<close>

datatype Statement =
    ExpressionStatement SourceLocation Expression
  | Assignment SourceLocation "Identifier list" Expression
  | VariableDeclaration SourceLocation "TypedName list" "Expression option"
  | FunctionStatement FunctionDefinition
  | IfStatement SourceLocation Expression Block
  | SwitchStatement SourceLocation Expression "Case list"
  | ForLoop SourceLocation Block Expression Block Block
  | BreakStatement SourceLocation
  | ContinueStatement SourceLocation
  | BlockStatement Block
and Case = Case (case_location: SourceLocation) (case_value: "Literal option") (case_body: Block)
and Block = Block (block_location: SourceLocation) (statements: "Statement list")
and FunctionDefinition =
  FunctionDefinition (fd_location: SourceLocation) (fd_name: YulString) (fd_parameters: "TypedName list")
    (fd_returnVariables: "TypedName list") (fd_body: Block)

definition emptyLocation :: SourceLocation where
  "emptyLocation = \<lparr>sl_start = - 1, sl_end = - 1, sl_source = None\<rparr>"

fun expr_locationOf :: "Expression \<Rightarrow> SourceLocation" where
  "expr_locationOf (FunctionalInstruction l _ _) = l"
| "expr_locationOf (FunctionCall l _ _) = l"
| "expr_locationOf (IdentifierExpression i) = id_location i"
| "expr_locationOf (LiteralExpression l) = li_location l"

section \<open>Dialects\<close>

datatype AsmFlavour = LooseAsm | StrictAsm | YulAsm

record BuiltinFunction =
  bf_name :: YulString
  bf_parameters :: "YulType list"
  bf_returns :: "YulType list"
  bf_movable :: bool
  bf_sideEffectFree :: bool
  bf_sideEffectFreeIfNoMSize :: bool
  bf_isMSize :: bool
  bf_literalArguments :: bool
  bf_instruction :: "instruction option"

text \<open>A plain dialect has no built-in functions; the other is the one of the machine.\<close>

datatype Dialect =
    PlainDialect AsmFlavour
  | SVMDialect AsmFlavour bool SVMVersion

definition parserInstructions :: "(YulString \<times> instruction) list" where
  "parserInstructions =
     map (\<lambda>(name, i). (map tolower name, i))
       (filter (\<lambda>(name, i). \<not> (i = iJUMPDEST \<or> isPushInstruction i)) c_instructions)"

definition createSVMFunction :: "YulString \<Rightarrow> instruction \<Rightarrow> BuiltinFunction" where
  "createSVMFunction name i =
     (let info = instructionInfo i
      in \<lparr>bf_name = name, bf_parameters = replicate (nat (info_args info)) [],
          bf_returns = replicate (nat (info_ret info)) [], bf_movable = movable i,
          bf_sideEffectFree = (sideEffectFree i = Inr True),
          bf_sideEffectFreeIfNoMSize = (sideEffectFreeIfNoMSize i = Inr True),
          bf_isMSize = (i = iMSIZE), bf_literalArguments = False, bf_instruction = Some i\<rparr>)"

definition createFunction ::
    "YulString \<Rightarrow> nat \<Rightarrow> nat \<Rightarrow> bool \<Rightarrow> bool \<Rightarrow> bool \<Rightarrow> bool \<Rightarrow> BuiltinFunction" where
  "createFunction name params rets mov pure pureIfNoMSize literals =
     \<lparr>bf_name = name, bf_parameters = replicate params [], bf_returns = replicate rets [],
      bf_movable = mov, bf_sideEffectFree = pure,
      bf_sideEffectFreeIfNoMSize = pureIfNoMSize, bf_isMSize = False,
      bf_literalArguments = literals, bf_instruction = None\<rparr>"

definition builtinInstruction :: "SVMVersion \<Rightarrow> instruction \<Rightarrow> bool" where
  "builtinInstruction version i \<longleftrightarrow>
     \<not> isDupInstruction i \<and> \<not> isSwapInstruction i \<and> i \<noteq> iJUMP \<and> i \<noteq> iJUMPI \<and> hasOpcode version i"

definition createBuiltins :: "SVMVersion \<Rightarrow> bool \<Rightarrow> YulString \<Rightarrow> BuiltinFunction option" where
  "createBuiltins version objectAccess name =
     (case map_of parserInstructions name of
        Some i \<Rightarrow> if builtinInstruction version i then Some (createSVMFunction name i) else None
      | None \<Rightarrow>
          if \<not> objectAccess then None
          else if name = ''datasize'' then Some (createFunction name 1 1 True True True True)
          else if name = ''dataoffset'' then Some (createFunction name 1 1 True True True True)
          else if name = ''datacopy'' then Some (createFunction name 3 0 False False False False)
          else None)"

fun builtin :: "Dialect \<Rightarrow> YulString \<Rightarrow> BuiltinFunction option" where
  "builtin (PlainDialect flavour) name = None"
| "builtin (SVMDialect flavour objectAccess version) name = createBuiltins version objectAccess name"

section \<open>The values of literals\<close>

text \<open>
  \<open>u256\<close> of a string reads decimal or, behind the prefix \<open>0x\<close>, hexadecimal digits, and wraps around
  beyond 256 bits. Strings with leading zeros, which it would read as octal, are no valid decimals.
\<close>

definition digitsValue :: "nat \<Rightarrow> string \<Rightarrow> nat" where
  "digitsValue base str = foldl (\<lambda>v c. v * base + nat (hexValue c)) 0 str"

definition u256_of_string :: "string \<Rightarrow> u256" where
  "u256_of_string str =
     of_nat (if take 2 str = ''0x'' then digitsValue 16 (drop 2 str) else digitsValue 10 str)"

definition valueOfNumberLiteral :: "Literal \<Rightarrow> u256 option" where
  "valueOfNumberLiteral l =
     (if li_kind l \<noteq> NumberLiteral then None
      else if \<not> (isValidDecimal (li_value l) \<or> isValidHex (li_value l)) then None
      else Some (u256_of_string (li_value l)))"

definition valueOfStringLiteral :: "Literal \<Rightarrow> u256 option" where
  "valueOfStringLiteral l =
     (if li_kind l \<noteq> StringLiteral then None
      else if 32 < length (li_value l) then None
      else Some (fromBigEndian (asBytes (li_value l) @ replicate (32 - length (li_value l)) 0)))"

definition valueOfBoolLiteral :: "Literal \<Rightarrow> u256 option" where
  "valueOfBoolLiteral l =
     (if li_kind l \<noteq> BooleanLiteral then None
      else if li_value l = ''true'' then Some 1
      else if li_value l = ''false'' then Some 0
      else None)"

text \<open>\<open>None\<close> is a failing assertion.\<close>

definition valueOfLiteral :: "Literal \<Rightarrow> u256 option" where
  "valueOfLiteral l =
     (case li_kind l of
        NumberLiteral \<Rightarrow> valueOfNumberLiteral l
      | BooleanLiteral \<Rightarrow> valueOfBoolLiteral l
      | StringLiteral \<Rightarrow> valueOfStringLiteral l)"

lemma createSVMFunction_sel [simp]:
  "bf_name (createSVMFunction name i) = name" "bf_instruction (createSVMFunction name i) = Some i"
  "bf_movable (createSVMFunction name i) = movable i"
  "bf_sideEffectFree (createSVMFunction name i) = (sideEffectFree i = Inr True)"
  "bf_sideEffectFreeIfNoMSize (createSVMFunction name i) = (sideEffectFreeIfNoMSize i = Inr True)"
  "length (bf_parameters (createSVMFunction name i)) = nat (info_args (instructionInfo i))"
  "length (bf_returns (createSVMFunction name i)) = nat (info_ret (instructionInfo i))"
  by (simp_all add: createSVMFunction_def Let_def)

lemma createBuiltins_cases:
  assumes "createBuiltins version access name = Some f"
  obtains i where "map_of parserInstructions name = Some i" "builtinInstruction version i" "f = createSVMFunction name i"
  | "map_of parserInstructions name = None" "access" "bf_instruction f = None" "bf_name f = name"
      "name \<in> {''datasize'', ''dataoffset'', ''datacopy''}"
  using assms by (cases "map_of parserInstructions name")
    (auto simp: createBuiltins_def createFunction_def split: if_splits)

lemma builtin_name: "builtin d name = Some f \<Longrightarrow> bf_name f = name"
  by (cases d) (auto elim: createBuiltins_cases)

lemma builtin_instruction:
  assumes "builtin d name = Some f" "bf_instruction f = Some i"
  shows "f = createSVMFunction name i \<and> map_of parserInstructions name = Some i \<and>
    (\<exists>flavour access version. d = SVMDialect flavour access version \<and> builtinInstruction version i)"
  using assms by (cases d) (auto elim!: createBuiltins_cases)

lemma mnemonics_upper: "list_all (\<lambda>(s, i). map toupper s = s) c_instructions"
  by code_simp

lemma parser_instruction:
  assumes "map toupper name = up" "(up, i) \<in> set c_instructions" "\<not> (i = iJUMPDEST \<or> isPushInstruction i)"
    "map tolower up = name" "\<forall>j. (up, j) \<in> set c_instructions \<longrightarrow> j = i"
  shows "map_of parserInstructions name = Some i"
proof -
  have "(name, i) \<in> set parserInstructions" using assms(2-4) by (force simp: parserInstructions_def)
  moreover have "j = i" if "(name, j) \<in> set parserInstructions" for j
  proof -
    from that obtain t where t: "map tolower t = name" "(t, j) \<in> set c_instructions"
      by (auto simp: parserInstructions_def)
    then have "map toupper t = t" using mnemonics_upper by (auto simp: list_all_iff)
    moreover have "map toupper name = map toupper t" by (simp add: t(1) [symmetric] comp_def)
    ultimately show "j = i" using t(2) assms(1,5) by simp
  qed
  ultimately show ?thesis using weak_map_of_SomeI map_of_SomeD by metis
qed

lemma parser_pop: "map_of parserInstructions ''pop'' = Some iPOP"
proof (rule parser_instruction)
  show "map toupper ''pop'' = ''POP''" "map tolower ''POP'' = ''pop''" by code_simp+
  show "(''POP'', iPOP) \<in> set c_instructions" "\<forall>j. (''POP'', j) \<in> set c_instructions \<longrightarrow> j = iPOP"
    by (simp_all add: c_instructions_def)
qed (simp add: isPushInstruction_def)

lemma parser_eq: "map_of parserInstructions ''eq'' = Some iEQ"
proof (rule parser_instruction)
  show "map toupper ''eq'' = ''EQ''" "map tolower ''EQ'' = ''eq''" by code_simp+
  show "(''EQ'', iEQ) \<in> set c_instructions" "\<forall>j. (''EQ'', j) \<in> set c_instructions \<longrightarrow> j = iEQ"
    by (simp_all add: c_instructions_def)
qed (simp add: isPushInstruction_def)

lemma builtin_pop: "builtin (SVMDialect flavour access version) ''pop'' = Some (createSVMFunction ''pop'' iPOP)"
  by (simp add: createBuiltins_def parser_pop builtinInstruction_def isDupInstruction_def isSwapInstruction_def hasOpcode_def)

lemma builtin_eq: "builtin (SVMDialect flavour access version) ''eq'' = Some (createSVMFunction ''eq'' iEQ)"
  by (simp add: createBuiltins_def parser_eq builtinInstruction_def isDupInstruction_def isSwapInstruction_def hasOpcode_def)

end
