(* ===== verification/Yul_Interpreter.thy ===== *)
theory Yul_Interpreter
  imports Yul_Syntax
begin

text \<open>
  test/tools/yulInterpreter/Interpreter.cpp and Interpreter.h: the repository's own semantics of
  Yul, against which the passes of the Yul optimiser are proved correct.

  A loop or a recursion need not end: the fuel bounds the depth of the calls and the
  further iterations of every loop, and \<open>NoFuel\<close> stands for a run that needs more. Everything else is
  structural recursion.
\<close>

section \<open>The state\<close>

datatype LoopState = LoopDefault | LoopContinue | LoopBreak

text \<open>The state shared by all interpreters of a run, and the state of one interpreter.\<close>

record YulState =
  ys_machine :: InterpreterState
  ys_maxSteps :: size_t
  ys_numSteps :: size_t
  ys_loopState :: LoopState

definition initialYulState :: YulState where
  "initialYulState = \<lparr>ys_machine = initialState, ys_maxSteps = 0, ys_numSteps = 0, ys_loopState = LoopDefault\<rparr>"

record Env =
  e_variables :: "YulString \<rightharpoonup> u256"
  e_functions :: "YulString \<rightharpoonup> FunctionDefinition"
  e_scopes :: "YulString set list"

text \<open>\<open>PolAssertion\<close> is a failing \<open>polAssert\<close>, \<open>OutOfRangeAccess\<close> an \<open>at\<close> that finds nothing.\<close>

datatype yul_exception =
    InstructionException svm_exception
  | StepLimitReached
  | PolAssertion
  | OutOfRangeAccess

datatype 'a outcome =
    NoFuel
  | Raised yul_exception YulState
  | Done 'a YulState

fun and_then :: "'a outcome \<Rightarrow> ('a \<Rightarrow> YulState \<Rightarrow> 'b outcome) \<Rightarrow> 'b outcome" where
  "and_then NoFuel f = NoFuel"
| "and_then (Raised e st) f = Raised e st"
| "and_then (Done x st) f = f x st"

lemma and_then_cong [fundef_cong]:
  "m = m' \<Longrightarrow> (\<And>x st. m' = Done x st \<Longrightarrow> f x st = g x st) \<Longrightarrow> and_then m f = and_then m' g"
  by (cases m') simp_all

lemma and_then_assoc: "and_then (and_then m f) g = and_then m (\<lambda>x st. and_then (f x st) g)"
  by (cases m) simp_all

definition fromSvm :: "svm_result \<Rightarrow> YulState \<Rightarrow> u256 outcome" where
  "fromSvm r st =
     (case r of (Inl e, ms) \<Rightarrow> Raised (InstructionException e) (st\<lparr>ys_machine := ms\<rparr>)
      | (Inr v, ms) \<Rightarrow> Done v (st\<lparr>ys_machine := ms\<rparr>))"

section \<open>Expressions\<close>

definition evalBuiltin :: "BuiltinFunction \<Rightarrow> u256 list \<Rightarrow> YulState \<Rightarrow> u256 outcome" where
  "evalBuiltin f arguments st =
     (case bf_instruction f of
        Some i \<Rightarrow> fromSvm (svm_eval i arguments (ys_machine st)) st
      | None \<Rightarrow>
          if bf_name f = ''datasize'' then
            (if arguments = [] then Raised OutOfRangeAccess st
             else Done (fromBigEndian (keccak256 (toBigEndian (arguments ! 0))) AND 0xfff) st)
          else if bf_name f = ''dataoffset'' then
            (if arguments = [] then Raised OutOfRangeAccess st
             else Done (fromBigEndian (keccak256 (toBigEndian (arguments ! 0 + 2))) AND 0xfff) st)
          else if bf_name f = ''datacopy'' then
            (if length arguments < 3 then Raised OutOfRangeAccess st
             else fromSvm (copyToMemory (arguments ! 0) (arguments ! 1) (arguments ! 2)
                             (st_code (ys_machine st)) (ys_machine st)) st)
          else Raised (InstructionException YulAssertion) st)"

definition evalLiteral :: "Literal \<Rightarrow> YulState \<Rightarrow> u256 list outcome" where
  "evalLiteral l st =
     (case valueOfLiteral l of None \<Rightarrow> Raised (InstructionException YulAssertion) st | Some v \<Rightarrow> Done [v] st)"

text \<open>The assertion that there is exactly one value.\<close>

definition the_value :: "u256 list \<Rightarrow> YulState \<Rightarrow> u256 outcome" where
  "the_value values st = (if length values = 1 then Done (hd values) st else Raised PolAssertion st)"

text \<open>The variables of a called function: its parameters, then its return variables.\<close>

definition callVariables :: "FunctionDefinition \<Rightarrow> u256 list \<Rightarrow> YulString \<rightharpoonup> u256" where
  "callVariables f values =
     foldl (\<lambda>vars (name, v). vars(name \<mapsto> v)) (\<lambda>_. None)
       (zip (map tn_name (fd_parameters f)) values @ map (\<lambda>r. (tn_name r, 0)) (fd_returnVariables f))"

definition callEnv :: "FunctionDefinition \<Rightarrow> u256 list \<Rightarrow> (YulString \<rightharpoonup> FunctionDefinition) \<Rightarrow> Env" where
  "callEnv f values funs = \<lparr>e_variables = callVariables f values, e_functions = funs, e_scopes = []\<rparr>"

fun returnValues :: "Env \<Rightarrow> TypedName list \<Rightarrow> YulState \<Rightarrow> u256 list outcome" where
  "returnValues env [] st = Done [] st"
| "returnValues env (r # rs) st =
     (case e_variables env (tn_name r) of
        None \<Rightarrow> Raised OutOfRangeAccess st
      | Some v \<Rightarrow> and_then (returnValues env rs st) (\<lambda>vs st. Done (v # vs) st))"

section \<open>Scopes, declarations and assignments\<close>

definition openScope :: "Env \<Rightarrow> Env" where
  "openScope env = env\<lparr>e_scopes := {} # e_scopes env\<rparr>"

definition closeScope :: "Env \<Rightarrow> YulState \<Rightarrow> Env outcome" where
  "closeScope env st =
     (case e_scopes env of
        [] \<Rightarrow> Raised OutOfRangeAccess st
      | names # scopes \<Rightarrow>
          if \<forall>x \<in> names. (e_variables env x \<noteq> None) \<noteq> (e_functions env x \<noteq> None) then
            Done \<lparr>e_variables = (\<lambda>x. if x \<in> names then None else e_variables env x),
                  e_functions = (\<lambda>x. if x \<in> names then None else e_functions env x),
                  e_scopes = scopes\<rparr> st
          else Raised PolAssertion st)"

text \<open>The innermost scope; \<open>back\<close> of an empty vector is undefined, and does not happen inside a block.\<close>

fun insertScope :: "YulString \<Rightarrow> YulString set list \<Rightarrow> YulString set list" where
  "insertScope x [] = [{x}]"
| "insertScope x (names # scopes) = insert x names # scopes"

fun declareVariables :: "Env \<Rightarrow> (TypedName \<times> u256) list \<Rightarrow> YulState \<Rightarrow> Env outcome" where
  "declareVariables env [] st = Done env st"
| "declareVariables env ((x, v) # xs) st =
     (if e_variables env (tn_name x) \<noteq> None then Raised PolAssertion st
      else declareVariables
        (env\<lparr>e_variables := (e_variables env)(tn_name x \<mapsto> v), e_scopes := insertScope (tn_name x) (e_scopes env)\<rparr>) xs st)"

fun assignVariables :: "Env \<Rightarrow> (Identifier \<times> u256) list \<Rightarrow> YulState \<Rightarrow> Env outcome" where
  "assignVariables env [] st = Done env st"
| "assignVariables env ((x, v) # xs) st =
     (if e_variables env (id_name x) = None then Raised PolAssertion st
      else assignVariables (env\<lparr>e_variables := (e_variables env)(id_name x \<mapsto> v)\<rparr>) xs st)"

fun registerFunctions :: "Env \<Rightarrow> Statement list \<Rightarrow> Env" where
  "registerFunctions env [] = env"
| "registerFunctions env (FunctionStatement f # ss) =
     registerFunctions
       (env\<lparr>e_functions := (e_functions env)(fd_name f \<mapsto> f), e_scopes := insertScope (fd_name f) (e_scopes env)\<rparr>) ss"
| "registerFunctions env (_ # ss) = registerFunctions env ss"

section \<open>The interpreter\<close>

abbreviation withLoopState :: "LoopState \<Rightarrow> YulState \<Rightarrow> YulState" where
  "withLoopState l st \<equiv> st\<lparr>ys_loopState := l\<rparr>"

definition countStep :: "YulState \<Rightarrow> unit outcome" where
  "countStep st =
     (let st = st\<lparr>ys_numSteps := ys_numSteps st + 1\<rparr>
      in if 0 < ys_maxSteps st \<and> ys_maxSteps st \<le> ys_numSteps st
         then Raised StepLimitReached (st\<lparr>ys_machine := (ys_machine st)
                \<lparr>st_trace := st_trace (ys_machine st) @ [''Interpreter execution step limit reached.'']\<rparr>\<rparr>)
         else Done () st)"

text \<open>
  What a call of a user-defined function does, as a parameter: its definition, the arguments and
  the functions visible at the call.
\<close>

type_synonym caller =
  "FunctionDefinition \<Rightarrow> u256 list \<Rightarrow> (YulString \<rightharpoonup> FunctionDefinition) \<Rightarrow> YulState \<Rightarrow> u256 list outcome"

fun
  evalExpr :: "Dialect \<Rightarrow> caller \<Rightarrow> Env \<Rightarrow> Expression \<Rightarrow> YulState \<Rightarrow> u256 list outcome" and
  evalArgs :: "Dialect \<Rightarrow> caller \<Rightarrow> Env \<Rightarrow> Expression list \<Rightarrow> YulState \<Rightarrow> u256 list outcome" where
  "evalExpr d call env (LiteralExpression l) st = evalLiteral l st"
| "evalExpr d call env (IdentifierExpression i) st =
     (case e_variables env (id_name i) of None \<Rightarrow> Raised PolAssertion st | Some v \<Rightarrow> Done [v] st)"
| "evalExpr d call env (FunctionalInstruction l i args) st =
     and_then (evalArgs d call env args st) (\<lambda>values st.
     and_then (fromSvm (svm_eval i values (ys_machine st)) st) (\<lambda>v. Done [v]))"
| "evalExpr d call env (FunctionCall l f args) st =
     and_then (evalArgs d call env args st) (\<lambda>values st.
       case builtin d (id_name f) of
         Some b \<Rightarrow> and_then (evalBuiltin b values st) (\<lambda>v. Done [v])
       | None \<Rightarrow>
          (case e_functions env (id_name f) of
             None \<Rightarrow> Raised PolAssertion st
           | Some fun \<Rightarrow>
               if length values \<noteq> length (fd_parameters fun) then Raised PolAssertion st
               else call fun values (e_functions env) st))"
| "evalArgs d call env [] st = Done [] st"
| "evalArgs d call env (e # es) st =
     and_then (evalArgs d call env es st) (\<lambda>vs st.
     and_then (evalExpr d call env e st) (\<lambda>r st.
     and_then (the_value r st) (\<lambda>v. Done (v # vs))))"

definition evaluate :: "Dialect \<Rightarrow> caller \<Rightarrow> Env \<Rightarrow> Expression \<Rightarrow> YulState \<Rightarrow> u256 outcome" where
  "evaluate d call env e st = and_then (evalExpr d call env e st) the_value"

text \<open>A round of the \<open>while\<close> loop, and the loop for at most the given number of further rounds.\<close>

definition loopRound ::
    "(Env \<Rightarrow> YulState \<Rightarrow> u256 outcome) \<Rightarrow> (Env \<Rightarrow> YulState \<Rightarrow> Env outcome) \<Rightarrow>
     (Env \<Rightarrow> YulState \<Rightarrow> Env outcome) \<Rightarrow> (Env \<Rightarrow> YulState \<Rightarrow> Env outcome) \<Rightarrow> Env \<Rightarrow> YulState \<Rightarrow> Env outcome" where
  "loopRound condition body post next_round env st =
     and_then (condition env st) (\<lambda>v st.
       if v = 0 then Done env st
       else and_then (body env (withLoopState LoopDefault st)) (\<lambda>env st.
         if ys_loopState st = LoopBreak then Done env st
         else and_then (post env (withLoopState LoopDefault st)) next_round))"

fun whileLoop ::
    "nat \<Rightarrow> (Env \<Rightarrow> YulState \<Rightarrow> u256 outcome) \<Rightarrow> (Env \<Rightarrow> YulState \<Rightarrow> Env outcome) \<Rightarrow>
     (Env \<Rightarrow> YulState \<Rightarrow> Env outcome) \<Rightarrow> Env \<Rightarrow> YulState \<Rightarrow> Env outcome" where
  "whileLoop 0 condition body post = loopRound condition body post (\<lambda>_ _. NoFuel)"
| "whileLoop (Suc n) condition body post = loopRound condition body post (whileLoop n condition body post)"

fun
  execStatement :: "Dialect \<Rightarrow> caller \<Rightarrow> nat \<Rightarrow> Env \<Rightarrow> Statement \<Rightarrow> YulState \<Rightarrow> Env outcome" and
  execStatements :: "Dialect \<Rightarrow> caller \<Rightarrow> nat \<Rightarrow> Env \<Rightarrow> Statement list \<Rightarrow> YulState \<Rightarrow> Env outcome" and
  visitStatements :: "Dialect \<Rightarrow> caller \<Rightarrow> nat \<Rightarrow> Env \<Rightarrow> Statement list \<Rightarrow> YulState \<Rightarrow> Env outcome" and
  execBlock :: "Dialect \<Rightarrow> caller \<Rightarrow> nat \<Rightarrow> Env \<Rightarrow> Block \<Rightarrow> YulState \<Rightarrow> Env outcome" and
  execCases :: "Dialect \<Rightarrow> caller \<Rightarrow> nat \<Rightarrow> Env \<Rightarrow> u256 \<Rightarrow> Case list \<Rightarrow> YulState \<Rightarrow> Env outcome" where
  "execStatement d call n env (ExpressionStatement l e) st = and_then (evalExpr d call env e st) (\<lambda>_. Done env)"
| "execStatement d call n env (Assignment l xs e) st =
     and_then (evalExpr d call env e st) (\<lambda>values st.
       if length values = length xs then assignVariables env (zip xs values) st else Raised PolAssertion st)"
| "execStatement d call n env (VariableDeclaration l xs value) st =
     and_then (case value of None \<Rightarrow> Done (replicate (length xs) 0) st | Some e \<Rightarrow> evalExpr d call env e st)
       (\<lambda>values st.
         if length values = length xs then declareVariables env (zip xs values) st else Raised PolAssertion st)"
| "execStatement d call n env (FunctionStatement f) st = Done env st"
| "execStatement d call n env (IfStatement l c body) st =
     and_then (evaluate d call env c st) (\<lambda>v st. if v \<noteq> 0 then execBlock d call n env body st else Done env st)"
| "execStatement d call n env (SwitchStatement l e cases) st =
     and_then (evaluate d call env e st) (\<lambda>v st.
       if cases = [] then Raised PolAssertion st else execCases d call n env v cases st)"
| "execStatement d call n env (ForLoop l (Block lp pre) c post body) st =
     and_then (visitStatements d call n (openScope env) pre st) (\<lambda>env st.
     and_then (whileLoop n (\<lambda>env. evaluate d call env c) (\<lambda>env. execBlock d call n env body)
                 (\<lambda>env. execBlock d call n env post) env st) (\<lambda>env st.
       closeScope env (withLoopState LoopDefault st)))"
| "execStatement d call n env (BreakStatement l) st = Done env (withLoopState LoopBreak st)"
| "execStatement d call n env (ContinueStatement l) st = Done env (withLoopState LoopContinue st)"
| "execStatement d call n env (BlockStatement b) st = execBlock d call n env b st"
| "execStatements d call n env [] st = Done env st"
| "execStatements d call n env (s # ss) st =
     and_then (execStatement d call n env s st) (\<lambda>env st.
       if ys_loopState st \<noteq> LoopDefault then Done env st else execStatements d call n env ss st)"
| "visitStatements d call n env [] st = Done env st"
| "visitStatements d call n env (s # ss) st =
     and_then (execStatement d call n env s st) (\<lambda>env. visitStatements d call n env ss)"
| "execBlock d call n env (Block l ss) st =
     and_then (countStep st) (\<lambda>_ st.
     and_then (execStatements d call n (registerFunctions (openScope env) ss) ss st) closeScope)"
| "execCases d call n env v [] st = Done env st"
| "execCases d call n env v (Case l value body # cases) st =
     (case value of
        None \<Rightarrow> execBlock d call n env body st
      | Some lit \<Rightarrow>
          and_then (and_then (evalLiteral lit st) the_value) (\<lambda>w st.
            if w = v then execBlock d call n env body st else execCases d call n env v cases st))"

text \<open>A call runs the body with fresh variables and the functions of its caller.\<close>

fun callFunction :: "Dialect \<Rightarrow> nat \<Rightarrow> caller" where
  "callFunction d 0 fun values funs st = NoFuel"
| "callFunction d (Suc n) fun values funs st =
     and_then (execBlock d (callFunction d n) n (callEnv fun values funs) (fd_body fun) st) (\<lambda>env.
       returnValues env (fd_returnVariables fun))"

text \<open>The run of a program.\<close>

definition emptyEnv :: Env where
  "emptyEnv = \<lparr>e_variables = (\<lambda>_. None), e_functions = (\<lambda>_. None), e_scopes = []\<rparr>"

definition interpret_yul :: "Dialect \<Rightarrow> nat \<Rightarrow> Block \<Rightarrow> YulState \<Rightarrow> Env outcome" where
  "interpret_yul d n ast st = execBlock d (callFunction d n) n emptyEnv ast st"

end
