(* ===== verification/Yul_Equivalence.thy ===== *)
theory Yul_Equivalence
  imports Yul_Interpreter
begin

text \<open>
  When two pieces of Yul code do the same: from the same variables, the same machine state and
  functions that do the same, they have the same outcome. Only the number of steps counted may
  differ, so the runs compared have no limit of steps. The relation is indexed by the fuel, is
  closed under every construct of the language, and is what the passes of the optimiser are
  proved with.
\<close>

section \<open>Related outcomes\<close>

text \<open>States that differ at most in the number of steps.\<close>

definition srel :: "YulState \<Rightarrow> YulState \<Rightarrow> bool" where
  "srel st st' \<longleftrightarrow> st\<lparr>ys_numSteps := 0\<rparr> = st'\<lparr>ys_numSteps := 0\<rparr> \<and> ys_maxSteps st = 0"

text \<open>Outside of loop bodies no \<open>break\<close> or \<open>continue\<close> may be pending.\<close>

definition lrel :: "bool \<Rightarrow> YulState \<Rightarrow> YulState \<Rightarrow> bool" where
  "lrel b st st' \<longleftrightarrow> srel st st' \<and> (\<not> b \<longrightarrow> ys_loopState st = LoopDefault)"

text \<open>After an exception the loop state is not read again.\<close>

definition rrel :: "YulState \<Rightarrow> YulState \<Rightarrow> bool" where
  "rrel st st' \<longleftrightarrow> srel (st\<lparr>ys_loopState := LoopDefault\<rparr>) (st'\<lparr>ys_loopState := LoopDefault\<rparr>)"

fun orel :: "bool \<Rightarrow> ('a \<Rightarrow> 'b \<Rightarrow> bool) \<Rightarrow> 'a outcome \<Rightarrow> 'b outcome \<Rightarrow> bool" where
  "orel b R NoFuel NoFuel = True"
| "orel b R (Raised e st) (Raised e' st') = (e = e' \<and> rrel st st')"
| "orel b R (Done x st) (Done y st') = (R x y \<and> lrel b st st')"
| "orel b R _ _ = False"

named_theorems yul_rel \<open>related outcomes of the constructs\<close>

lemma srel_refl [simp]: "ys_maxSteps st = 0 \<Longrightarrow> srel st st"
  by (simp add: srel_def)

lemma srel_sel:
  assumes "srel st st'"
  shows "ys_machine st' = ys_machine st" "ys_loopState st' = ys_loopState st" "ys_maxSteps st = 0" "ys_maxSteps st' = 0"
  using assms by (cases st; cases st'; simp add: srel_def)+

lemma srel_update [simp]:
  assumes "srel st st'"
  shows "srel (st\<lparr>ys_machine := m\<rparr>) (st'\<lparr>ys_machine := m\<rparr>)" "srel (withLoopState l st) (withLoopState l st')"
    "srel (st\<lparr>ys_numSteps := k\<rparr>) (st'\<lparr>ys_numSteps := k'\<rparr>)" "srel (st\<lparr>ys_numSteps := k\<rparr>) st'" "srel st (st'\<lparr>ys_numSteps := k\<rparr>)"
  using assms by (cases st; cases st'; simp add: srel_def)+

lemma srel_sym: "srel st st' \<Longrightarrow> srel st' st"
  using srel_sel(4) [of st st'] by (auto simp: srel_def)

lemma srel_trans: "srel st st' \<Longrightarrow> srel st' st'' \<Longrightarrow> srel st st''"
  by (simp add: srel_def)

lemma rrel_srel [simp]: "srel st st' \<Longrightarrow> rrel st st'"
  by (simp add: rrel_def)

lemma rrel_loopState: "srel st st' \<Longrightarrow> rrel (withLoopState l st) st'"
  unfolding rrel_def using srel_update(2) [of st st' LoopDefault] by simp

lemma rrel_sym: "rrel st st' \<Longrightarrow> rrel st' st"
  unfolding rrel_def by (rule srel_sym)

lemma rrel_trans: "rrel st st' \<Longrightarrow> rrel st' st'' \<Longrightarrow> rrel st st''"
  unfolding rrel_def by (rule srel_trans)

lemma lrel_sym: "lrel b st st' \<Longrightarrow> lrel b st' st"
  using srel_sym srel_sel(2) by (auto simp: lrel_def)

lemma lrel_trans: "lrel b st st' \<Longrightarrow> lrel b st' st'' \<Longrightarrow> lrel b st st''"
  using srel_trans by (auto simp: lrel_def)

lemma orel_mono: "orel b R m m' \<Longrightarrow> (b \<longrightarrow> b') \<Longrightarrow> (\<And>x y. R x y \<Longrightarrow> S x y) \<Longrightarrow> orel b' S m m'"
  by (cases "(b, R, m, m')" rule: orel.cases) (auto simp: lrel_def)

lemma orel_bind:
  assumes "orel b R m m'" "\<And>x y st st'. R x y \<Longrightarrow> lrel b st st' \<Longrightarrow> orel b' S (f x st) (g y st')"
  shows "orel b' S (and_then m f) (and_then m' g)"
  using assms by (cases "(b, R, m, m')" rule: orel.cases) auto

lemma orel_sym: "orel b R m m' \<Longrightarrow> (\<And>x y. R x y \<Longrightarrow> S y x) \<Longrightarrow> orel b S m' m"
  using rrel_sym lrel_sym by (cases "(b, R, m, m')" rule: orel.cases) auto

lemma orel_trans:
  "orel b R m m' \<Longrightarrow> orel b S m' m'' \<Longrightarrow> (\<And>x y z. R x y \<Longrightarrow> S y z \<Longrightarrow> T x z) \<Longrightarrow> orel b T m m''"
  by (cases m; cases m'; cases m''; simp) (blast intro: rrel_trans lrel_trans)+

section \<open>Related functions and environments\<close>

definition rel_map :: "('b \<Rightarrow> 'c \<Rightarrow> bool) \<Rightarrow> ('a \<rightharpoonup> 'b) \<Rightarrow> ('a \<rightharpoonup> 'c) \<Rightarrow> bool" where
  "rel_map R F G \<longleftrightarrow> (\<forall>x. rel_option R (F x) (G x))"

definition same_signature :: "FunctionDefinition \<Rightarrow> FunctionDefinition \<Rightarrow> bool" where
  "same_signature f f' \<longleftrightarrow> fd_name f' = fd_name f \<and>
     map tn_name (fd_parameters f') = map tn_name (fd_parameters f) \<and>
     map tn_name (fd_returnVariables f') = map tn_name (fd_returnVariables f)"

text \<open>Functions that do the same when called with at most the given fuel.\<close>

fun fun_rel :: "Dialect \<Rightarrow> nat \<Rightarrow> FunctionDefinition \<Rightarrow> FunctionDefinition \<Rightarrow> bool" where
  "fun_rel d 0 f f' = same_signature f f'"
| "fun_rel d (Suc n) f f' =
     (fun_rel d n f f' \<and>
      (\<forall>vals F F' st st'. rel_map (fun_rel d n) F F' \<and> lrel False st st' \<longrightarrow>
         orel False (=) (callFunction d (Suc n) f vals F st) (callFunction d (Suc n) f' vals F' st')))"

definition erel :: "Dialect \<Rightarrow> nat \<Rightarrow> Env \<Rightarrow> Env \<Rightarrow> bool" where
  "erel d n env env' \<longleftrightarrow> e_variables env' = e_variables env \<and> e_scopes env' = e_scopes env \<and>
     rel_map (fun_rel d n) (e_functions env) (e_functions env')"

lemma fun_rel_signature: "fun_rel d n f f' \<Longrightarrow> same_signature f f'"
  by (induction n) auto

lemma rel_map_mono: "rel_map R F G \<Longrightarrow> (\<And>x y. R x y \<Longrightarrow> S x y) \<Longrightarrow> rel_map S F G"
  unfolding rel_map_def using option.rel_mono_strong by blast

lemma fun_rel_call:
  assumes "fun_rel d n f f'" "rel_map (fun_rel d n) F F'" "lrel False st st'"
  shows "orel False (=) (callFunction d n f vals F st) (callFunction d n f' vals F' st')"
proof (cases n)
  case (Suc m)
  have "rel_map (fun_rel d m) F F'" using assms(2) unfolding Suc by (rule rel_map_mono) simp
  with assms(1,3) show ?thesis unfolding Suc by simp
qed simp

lemma rel_map_sym: "rel_map R F G \<Longrightarrow> (\<And>x y. R x y \<Longrightarrow> R y x) \<Longrightarrow> rel_map R G F"
  unfolding rel_map_def by (metis option.rel_sel)

lemma rel_map_trans:
  "rel_map R F G \<Longrightarrow> rel_map R G H \<Longrightarrow> (\<And>x y z. R x y \<Longrightarrow> R y z \<Longrightarrow> R x z) \<Longrightarrow> rel_map R F H"
  unfolding rel_map_def option.rel_sel by metis

lemma fun_rel_sym: "fun_rel d n f f' \<Longrightarrow> fun_rel d n f' f"
proof (induction n arbitrary: f f')
  case 0
  then show ?case by (simp add: same_signature_def)
next
  case (Suc n)
  have "orel False (=) (callFunction d (Suc n) f' vals F st) (callFunction d (Suc n) f vals F' st')"
    if F: "rel_map (fun_rel d n) F F'" and st: "lrel False st st'" for vals F F' st st'
  proof -
    have "rel_map (fun_rel d n) F' F" using rel_map_sym [OF F] Suc.IH by blast
    with Suc.prems lrel_sym [OF st]
    have "orel False (=) (callFunction d (Suc n) f vals F' st') (callFunction d (Suc n) f' vals F st)" by simp
    then show ?thesis by (rule orel_sym) simp
  qed
  with Suc show ?case by simp
qed

lemma fun_rel_trans: "fun_rel d n f g \<Longrightarrow> fun_rel d n g h \<Longrightarrow> fun_rel d n f h"
proof (induction n arbitrary: f g h)
  case 0
  then show ?case by (simp add: same_signature_def)
next
  case (Suc n)
  have "orel False (=) (callFunction d (Suc n) f vals F st) (callFunction d (Suc n) h vals F' st')"
    if F: "rel_map (fun_rel d n) F F'" and st: "lrel False st st'" for vals F F' st st'
  proof -
    have "rel_map (fun_rel d n) F' F" using rel_map_sym [OF F] fun_rel_sym by blast
    with F have FF: "rel_map (fun_rel d n) F F" using rel_map_trans Suc.IH by blast
    have "lrel False st st" using lrel_trans [OF st lrel_sym [OF st]] .
    with FF Suc.prems(1) have "orel False (=) (callFunction d (Suc n) f vals F st) (callFunction d (Suc n) g vals F st)" by simp
    moreover from F st Suc.prems(2)
    have "orel False (=) (callFunction d (Suc n) g vals F st) (callFunction d (Suc n) h vals F' st')" by simp
    ultimately show ?thesis by (rule orel_trans) simp
  qed
  with Suc show ?case by auto
qed

lemma erel_sym: "erel d n env env' \<Longrightarrow> erel d n env' env"
  unfolding erel_def by (metis rel_map_sym fun_rel_sym)

lemma erel_trans: "erel d n env env' \<Longrightarrow> erel d n env' env'' \<Longrightarrow> erel d n env env''"
  using rel_map_trans fun_rel_trans unfolding erel_def by (metis (mono_tags, lifting))

lemma erel_left: "erel d n env env' \<Longrightarrow> erel d n env env"
  using erel_trans erel_sym by blast

lemma erel_right: "erel d n env env' \<Longrightarrow> erel d n env' env'"
  using erel_trans erel_sym by blast

section \<open>Equivalent code\<close>

definition expr_eq :: "Dialect \<Rightarrow> Expression \<Rightarrow> Expression \<Rightarrow> bool" where
  "expr_eq d e e' \<longleftrightarrow> (\<forall>n env env' st st'. erel d n env env' \<and> lrel False st st' \<longrightarrow>
     orel False (=) (evalExpr d (callFunction d n) env e st) (evalExpr d (callFunction d n) env' e' st'))"

text \<open>
  Lists of statements: they register functions that do the same, and do the same when executed;
  with \<open>b\<close> they may leave the body of the surrounding loop.
\<close>

definition stmts_eq :: "Dialect \<Rightarrow> bool \<Rightarrow> Statement list \<Rightarrow> Statement list \<Rightarrow> bool" where
  "stmts_eq d b ss ss' \<longleftrightarrow> (\<forall>n env env' st st'. erel d n env env' \<longrightarrow>
     erel d n (registerFunctions env ss) (registerFunctions env' ss') \<and>
     (lrel False st st' \<longrightarrow>
        orel b (erel d n) (execStatements d (callFunction d n) n env ss st)
          (execStatements d (callFunction d n) n env' ss' st') \<and>
        (\<not> b \<longrightarrow> orel False (erel d n) (visitStatements d (callFunction d n) n env ss st)
          (visitStatements d (callFunction d n) n env' ss' st'))))"

definition block_eq :: "Dialect \<Rightarrow> bool \<Rightarrow> Block \<Rightarrow> Block \<Rightarrow> bool" where
  "block_eq d b B B' \<longleftrightarrow> stmts_eq d b (statements B) (statements B')"

definition fun_eq :: "Dialect \<Rightarrow> FunctionDefinition \<Rightarrow> FunctionDefinition \<Rightarrow> bool" where
  "fun_eq d f f' \<longleftrightarrow> (\<forall>n. fun_rel d n f f')"

lemma expr_eqD:
  "expr_eq d e e' \<Longrightarrow> erel d n env env' \<Longrightarrow> lrel False st st' \<Longrightarrow>
    orel False (=) (evalExpr d (callFunction d n) env e st) (evalExpr d (callFunction d n) env' e' st')"
  by (simp add: expr_eq_def)

lemma expr_eq_trans:
  assumes "expr_eq d e e'" "expr_eq d e' e''"
  shows "expr_eq d e e''"
  unfolding expr_eq_def
proof (intro allI impI, elim conjE)
  fix n env env'' st st''
  assume e: "erel d n env env''" and st: "lrel False st st''"
  show "orel False (=) (evalExpr d (callFunction d n) env e st) (evalExpr d (callFunction d n) env'' e'' st'')"
    using orel_trans [OF expr_eqD [OF assms(1) e st]
        expr_eqD [OF assms(2) erel_right [OF e] lrel_trans [OF lrel_sym [OF st] st]]] by simp
qed

lemma stmts_eqD:
  assumes "stmts_eq d b ss ss'" "erel d n env env'"
  shows "erel d n (registerFunctions env ss) (registerFunctions env' ss')"
    "lrel False st st' \<Longrightarrow> orel b (erel d n) (execStatements d (callFunction d n) n env ss st)
          (execStatements d (callFunction d n) n env' ss' st')"
    "lrel False st st' \<Longrightarrow> \<not> b \<Longrightarrow> orel False (erel d n) (visitStatements d (callFunction d n) n env ss st)
          (visitStatements d (callFunction d n) n env' ss' st')"
  using assms unfolding stmts_eq_def by blast+

lemma stmts_eq_trans:
  assumes "stmts_eq d b ss ss'" "stmts_eq d b ss' ss''"
  shows "stmts_eq d b ss ss''"
  unfolding stmts_eq_def
proof (intro allI impI conjI)
  fix n env env'' st st''
  assume e: "erel d n env env''"
  note r = erel_right [OF e]
  show "erel d n (registerFunctions env ss) (registerFunctions env'' ss'')"
    using stmts_eqD(1) [OF assms(1) e] stmts_eqD(1) [OF assms(2) r] by (rule erel_trans)
  assume st: "lrel False st st''"
  note rs = lrel_trans [OF lrel_sym [OF st] st]
  show "orel b (erel d n) (execStatements d (callFunction d n) n env ss st) (execStatements d (callFunction d n) n env'' ss'' st'')"
    using orel_trans [OF stmts_eqD(2) [OF assms(1) e st] stmts_eqD(2) [OF assms(2) r rs]] erel_trans by blast
  assume "\<not> b"
  then show "orel False (erel d n) (visitStatements d (callFunction d n) n env ss st) (visitStatements d (callFunction d n) n env'' ss'' st'')"
    using orel_trans [OF stmts_eqD(3) [OF assms(1) e st] stmts_eqD(3) [OF assms(2) r rs]] erel_trans by blast
qed

section \<open>Expressions\<close>

lemma orel_the_value: "lrel False st st' \<Longrightarrow> orel False (=) (the_value r st) (the_value r st')"
  by (simp add: the_value_def lrel_def)

lemma orel_Done: "R x y \<Longrightarrow> lrel b st st' \<Longrightarrow> orel b R (Done x st) (Done y st')"
  by simp

lemma orel_Raised: "lrel b st st' \<Longrightarrow> orel b' R (Raised e st) (Raised e st')"
  by (simp add: lrel_def)

lemma orel_fromSvm:
  "lrel b st st' \<Longrightarrow> orel b (=) (fromSvm r st) (fromSvm r st')"
  by (cases r) (auto simp: fromSvm_def lrel_def split: sum.splits)

lemma orel_evalLiteral: "lrel b st st' \<Longrightarrow> orel b (=) (evalLiteral l st) (evalLiteral l st')"
  by (auto simp: evalLiteral_def lrel_def split: option.splits)

lemma orel_evalBuiltin: "lrel b st st' \<Longrightarrow> orel b (=) (evalBuiltin f vals st) (evalBuiltin f vals st')"
  by (auto simp: evalBuiltin_def srel_sel(1) lrel_def intro!: orel_fromSvm [unfolded lrel_def] split: option.splits)

lemma expr_eq_literal: "valueOfLiteral l' = valueOfLiteral l \<Longrightarrow> expr_eq d (LiteralExpression l) (LiteralExpression l')"
  using orel_evalLiteral [of False] by (simp add: expr_eq_def evalLiteral_def)

lemma expr_eq_identifier: "id_name i' = id_name i \<Longrightarrow> expr_eq d (IdentifierExpression i) (IdentifierExpression i')"
  by (auto simp: expr_eq_def erel_def lrel_def split: option.splits)

lemma args_eq:
  assumes "list_all2 (expr_eq d) es es'" "erel d n env env'" "lrel False st st'"
  shows "orel False (=) (evalArgs d (callFunction d n) env es st) (evalArgs d (callFunction d n) env' es' st')"
  using assms(1,3)
proof (induction es es' arbitrary: st st' rule: list_all2_induct)
  case (Cons e es e' es')
  show ?case
    by (auto intro!: orel_bind [OF Cons.IH] orel_bind [OF expr_eqD [OF Cons.hyps(1) assms(2)]]
        orel_bind [OF orel_the_value] Cons.prems)
qed simp

lemma expr_eq_instruction:
  assumes "list_all2 (expr_eq d) es es'"
  shows "expr_eq d (FunctionalInstruction l i es) (FunctionalInstruction l' i es')"
  unfolding expr_eq_def evalExpr.simps
  by (auto intro!: orel_bind [OF args_eq [OF assms]] orel_bind [OF orel_fromSvm [where b = False]] simp: lrel_def srel_sel(1))

lemma expr_eq_call:
  assumes args: "list_all2 (expr_eq d) es es'" and "id_name f' = id_name f"
  shows "expr_eq d (FunctionCall l f es) (FunctionCall l' f' es')"
  unfolding expr_eq_def evalExpr.simps
proof (intro allI impI, elim conjE, rule orel_bind [OF args_eq [OF args]])
  fix n env env' vals vals' st st'
  assume e: "erel d n env env'" and "vals = (vals' :: u256 list)" and st: "lrel False st st'"
  show "orel False (=)
     (case builtin d (id_name f) of
         Some b \<Rightarrow> and_then (evalBuiltin b vals st) (\<lambda>v. Done [v])
       | None \<Rightarrow> (case e_functions env (id_name f) of None \<Rightarrow> Raised PolAssertion st
           | Some fun \<Rightarrow> if length vals \<noteq> length (fd_parameters fun) then Raised PolAssertion st
               else callFunction d n fun vals (e_functions env) st))
     (case builtin d (id_name f') of
         Some b \<Rightarrow> and_then (evalBuiltin b vals' st') (\<lambda>v. Done [v])
       | None \<Rightarrow> (case e_functions env' (id_name f') of None \<Rightarrow> Raised PolAssertion st'
           | Some fun \<Rightarrow> if length vals' \<noteq> length (fd_parameters fun) then Raised PolAssertion st'
               else callFunction d n fun vals' (e_functions env') st'))"
  proof (cases "builtin d (id_name f)")
    case None
    have F: "rel_map (fun_rel d n) (e_functions env) (e_functions env')" using e by (simp add: erel_def)
    show ?thesis
    proof (cases "e_functions env (id_name f)")
      case no: None
      then have "e_functions env' (id_name f) = None" using F by (auto simp: rel_map_def dest!: spec [of _ "id_name f"])
      with None no st show ?thesis by (simp add: assms(2) lrel_def)
    next
      case (Some g)
      then obtain g' where g': "e_functions env' (id_name f) = Some g'" "fun_rel d n g g'"
        using F by (auto simp: rel_map_def option_rel_Some1 dest!: spec [of _ "id_name f"])
      have "length (fd_parameters g') = length (fd_parameters g)"
        using fun_rel_signature [OF g'(2)] by (simp add: same_signature_def) (metis length_map)
      with None Some g' \<open>vals = vals'\<close> fun_rel_call [OF g'(2) F st] st show ?thesis
        by (simp add: assms(2) lrel_def)
    qed
  next
    case (Some b)
    have "orel False (=) (and_then (evalBuiltin b vals' st) (\<lambda>v. Done [v])) (and_then (evalBuiltin b vals' st') (\<lambda>v. Done [v]))"
      by (rule orel_bind [OF orel_evalBuiltin [OF st]]) simp
    with Some show ?thesis using \<open>vals = vals'\<close> by (simp add: assms(2))
  qed
qed

lemma expr_eq_refl: "expr_eq d e e"
proof (induction e)
  case (FunctionalInstruction l i es)
  then show ?case by (intro expr_eq_instruction) (simp add: list_all2_same)
next
  case (FunctionCall l f es)
  then show ?case by (intro expr_eq_call) (simp_all add: list_all2_same)
qed (simp_all add: expr_eq_identifier expr_eq_literal)

lemma orel_evaluate:
  assumes "expr_eq d e e'" "erel d n env env'" "lrel False st st'"
  shows "orel False (=) (evaluate d (callFunction d n) env e st) (evaluate d (callFunction d n) env' e' st')"
  unfolding evaluate_def by (rule orel_bind [OF expr_eqD [OF assms]]) (simp add: orel_the_value)

section \<open>Environments\<close>

lemma erel_openScope: "erel d n env env' \<Longrightarrow> erel d n (openScope env) (openScope env')"
  by (simp add: erel_def openScope_def)

lemma erel_defined: "erel d n env env' \<Longrightarrow> e_functions env' x = None \<longleftrightarrow> e_functions env x = None"
  unfolding erel_def rel_map_def by (metis option.rel_sel)

lemma orel_closeScope:
  assumes "erel d n env env'" "lrel b st st'"
  shows "orel b (erel d n) (closeScope env st) (closeScope env' st')"
  using assms erel_defined [OF assms(1)]
  by (auto simp: closeScope_def erel_def rel_map_def lrel_def split: list.splits)

lemma orel_declareVariables:
  "erel d n env env' \<Longrightarrow> lrel b st st' \<Longrightarrow> map tn_name xs' = map tn_name xs \<Longrightarrow> length vals = length xs \<Longrightarrow>
    orel b (erel d n) (declareVariables env (zip xs vals) st) (declareVariables env' (zip xs' vals) st')"
proof (induction xs arbitrary: xs' vals env env')
  case (Cons x xs)
  then obtain x' ys v vs where "xs' = x' # ys" "vals = v # vs" "tn_name x' = tn_name x"
    by (metis length_Suc_conv list.size(4) map_eq_Cons_conv add_Suc_right add_0_right list.simps(9))
  with Cons.prems Cons.IH [of "env\<lparr>e_variables := (e_variables env)(tn_name x \<mapsto> v), e_scopes := insertScope (tn_name x) (e_scopes env)\<rparr>"
    "env'\<lparr>e_variables := (e_variables env)(tn_name x \<mapsto> v), e_scopes := insertScope (tn_name x) (e_scopes env)\<rparr>" ys vs]
  show ?case by (auto simp: erel_def lrel_def)
qed simp

lemma orel_assignVariables:
  "erel d n env env' \<Longrightarrow> lrel b st st' \<Longrightarrow> map id_name xs' = map id_name xs \<Longrightarrow> length vals = length xs \<Longrightarrow>
    orel b (erel d n) (assignVariables env (zip xs vals) st) (assignVariables env' (zip xs' vals) st')"
proof (induction xs arbitrary: xs' vals env env')
  case (Cons x xs)
  then obtain x' ys v vs where "xs' = x' # ys" "vals = v # vs" "id_name x' = id_name x"
    by (metis length_Suc_conv list.size(4) map_eq_Cons_conv add_Suc_right add_0_right list.simps(9))
  with Cons.prems Cons.IH [of "env\<lparr>e_variables := (e_variables env)(id_name x \<mapsto> v)\<rparr>"
    "env'\<lparr>e_variables := (e_variables env)(id_name x \<mapsto> v)\<rparr>" ys vs]
  show ?case by (auto simp: erel_def lrel_def)
qed simp

lemma orel_countStep: "lrel b st st' \<Longrightarrow> orel b (=) (countStep st) (countStep st')"
  by (auto simp: countStep_def Let_def lrel_def dest: srel_sel)

lemma execBlock_statements:
  "execBlock d call n env B st =
     and_then (countStep st) (\<lambda>_ st.
     and_then (execStatements d call n (registerFunctions (openScope env) (statements B)) (statements B) st) closeScope)"
  by (cases B) simp

lemma orel_execBlock:
  assumes "block_eq d b B B'" "erel d n env env'" "lrel False st st'"
  shows "orel b (erel d n) (execBlock d (callFunction d n) n env B st) (execBlock d (callFunction d n) n env' B' st')"
proof -
  note eq = assms(1) [unfolded block_eq_def]
  note reg = stmts_eqD(1) [OF eq erel_openScope [OF assms(2)]]
  show ?thesis unfolding execBlock_statements
    by (rule orel_bind [OF orel_countStep [OF assms(3)]], rule orel_bind [OF stmts_eqD(2) [OF eq reg]])
      (simp_all add: orel_closeScope)
qed

lemma orel_returnValues:
  "erel d n env env' \<Longrightarrow> lrel b st st' \<Longrightarrow> map tn_name rs' = map tn_name rs \<Longrightarrow>
    orel b (=) (returnValues env rs st) (returnValues env' rs' st')"
proof (induction rs arbitrary: rs' st st')
  case (Cons r rs)
  then obtain r' ts where "rs' = r' # ts" "tn_name r' = tn_name r" "map tn_name ts = map tn_name rs" by auto
  note r = this
  have "orel b (=) (and_then (returnValues env rs st) (\<lambda>vs. Done (v # vs))) (and_then (returnValues env' ts st') (\<lambda>vs. Done (v # vs)))" for v
    by (rule orel_bind [OF Cons.IH [OF Cons.prems(1,2) r(3)]]) simp
  moreover have "e_variables env' (tn_name r) = e_variables env (tn_name r)" using Cons.prems(1) by (simp add: erel_def)
  ultimately show ?case using orel_Raised [OF Cons.prems(2)] r(1,2) by (simp split: option.splits)
qed simp

lemma callVariables_signature: "same_signature f f' \<Longrightarrow> callVariables f' vals = callVariables f vals"
proof -
  assume s: "same_signature f f'"
  then have "map (\<lambda>x. (x, 0 :: u256)) (map tn_name (fd_returnVariables f')) = map (\<lambda>x. (x, 0)) (map tn_name (fd_returnVariables f))"
    by (simp only: same_signature_def)
  then have "map (\<lambda>r. (tn_name r, 0 :: u256)) (fd_returnVariables f') = map (\<lambda>r. (tn_name r, 0)) (fd_returnVariables f)"
    by (simp only: list.map_comp comp_def)
  with s show ?thesis by (simp add: callVariables_def same_signature_def)
qed

text \<open>Functions with equivalent bodies are equivalent.\<close>

lemma fun_eqI:
  assumes sig: "same_signature f f'" and body: "block_eq d False (fd_body f) (fd_body f')"
  shows "fun_eq d f f'"
  unfolding fun_eq_def
proof
  fix n show "fun_rel d n f f'"
  proof (induction n)
    case (Suc n)
    have "orel False (=) (callFunction d (Suc n) f vals F st) (callFunction d (Suc n) f' vals F' st')"
      if F: "rel_map (fun_rel d n) F F'" and st: "lrel False st st'" for vals F F' st st'
    proof -
      have e: "erel d n (callEnv f vals F) (callEnv f' vals F')"
        using F callVariables_signature [OF sig] by (simp add: erel_def callEnv_def)
      show ?thesis unfolding callFunction.simps
        by (rule orel_bind [OF orel_execBlock [OF body e st]]) (use sig in \<open>simp add: orel_returnValues same_signature_def\<close>)
    qed
    with Suc show ?case by simp
  qed (use sig in simp)
qed

section \<open>Statements\<close>

lemma and_then_Done [simp]: "and_then m Done = m"
  by (cases m) simp_all

lemma execStatements_append:
  "ys_loopState st = LoopDefault \<Longrightarrow> execStatements d call n env (ss @ ts) st =
     and_then (execStatements d call n env ss st) (\<lambda>env st.
       if ys_loopState st \<noteq> LoopDefault then Done env st else execStatements d call n env ts st)"
proof (induction ss arbitrary: env st)
  case (Cons s ss)
  then show ?case by (auto simp: and_then_assoc intro!: and_then_cong)
qed simp

lemma visitStatements_append:
  "visitStatements d call n env (ss @ ts) st =
     and_then (visitStatements d call n env ss st) (\<lambda>env. visitStatements d call n env ts)"
  by (induction ss arbitrary: env st) (simp_all add: and_then_assoc cong: and_then_cong)

lemma registerFunctions_append: "registerFunctions env (ss @ ts) = registerFunctions (registerFunctions env ss) ts"
  by (induction env ss rule: registerFunctions.induct) simp_all

lemma stmts_eq_Nil: "stmts_eq d b [] []"
  by (simp add: stmts_eq_def lrel_def)

lemma stmts_eq_append:
  assumes "stmts_eq d b ss ss'" "stmts_eq d b ts ts'"
  shows "stmts_eq d b (ss @ ts) (ss' @ ts')"
  unfolding stmts_eq_def
proof (intro allI impI conjI)
  fix n env env' st st'
  assume e: "erel d n env env'"
  show "erel d n (registerFunctions env (ss @ ts)) (registerFunctions env' (ss' @ ts'))"
    unfolding registerFunctions_append by (intro stmts_eqD(1) [OF assms(2)] stmts_eqD(1) [OF assms(1)] e)
  assume st: "lrel False st st'"
  then have l: "ys_loopState st = LoopDefault" "ys_loopState st' = LoopDefault" by (auto simp: lrel_def dest: srel_sel)
  show "orel b (erel d n) (execStatements d (callFunction d n) n env (ss @ ts) st) (execStatements d (callFunction d n) n env' (ss' @ ts') st')"
    unfolding execStatements_append [OF l(1)] execStatements_append [OF l(2)]
    by (rule orel_bind [OF stmts_eqD(2) [OF assms(1) e st]])
      (auto intro!: stmts_eqD(2) [OF assms(2)] simp: lrel_def dest: srel_sel(2))
  assume b: "\<not> b"
  show "orel False (erel d n) (visitStatements d (callFunction d n) n env (ss @ ts) st) (visitStatements d (callFunction d n) n env' (ss' @ ts') st')"
    unfolding visitStatements_append
    by (rule orel_bind [OF stmts_eqD(3) [OF assms(1) e st b]]) (intro stmts_eqD(3) [OF assms(2)] b)
qed

lemma stmts_eq_Cons: "stmts_eq d b [s] ss' \<Longrightarrow> stmts_eq d b ts ts' \<Longrightarrow> stmts_eq d b (s # ts) (ss' @ ts')"
  using stmts_eq_append [of d b "[s]" ss' ts ts'] by simp

lemma exec_single [simp]:
  "execStatements d call n env [s] st = execStatement d call n env s st"
  "visitStatements d call n env [s] st = execStatement d call n env s st"
  by (cases "execStatement d call n env s st"; simp)+

text \<open>A statement that declares no function is equivalent to another if it executes like it.\<close>

definition isFunction :: "Statement \<Rightarrow> bool" where
  "isFunction s \<longleftrightarrow> (\<exists>f. s = FunctionStatement f)"

lemma registerFunctions_other: "\<not> isFunction s \<Longrightarrow> registerFunctions env (s # ss) = registerFunctions env ss"
  by (cases s) (auto simp: isFunction_def)

lemma stmt_eqI:
  assumes "\<not> isFunction s" "\<not> isFunction s'"
    and "\<And>n env env' st st'. erel d n env env' \<Longrightarrow> lrel False st st' \<Longrightarrow>
      orel b (erel d n) (execStatement d (callFunction d n) n env s st) (execStatement d (callFunction d n) n env' s' st')"
  shows "stmts_eq d b [s] [s']"
  using assms(3) by (cases b)
    (auto simp: stmts_eq_def registerFunctions_other [OF assms(1)] registerFunctions_other [OF assms(2)]
      simp del: execStatements.simps visitStatements.simps)

lemma stmt_eq_expression: "expr_eq d e e' \<Longrightarrow> stmts_eq d b [ExpressionStatement l e] [ExpressionStatement l' e']"
  by (rule stmt_eqI) (auto simp: isFunction_def lrel_def intro!: orel_bind [OF expr_eqD])

lemma stmt_eq_assignment:
  assumes "map id_name xs' = map id_name xs" "expr_eq d e e'"
  shows "stmts_eq d b [Assignment l xs e] [Assignment l' xs' e']"
proof (rule stmt_eqI)
  have len: "length xs' = length xs" using arg_cong [OF assms(1), of length] by simp
  fix n env env' st st'
  assume e: "erel d n env env'" "lrel False st st'"
  show "orel b (erel d n) (execStatement d (callFunction d n) n env (Assignment l xs e) st)
    (execStatement d (callFunction d n) n env' (Assignment l' xs' e') st')"
    unfolding execStatement.simps
  proof (rule orel_bind [OF expr_eqD [OF assms(2) e]])
    fix x y st st' assume "x = (y :: u256 list)" "lrel False st st'"
    then have "lrel b st st'" by (simp add: lrel_def)
    with \<open>x = y\<close> e(1) assms(1) len
    show "orel b (erel d n) (if length x = length xs then assignVariables env (zip xs x) st else Raised PolAssertion st)
      (if length y = length xs' then assignVariables env' (zip xs' y) st' else Raised PolAssertion st')"
      by (auto intro: orel_assignVariables simp: lrel_def)
  qed
qed (simp_all add: isFunction_def)

lemma stmt_eq_declaration:
  assumes "map tn_name xs' = map tn_name xs" "rel_option (expr_eq d) val val'"
  shows "stmts_eq d b [VariableDeclaration l xs val] [VariableDeclaration l' xs' val']"
proof (rule stmt_eqI)
  have len: "length xs' = length xs" using arg_cong [OF assms(1), of length] by simp
  fix n env env' st st'
  assume e: "erel d n env env'" "lrel False st st'"
  have val: "orel False (=)
     (case val of None \<Rightarrow> Done (replicate (length xs) 0) st | Some e \<Rightarrow> evalExpr d (callFunction d n) env e st)
     (case val' of None \<Rightarrow> Done (replicate (length xs') 0) st' | Some e \<Rightarrow> evalExpr d (callFunction d n) env' e st')"
    using assms(2) e len by (cases val; cases val') (auto intro: expr_eqD)
  show "orel b (erel d n) (execStatement d (callFunction d n) n env (VariableDeclaration l xs val) st)
    (execStatement d (callFunction d n) n env' (VariableDeclaration l' xs' val') st')"
    unfolding execStatement.simps
  proof (rule orel_bind [OF val])
    fix x y st st' assume "x = (y :: u256 list)" "lrel False st st'"
    then have "lrel b st st'" by (simp add: lrel_def)
    with \<open>x = y\<close> e(1) assms(1) len
    show "orel b (erel d n) (if length x = length xs then declareVariables env (zip xs x) st else Raised PolAssertion st)
      (if length y = length xs' then declareVariables env' (zip xs' y) st' else Raised PolAssertion st')"
      by (auto intro: orel_declareVariables simp: lrel_def)
  qed
qed (simp_all add: isFunction_def)

lemma stmt_eq_block: "block_eq d b B B' \<Longrightarrow> stmts_eq d b [BlockStatement B] [BlockStatement B']"
  by (rule stmt_eqI) (simp_all add: isFunction_def orel_execBlock)

lemma stmt_eq_if:
  assumes "expr_eq d e e'" "block_eq d b B B'"
  shows "stmts_eq d b [IfStatement l e B] [IfStatement l' e' B']"
  by (rule stmt_eqI)
    (auto simp: isFunction_def lrel_def intro!: orel_bind [OF orel_evaluate [OF assms(1)]] orel_execBlock [OF assms(2)])

definition case_eq :: "Dialect \<Rightarrow> bool \<Rightarrow> Case \<Rightarrow> Case \<Rightarrow> bool" where
  "case_eq d b c c' \<longleftrightarrow> rel_option (\<lambda>l l'. valueOfLiteral l' = valueOfLiteral l) (case_value c) (case_value c') \<and>
     block_eq d b (case_body c) (case_body c')"

lemma orel_execCases:
  "list_all2 (case_eq d b) cs cs' \<Longrightarrow> erel d n env env' \<Longrightarrow> lrel False st st' \<Longrightarrow>
    orel b (erel d n) (execCases d (callFunction d n) n env v cs st) (execCases d (callFunction d n) n env' v cs' st')"
proof (induction cs cs' arbitrary: st st' rule: list_all2_induct)
  case Nil
  then show ?case by (simp add: lrel_def)
next
  case (Cons c cs c' cs')
  obtain l lit B where c: "c = Case l lit B" by (cases c)
  obtain l' lit' B' where c': "c' = Case l' lit' B'" by (cases c')
  note e = Cons.prems
  from Cons.hyps(1) have B: "block_eq d b B B'"
    and lit: "rel_option (\<lambda>l l'. valueOfLiteral l' = valueOfLiteral l) lit lit'" by (simp_all add: case_eq_def c c')
  show ?case
  proof (cases lit)
    case None
    with lit show ?thesis using orel_execBlock [OF B e] by (simp add: c c')
  next
    case (Some x)
    with lit obtain x' where x': "lit' = Some x'" "valueOfLiteral x' = valueOfLiteral x" by (auto simp: option_rel_Some1)
    have "evalLiteral x' st = evalLiteral x st" for st using x'(2) by (simp add: evalLiteral_def)
    then have "orel False (=) (and_then (evalLiteral x st) the_value) (and_then (evalLiteral x' st') the_value)"
      by (simp only:) (rule orel_bind [OF orel_evalLiteral [OF e(2)]], simp add: orel_the_value)
    then have "orel b (erel d n)
      (and_then (and_then (evalLiteral x st) the_value) (\<lambda>w st. if w = v then execBlock d (callFunction d n) n env B st
         else execCases d (callFunction d n) n env v cs st))
      (and_then (and_then (evalLiteral x' st') the_value) (\<lambda>w st. if w = v then execBlock d (callFunction d n) n env' B' st
         else execCases d (callFunction d n) n env' v cs' st))"
      by (rule orel_bind) (auto intro: orel_execBlock [OF B e(1)] Cons.IH [OF e(1)])
    then show ?thesis by (simp add: c c' Some x')
  qed
qed

lemma stmt_eq_switch:
  assumes "expr_eq d e e'" "list_all2 (case_eq d b) cs cs'"
  shows "stmts_eq d b [SwitchStatement l e cs] [SwitchStatement l' e' cs']"
proof (rule stmt_eqI)
  fix n env env' st st'
  assume e: "erel d n env env'" "lrel False st st'"
  have "cs = [] \<longleftrightarrow> cs' = []" using assms(2) by auto
  then show "orel b (erel d n) (execStatement d (callFunction d n) n env (SwitchStatement l e cs) st)
    (execStatement d (callFunction d n) n env' (SwitchStatement l' e' cs') st')"
    unfolding execStatement.simps using assms(2) e
    by (auto intro!: orel_bind [OF orel_evaluate [OF assms(1)]] orel_execCases simp: lrel_def [of False])
qed (simp_all add: isFunction_def)

lemma lrel_reset: "srel st st' \<Longrightarrow> lrel False (withLoopState LoopDefault st) (withLoopState LoopDefault st')"
  by (simp add: lrel_def)

lemma orel_loopRound:
  assumes c: "\<And>env env' st st'. R env env' \<Longrightarrow> lrel False st st' \<Longrightarrow> orel False (=) (c env st) (c' env' st')"
    and body: "\<And>env env' st st'. R env env' \<Longrightarrow> lrel False st st' \<Longrightarrow> orel True R (body env st) (body' env' st')"
    and post: "\<And>env env' st st'. R env env' \<Longrightarrow> lrel False st st' \<Longrightarrow> orel False R (post env st) (post' env' st')"
    and more: "\<And>env env' st st'. R env env' \<Longrightarrow> lrel False st st' \<Longrightarrow> orel True R (k env st) (k' env' st')"
    and e: "R env env'" "lrel False st st'"
  shows "orel True R (loopRound c body post k env st) (loopRound c' body' post' k' env' st')"
proof -
  have round_end: "orel True R
      (if ys_loopState s = LoopBreak then Done x s else and_then (post x (withLoopState LoopDefault s)) k)
      (if ys_loopState s' = LoopBreak then Done y s' else and_then (post' y (withLoopState LoopDefault s')) k')"
    if "R x y" "lrel True s s'" for x y s s'
  proof -
    have s: "srel s s'" using that(2) by (simp add: lrel_def)
    show ?thesis
    proof (cases "ys_loopState s = LoopBreak")
      case True
      with s that(1) show ?thesis by (simp add: srel_sel(2) lrel_def)
    next
      case False
      have "orel True R (and_then (post x (withLoopState LoopDefault s)) k) (and_then (post' y (withLoopState LoopDefault s')) k')"
        by (rule orel_bind [OF post [OF that(1) lrel_reset [OF s]]]) (rule more)
      with False s show ?thesis by (simp add: srel_sel(2))
    qed
  qed
  show ?thesis unfolding loopRound_def
  proof (rule orel_bind [OF c [OF e]])
    fix x y st st' assume "x = (y :: u256)" and st: "lrel False st st'"
    then show "orel True R
      (if x = 0 then Done env st
       else and_then (body env (withLoopState LoopDefault st)) (\<lambda>env st. if ys_loopState st = LoopBreak then Done env st
         else and_then (post env (withLoopState LoopDefault st)) k))
      (if y = 0 then Done env' st'
       else and_then (body' env' (withLoopState LoopDefault st')) (\<lambda>env st. if ys_loopState st = LoopBreak then Done env st
         else and_then (post' env (withLoopState LoopDefault st)) k'))"
      using e(1) by (auto intro!: orel_bind [OF body [OF e(1) lrel_reset]] round_end simp: lrel_def)
  qed
qed

lemma orel_whileLoop:
  assumes c: "\<And>env env' st st'. R env env' \<Longrightarrow> lrel False st st' \<Longrightarrow> orel False (=) (c env st) (c' env' st')"
    and body: "\<And>env env' st st'. R env env' \<Longrightarrow> lrel False st st' \<Longrightarrow> orel True R (body env st) (body' env' st')"
    and post: "\<And>env env' st st'. R env env' \<Longrightarrow> lrel False st st' \<Longrightarrow> orel False R (post env st) (post' env' st')"
  shows "R env env' \<Longrightarrow> lrel False st st' \<Longrightarrow>
    orel True R (whileLoop k c body post env st) (whileLoop k c' body' post' env' st')"
proof (induction k arbitrary: env env' st st')
  case 0
  then show ?case using orel_loopRound [where R = R, OF c body post] by simp
next
  case (Suc k)
  then show ?case using orel_loopRound [where R = R, OF c body post Suc.IH] by simp
qed

lemma stmt_eq_for:
  assumes pre: "block_eq d False pre pre'" and c: "expr_eq d c c'"
    and post: "block_eq d False post post'" and body: "block_eq d True body body'"
  shows "stmts_eq d b [ForLoop l pre c post body] [ForLoop l' pre' c' post' body']"
proof (rule stmt_eqI)
  obtain lp ss where p: "pre = Block lp ss" by (cases pre)
  obtain lp' ss' where p': "pre' = Block lp' ss'" by (cases pre')
  fix n env env' st st'
  assume e: "erel d n env env'" "lrel False st st'"
  have ss: "stmts_eq d False ss ss'" using pre by (simp add: block_eq_def p p')
  show "orel b (erel d n) (execStatement d (callFunction d n) n env (ForLoop l pre c post body) st)
    (execStatement d (callFunction d n) n env' (ForLoop l' pre' c' post' body') st')"
    unfolding p p' execStatement.simps
  proof (rule orel_bind [OF stmts_eqD(3) [OF ss erel_openScope [OF e(1)] e(2)]])
    show "\<not> False" by simp
    fix x y s s' assume xy: "erel d n x y" "lrel False s s'"
    have "orel True (erel d n)
      (whileLoop n (\<lambda>env. evaluate d (callFunction d n) env c) (\<lambda>env. execBlock d (callFunction d n) n env body)
        (\<lambda>env. execBlock d (callFunction d n) n env post) x s)
      (whileLoop n (\<lambda>env. evaluate d (callFunction d n) env c') (\<lambda>env. execBlock d (callFunction d n) n env body')
        (\<lambda>env. execBlock d (callFunction d n) n env post') y s')"
      by (rule orel_whileLoop [where R = "erel d n", OF _ _ _ xy]) (intro orel_evaluate [OF c] orel_execBlock [OF body] orel_execBlock [OF post]; assumption)+
    then show "orel b (erel d n)
      (and_then (whileLoop n (\<lambda>env. evaluate d (callFunction d n) env c) (\<lambda>env. execBlock d (callFunction d n) n env body)
        (\<lambda>env. execBlock d (callFunction d n) n env post) x s) (\<lambda>env st. closeScope env (withLoopState LoopDefault st)))
      (and_then (whileLoop n (\<lambda>env. evaluate d (callFunction d n) env c') (\<lambda>env. execBlock d (callFunction d n) n env body')
        (\<lambda>env. execBlock d (callFunction d n) n env post') y s') (\<lambda>env st. closeScope env (withLoopState LoopDefault st)))"
      by (rule orel_bind) (auto simp: lrel_def intro!: orel_closeScope)
  qed
qed (simp_all add: isFunction_def)

lemma stmt_eq_exits:
  "stmts_eq d True [BreakStatement l] [BreakStatement l']" "stmts_eq d True [ContinueStatement l] [ContinueStatement l']"
  by (rule stmt_eqI; simp add: isFunction_def lrel_def)+

lemma stmt_eq_function:
  assumes "fun_eq d f f'"
  shows "stmts_eq d b [FunctionStatement f] [FunctionStatement f']"
proof -
  have sig: "same_signature f f'" using assms fun_rel_signature unfolding fun_eq_def by blast
  have "erel d n (registerFunctions env [FunctionStatement f]) (registerFunctions env' [FunctionStatement f'])"
    if "erel d n env env'" for n env env'
    using that sig assms by (auto simp: erel_def rel_map_def fun_eq_def same_signature_def)
  then show ?thesis by (auto simp: stmts_eq_def lrel_def)
qed

section \<open>Programs whose exits are inside of loops\<close>

text \<open>
  What the parser checks: \<open>break\<close> and \<open>continue\<close> only inside the body of a loop, and not in a
  function definition there.
\<close>

fun
  exits_ok :: "bool \<Rightarrow> Statement \<Rightarrow> bool" and
  exits_ok_block :: "bool \<Rightarrow> Block \<Rightarrow> bool" and
  exits_ok_case :: "bool \<Rightarrow> Case \<Rightarrow> bool" and
  exits_ok_function :: "FunctionDefinition \<Rightarrow> bool" where
  "exits_ok b (ExpressionStatement l e) = True"
| "exits_ok b (Assignment l xs e) = True"
| "exits_ok b (VariableDeclaration l xs e) = True"
| "exits_ok b (FunctionStatement f) = exits_ok_function f"
| "exits_ok b (IfStatement l e B) = exits_ok_block b B"
| "exits_ok b (SwitchStatement l e cs) = (\<forall>c \<in> set cs. exits_ok_case b c)"
| "exits_ok b (ForLoop l pre e post body) =
     (exits_ok_block False pre \<and> exits_ok_block False post \<and> exits_ok_block True body)"
| "exits_ok b (BreakStatement l) = b"
| "exits_ok b (ContinueStatement l) = b"
| "exits_ok b (BlockStatement B) = exits_ok_block b B"
| "exits_ok_block b (Block l ss) = (\<forall>s \<in> set ss. exits_ok b s)"
| "exits_ok_case b (Case l val B) = exits_ok_block b B"
| "exits_ok_function (FunctionDefinition l x ps rs B) = exits_ok_block False B"

lemma stmts_eq_concat:
  "(\<And>s. s \<in> set ss \<Longrightarrow> stmts_eq d b [s] (f s)) \<Longrightarrow> stmts_eq d b ss (concat (map f ss))"
  by (induction ss) (auto simp: stmts_eq_Nil intro: stmts_eq_Cons)

text \<open>Every such program is equivalent to itself.\<close>

lemma stmt_eq_refl_all:
  "exits_ok b s \<Longrightarrow> stmts_eq d b [s] [s]"
  "exits_ok_block b B \<Longrightarrow> block_eq d b B B"
  "exits_ok_case b c \<Longrightarrow> case_eq d b c c"
  "exits_ok_function f \<Longrightarrow> fun_eq d f f"
proof (induction b s and b B and b c and f rule: exits_ok_exits_ok_block_exits_ok_case_exits_ok_function.induct)
  case (3 b l xs e)
  then show ?case by (intro stmt_eq_declaration) (cases e; simp add: expr_eq_refl)+
next
  case (6 b l e cs)
  then show ?case by (intro stmt_eq_switch expr_eq_refl) (simp add: list_all2_same)
next
  case (11 b l ss)
  then show ?case using stmts_eq_concat [of ss d b "\<lambda>s. [s]"] by (simp add: block_eq_def)
next
  case (12 b l val B)
  then show ?case by (cases val) (simp_all add: case_eq_def)
qed (auto intro: stmt_eq_expression stmt_eq_assignment stmt_eq_function stmt_eq_if stmt_eq_for stmt_eq_exits
  stmt_eq_block expr_eq_refl fun_eqI simp: same_signature_def)

lemmas stmt_eq_refl = stmt_eq_refl_all(1) and block_eq_refl = stmt_eq_refl_all(2) and case_eq_refl = stmt_eq_refl_all(3)
  and fun_eq_refl = stmt_eq_refl_all(4)

lemma stmts_eq_refl: "\<forall>s \<in> set ss. exits_ok b s \<Longrightarrow> stmts_eq d b ss ss"
  using stmts_eq_concat [of ss d b "\<lambda>s. [s]"] by (simp add: stmt_eq_refl)

text \<open>Equivalent programs have the same outcome, at any fuel.\<close>

definition same_outcome :: "'a outcome \<Rightarrow> 'b outcome \<Rightarrow> bool" where
  "same_outcome m m' \<longleftrightarrow> orel True (\<lambda>_ _. True) m m'"

lemma interpret_equivalent:
  assumes "block_eq d False B B'" "ys_maxSteps st = 0" "ys_loopState st = LoopDefault"
  shows "same_outcome (interpret_yul d n B st) (interpret_yul d n B' st)"
proof -
  have "erel d n emptyEnv emptyEnv" by (simp add: erel_def rel_map_def emptyEnv_def)
  moreover have "lrel False st st" using assms(2,3) by (simp add: lrel_def)
  ultimately have "orel False (erel d n) (interpret_yul d n B st) (interpret_yul d n B' st)"
    unfolding interpret_yul_def by (rule orel_execBlock [OF assms(1)])
  then show ?thesis unfolding same_outcome_def by (rule orel_mono) simp_all
qed

end
