(* ===== verification/Yul_Block_Passes.thy ===== *)
theory Yul_Block_Passes
  imports Yul_Equivalence Svm_Semantics
begin

text \<open>
  The passes of the Yul optimiser that rewrite the statements of each block on their own:
  libyul/optimiser/VarDeclInitializer.cpp and DeadCodeEliminator.cpp, with the default traversal
  of ASTWalker.cpp and the termination finder of Semantics.cpp. The contract such a pass has to
  meet is a locale; it gives the equivalence of the program before and after the pass.
\<close>

section \<open>The traversal\<close>

text \<open>
  \<open>ASTModifier\<close> for a pass that overrides the visit of a block: the visit goes to the blocks
  directly inside of a statement. Expressions are left as they are.
\<close>

fun
  on_blocks :: "(Block \<Rightarrow> Block result) \<Rightarrow> Statement \<Rightarrow> Statement result" and
  on_case :: "(Block \<Rightarrow> Block result) \<Rightarrow> Case \<Rightarrow> Case result" and
  on_function :: "(Block \<Rightarrow> Block result) \<Rightarrow> FunctionDefinition \<Rightarrow> FunctionDefinition result" where
  "on_blocks f (IfStatement l e B) = bind_result (f B) (\<lambda>B. Inr (IfStatement l e B))"
| "on_blocks f (SwitchStatement l e cs) =
     bind_result (mapResult (on_case f) cs) (\<lambda>cs. Inr (SwitchStatement l e cs))"
| "on_blocks f (FunctionStatement g) = bind_result (on_function f g) (\<lambda>g. Inr (FunctionStatement g))"
| "on_blocks f (ForLoop l pre e post body) =
     bind_result (f pre) (\<lambda>pre. bind_result (f post) (\<lambda>post. bind_result (f body) (\<lambda>body.
       Inr (ForLoop l pre e post body))))"
| "on_blocks f (BlockStatement B) = bind_result (f B) (\<lambda>B. Inr (BlockStatement B))"
| "on_blocks f s = Inr s"
| "on_case f (Case l val B) = bind_result (f B) (\<lambda>B. Inr (Case l val B))"
| "on_function f (FunctionDefinition l x ps rs B) = bind_result (f B) (\<lambda>B. Inr (FunctionDefinition l x ps rs B))"

fun sub_blocks :: "Statement \<Rightarrow> Block set" where
  "sub_blocks (IfStatement l e B) = {B}"
| "sub_blocks (SwitchStatement l e cs) = case_body ` set cs"
| "sub_blocks (FunctionStatement g) = {fd_body g}"
| "sub_blocks (ForLoop l pre e post body) = {pre, post, body}"
| "sub_blocks (BlockStatement B) = {B}"
| "sub_blocks _ = {}"

lemma on_case_cong: "f (case_body c) = g (case_body c) \<Longrightarrow> on_case f c = on_case g c"
  by (cases c) simp

lemma on_blocks_cong [fundef_cong]:
  assumes "s = t" "\<And>B. B \<in> sub_blocks t \<Longrightarrow> f B = g B"
  shows "on_blocks f s = on_blocks g t"
proof -
  have "on_blocks f t = on_blocks g t"
  proof (cases t)
    case (FunctionStatement h)
    with assms(2) show ?thesis by (cases h) simp
  next
    case (SwitchStatement l e cs)
    have "on_case f c = on_case g c" if "c \<in> set cs" for c
      using that assms(2) by (auto simp: SwitchStatement intro: on_case_cong)
    then have "mapResult (on_case f) cs = mapResult (on_case g) cs" by (intro mapResult_cong) auto
    then show ?thesis by (simp add: SwitchStatement)
  qed (use assms(2) in auto)
  with assms(1) show ?thesis by simp
qed

lemma size_sub_blocks: "B \<in> sub_blocks s \<Longrightarrow> size B < size s"
proof (cases s)
  case (SwitchStatement l e cs)
  assume "B \<in> sub_blocks s"
  then obtain c where "c \<in> set cs" "B = case_body c" by (auto simp: SwitchStatement)
  moreover from this(1) have "size c \<le> size_list size cs" by (rule size_list_estimation') simp
  moreover have "size (case_body c) < size c" by (cases c) simp
  ultimately show ?thesis by (simp add: SwitchStatement)
next
  case (FunctionStatement f)
  assume "B \<in> sub_blocks s"
  then show ?thesis by (cases f) (simp add: FunctionStatement)
qed auto

lemma size_statement: "s \<in> set ss \<Longrightarrow> size s < size (Block l ss)"
  using size_list_estimation' [of s ss _ size, OF _ order.refl] by simp

lemma size_sub_block: "s \<in> set ss \<Longrightarrow> B \<in> sub_blocks s \<Longrightarrow> size B < size (Block l ss)"
  using size_statement size_sub_blocks less_trans by blast

lemma mapResult_total: "(\<And>x. x \<in> set xs \<Longrightarrow> \<exists>y. f x = Inr y) \<Longrightarrow> \<exists>ys. mapResult f xs = Inr ys"
proof (induction xs)
  case (Cons x xs)
  then obtain y ys where "f x = Inr y" "mapResult f xs = Inr ys" by fastforce
  then show ?case by simp
qed simp

lemma mapResult_mem: "mapResult f xs = Inr ys \<Longrightarrow> y \<in> set ys \<Longrightarrow> \<exists>x \<in> set xs. f x = Inr y"
  by (induction xs arbitrary: ys) (auto simp: bind_result_Inr_iff)

text \<open>What holds of every statement of a block and of the blocks inside of it.\<close>

function all_statements :: "(Statement \<Rightarrow> bool) \<Rightarrow> Block \<Rightarrow> bool" where
  "all_statements P (Block l ss) = (\<forall>s \<in> set ss. P s \<and> (\<forall>B \<in> sub_blocks s. all_statements P B))"
  by pat_completeness auto
termination by (relation "measure (size \<circ> snd)") (use size_sub_block in auto)

lemma all_statements_True: "(\<And>s. P s) \<Longrightarrow> all_statements P B"
  by (induction P B rule: all_statements.induct) simp

section \<open>The contract of a pass\<close>

text \<open>
  A pass rewrites the statements of a block before and after it visits the blocks inside of them;
  both rewritings give equivalent statements, the first one only statements of the block.
\<close>

locale block_pass =
  fixes d :: Dialect
    and visit :: "Block \<Rightarrow> Block result"
    and allowed :: "Statement \<Rightarrow> bool"
    and before after :: "Statement list \<Rightarrow> Statement list"
  assumes visit: "visit (Block l ss) =
      bind_result (mapResult (\<lambda>s. if allowed s then on_blocks visit s else Inl YulException) (before ss))
        (\<lambda>ss. Inr (Block l (after ss)))"
    and before_subset: "set (before ss) \<subseteq> set ss"
    and before_sound: "\<forall>s \<in> set ss. exits_ok b s \<Longrightarrow> stmts_eq d b ss (before ss)"
    and after_exits: "\<forall>s \<in> set ss. exits_ok b s \<Longrightarrow> \<forall>s \<in> set (after ss). exits_ok b s"
    and after_sound: "\<forall>s \<in> set ss. exits_ok b s \<Longrightarrow> stmts_eq d b ss (after ss)"
begin

lemma statement_sound:
  assumes IH: "\<And>B B' b. B \<in> sub_blocks s \<Longrightarrow> visit B = Inr B' \<Longrightarrow> exits_ok_block b B \<Longrightarrow>
      block_eq d b B B' \<and> exits_ok_block b B'"
    and s: "on_blocks visit s = Inr s'" "exits_ok b s"
  shows "stmts_eq d b [s] [s'] \<and> exits_ok b s'"
proof (cases s)
  case (IfStatement l e B)
  with s IH show ?thesis by (auto simp: bind_result_Inr_iff intro!: stmt_eq_if expr_eq_refl)
next
  case (SwitchStatement l e cs)
  with s(1) obtain cs' where cs': "s' = SwitchStatement l e cs'" "list_all2 (\<lambda>c c'. on_case visit c = Inr c') cs cs'"
    by (auto simp: bind_result_Inr_iff mapResult_Inr_iff)
  have c: "case_eq d b c c' \<and> exits_ok_case b c'" if "on_case visit c = Inr c'" "c \<in> set cs" for c c'
  proof -
    obtain lc val B where "c = Case lc val B" by (cases c)
    with that obtain B' where c': "c = Case lc val B" "c' = Case lc val B'" "visit B = Inr B'"
      by (auto simp: bind_result_Inr_iff)
    with that s(2) IH [of B B' b] have "block_eq d b B B' \<and> exits_ok_block b B'"
      by (force simp: SwitchStatement)
    with c' show ?thesis by (cases val) (simp_all add: case_eq_def)
  qed
  have "list_all2 (case_eq d b) cs cs'"
    by (rule list.rel_mono_strong [OF cs'(2)]) (use c in blast)
  moreover have "\<forall>c' \<in> set cs'. exits_ok_case b c'"
    using cs'(2) c by (auto simp: in_set_conv_nth list_all2_conv_all_nth) (metis nth_mem)
  ultimately show ?thesis by (simp add: SwitchStatement cs'(1) stmt_eq_switch expr_eq_refl)
next
  case (FunctionStatement f)
  obtain l x ps rs B where f: "f = FunctionDefinition l x ps rs B" by (cases f)
  with s(1) FunctionStatement obtain B' where B': "s' = FunctionStatement (FunctionDefinition l x ps rs B')" "visit B = Inr B'"
    by (auto simp: bind_result_Inr_iff)
  with IH [of B B' False] s(2) have "block_eq d False B B' \<and> exits_ok_block False B'" by (simp add: FunctionStatement f)
  with B' show ?thesis by (simp add: FunctionStatement f stmt_eq_function fun_eqI same_signature_def)
next
  case (ForLoop l pre e post body)
  with s obtain pre' post' body' where "s' = ForLoop l pre' e post' body'"
    "visit pre = Inr pre'" "visit post = Inr post'" "visit body = Inr body'" by (auto simp: bind_result_Inr_iff)
  with IH [of pre pre' False] IH [of post post' False] IH [of body body' True] s(2) ForLoop show ?thesis
    by (simp add: stmt_eq_for expr_eq_refl)
next
  case (BlockStatement B)
  with s IH show ?thesis by (auto simp: bind_result_Inr_iff intro!: stmt_eq_block)
qed (use s stmt_eq_refl in auto)

lemma visit_sound:
  "visit B = Inr B' \<Longrightarrow> exits_ok_block b B \<Longrightarrow> block_eq d b B B' \<and> exits_ok_block b B'"
proof (induction "size B" arbitrary: B B' b rule: less_induct)
  case less
  obtain l ss where B: "B = Block l ss" by (cases B)
  with less.prems(1) obtain ss' where ss': "B' = Block l (after ss')"
    "list_all2 (\<lambda>s s'. (if allowed s then on_blocks visit s else Inl YulException) = Inr s') (before ss) ss'"
    by (auto simp: visit bind_result_Inr_iff mapResult_Inr_iff)
  have ok: "\<forall>s \<in> set ss. exits_ok b s" using less.prems(2) by (simp add: B)
  have each: "stmts_eq d b [s] [s'] \<and> exits_ok b s'" if "on_blocks visit s = Inr s'" "s \<in> set (before ss)" for s s'
  proof (rule statement_sound [OF _ that(1)])
    have s: "s \<in> set ss" using that(2) before_subset by blast
    then show "exits_ok b s" using ok by blast
    show "block_eq d c C C' \<and> exits_ok_block c C'" if "C \<in> sub_blocks s" "visit C = Inr C'" "exits_ok_block c C" for C C' c
      using less.hyps size_sub_block [OF s that(1)] that(2,3) by (simp add: B)
  qed
  have "list_all2 (\<lambda>s s'. stmts_eq d b [s] [s'] \<and> exits_ok b s') (before ss) ss'"
    by (rule list.rel_mono_strong [OF ss'(2)]) (use each in \<open>auto split: if_splits\<close>)
  then have "stmts_eq d b (before ss) ss' \<and> (\<forall>s \<in> set ss'. exits_ok b s)"
    by (induction rule: list_all2_induct) (auto simp: stmts_eq_Nil dest: stmts_eq_Cons)
  then have ss: "stmts_eq d b (before ss) ss'" "\<forall>s \<in> set ss'. exits_ok b s" by auto
  have "stmts_eq d b ss (after ss')"
    by (rule stmts_eq_trans [OF stmts_eq_trans [OF before_sound [OF ok] ss(1)] after_sound [OF ss(2)]])
  with after_exits [OF ss(2)] show ?case by (simp add: B ss'(1) block_eq_def)
qed

text \<open>A pass returns if it allows every statement.\<close>

lemma visit_total: "all_statements allowed B \<Longrightarrow> \<exists>B'. visit B = Inr B'"
proof (induction "size B" arbitrary: B rule: less_induct)
  case less
  obtain l ss where B: "B = Block l ss" by (cases B)
  have "allowed s \<and> (\<exists>s'. on_blocks visit s = Inr s')" if "s \<in> set (before ss)" for s
  proof -
    have s: "s \<in> set ss" using that before_subset by blast
    then have ok: "allowed s" using less.prems by (simp add: B)
    have IH: "\<exists>C'. visit C = Inr C'" if "C \<in> sub_blocks s" for C
      using less.hyps [of C] less.prems size_sub_block [OF s that] that s by (simp add: B)
    have "\<exists>s'. on_blocks visit s = Inr s'"
    proof (cases s)
      case (SwitchStatement l e cs)
      have "\<exists>c'. on_case visit c = Inr c'" if "c \<in> set cs" for c
      proof -
        obtain lc val C where c: "c = Case lc val C" by (cases c)
        have "C \<in> sub_blocks s" using that by (force simp: SwitchStatement c)
        then obtain C' where "visit C = Inr C'" using IH by blast
        with c show ?thesis by simp
      qed
      then have "\<exists>cs'. mapResult (on_case visit) cs = Inr cs'" by (rule mapResult_total)
      then show ?thesis by (auto simp: SwitchStatement)
    next
      case (FunctionStatement f)
      then show ?thesis using IH by (cases f) auto
    next
      case (ForLoop l pre e post body)
      then show ?thesis using IH [of pre] IH [of post] IH [of body] by auto
    qed (use IH in auto)
    with ok show ?thesis by blast
  qed
  then have "\<exists>ss'. mapResult (\<lambda>s. if allowed s then on_blocks visit s else Inl YulException) (before ss) = Inr ss'"
    by (intro mapResult_total) simp
  then show ?case by (auto simp: B visit)
qed

end

section \<open>Declarations get values\<close>

definition zeroLiteral :: Expression where
  "zeroLiteral = LiteralExpression \<lparr>li_location = emptyLocation, li_kind = NumberLiteral, li_value = ''0'', li_type = []\<rparr>"

fun initDeclaration :: "Statement \<Rightarrow> Statement \<times> Statement list option" where
  "initDeclaration (VariableDeclaration l xs None) =
     (if length xs = 1 then (VariableDeclaration l xs (Some zeroLiteral), None)
      else (VariableDeclaration l xs None, Some (map (\<lambda>x. VariableDeclaration l [x] (Some zeroLiteral)) xs)))"
| "initDeclaration s = (s, None)"

function varDeclInitializer :: "Block \<Rightarrow> Block result" where
  "varDeclInitializer (Block l ss) =
     bind_result (mapResult (on_blocks varDeclInitializer) ss) (\<lambda>ss. Inr (Block l (iterateReplacing initDeclaration ss)))"
  by pat_completeness auto
termination by (relation "measure size") (use size_sub_block in auto)

lemma stmts_eq_same:
  assumes "stmts_eq d b ss ss"
    and "\<And>env. registerFunctions env ss' = registerFunctions env ss"
    and "\<And>n env st. ys_loopState st = LoopDefault \<Longrightarrow>
      execStatements d (callFunction d n) n env ss' st = execStatements d (callFunction d n) n env ss st"
    and "\<And>n env st. ys_loopState st = LoopDefault \<Longrightarrow> \<not> b \<Longrightarrow>
      visitStatements d (callFunction d n) n env ss' st = visitStatements d (callFunction d n) n env ss st"
  shows "stmts_eq d b ss ss'"
  using assms unfolding stmts_eq_def by (auto simp: lrel_def srel_sel(2))

lemma initDeclarations_exec:
  "ys_loopState st = LoopDefault \<Longrightarrow>
    execStatements d call n env (map (\<lambda>x. VariableDeclaration l [x] (Some zeroLiteral)) xs) st =
      declareVariables env (zip xs (replicate (length xs) 0)) st"
  "visitStatements d call n env (map (\<lambda>x. VariableDeclaration l [x] (Some zeroLiteral)) xs) st =
      declareVariables env (zip xs (replicate (length xs) 0)) st"
proof -
  have zero: "evalExpr d call env zeroLiteral st = Done [0] st" for env
  proof -
    have "valueOfLiteral \<lparr>li_location = emptyLocation, li_kind = NumberLiteral, li_value = ''0'', li_type = []\<rparr> = Some 0"
      by code_simp
    then show ?thesis by (simp add: zeroLiteral_def evalLiteral_def)
  qed
  show "ys_loopState st = LoopDefault \<Longrightarrow>
    execStatements d call n env (map (\<lambda>x. VariableDeclaration l [x] (Some zeroLiteral)) xs) st =
      declareVariables env (zip xs (replicate (length xs) 0)) st"
    by (induction xs arbitrary: env) (simp_all add: zero)
  show "visitStatements d call n env (map (\<lambda>x. VariableDeclaration l [x] (Some zeroLiteral)) xs) st =
      declareVariables env (zip xs (replicate (length xs) 0)) st"
    by (induction xs arbitrary: env) (simp_all add: zero)
qed

definition initDeclarations :: "Statement \<Rightarrow> Statement list" where
  "initDeclarations s = (case initDeclaration s of (s', Some r) \<Rightarrow> r | (s', None) \<Rightarrow> [s'])"

lemma initDeclarations_cases:
  "initDeclarations s = [s] \<or>
   (\<exists>l xs. s = VariableDeclaration l xs None \<and> initDeclarations s = map (\<lambda>x. VariableDeclaration l [x] (Some zeroLiteral)) xs)"
  by (cases s rule: initDeclaration.cases) (auto simp: initDeclarations_def length_Suc_conv)

lemma initDeclarations_sound: "exits_ok b s \<Longrightarrow> stmts_eq d b [s] (initDeclarations s)"
proof -
  assume s: "exits_ok b s"
  consider "initDeclarations s = [s]" | l xs where "s = VariableDeclaration l xs None"
    "initDeclarations s = map (\<lambda>x. VariableDeclaration l [x] (Some zeroLiteral)) xs"
    using initDeclarations_cases by blast
  then show ?thesis
  proof cases
    case 1
    with stmt_eq_refl [OF s] show ?thesis by simp
  next
    case 2
    have reg: "registerFunctions env (map (\<lambda>x. VariableDeclaration l [x] (Some zeroLiteral)) xs) = env" for env
      by (induction xs) simp_all
    show ?thesis unfolding 2(2)
      by (rule stmts_eq_same [OF stmt_eq_refl [OF s]]) (simp_all add: 2(1) reg initDeclarations_exec
          del: execStatements.simps visitStatements.simps)
  qed
qed

lemma iterateReplacing_eq: "iterateReplacing f xs = concat (map (\<lambda>x. case f x of (x', Some r) \<Rightarrow> r | (x', None) \<Rightarrow> [x']) xs)"
  by (simp add: iterateReplacing_def iterateReplacingLoop_eq replaceEach_def)

lemma iterate_init: "iterateReplacing initDeclaration ss = concat (map initDeclarations ss)"
  by (simp add: iterateReplacing_eq initDeclarations_def [abs_def])

interpretation init: block_pass d varDeclInitializer "\<lambda>_. True" "\<lambda>ss. ss" "iterateReplacing initDeclaration" for d
proof
  fix b ss
  assume ok: "\<forall>s \<in> set ss. exits_ok b s"
  then show "stmts_eq d b ss (iterateReplacing initDeclaration ss)"
    unfolding iterate_init by (intro stmts_eq_concat initDeclarations_sound) blast
  have "exits_ok b t" if "exits_ok b s" "t \<in> set (initDeclarations s)" for s t
    using initDeclarations_cases [of s] that by auto
  with ok show "\<forall>s \<in> set (iterateReplacing initDeclaration ss). exits_ok b s"
    unfolding iterate_init by auto
qed (simp_all add: stmts_eq_refl)

definition hasValue :: "Statement \<Rightarrow> bool" where
  "hasValue s \<longleftrightarrow> (\<forall>l xs. s \<noteq> VariableDeclaration l xs None)"

lemma on_case_body: "on_case f c = Inr c' \<Longrightarrow> f (case_body c) = Inr (case_body c')"
  by (cases c) (auto simp: bind_result_Inr_iff)

lemma on_blocks_sub:
  "on_blocks f s = Inr s' \<Longrightarrow> B' \<in> sub_blocks s' \<Longrightarrow> \<exists>B \<in> sub_blocks s. f B = Inr B'"
proof (cases s)
  case (SwitchStatement l e cs)
  assume s: "on_blocks f s = Inr s'" "B' \<in> sub_blocks s'"
  then obtain cs' c' where cs': "s' = SwitchStatement l e cs'" "mapResult (on_case f) cs = Inr cs'" "c' \<in> set cs'" "B' = case_body c'"
    by (auto simp: SwitchStatement bind_result_Inr_iff)
  then obtain c where c: "c \<in> set cs" "on_case f c = Inr c'" using mapResult_mem by fastforce
  then have "f (case_body c) = Inr B'" using on_case_body [OF c(2)] by (simp add: cs'(4))
  with c(1) show ?thesis by (auto simp: SwitchStatement)
next
  case (FunctionStatement g)
  assume "on_blocks f s = Inr s'" "B' \<in> sub_blocks s'"
  then show ?thesis by (cases g) (auto simp: FunctionStatement bind_result_Inr_iff)
qed (auto simp: bind_result_Inr_iff)

lemma initDeclarations_initialised:
  "t \<in> set (initDeclarations s) \<Longrightarrow> hasValue t \<and> (sub_blocks t = {} \<or> t = s)"
proof (cases s rule: initDeclaration.cases)
  case (1 l xs)
  assume "t \<in> set (initDeclarations s)"
  then show ?thesis by (auto simp: 1 hasValue_def initDeclarations_def split: if_splits)
qed (auto simp: hasValue_def initDeclarations_def)

lemma varDeclInitializer_initialised: "varDeclInitializer B = Inr B' \<Longrightarrow> all_statements hasValue B'"
proof (induction "size B" arbitrary: B B' rule: less_induct)
  case less
  obtain l ss where B: "B = Block l ss" by (cases B)
  with less.prems obtain ss' where ss': "B' = Block l (concat (map initDeclarations ss'))"
    "mapResult (on_blocks varDeclInitializer) ss = Inr ss'"
    by (auto simp: bind_result_Inr_iff iterate_init)
  have sub: "all_statements hasValue C" if "s' \<in> set ss'" "C \<in> sub_blocks s'" for s' C
  proof -
    from mapResult_mem [OF ss'(2) that(1)] obtain s where s: "s \<in> set ss" "on_blocks varDeclInitializer s = Inr s'" by blast
    with on_blocks_sub [OF s(2) that(2)] obtain D where "D \<in> sub_blocks s" "varDeclInitializer D = Inr C" by blast
    then show ?thesis using less.hyps [of D C] size_sub_block [OF s(1), of D] by (simp add: B)
  qed
  have each: "hasValue t \<and> (\<forall>C \<in> sub_blocks t. all_statements hasValue C)"
    if t: "t \<in> set (initDeclarations s')" "s' \<in> set ss'" for t s'
  proof (cases "sub_blocks t = {}")
    case True
    with initDeclarations_initialised [OF t(1)] show ?thesis by simp
  next
    case False
    with initDeclarations_initialised [OF t(1)] sub [OF t(2)] show ?thesis by blast
  qed
  show ?case unfolding ss'(1) all_statements.simps
  proof
    fix t assume "t \<in> set (concat (map initDeclarations ss'))"
    then obtain s' where s': "s' \<in> set ss'" "t \<in> set (initDeclarations s')" by auto
    show "hasValue t \<and> (\<forall>C \<in> sub_blocks t. all_statements hasValue C)" by (rule each [OF s'(2,1)])
  qed
qed

text \<open>
  C9: The initialisation of variable declarations returns on every program; in the result every
  declaration has a value, and it has the outcome of the program, for programs whose exits are
  inside of loops, in runs without a limit of steps.
\<close>

theorem varDeclInitializer_correct:
  assumes "exits_ok_block False B" "ys_maxSteps st = 0" "ys_loopState st = LoopDefault"
  shows "\<exists>B'. varDeclInitializer B = Inr B' \<and> all_statements hasValue B' \<and>
    same_outcome (interpret_yul d n B st) (interpret_yul d n B' st)"
proof -
  obtain B' where B': "varDeclInitializer B = Inr B'" using init.visit_total [OF all_statements_True] by fast
  with init.visit_sound [OF B' assms(1)] interpret_equivalent [OF _ assms(2,3)] varDeclInitializer_initialised
  show ?thesis by blast
qed

theorem varDeclInitializer_correct_witness:
  "\<exists>B'. varDeclInitializer (Block emptyLocation [VariableDeclaration emptyLocation
        [\<lparr>tn_location = emptyLocation, tn_name = ''a'', tn_type = []\<rparr>, \<lparr>tn_location = emptyLocation, tn_name = ''b'', tn_type = []\<rparr>] None]) = Inr B' \<and>
     length (statements B') = 2 \<and>
     same_outcome (interpret_yul (PlainDialect StrictAsm) 0 (Block emptyLocation [VariableDeclaration emptyLocation
        [\<lparr>tn_location = emptyLocation, tn_name = ''a'', tn_type = []\<rparr>, \<lparr>tn_location = emptyLocation, tn_name = ''b'', tn_type = []\<rparr>] None]) initialYulState)
       (interpret_yul (PlainDialect StrictAsm) 0 B' initialYulState)"
  using varDeclInitializer_correct [of "Block emptyLocation [VariableDeclaration emptyLocation
        [\<lparr>tn_location = emptyLocation, tn_name = ''a'', tn_type = []\<rparr>, \<lparr>tn_location = emptyLocation, tn_name = ''b'', tn_type = []\<rparr>] None]"
      initialYulState "PlainDialect StrictAsm" 0]
  by (auto simp: initialYulState_def iterate_init initDeclarations_def)

section \<open>Dead code\<close>

datatype ControlFlow = FlowOut | BreakFlow | ContinueFlow | TerminateFlow

definition isTerminatingBuiltin :: "Dialect \<Rightarrow> Expression \<Rightarrow> bool" where
  "isTerminatingBuiltin d e =
     (case e of
        FunctionalInstruction l i args \<Rightarrow> terminatesControlFlowInstr i
      | FunctionCall l f args \<Rightarrow>
          (case d of
             SVMDialect _ _ _ \<Rightarrow>
               (case builtin d (id_name f) of
                  None \<Rightarrow> False
                | Some b \<Rightarrow> (case bf_instruction b of None \<Rightarrow> False | Some i \<Rightarrow> terminatesControlFlowInstr i))
           | _ \<Rightarrow> False)
      | _ \<Rightarrow> False)"

definition controlFlowKind :: "Dialect \<Rightarrow> Statement \<Rightarrow> ControlFlow" where
  "controlFlowKind d s =
     (case s of
        ExpressionStatement l e \<Rightarrow> if isTerminatingBuiltin d e then TerminateFlow else FlowOut
      | BreakStatement l \<Rightarrow> BreakFlow
      | ContinueStatement l \<Rightarrow> ContinueFlow
      | _ \<Rightarrow> FlowOut)"

text \<open>\<open>size_t(-1)\<close>, the index when there is none, is \<open>None\<close>.\<close>

fun firstUnconditionalControlFlowChange :: "Dialect \<Rightarrow> Statement list \<Rightarrow> ControlFlow \<times> nat option" where
  "firstUnconditionalControlFlowChange d [] = (FlowOut, None)"
| "firstUnconditionalControlFlowChange d (s # ss) =
     (if controlFlowKind d s \<noteq> FlowOut then (controlFlowKind d s, Some 0)
      else (case firstUnconditionalControlFlowChange d ss of (k, i) \<Rightarrow> (k, map_option Suc i)))"

definition eraseDeadCode :: "Dialect \<Rightarrow> Statement list \<Rightarrow> Statement list" where
  "eraseDeadCode d ss =
     (case firstUnconditionalControlFlowChange d ss of
        (k, Some i) \<Rightarrow>
          if k \<noteq> FlowOut then take (i + 1) ss @ filter isFunction (drop (i + 1) ss) else ss
      | (k, None) \<Rightarrow> ss)"

text \<open>The override for loops refuses a loop that still has an initialiser.\<close>

definition emptyPre :: "Statement \<Rightarrow> bool" where
  "emptyPre s = (case s of ForLoop l pre e post body \<Rightarrow> statements pre = [] | _ \<Rightarrow> True)"

function deadCodeEliminator :: "Dialect \<Rightarrow> Block \<Rightarrow> Block result" where
  "deadCodeEliminator d (Block l ss) =
     bind_result (mapResult (\<lambda>s. if emptyPre s then on_blocks (deadCodeEliminator d) s else Inl YulException)
         (eraseDeadCode d ss))
       (\<lambda>ss. Inr (Block l ss))"
  by pat_completeness auto

termination
proof (relation "measure (size \<circ> snd)")
  fix d l ss s B
  assume "s \<in> set (eraseDeadCode d ss)" "B \<in> sub_blocks s"
  moreover have "set (eraseDeadCode d ss) \<subseteq> set ss"
    by (auto simp: eraseDeadCode_def dest: in_set_takeD in_set_dropD split: prod.splits option.splits if_splits)
  ultimately show "((d, B), (d, Block l ss)) \<in> measure (size \<circ> snd)" using size_sub_block by auto
qed simp

lemma terminating_raises:
  assumes "terminatesControlFlowInstr i"
  shows "\<exists>e ms. svm_eval i vals st = (Inl e, ms)"
proof (cases "info_args (instructionInfo i) \<noteq> int (length vals) \<or> i = iSTOP")
  case False
  with assms have i: "i \<in> {iRETURN, iREVERT, iINVALID, iSELFDESTRUCT}" by (auto simp: terminatesControlFlowInstr_def)
  have "\<exists>e ms. logThen i a b s (Inl x) = (Inl e, ms)" for a b s x by (simp add: logThen_def split_beta Let_def)
  then have "\<exists>e ms. evalCalls i vals st = Some (Inl e, ms)"
    using i by (auto simp: evalCalls_def split_beta Let_def)
  with False terminating_first [OF i] show ?thesis by (auto simp: svm_eval_def)
qed (auto simp: svm_eval_def)

lemma terminating_not_Done:
  assumes "isTerminatingBuiltin d e"
  shows "evalExpr d call env e st \<noteq> Done vals st'"
proof -
  have raises: "and_then (evalArgs d call env args st) (\<lambda>v s. and_then (fromSvm (svm_eval i v (ys_machine s)) s) (\<lambda>w. Done [w])) \<noteq> Done vals st'"
    if "terminatesControlFlowInstr i" for i args
  proof (cases "evalArgs d call env args st")
    case (Done v s)
    with terminating_raises [OF that, of v "ys_machine s"] show ?thesis by (auto simp: fromSvm_def)
  qed simp_all
  show ?thesis
  proof (cases e)
    case (FunctionCall l f args)
    with assms obtain b i where "builtin d (id_name f) = Some b" "bf_instruction b = Some i" "terminatesControlFlowInstr i"
      by (auto simp: isTerminatingBuiltin_def split: Dialect.splits option.splits)
    with raises show ?thesis by (simp add: FunctionCall evalBuiltin_def)
  qed (use assms raises in \<open>auto simp: isTerminatingBuiltin_def\<close>)
qed

lemma flow_change:
  assumes "controlFlowKind d s \<noteq> FlowOut" "execStatement d call n env s st = Done env' st'"
  shows "ys_loopState st' \<noteq> LoopDefault \<and> \<not> exits_ok False s"
proof (cases s)
  case (ExpressionStatement l e)
  with assms terminating_not_Done show ?thesis
    by (cases "evalExpr d call env e st") (auto simp: controlFlowKind_def split: if_splits)
qed (use assms in \<open>auto simp: controlFlowKind_def\<close>)

lemma firstUnconditionalControlFlowChange_Some:
  "firstUnconditionalControlFlowChange d ss = (k, Some i) \<Longrightarrow> i < length ss \<and> controlFlowKind d (ss ! i) = k \<and> k \<noteq> FlowOut"
  by (induction ss arbitrary: i) (auto split: if_splits prod.splits)

lemma eraseDeadCode_cases:
  obtains "eraseDeadCode d ss = ss"
  | p s r where "ss = p @ s # r" "eraseDeadCode d ss = p @ s # filter isFunction r" "controlFlowKind d s \<noteq> FlowOut"
proof (cases "firstUnconditionalControlFlowChange d ss")
  case (Pair k j)
  show ?thesis
  proof (cases j)
    case (Some i)
    with Pair firstUnconditionalControlFlowChange_Some have i: "i < length ss" "controlFlowKind d (ss ! i) \<noteq> FlowOut" "k \<noteq> FlowOut"
      by blast+
    then have "ss = take i ss @ ss ! i # drop (i + 1) ss" by (simp add: id_take_nth_drop)
    moreover have "eraseDeadCode d ss = take i ss @ ss ! i # filter isFunction (drop (i + 1) ss)"
      using i by (simp add: eraseDeadCode_def Pair Some take_Suc_conv_app_nth)
    ultimately show ?thesis using that(2) i(2) by blast
  qed (use that(1) Pair in \<open>simp add: eraseDeadCode_def\<close>)
qed

lemma registerFunctions_filter: "registerFunctions env (filter isFunction ss) = registerFunctions env ss"
  by (induction env ss rule: registerFunctions.induct) (simp_all add: isFunction_def)

lemma eraseDeadCode_sound:
  assumes ok: "\<forall>s \<in> set ss. exits_ok b s"
  shows "stmts_eq d b ss (eraseDeadCode d ss)"
proof (cases rule: eraseDeadCode_cases [of d ss])
  case 1
  then show ?thesis using stmts_eq_refl [OF ok] by simp
next
  case (2 p s r)
  have exec: "execStatements d call n env (s # r) st = execStatement d call n env s st" for call n env r st
    using flow_change [OF 2(3)] by (cases "execStatement d call n env s st") auto
  have visit: "visitStatements d call n env (s # r) st = execStatement d call n env s st" if "\<not> b" for call n env r st
    using flow_change [OF 2(3)] that ok by (cases "execStatement d call n env s st") (auto simp: 2(1))
  show ?thesis unfolding 2(2)
  proof (rule stmts_eq_same [OF stmts_eq_refl [OF ok]])
    show "registerFunctions env (p @ s # filter isFunction r) = registerFunctions env ss" for env
    proof -
      have first: "registerFunctions env' (s # t) = registerFunctions (registerFunctions env' [s]) t" for env' t
        using registerFunctions_append [of env' "[s]" t] by (simp only: append_Cons append_Nil)
      show ?thesis unfolding 2(1) registerFunctions_append first [of _ r] first [of _ "filter isFunction r"]
        registerFunctions_filter ..
    qed
    show "execStatements d (callFunction d n) n env (p @ s # filter isFunction r) st = execStatements d (callFunction d n) n env ss st"
      if "ys_loopState st = LoopDefault" for n env st
      unfolding 2(1) execStatements_append [OF that] exec ..
    show "visitStatements d (callFunction d n) n env (p @ s # filter isFunction r) st = visitStatements d (callFunction d n) n env ss st"
      if "\<not> b" for n env st
      unfolding 2(1) visitStatements_append visit [OF that] ..
  qed
qed

interpretation dead: block_pass d "deadCodeEliminator d" emptyPre "eraseDeadCode d" "\<lambda>ss. ss" for d
proof
  show "set (eraseDeadCode d ss) \<subseteq> set ss" for ss
    by (cases rule: eraseDeadCode_cases [of d ss]) auto
  show "deadCodeEliminator d (Block l ss) =
    bind_result (mapResult (\<lambda>s. if emptyPre s then on_blocks (deadCodeEliminator d) s else Inl YulException) (eraseDeadCode d ss))
      (\<lambda>ss. Inr (Block l ss))" for l ss
    by (rule deadCodeEliminator.simps)
qed (blast intro: eraseDeadCode_sound stmts_eq_refl)+

text \<open>
  C8: Once the initialisers of the loops have been moved out, the dead code eliminator returns, and
  its result has the outcome of the program: nothing behind a \<open>break\<close>, a \<open>continue\<close> or an
  instruction that ends the execution is ever executed, and the functions defined there stay.
\<close>

theorem deadCodeEliminator_correct:
  assumes "all_statements emptyPre B" "exits_ok_block False B" "ys_maxSteps st = 0" "ys_loopState st = LoopDefault"
  shows "\<exists>B'. deadCodeEliminator d B = Inr B' \<and> same_outcome (interpret_yul d n B st) (interpret_yul d n B' st)"
proof -
  obtain B' where B': "deadCodeEliminator d B = Inr B'" using dead.visit_total [OF assms(1)] by blast
  with dead.visit_sound [OF B' assms(2)] interpret_equivalent [OF _ assms(3,4)] show ?thesis by blast
qed

theorem deadCodeEliminator_correct_witness:
  "\<exists>B'. deadCodeEliminator (PlainDialect StrictAsm) (Block emptyLocation
        [ExpressionStatement emptyLocation (FunctionalInstruction emptyLocation iSTOP []), BlockStatement (Block emptyLocation [])]) = Inr B' \<and>
     length (statements B') = 1 \<and>
     same_outcome (interpret_yul (PlainDialect StrictAsm) 0 (Block emptyLocation
        [ExpressionStatement emptyLocation (FunctionalInstruction emptyLocation iSTOP []), BlockStatement (Block emptyLocation [])]) initialYulState)
       (interpret_yul (PlainDialect StrictAsm) 0 B' initialYulState)"
  using deadCodeEliminator_correct [of "Block emptyLocation
        [ExpressionStatement emptyLocation (FunctionalInstruction emptyLocation iSTOP []), BlockStatement (Block emptyLocation [])]"
      initialYulState "PlainDialect StrictAsm" 0]
  by (auto simp: initialYulState_def eraseDeadCode_def controlFlowKind_def isTerminatingBuiltin_def emptyPre_def
      terminatesControlFlowInstr_def isFunction_def)

end
