(* ===== verification/Yul_Scopes.thy ===== *)
theory Yul_Scopes
  imports Yul_Block_Passes
begin

text \<open>
  The scopes around a statement do not matter to it: it closes the scopes it opens, and adds names
  only to the innermost one.
\<close>

definition with_scopes :: "YulString set list \<Rightarrow> Env \<Rightarrow> Env" where
  "with_scopes T env = env\<lparr>e_scopes := e_scopes env @ T\<rparr>"

text \<open>The number of scopes after a run.\<close>

definition scopes_left :: "nat \<Rightarrow> Env outcome \<Rightarrow> bool" where
  "scopes_left k m \<longleftrightarrow> (\<forall>env st. m = Done env st \<longrightarrow> length (e_scopes env) = k)"

lemma with_scopes_sel [simp]:
  "e_variables (with_scopes T env) = e_variables env" "e_functions (with_scopes T env) = e_functions env"
  "e_scopes (with_scopes T env) = e_scopes env @ T"
  by (simp_all add: with_scopes_def)

lemma map_outcome_bind: "map_outcome f (and_then m g) = and_then m (\<lambda>x st. map_outcome f (g x st))"
  by (cases m) simp_all

lemma bind_map_outcome: "and_then (map_outcome f m) g = and_then m (\<lambda>x. g (f x))"
  by (cases m) simp_all

lemma eval_scopes:
  "evalExpr d call (with_scopes T env) e st = evalExpr d call env e st"
  "evalArgs d call (with_scopes T env) es st = evalArgs d call env es st"
  by (induction d call env e st and d call env es st rule: evalExpr_evalArgs.induct) (simp_all cong: and_then_cong option.case_cong if_cong)

lemma evaluate_scopes: "evaluate d call (with_scopes T env) e st = evaluate d call env e st"
  by (simp add: evaluate_def eval_scopes)

lemma scopes_left_bind:
  "scopes_left k m \<Longrightarrow> (\<And>x st. m = Done x st \<Longrightarrow> length (e_scopes x) = k \<Longrightarrow> scopes_left k' (f x st)) \<Longrightarrow> scopes_left k' (and_then m f)"
  by (cases m) (auto simp: scopes_left_def)

lemma scopes_left_bind_value:
  "(\<And>x st. m = Done x st \<Longrightarrow> scopes_left k (f x st)) \<Longrightarrow> scopes_left k (and_then m f)"
  by (cases m) (auto simp: scopes_left_def)

lemma scopes_left_simps [simp]:
  "scopes_left k NoFuel" "scopes_left k (Raised e st)" "scopes_left k (Done env st) \<longleftrightarrow> length (e_scopes env) = k"
  by (auto simp: scopes_left_def)

lemma length_insertScope: "length xs = Suc k \<Longrightarrow> length (insertScope x xs) = Suc k"
  by (cases xs) simp_all

lemma scopes_left_declare: "length (e_scopes env) = Suc k \<Longrightarrow> scopes_left (Suc k) (declareVariables env xs st)"
  by (induction env xs st rule: declareVariables.induct) (auto simp: length_insertScope)

lemma scopes_left_assign: "length (e_scopes env) = k \<Longrightarrow> scopes_left k (assignVariables env xs st)"
  by (induction env xs st rule: assignVariables.induct) auto

lemma length_registerFunctions: "length (e_scopes env) = Suc k \<Longrightarrow> length (e_scopes (registerFunctions env ss)) = Suc k"
  by (induction env ss rule: registerFunctions.induct) (auto simp: length_insertScope)

lemma scopes_left_close: "length (e_scopes env) = Suc k \<Longrightarrow> scopes_left k (closeScope env st)"
  by (auto simp: closeScope_def split: list.splits)

lemma scopes_left_round:
  assumes "\<And>env st. length (e_scopes env) = k \<Longrightarrow> scopes_left k (body env st)"
    "\<And>env st. length (e_scopes env) = k \<Longrightarrow> scopes_left k (post env st)"
    "\<And>env st. length (e_scopes env) = k \<Longrightarrow> scopes_left k (again env st)"
    "length (e_scopes env) = k"
  shows "scopes_left k (loopRound c body post again env st)"
proof -
  have "scopes_left k (if P then Done x s else and_then (post x t) again)" if "length (e_scopes x) = k" for P x s t
    using that assms(2,3) by (auto intro!: scopes_left_bind [where k = k])
  then show ?thesis unfolding loopRound_def using assms(1,4)
    by (intro scopes_left_bind_value) (auto intro!: scopes_left_bind [where k = k])
qed

lemma scopes_left_loop:
  assumes "\<And>env st. length (e_scopes env) = k \<Longrightarrow> scopes_left k (body env st)"
    "\<And>env st. length (e_scopes env) = k \<Longrightarrow> scopes_left k (post env st)"
  shows "length (e_scopes env) = k \<Longrightarrow> scopes_left k (whileLoop n c body post env st)"
  by (induction n arbitrary: env st) (simp_all add: scopes_left_round assms)

lemma length_openScope: "length (e_scopes (openScope env)) = Suc (length (e_scopes env))"
  by (simp add: openScope_def)

lemma scopes_left_all:
  "\<And>k. length (e_scopes env) = Suc k \<Longrightarrow> scopes_left (Suc k) (execStatement d call n env s st)"
  "\<And>k. length (e_scopes env) = Suc k \<Longrightarrow> scopes_left (Suc k) (execStatements d call n env ss st)"
  "\<And>k. length (e_scopes env) = Suc k \<Longrightarrow> scopes_left (Suc k) (visitStatements d call n env ss st)"
  "\<And>k. length (e_scopes env) = k \<Longrightarrow> scopes_left k (execBlock d call n env B st)"
  "\<And>k. length (e_scopes env) = k \<Longrightarrow> scopes_left k (execCases d call n env v cs st)"
proof (induction d call n env s st and d call n env ss st and d call n env ss st and d call n env B st and d call n env v cs st
    rule: execStatement_execStatements_visitStatements_execBlock_execCases.induct)
  case (7 d call n env l lp pre c post body st)
  show ?case unfolding execStatement.simps
    by (rule scopes_left_bind [where k = "Suc (Suc k)"], rule 7(1), simp add: length_openScope 7(4),
        rule scopes_left_bind [where k = "Suc (Suc k)"], rule scopes_left_loop)
      (auto intro: 7(2,3) scopes_left_close)
next
  case (15 d call n env l ss st)
  show ?case unfolding execBlock.simps
    by (rule scopes_left_bind_value, rule scopes_left_bind [where k = "Suc k"], rule 15(1))
      (auto intro: length_registerFunctions scopes_left_close simp: length_openScope 15(2))
qed (auto intro!: scopes_left_bind_value scopes_left_declare scopes_left_assign scopes_left_close length_registerFunctions
  simp: length_openScope split: option.splits)

section \<open>Outer scopes\<close>

lemma insertScope_append: "xs \<noteq> [] \<Longrightarrow> insertScope x (xs @ T) = insertScope x xs @ T"
  by (cases xs) simp_all

lemma insertScope_Nil [simp]: "insertScope x xs \<noteq> []"
  by (cases xs) simp_all

lemma with_scopes_update:
  "with_scopes T (env\<lparr>e_variables := V\<rparr>) = (with_scopes T env)\<lparr>e_variables := V\<rparr>"
  "e_scopes env \<noteq> [] \<Longrightarrow> with_scopes T (env\<lparr>e_variables := V, e_scopes := insertScope x (e_scopes env)\<rparr>) =
    (with_scopes T env)\<lparr>e_variables := V, e_scopes := insertScope x (e_scopes env @ T)\<rparr>"
  "e_scopes env \<noteq> [] \<Longrightarrow> with_scopes T (env\<lparr>e_functions := F, e_scopes := insertScope x (e_scopes env)\<rparr>) =
    (with_scopes T env)\<lparr>e_functions := F, e_scopes := insertScope x (e_scopes env @ T)\<rparr>"
  by (simp_all add: with_scopes_def insertScope_append)

lemma openScope_with: "openScope (with_scopes T env) = with_scopes T (openScope env)"
  by (simp add: openScope_def with_scopes_def)

lemma closeScope_with:
  "e_scopes env \<noteq> [] \<Longrightarrow> closeScope (with_scopes T env) st = map_outcome (with_scopes T) (closeScope env st)"
  by (cases "e_scopes env") (auto simp: closeScope_def with_scopes_def)

lemma declareVariables_with:
  "length (e_scopes env) = Suc k \<Longrightarrow> declareVariables (with_scopes T env) xs st = map_outcome (with_scopes T) (declareVariables env xs st)"
proof (induction env xs st rule: declareVariables.induct)
  case (2 env x v xs st)
  then have "e_scopes env \<noteq> []" by auto
  with 2 show ?case by (simp add: with_scopes_update(2) [symmetric] length_insertScope)
qed simp

lemma assignVariables_with:
  "assignVariables (with_scopes T env) xs st = map_outcome (with_scopes T) (assignVariables env xs st)"
  by (induction env xs st rule: assignVariables.induct) (simp_all add: with_scopes_update(1) [symmetric])

lemma registerFunctions_with:
  "e_scopes env \<noteq> [] \<Longrightarrow> registerFunctions (with_scopes T env) ss = with_scopes T (registerFunctions env ss)"
  by (induction env ss rule: registerFunctions.induct) (simp_all add: with_scopes_update(3) [symmetric])

lemma bind_with:
  assumes "scopes_left (Suc k) m" "\<And>x st. m = Done x st \<Longrightarrow> length (e_scopes x) = Suc k \<Longrightarrow> g (with_scopes T x) st = map_outcome (with_scopes T) (f x st)"
  shows "and_then (map_outcome (with_scopes T) m) g = map_outcome (with_scopes T) (and_then m f)"
  using assms by (cases m) simp_all

lemma loopRound_with:
  assumes "\<And>env st. c (with_scopes T env) st = c env st"
    "\<And>env st. length (e_scopes env) = Suc k \<Longrightarrow> scopes_left (Suc k) (body env st) \<and>
       body (with_scopes T env) st = map_outcome (with_scopes T) (body env st)"
    "\<And>env st. length (e_scopes env) = Suc k \<Longrightarrow> scopes_left (Suc k) (post env st) \<and>
       post (with_scopes T env) st = map_outcome (with_scopes T) (post env st)"
    "\<And>env st. length (e_scopes env) = Suc k \<Longrightarrow> again (with_scopes T env) st = map_outcome (with_scopes T) (again env st)"
    "length (e_scopes env) = Suc k"
  shows "loopRound c body post again (with_scopes T env) st = map_outcome (with_scopes T) (loopRound c body post again env st)"
proof -
  have "and_then (body (with_scopes T env) s) (\<lambda>env st. if ys_loopState st = LoopBreak then Done env st
      else and_then (post env (withLoopState LoopDefault st)) again) =
    map_outcome (with_scopes T) (and_then (body env s) (\<lambda>env st. if ys_loopState st = LoopBreak then Done env st
      else and_then (post env (withLoopState LoopDefault st)) again))" for s
    using assms(2) [OF assms(5)] by (auto intro!: bind_with [where k = k] simp: assms(3,4))
  then show ?thesis by (cases "c env st") (simp_all add: loopRound_def assms(1))
qed

lemma whileLoop_with:
  assumes "\<And>env st. c (with_scopes T env) st = c env st"
    "\<And>env st. length (e_scopes env) = Suc k \<Longrightarrow> scopes_left (Suc k) (body env st) \<and>
       body (with_scopes T env) st = map_outcome (with_scopes T) (body env st)"
    "\<And>env st. length (e_scopes env) = Suc k \<Longrightarrow> scopes_left (Suc k) (post env st) \<and>
       post (with_scopes T env) st = map_outcome (with_scopes T) (post env st)"
  shows "length (e_scopes env) = Suc k \<Longrightarrow>
    whileLoop n c body post (with_scopes T env) st = map_outcome (with_scopes T) (whileLoop n c body post env st)"
proof (induction n arbitrary: env st)
  case 0
  then show ?case unfolding whileLoop.simps by (intro loopRound_with [where T = T and k = k] assms) auto
next
  case (Suc n)
  then show ?case unfolding whileLoop.simps by (intro loopRound_with [where T = T and k = k] assms) auto
qed

lemma exec_with_scopes:
  "\<And>k. length (e_scopes env) = Suc k \<Longrightarrow>
    execStatement d call n (with_scopes T env) s st = map_outcome (with_scopes T) (execStatement d call n env s st)"
  "\<And>k. length (e_scopes env) = Suc k \<Longrightarrow>
    execStatements d call n (with_scopes T env) ss st = map_outcome (with_scopes T) (execStatements d call n env ss st)"
  "\<And>k. length (e_scopes env) = Suc k \<Longrightarrow>
    visitStatements d call n (with_scopes T env) ss st = map_outcome (with_scopes T) (visitStatements d call n env ss st)"
  "execBlock d call n (with_scopes T env) B st = map_outcome (with_scopes T) (execBlock d call n env B st)"
  "execCases d call n (with_scopes T env) v cs st = map_outcome (with_scopes T) (execCases d call n env v cs st)"
proof (induction d call n env s st and d call n env ss st and d call n env ss st and d call n env B st and d call n env v cs st
    rule: execStatement_execStatements_visitStatements_execBlock_execCases.induct)
  case (7 d call n env l lp pre c post body st)
  have loop: "whileLoop n (\<lambda>env. evaluate d call env c) (\<lambda>env. execBlock d call n env body) (\<lambda>env. execBlock d call n env post)
      (with_scopes T x) s = map_outcome (with_scopes T)
      (whileLoop n (\<lambda>env. evaluate d call env c) (\<lambda>env. execBlock d call n env body) (\<lambda>env. execBlock d call n env post) x s)"
    if "visitStatements d call n (openScope env) pre st = Done y t" "length (e_scopes x) = Suc (Suc k)" for x s y t
    using 7(2,3) [OF that(1)] scopes_left_all(4) that(2)
    by (intro whileLoop_with [where k = "Suc k"]) (auto simp: evaluate_scopes)
  have "and_then (map_outcome (with_scopes T) (visitStatements d call n (openScope env) pre st)) (\<lambda>env st.
      and_then (whileLoop n (\<lambda>env. evaluate d call env c) (\<lambda>env. execBlock d call n env body)
                 (\<lambda>env. execBlock d call n env post) env st) (\<lambda>env st. closeScope env (withLoopState LoopDefault st))) =
    map_outcome (with_scopes T) (and_then (visitStatements d call n (openScope env) pre st) (\<lambda>env st.
      and_then (whileLoop n (\<lambda>env. evaluate d call env c) (\<lambda>env. execBlock d call n env body)
                 (\<lambda>env. execBlock d call n env post) env st) (\<lambda>env st. closeScope env (withLoopState LoopDefault st))))"
  proof (rule bind_with [where k = "Suc k"])
    show "scopes_left (Suc (Suc k)) (visitStatements d call n (openScope env) pre st)"
      by (rule scopes_left_all(3)) (simp add: length_openScope 7(4))
    fix x s assume x: "visitStatements d call n (openScope env) pre st = Done x s" "length (e_scopes x) = Suc (Suc k)"
    show "and_then (whileLoop n (\<lambda>env. evaluate d call env c) (\<lambda>env. execBlock d call n env body)
          (\<lambda>env. execBlock d call n env post) (with_scopes T x) s) (\<lambda>env st. closeScope env (withLoopState LoopDefault st)) =
      map_outcome (with_scopes T) (and_then (whileLoop n (\<lambda>env. evaluate d call env c) (\<lambda>env. execBlock d call n env body)
          (\<lambda>env. execBlock d call n env post) x s) (\<lambda>env st. closeScope env (withLoopState LoopDefault st)))"
      unfolding loop [OF x]
    proof (rule bind_with [where k = "Suc k"])
      show "scopes_left (Suc (Suc k)) (whileLoop n (\<lambda>env. evaluate d call env c) (\<lambda>env. execBlock d call n env body)
          (\<lambda>env. execBlock d call n env post) x s)"
        using x(2) by (intro scopes_left_loop scopes_left_all(4))
    qed (auto intro!: closeScope_with)
  qed
  then show ?case by (simp add: openScope_with 7(1) [of "Suc k"] length_openScope 7(4))
next
  case (12 d call n env s ss st)
  show ?case unfolding execStatements.simps 12(1) [OF 12(3)]
    by (rule bind_with [where k = k]) (auto simp: 12(2) intro: scopes_left_all(1) [OF 12(3)])
next
  case (14 d call n env s ss st)
  show ?case unfolding visitStatements.simps 14(1) [OF 14(3)]
    by (rule bind_with [where k = k]) (auto simp: 14(2) intro: scopes_left_all(1) [OF 14(3)])
next
  case (15 d call n env l ss st)
  have "and_then (execStatements d call n (with_scopes T (registerFunctions (openScope env) ss)) ss s) closeScope =
    map_outcome (with_scopes T) (and_then (execStatements d call n (registerFunctions (openScope env) ss) ss s) closeScope)"
    if "countStep st = Done () s" for s
  proof -
    have len: "length (e_scopes (registerFunctions (openScope env) ss)) = Suc (length (e_scopes env))"
      by (rule length_registerFunctions) (rule length_openScope)
    show ?thesis unfolding 15(1) [OF that len]
      by (rule bind_with [where k = "length (e_scopes env)"]) (auto intro!: scopes_left_all(2) closeScope_with simp: len)
  qed
  moreover have "registerFunctions (openScope (with_scopes T env)) ss = with_scopes T (registerFunctions (openScope env) ss)"
    unfolding openScope_with by (rule registerFunctions_with) (simp add: openScope_def)
  ultimately show ?case by (cases "countStep st") simp_all
qed (auto simp: eval_scopes evaluate_scopes map_outcome_bind assignVariables_with declareVariables_with
  intro!: and_then_cong split: option.splits)

end
