(* ===== verification/Yul_Control_Flow.thy ===== *)
theory Yul_Control_Flow
  imports Yul_Scopes
begin

text \<open>
  libyul/optimiser/ControlFlowSimplifier.cpp: conditions and switches without effect become plain
  evaluations, switches with one case become conditions, and loops that are left in their first
  round become conditions.
\<close>

section \<open>The pass\<close>

definition makePopExpressionStatement :: "SourceLocation \<Rightarrow> Expression \<Rightarrow> Statement" where
  "makePopExpressionStatement l e =
     ExpressionStatement l (FunctionCall l \<lparr>id_location = l, id_name = ''pop''\<rparr> [e])"

definition emptyCase :: "Case \<Rightarrow> bool" where
  "emptyCase c \<longleftrightarrow> statements (case_body c) = []"

definition removeEmptyDefaultFromSwitch :: "Case list \<Rightarrow> Case list" where
  "removeEmptyDefaultFromSwitch cs = filter (\<lambda>c. \<not> (case_value c = None \<and> emptyCase c)) cs"

definition removeEmptyCasesFromSwitch :: "Case list \<Rightarrow> Case list" where
  "removeEmptyCasesFromSwitch cs =
     (if \<exists>c \<in> set cs. case_value c = None then cs else filter (\<lambda>c. \<not> emptyCase c) cs)"

definition reduceNoCaseSwitch :: "Expression \<Rightarrow> Statement list" where
  "reduceNoCaseSwitch e = [makePopExpressionStatement (expr_locationOf e) e]"

definition reduceSingleCaseSwitch :: "SourceLocation \<Rightarrow> Expression \<Rightarrow> Case \<Rightarrow> Statement list" where
  "reduceSingleCaseSwitch l e c =
     (let loc = expr_locationOf e
      in case case_value c of
           Some v \<Rightarrow> [IfStatement l (FunctionCall loc \<lparr>id_location = loc, id_name = ''eq''\<rparr> [LiteralExpression v, e]) (case_body c)]
         | None \<Rightarrow> [makePopExpressionStatement loc e, BlockStatement (case_body c)])"

text \<open>The visitor: the statement as it leaves it, and what replaces it.\<close>

fun reduceStatement :: "Statement \<Rightarrow> Statement \<times> Statement list option" where
  "reduceStatement (IfStatement l e B) =
     (IfStatement l e B, if statements B = [] then Some [makePopExpressionStatement l e] else None)"
| "reduceStatement (SwitchStatement l e cs) =
     (let cs = removeEmptyCasesFromSwitch (removeEmptyDefaultFromSwitch cs)
      in (SwitchStatement l e cs,
          case cs of
            [] \<Rightarrow> Some (reduceNoCaseSwitch e)
          | [c] \<Rightarrow> Some (reduceSingleCaseSwitch l e c)
          | _ \<Rightarrow> None))"
| "reduceStatement s = (s, None)"

text \<open>
  The loop as a condition, if its body ends the loop at its end and nowhere else. The counters
  are the numbers of \<open>break\<close> and \<open>continue\<close> statements in the loop, outside of loops inside of it.
\<close>

type_synonym exit_counters = "nat \<times> nat"

definition reduceLoop :: "Dialect \<Rightarrow> exit_counters \<Rightarrow> SourceLocation \<Rightarrow> Block \<Rightarrow> Expression \<Rightarrow> Block \<Rightarrow> Block \<Rightarrow> Statement" where
  "reduceLoop d = (\<lambda>(breaks, continues) l pre e post body.
     if statements body = [] then ForLoop l pre e post body
     else (let k = controlFlowKind d (last (statements body));
               breaks = (if k = BreakFlow then breaks - 1 else breaks)
           in if (k = BreakFlow \<or> k = TerminateFlow) \<and> continues = 0 \<and> breaks = 0 then
                IfStatement l e (if k = BreakFlow then Block (block_location body) (butlast (statements body)) else body)
              else ForLoop l pre e post body))"

lemma size_list_filter: "size_list size (filter P cs) \<le> size_list size cs"
  by (induction cs) auto

lemma size_removed: "size_list size (removeEmptyCasesFromSwitch (removeEmptyDefaultFromSwitch cs)) \<le> size_list size cs"
proof -
  have "size_list size (removeEmptyCasesFromSwitch xs) \<le> size_list size xs" for xs
    by (auto simp: removeEmptyCasesFromSwitch_def intro: size_list_filter)
  from order_trans [OF this] show ?thesis by (simp add: removeEmptyDefaultFromSwitch_def size_list_filter)
qed

lemma size_reduceStatement:
  "reduceStatement s = (s', Some r) \<Longrightarrow> size_list size r < Suc (size s)"
  "reduceStatement s = (s', None) \<Longrightarrow> size s' \<le> size s"
proof -
  show "reduceStatement s = (s', Some r) \<Longrightarrow> size_list size r < Suc (size s)"
  proof (cases s)
    case (SwitchStatement l e cs)
    assume r: "reduceStatement s = (s', Some r)"
    show ?thesis
    proof (cases "removeEmptyCasesFromSwitch (removeEmptyDefaultFromSwitch cs)")
      case (Cons c cs')
      with r have r': "cs' = []" "r = reduceSingleCaseSwitch l e c"
        by (auto simp: SwitchStatement split: list.splits)
      have "size_list size [c] \<le> size_list size cs" using size_removed [of cs] by (simp add: Cons r'(1))
      then show ?thesis
        by (cases c) (auto simp: r'(2) SwitchStatement reduceSingleCaseSwitch_def makePopExpressionStatement_def Let_def split: option.splits)
    qed (use r in \<open>auto simp: SwitchStatement reduceNoCaseSwitch_def makePopExpressionStatement_def\<close>)
  qed (auto simp: makePopExpressionStatement_def split: if_splits)
  show "reduceStatement s = (s', None) \<Longrightarrow> size s' \<le> size s"
    using size_removed by (cases s) (auto simp: Let_def split: if_splits)
qed

function
  cfs_simplify :: "Dialect \<Rightarrow> Statement list \<Rightarrow> exit_counters \<Rightarrow> (Statement list \<times> exit_counters) result" and
  cfs_visit :: "Dialect \<Rightarrow> Statement \<Rightarrow> exit_counters \<Rightarrow> (Statement \<times> exit_counters) result" and
  cfs_block :: "Dialect \<Rightarrow> Block \<Rightarrow> exit_counters \<Rightarrow> (Block \<times> exit_counters) result" and
  cfs_cases :: "Dialect \<Rightarrow> Case list \<Rightarrow> exit_counters \<Rightarrow> (Case list \<times> exit_counters) result" where
  "cfs_simplify d [] c = Inr ([], c)"
| "cfs_simplify d (s # ss) c =
     bind_result
       (case reduceStatement s of
          (s', Some r) \<Rightarrow> cfs_simplify d r c
        | (s', None) \<Rightarrow> bind_result (cfs_visit d s' c) (\<lambda>(s'', c). Inr ([s''], c)))
       (\<lambda>(r, c). bind_result (cfs_simplify d ss c) (\<lambda>(rs, c). Inr (r @ rs, c)))"
| "cfs_visit d (IfStatement l e B) c = bind_result (cfs_block d B c) (\<lambda>(B, c). Inr (IfStatement l e B, c))"
| "cfs_visit d (SwitchStatement l e cs) c = bind_result (cfs_cases d cs c) (\<lambda>(cs, c). Inr (SwitchStatement l e cs, c))"
| "cfs_visit d (FunctionStatement (FunctionDefinition l x ps rs B)) c =
     bind_result (cfs_block d B c) (\<lambda>(B, c). Inr (FunctionStatement (FunctionDefinition l x ps rs B), c))"
| "cfs_visit d (ForLoop l pre e post body) c =
     (if statements pre \<noteq> [] then Inl YulException
      else bind_result (cfs_block d pre (0, 0)) (\<lambda>(pre, c').
           bind_result (cfs_block d post c') (\<lambda>(post, c').
           bind_result (cfs_block d body c') (\<lambda>(body, c').
             Inr (reduceLoop d c' l pre e post body, c)))))"
| "cfs_visit d (BreakStatement l) c = Inr (BreakStatement l, (fst c + 1, snd c))"
| "cfs_visit d (ContinueStatement l) c = Inr (ContinueStatement l, (fst c, snd c + 1))"
| "cfs_visit d (BlockStatement B) c = bind_result (cfs_block d B c) (\<lambda>(B, c). Inr (BlockStatement B, c))"
| "cfs_visit d (ExpressionStatement l e) c = Inr (ExpressionStatement l e, c)"
| "cfs_visit d (Assignment l xs e) c = Inr (Assignment l xs e, c)"
| "cfs_visit d (VariableDeclaration l xs e) c = Inr (VariableDeclaration l xs e, c)"
| "cfs_block d (Block l ss) c = bind_result (cfs_simplify d ss c) (\<lambda>(ss, c). Inr (Block l ss, c))"
| "cfs_cases d [] c = Inr ([], c)"
| "cfs_cases d (Case l val B # cs) c =
     bind_result (cfs_block d B c) (\<lambda>(B, c). bind_result (cfs_cases d cs c) (\<lambda>(cs, c). Inr (Case l val B # cs, c)))"
  by pat_completeness auto

termination
proof (relation "measure (\<lambda>x. case x of
    Inl (Inl (d, ss, c)) \<Rightarrow> size_list size ss | Inl (Inr (d, s, c)) \<Rightarrow> size s
  | Inr (Inl (d, B, c)) \<Rightarrow> size B | Inr (Inr (d, cs, c)) \<Rightarrow> size_list size cs)")
qed (auto dest!: sym [of "(_, _)"] size_reduceStatement)

text \<open>The whole pass starts with counters at zero.\<close>

definition controlFlowSimplifier :: "Dialect \<Rightarrow> Block \<Rightarrow> Block result" where
  "controlFlowSimplifier d B = bind_result (cfs_block d B (0, 0)) (\<lambda>(B, c). Inr B)"

section \<open>Single statements\<close>

text \<open>To compare two lists of statements it is enough to run them from the same state.\<close>

lemma stmts_eq_same_env:
  assumes "stmts_eq d b ss ss"
    and reg: "\<And>n env. erel d n env env \<Longrightarrow> erel d n (registerFunctions env ss) (registerFunctions env ss')"
    and exec: "\<And>n env st. erel d n env env \<Longrightarrow> lrel False st st \<Longrightarrow>
      orel b (erel d n) (execStatements d (callFunction d n) n env ss st) (execStatements d (callFunction d n) n env ss' st)"
    and visit: "\<And>n env st. erel d n env env \<Longrightarrow> lrel False st st \<Longrightarrow> \<not> b \<Longrightarrow>
      orel False (erel d n) (visitStatements d (callFunction d n) n env ss st) (visitStatements d (callFunction d n) n env ss' st)"
  shows "stmts_eq d b ss ss'"
  unfolding stmts_eq_def
proof (intro allI impI conjI)
  fix n env env' st st'
  assume e: "erel d n env env'"
  note r = erel_right [OF e]
  show "erel d n (registerFunctions env ss) (registerFunctions env' ss')"
    using stmts_eqD(1) [OF assms(1) e] reg [OF r] by (rule erel_trans)
  assume st: "lrel False st st'"
  have st': "lrel False st' st'" using lrel_trans [OF lrel_sym [OF st] st] .
  show "orel b (erel d n) (execStatements d (callFunction d n) n env ss st) (execStatements d (callFunction d n) n env' ss' st')"
    using orel_trans [OF stmts_eqD(2) [OF assms(1) e st] exec [OF r st']] erel_trans by blast
  assume b: "\<not> b"
  show "orel False (erel d n) (visitStatements d (callFunction d n) n env ss st) (visitStatements d (callFunction d n) n env' ss' st')"
    using orel_trans [OF stmts_eqD(3) [OF assms(1) e st b] visit [OF r st' b]] erel_trans by blast
qed

lemma stmt_eq_same_env:
  assumes "stmts_eq d b [s] [s]" "\<not> isFunction s" "\<not> isFunction s'"
    and "\<And>n env st. erel d n env env \<Longrightarrow> lrel False st st \<Longrightarrow>
      orel b (erel d n) (execStatement d (callFunction d n) n env s st) (execStatement d (callFunction d n) n env s' st)"
  shows "stmts_eq d b [s] [s']"
  using assms(4) by (cases b; intro stmts_eq_same_env [OF assms(1)])
    (simp_all add: registerFunctions_other [OF assms(2)] registerFunctions_other [OF assms(3)]
      del: execStatements.simps visitStatements.simps)

lemma evaluate_same:
  assumes "erel d n env env" "lrel False st st"
  shows "orel False (=) (evaluate d (callFunction d n) env e st) (evaluate d (callFunction d n) env e st)"
  by (rule orel_evaluate [OF expr_eq_refl assms])

lemma orel_bind_same:
  assumes "orel b R m m" "\<And>x st. lrel b st st \<Longrightarrow> m = Done x st \<Longrightarrow> orel b' S (f x st) (g x st)"
  shows "orel b' S (and_then m f) (and_then m g)"
  using assms by (cases m) auto

definition svmDialect :: "Dialect \<Rightarrow> bool" where
  "svmDialect d \<longleftrightarrow> (\<exists>flavour access version. d = SVMDialect flavour access version)"

lemma exec_makePop:
  assumes "svmDialect d"
  shows "execStatement d call n env (makePopExpressionStatement l e) st =
    and_then (evaluate d call env e st) (\<lambda>_. Done env)"
proof -
  have "builtin d ''pop'' = Some (createSVMFunction ''pop'' iPOP)"
    using assms builtin_pop by (auto simp: svmDialect_def)
  moreover have "svm_eval iPOP [v] ms = (Inr 0, ms)" for v ms
    by (simp add: svm_eval_def instructionInfo_rules InstructionInfo.defs evalArith_def evalBlockchain_def evalMemory_def
        evalCalls_def isLogInstruction_def)
  ultimately show ?thesis
    by (simp add: makePopExpressionStatement_def evaluate_def and_then_assoc evalBuiltin_def fromSvm_def)
qed

lemma execBlock_empty:
  "execBlock d call n env (Block l []) st = and_then (countStep st) (\<lambda>_. Done env)"
  by (cases env) (simp add: openScope_def closeScope_def cong: and_then_cong)

lemma countStep_Done: "ys_maxSteps st = 0 \<Longrightarrow> countStep st = Done () (st\<lparr>ys_numSteps := ys_numSteps st + 1\<rparr>)"
  by (simp add: countStep_def Let_def)

lemma orel_empty_block:
  assumes "statements B = []" "erel d n env env" "lrel False st st"
  shows "orel b (erel d n) (execBlock d call n env B st) (Done env st)"
proof -
  obtain l where "B = Block l []" using assms(1) by (cases B) simp
  moreover have "ys_maxSteps st = 0" using assms(3) by (simp add: lrel_def srel_def)
  ultimately show ?thesis using assms by (simp add: execBlock_empty countStep_Done lrel_def del: execBlock.simps)
qed

lemma reduce_empty_if:
  assumes d: "svmDialect d" and "statements B = []"
  shows "stmts_eq d b [IfStatement l e B] [makePopExpressionStatement l e]"
proof (rule stmt_eq_same_env)
  have "B = Block (block_location B) []" using assms(2) by (cases B) simp
  then have "exits_ok b (IfStatement l e B)" by (metis exits_ok.simps(5) exits_ok_block.simps empty_iff list.set(1))
  then show "stmts_eq d b [IfStatement l e B] [IfStatement l e B]" by (rule stmt_eq_refl)
  fix n env st assume e: "erel d n env env" "lrel False st st"
  show "orel b (erel d n) (execStatement d (callFunction d n) n env (IfStatement l e B) st)
    (execStatement d (callFunction d n) n env (makePopExpressionStatement l e) st)"
    unfolding exec_makePop [OF d] execStatement.simps
    by (rule orel_bind_same [OF evaluate_same [OF e]])
      (use e(1) orel_empty_block [OF assms(2)] in \<open>auto simp: lrel_def\<close>)
qed (simp_all add: isFunction_def makePopExpressionStatement_def)

section \<open>Switches\<close>

text \<open>
  What the parser and the analysis check of a switch: it has a case, only the last one may be the
  default, and the values of the others are valid and different.
\<close>

definition cases_ok :: "Case list \<Rightarrow> bool" where
  "cases_ok cs \<longleftrightarrow> cs \<noteq> [] \<and> (\<forall>c \<in> set (butlast cs). case_value c \<noteq> None) \<and>
     (\<forall>c \<in> set cs. \<forall>v. case_value c = Some v \<longrightarrow> valueOfLiteral v \<noteq> None) \<and>
     distinct (map (\<lambda>c. map_option valueOfLiteral (case_value c)) cs)"

definition switch_ok :: "Statement \<Rightarrow> bool" where
  "switch_ok s \<longleftrightarrow> (\<forall>l e cs. s = SwitchStatement l e cs \<longrightarrow> cases_ok cs)"

text \<open>Whether a case is chosen for a value.\<close>

definition chosen :: "u256 \<Rightarrow> Case \<Rightarrow> bool" where
  "chosen v c \<longleftrightarrow> (case case_value c of None \<Rightarrow> True | Some l \<Rightarrow> valueOfLiteral l = Some v)"

lemma execCases_find:
  "\<forall>c \<in> set cs. \<forall>l. case_value c = Some l \<longrightarrow> valueOfLiteral l \<noteq> None \<Longrightarrow>
    execCases d call n env v cs st =
      (case find (chosen v) cs of None \<Rightarrow> Done env st | Some c \<Rightarrow> execBlock d call n env (case_body c) st)"
proof (induction cs)
  case (Cons c cs)
  obtain l lit B where c: "c = Case l lit B" by (cases c)
  show ?case
  proof (cases lit)
    case (Some x)
    with Cons.prems c obtain w where w: "valueOfLiteral x = Some w" by auto
    have "and_then (evalLiteral x st) the_value = Done w st" by (simp add: evalLiteral_def w the_value_def)
    then show ?thesis using Cons by (simp add: c Some chosen_def w)
  qed (simp add: c chosen_def)
qed simp

text \<open>
  Dropping empty cases, if no default case is left: what is chosen after that was chosen before,
  and nothing is chosen only if nothing or an empty case was.
\<close>

lemma find_dropped:
  assumes ok: "cases_ok cs" and keep: "\<forall>c \<in> set cs. \<not> K c \<longrightarrow> emptyCase c"
    and no_default: "\<forall>c \<in> set (filter K cs). case_value c \<noteq> None"
  shows "find (chosen v) (filter K cs) = find (chosen v) cs \<or>
    (find (chosen v) (filter K cs) = None \<and> (\<exists>c. find (chosen v) cs = Some c \<and> emptyCase c))"
  using assms
proof (induction cs)
  case (Cons c cs)
  show ?case
  proof (cases "cs = []")
    case True
    with Cons.prems show ?thesis by auto
  next
    case False
    with Cons.prems(1) have ok: "cases_ok cs" "case_value c \<noteq> None" by (simp_all add: cases_ok_def)
    have IH: "find (chosen v) (filter K cs) = find (chosen v) cs \<or>
      (find (chosen v) (filter K cs) = None \<and> (\<exists>c. find (chosen v) cs = Some c \<and> emptyCase c))"
      using Cons.IH [OF ok(1)] Cons.prems(2,3) by auto
    show ?thesis
    proof (cases "K c \<or> \<not> chosen v c")
      case True
      with IH show ?thesis by auto
    next
      case drop: False
      have "\<not> chosen v c'" if "c' \<in> set (filter K cs)" for c'
      proof
        assume "chosen v c'"
        moreover have "case_value c' \<noteq> None" using that Cons.prems(3) by auto
        ultimately have "map_option valueOfLiteral (case_value c') = map_option valueOfLiteral (case_value c)"
          using drop ok(2) by (auto simp: chosen_def)
        moreover have "c' \<in> set cs" using that by simp
        moreover have "map_option valueOfLiteral (case_value c) \<notin> (\<lambda>c. map_option valueOfLiteral (case_value c)) ` set cs"
          using Cons.prems(1) by (simp add: cases_ok_def)
        ultimately show False by (metis image_eqI)
      qed
      then have "find (chosen v) (filter K cs) = None" by (simp add: find_None_iff)
      with drop Cons.prems(2) show ?thesis by auto
    qed
  qed
qed (simp add: cases_ok_def)

abbreviation remainingCases :: "Case list \<Rightarrow> Case list" where
  "remainingCases cs \<equiv> removeEmptyCasesFromSwitch (removeEmptyDefaultFromSwitch cs)"

lemma remainingCases_subset: "set (remainingCases cs) \<subseteq> set cs"
  by (auto simp: removeEmptyCasesFromSwitch_def removeEmptyDefaultFromSwitch_def)

lemma remainingCases_cases:
  assumes ok: "cases_ok cs"
  shows "find (chosen v) (remainingCases cs) = find (chosen v) cs \<or>
    (find (chosen v) (remainingCases cs) = None \<and> (\<exists>c. find (chosen v) cs = Some c \<and> emptyCase c))"
proof (cases "\<exists>c \<in> set (removeEmptyDefaultFromSwitch cs). case_value c = None")
  case True
  then obtain c where c: "c \<in> set cs" "case_value c = None" "\<not> emptyCase c"
    by (auto simp: removeEmptyDefaultFromSwitch_def)
  have "c' = c" if "c' \<in> set cs" "case_value c' = None" for c'
    using ok that c(1,2) by (simp add: cases_ok_def distinct_map inj_on_def)
  then have "removeEmptyDefaultFromSwitch cs = cs"
    unfolding removeEmptyDefaultFromSwitch_def filter_id_conv using c(3) by blast
  with True show ?thesis by (simp add: removeEmptyCasesFromSwitch_def)
next
  case False
  define K where "K c \<longleftrightarrow> \<not> emptyCase c \<and> \<not> (case_value c = None \<and> emptyCase c)" for c
  have "remainingCases cs = filter K cs"
    using False by (auto simp: removeEmptyCasesFromSwitch_def removeEmptyDefaultFromSwitch_def K_def intro!: filter_cong)
  moreover have "\<forall>c \<in> set cs. \<not> K c \<longrightarrow> emptyCase c" by (auto simp: K_def)
  moreover have "\<forall>c \<in> set (filter K cs). case_value c \<noteq> None"
    using False by (auto simp: K_def removeEmptyDefaultFromSwitch_def)
  ultimately show ?thesis using find_dropped [OF ok] by metis
qed

lemma cases_ok_literals:
  "cases_ok cs \<Longrightarrow> \<forall>c \<in> set (remainingCases cs). \<forall>l. case_value c = Some l \<longrightarrow> valueOfLiteral l \<noteq> None"
  "cases_ok cs \<Longrightarrow> \<forall>c \<in> set cs. \<forall>l. case_value c = Some l \<longrightarrow> valueOfLiteral l \<noteq> None"
  using remainingCases_subset [of cs] by (auto simp: cases_ok_def)

definition runChosen :: "Dialect \<Rightarrow> caller \<Rightarrow> nat \<Rightarrow> Env \<Rightarrow> Case option \<Rightarrow> YulState \<Rightarrow> Env outcome" where
  "runChosen d call n env c st = (case c of None \<Rightarrow> Done env st | Some c \<Rightarrow> execBlock d call n env (case_body c) st)"

lemma exec_switch:
  assumes "cs \<noteq> []" "\<forall>c \<in> set cs. \<forall>l. case_value c = Some l \<longrightarrow> valueOfLiteral l \<noteq> None"
  shows "execStatement d call n env (SwitchStatement l e cs) st =
    and_then (evaluate d call env e st) (\<lambda>v. runChosen d call n env (find (chosen v) cs))"
  using assms by (simp add: execCases_find runChosen_def [abs_def])

lemma orel_remaining:
  assumes ok: "cases_ok cs" and exits: "\<forall>c \<in> set cs. exits_ok_case b c"
    and e: "erel d n env env" "lrel False st st"
  shows "orel b (erel d n) (runChosen d (callFunction d n) n env (find (chosen v) cs) st)
    (runChosen d (callFunction d n) n env (find (chosen v) (remainingCases cs)) st)"
proof -
  have refl: "orel b (erel d n) (runChosen d (callFunction d n) n env (find (chosen v) cs) st)
    (runChosen d (callFunction d n) n env (find (chosen v) cs) st)"
  proof (cases "find (chosen v) cs")
    case None
    with e show ?thesis by (simp add: runChosen_def lrel_def)
  next
    case (Some c)
    then have "c \<in> set cs" by (auto simp: find_Some_iff)
    with exits have "block_eq d b (case_body c) (case_body c)"
      using case_eq_refl by (auto simp: case_eq_def)
    with Some e show ?thesis by (simp add: runChosen_def orel_execBlock)
  qed
  from remainingCases_cases [OF ok, of v] show ?thesis
  proof
    assume "find (chosen v) (remainingCases cs) = find (chosen v) cs"
    with refl show ?thesis by simp
  next
    assume "find (chosen v) (remainingCases cs) = None \<and> (\<exists>c. find (chosen v) cs = Some c \<and> emptyCase c)"
    then show ?thesis using orel_empty_block [OF _ e] by (auto simp: runChosen_def emptyCase_def)
  qed
qed

lemma switch_refl: "\<forall>c \<in> set cs. exits_ok_case b c \<Longrightarrow> stmts_eq d b [SwitchStatement l e cs] [SwitchStatement l e cs]"
  by (rule stmt_eq_refl) simp

lemma reduce_switch_cases:
  assumes ok: "cases_ok cs" and exits: "\<forall>c \<in> set cs. exits_ok_case b c" and "remainingCases cs \<noteq> []"
  shows "stmts_eq d b [SwitchStatement l e cs] [SwitchStatement l e (remainingCases cs)]"
proof (rule stmt_eq_same_env [OF switch_refl [OF exits]])
  fix n env st assume e: "erel d n env env" "lrel False st st"
  have "cs \<noteq> []" using ok by (simp add: cases_ok_def)
  then show "orel b (erel d n) (execStatement d (callFunction d n) n env (SwitchStatement l e cs) st)
    (execStatement d (callFunction d n) n env (SwitchStatement l e (remainingCases cs)) st)"
    unfolding exec_switch [OF \<open>cs \<noteq> []\<close> cases_ok_literals(2) [OF ok]] exec_switch [OF assms(3) cases_ok_literals(1) [OF ok]]
    by (intro orel_bind_same [OF evaluate_same [OF e]] orel_remaining ok exits e(1))
qed (simp_all add: isFunction_def)

lemma reduce_switch_none:
  assumes d: "svmDialect d" and ok: "cases_ok cs" and exits: "\<forall>c \<in> set cs. exits_ok_case b c" and none: "remainingCases cs = []"
  shows "stmts_eq d b [SwitchStatement l e cs] (reduceNoCaseSwitch e)"
  unfolding reduceNoCaseSwitch_def
proof (rule stmt_eq_same_env [OF switch_refl [OF exits]])
  fix n env st assume e: "erel d n env env" "lrel False st st"
  have "cs \<noteq> []" using ok by (simp add: cases_ok_def)
  have pop: "execStatement d (callFunction d n) n env (makePopExpressionStatement (expr_locationOf e) e) st =
    and_then (evaluate d (callFunction d n) env e st) (\<lambda>v. runChosen d (callFunction d n) n env (find (chosen v) (remainingCases cs)))" for e
    unfolding exec_makePop [OF d] by (simp add: none runChosen_def [abs_def])
  show "orel b (erel d n) (execStatement d (callFunction d n) n env (SwitchStatement l e cs) st)
    (execStatement d (callFunction d n) n env (makePopExpressionStatement (expr_locationOf e) e) st)" for e
    unfolding exec_switch [OF \<open>cs \<noteq> []\<close> cases_ok_literals(2) [OF ok]] pop
    by (intro orel_bind_same [OF evaluate_same [OF e]] orel_remaining ok exits e(1))
qed (simp_all add: isFunction_def makePopExpressionStatement_def)

lemma visit_Nil: "visitStatements d call n env [] = Done env"
  by (simp add: fun_eq_iff)

lemma evaluate_eq:
  assumes "svmDialect d" "valueOfLiteral v = Some x"
  shows "evaluate d call env (FunctionCall l \<lparr>id_location = l, id_name = ''eq''\<rparr> [LiteralExpression v, e]) st =
    and_then (evaluate d call env e st) (\<lambda>w. Done (if x = w then 1 else 0))"
proof -
  have "builtin d ''eq'' = Some (createSVMFunction ''eq'' iEQ)"
    using assms(1) builtin_eq by (auto simp: svmDialect_def)
  moreover have "svm_eval iEQ [v, w] ms = (Inr (if v = w then 1 else 0), ms)" for v w ms
    by (simp add: svm_eval_def instructionInfo_rules InstructionInfo.defs evalArith_def)
  ultimately show ?thesis
    by (simp add: evaluate_def and_then_assoc evalBuiltin_def fromSvm_def evalLiteral_def assms(2) the_value_def cong: and_then_cong)
qed

lemma reduce_switch_single:
  assumes d: "svmDialect d" and ok: "cases_ok cs" and exits: "\<forall>c \<in> set cs. exits_ok_case b c" and one: "remainingCases cs = [c]"
  shows "stmts_eq d b [SwitchStatement l e cs] (reduceSingleCaseSwitch l e c)"
proof -
  have "cs \<noteq> []" using ok by (simp add: cases_ok_def)
  note switch = exec_switch [OF this cases_ok_literals(2) [OF ok]]
  let ?loc = "expr_locationOf e"
  have chosen: "orel b (erel d n) (execStatement d (callFunction d n) n env (SwitchStatement l e cs) st)
      (and_then (evaluate d (callFunction d n) env e st) (\<lambda>v. runChosen d (callFunction d n) n env (find (chosen v) [c])))"
    if e: "erel d n env env" "lrel False st st" for n env st
    unfolding switch one [symmetric] by (intro orel_bind_same [OF evaluate_same [OF e]] orel_remaining ok exits e(1))
  show ?thesis
  proof (cases "case_value c")
    case (Some v)
    then obtain x where x: "valueOfLiteral v = Some x" using cases_ok_literals(1) [OF ok] by (auto simp: one)
    have cond: "execStatement d call n env (IfStatement l (FunctionCall ?loc \<lparr>id_location = ?loc, id_name = ''eq''\<rparr> [LiteralExpression v, e])
          (case_body c)) st =
        and_then (evaluate d call env e st) (\<lambda>v. runChosen d call n env (find (chosen v) [c]))" for call n env st
      by (auto simp: evaluate_eq [OF d x] and_then_assoc chosen_def Some x runChosen_def intro!: and_then_cong)
    have single: "reduceSingleCaseSwitch l e c =
        [IfStatement l (FunctionCall ?loc \<lparr>id_location = ?loc, id_name = ''eq''\<rparr> [LiteralExpression v, e]) (case_body c)]"
      by (simp add: reduceSingleCaseSwitch_def Some Let_def)
    show ?thesis unfolding single
      by (rule stmt_eq_same_env [OF switch_refl [OF exits]]) (simp_all only: isFunction_def chosen cond, simp_all)
  next
    case None
    have dflt: "and_then (evaluate d call env e st) (\<lambda>v. runChosen d call n env (find (chosen v) [c])) =
        and_then (evaluate d call env e st) (\<lambda>_. execBlock d call n env (case_body c))" for call n env st
      by (simp add: chosen_def None runChosen_def [abs_def])
    have exec: "execStatements d (callFunction d n) n env [makePopExpressionStatement ?loc e, BlockStatement (case_body c)] st =
        and_then (evaluate d (callFunction d n) env e st) (\<lambda>_. execBlock d (callFunction d n) n env (case_body c))"
      if e: "erel d n env env" "lrel False st st" for n env st
    proof (cases "evaluate d (callFunction d n) env e st")
      case (Done v s)
      with evaluate_same [OF e, of e] have "ys_loopState s = LoopDefault" by (simp add: lrel_def)
      then show ?thesis using exec_single(1) [of d "callFunction d n" n env "BlockStatement (case_body c)"]
        by (simp add: exec_makePop [OF d] Done del: execStatements.simps(1))
    qed (simp_all add: exec_makePop [OF d])
    have visit: "visitStatements d call n env [makePopExpressionStatement ?loc e, BlockStatement (case_body c)] st =
        and_then (evaluate d call env e st) (\<lambda>_. execBlock d call n env (case_body c))" for call n env st
      by (simp add: exec_makePop [OF d] and_then_assoc visit_Nil)
    have single: "reduceSingleCaseSwitch l e c = [makePopExpressionStatement ?loc e, BlockStatement (case_body c)]"
      by (simp add: reduceSingleCaseSwitch_def None Let_def)
    have reg: "registerFunctions env (makePopExpressionStatement ?loc e # ss) = registerFunctions env ss" for env ss
      by (simp add: makePopExpressionStatement_def)
    show ?thesis unfolding single
    proof (rule stmts_eq_same_env [OF switch_refl [OF exits]])
      fix n env st assume er: "erel d n env env"
      show "erel d n (registerFunctions env [SwitchStatement l e cs])
        (registerFunctions env [makePopExpressionStatement ?loc e, BlockStatement (case_body c)])"
        using er by (simp add: reg)
      assume st: "lrel False st st"
      note related = chosen [OF er st, unfolded dflt]
      show "orel b (erel d n) (execStatements d (callFunction d n) n env [SwitchStatement l e cs] st)
        (execStatements d (callFunction d n) n env [makePopExpressionStatement ?loc e, BlockStatement (case_body c)] st)"
        unfolding exec [OF er st] exec_single by (rule related)
      assume "\<not> b"
      then show "orel False (erel d n) (visitStatements d (callFunction d n) n env [SwitchStatement l e cs] st)
        (visitStatements d (callFunction d n) n env [makePopExpressionStatement ?loc e, BlockStatement (case_body c)] st)"
        unfolding visit exec_single using related by simp
    qed
  qed
qed

section \<open>Loops that are left in their first round\<close>

lemma without_scopes:
  "openScope env = with_scopes ({} # e_scopes env) (env\<lparr>e_scopes := []\<rparr>)"
  "env = with_scopes (e_scopes env) (env\<lparr>e_scopes := []\<rparr>)"
  by (simp_all add: openScope_def with_scopes_def)

lemma close_empty_scope:
  "e_scopes env = [] \<Longrightarrow> closeScope (with_scopes ({} # T) env) st = Done (with_scopes T env) st"
  by (cases env) (simp add: closeScope_def with_scopes_def)

lemma loopState_same: "ys_loopState st = LoopDefault \<Longrightarrow> withLoopState LoopDefault st = st"
  by (cases st) simp

lemma whileLoop_round: "\<exists>again. whileLoop n c body post = loopRound c body post again"
  by (cases n) auto

text \<open>Outcomes with the same result, up to the loop state that an exception is raised in.\<close>

fun same_result :: "'a outcome \<Rightarrow> 'a outcome \<Rightarrow> bool" where
  "same_result m (Raised e t) = (\<exists>l. m = Raised e (withLoopState l t))"
| "same_result m m' = (m = m')"

lemma some_loopState [simp]: "\<exists>l. t = withLoopState l t"
  by (rule exI [of _ "ys_loopState t"]) simp

lemma same_result_refl: "same_result m m"
  by (cases m) simp_all

lemma same_result_orel:
  assumes "same_result m m'" "orel b R m' m'"
  shows "orel b R m m'"
  using assms by (cases m') (auto simp: rrel_def)

text \<open>The body of a loop that is left where the body of the condition ends.\<close>

fun leaves_after :: "'a outcome \<Rightarrow> 'a outcome \<Rightarrow> bool" where
  "leaves_after m (Done x t) = (m = Done x (withLoopState LoopBreak t))"
| "leaves_after m m' = same_result m m'"

lemma leaves_after_map: "leaves_after m m' \<Longrightarrow> leaves_after (map_outcome f m) (map_outcome f m')"
  by (cases m') auto

lemma loop_as_if:
  assumes A: "\<And>s. lrel False s s \<Longrightarrow>
      leaves_after (execBlock d call n (env\<lparr>e_scopes := []\<rparr>) B1 s) (execBlock d call n (env\<lparr>e_scopes := []\<rparr>) B2 s)"
    and B: "\<And>s x t. lrel False s s \<Longrightarrow> execBlock d call n (env\<lparr>e_scopes := []\<rparr>) B2 s = Done x t \<Longrightarrow> ys_loopState t = LoopDefault"
    and C: "\<And>v s. evaluate d call env c st = Done v s \<Longrightarrow> lrel False s s"
  shows "same_result (execStatement d call n env (ForLoop l (Block lp []) c post B1) st) (execStatement d call n env (IfStatement l' c B2) st)"
proof -
  let ?env0 = "env\<lparr>e_scopes := []\<rparr>" and ?S = "e_scopes env"
  obtain again where loop: "whileLoop n (\<lambda>env. evaluate d call env c) (\<lambda>env. execBlock d call n env B1) (\<lambda>env. execBlock d call n env post) =
      loopRound (\<lambda>env. evaluate d call env c) (\<lambda>env. execBlock d call n env B1) (\<lambda>env. execBlock d call n env post) again"
    using whileLoop_round by blast
  have cond: "evaluate d call (openScope env) c st = evaluate d call env c st"
    unfolding without_scopes(1) by (subst (3) without_scopes(2)) (simp only: evaluate_scopes)
  show ?thesis
  proof (cases "evaluate d call env c st")
    case (Done v s)
    note s = C [OF Done]
    have d: "ys_loopState s = LoopDefault" using s by (simp add: lrel_def)
    show ?thesis
    proof (cases "v = 0")
      case True
      have "closeScope (openScope env) s = Done (with_scopes ?S ?env0) s"
        unfolding without_scopes(1) by (rule close_empty_scope) simp
      then show ?thesis using True without_scopes(2) [of env] by (simp add: loop loopRound_def cond Done loopState_same [OF d])
    next
      case False
      have run: "execBlock d call n (openScope env) B1 s = map_outcome (with_scopes ({} # ?S)) (execBlock d call n ?env0 B1 s)"
        unfolding without_scopes(1) [of env] by (rule exec_with_scopes(4))
      have run': "execBlock d call n env B2 s = map_outcome (with_scopes ?S) (execBlock d call n ?env0 B2 s)"
        by (subst (1) without_scopes(2)) (rule exec_with_scopes(4))
      show ?thesis
      proof (cases "execBlock d call n ?env0 B2 s")
        case block: (Done x t)
        have "scopes_left 0 (execBlock d call n ?env0 B2 s)" by (rule scopes_left_all(4)) simp
        then have "e_scopes x = []" by (simp add: block)
        then show ?thesis using False B [OF s block] A [OF s]
          by (simp add: loop loopRound_def cond Done run run' block close_empty_scope loopState_same [OF d] loopState_same)
      qed (use False A [OF s] in \<open>auto simp add: loop loopRound_def cond Done run run' loopState_same [OF d]\<close>)
    qed
  qed (simp_all add: loop loopRound_def cond)
qed

lemma exits_statements: "exits_ok_block b B \<longleftrightarrow> (\<forall>s \<in> set (statements B). exits_ok b s)"
  by (cases B) simp

text \<open>A block without pending exits is left with the default loop state.\<close>

lemma block_loopState:
  assumes "exits_ok_block False B" "erel d n env env" "lrel False s s" "execBlock d (callFunction d n) n env B s = Done x t"
  shows "ys_loopState t = LoopDefault"
  using orel_execBlock [OF block_eq_refl [OF assms(1)] assms(2,3)] assms(4) by (simp add: lrel_def)

lemma erel_no_scopes: "erel d n env env \<Longrightarrow> erel d n (env\<lparr>e_scopes := []\<rparr>) (env\<lparr>e_scopes := []\<rparr>)"
  by (simp add: erel_def)

lemma leaves_after_close:
  assumes "ys_loopState t = LoopDefault"
  shows "leaves_after (closeScope x (withLoopState LoopBreak t)) (closeScope x t)"
  by (auto simp: closeScope_def split: list.splits)

lemma erel_registered: "erel d n env env \<Longrightarrow> \<forall>s \<in> set ss. exits_ok b s \<Longrightarrow> erel d n (registerFunctions env ss) (registerFunctions env ss)"
  using stmts_eqD(1) [OF stmts_eq_refl] .

lemma statements_loopState:
  assumes "\<forall>s \<in> set ss. exits_ok False s" "erel d n env env" "lrel False s s"
    "execStatements d (callFunction d n) n env ss s = Done x t"
  shows "ys_loopState t = LoopDefault"
  using stmts_eqD(2) [OF stmts_eq_refl [OF assms(1)] assms(2,3)] assms(4) by (simp add: lrel_def)

lemma break_at_end:
  assumes ok: "exits_ok_block False (Block lb ss)" and e: "erel d n env env" and s: "lrel False s s"
  shows "leaves_after (execBlock d (callFunction d n) n env (Block lb (ss @ [BreakStatement l])) s)
    (execBlock d (callFunction d n) n env (Block lb ss) s)"
proof -
  have reg: "registerFunctions e (ss @ [BreakStatement l]) = registerFunctions e ss" for e
    by (simp add: registerFunctions_append)
  have ok': "\<forall>s \<in> set ss. exits_ok False s" using ok by simp
  let ?env = "registerFunctions (openScope env) ss" and ?s = "s\<lparr>ys_numSteps := ys_numSteps s + 1\<rparr>"
  have e': "erel d n ?env ?env" by (rule erel_registered [OF erel_openScope [OF e] ok'])
  have s': "lrel False ?s ?s" "ys_loopState ?s = LoopDefault" "countStep s = Done () ?s"
    using s by (simp_all add: lrel_def countStep_Done srel_def)
  show ?thesis
  proof (cases "execStatements d (callFunction d n) n ?env ss ?s")
    case (Done x t)
    note t = statements_loopState [OF ok' e' s'(1) Done]
    show ?thesis using t leaves_after_close [OF t]
      by (simp add: reg s'(3) execStatements_append [OF s'(2)] Done)
  qed (simp_all add: reg s'(3) execStatements_append [OF s'(2)])
qed

lemma never_done_at_end:
  assumes ok: "exits_ok_block False (Block lb ss)" and e: "erel d n env env" and s: "lrel False s s"
    and "ss \<noteq> []" "controlFlowKind d (last ss) = TerminateFlow"
  shows "execBlock d (callFunction d n) n env (Block lb ss) s \<noteq> Done x t"
proof
  assume run: "execBlock d (callFunction d n) n env (Block lb ss) s = Done x t"
  obtain p l where ss: "ss = p @ [l]" using \<open>ss \<noteq> []\<close> by (cases ss rule: rev_cases) auto
  have ok': "\<forall>s \<in> set ss. exits_ok False s" "\<forall>s \<in> set p. exits_ok False s" using ok by (simp_all add: ss)
  let ?env = "registerFunctions (openScope env) ss" and ?s = "s\<lparr>ys_numSteps := ys_numSteps s + 1\<rparr>"
  have e': "erel d n ?env ?env" by (rule erel_registered [OF erel_openScope [OF e] ok'(1)])
  have s': "lrel False ?s ?s" "ys_loopState ?s = LoopDefault" "countStep s = Done () ?s"
    using s by (simp_all add: lrel_def countStep_Done srel_def)
  obtain y u where "execStatements d (callFunction d n) n ?env ss ?s = Done y u"
    using run by (cases "execStatements d (callFunction d n) n ?env ss ?s") (simp_all add: s'(3))
  then obtain z v where p: "execStatements d (callFunction d n) n ?env p ?s = Done z v"
    and rest: "(if ys_loopState v \<noteq> LoopDefault then Done z v else execStatement d (callFunction d n) n z l v) = Done y u"
    unfolding ss execStatements_append [OF s'(2)] exec_single
    by (cases "execStatements d (callFunction d n) n (registerFunctions (openScope env) (p @ [l])) p ?s") simp_all
  have "ys_loopState v = LoopDefault" by (rule statements_loopState [OF ok'(2) e' s'(1) p])
  with rest have "execStatement d (callFunction d n) n z l v = Done y u" by simp
  with flow_change [of d l] assms(5) ok'(1) show False by (auto simp: ss)
qed

section \<open>Counting the exits\<close>

fun
  countExits :: "(Statement \<Rightarrow> bool) \<Rightarrow> Statement \<Rightarrow> nat" and
  countExitsBlock :: "(Statement \<Rightarrow> bool) \<Rightarrow> Block \<Rightarrow> nat" and
  countExitsCase :: "(Statement \<Rightarrow> bool) \<Rightarrow> Case \<Rightarrow> nat" where
  "countExits P (IfStatement l e B) = countExitsBlock P B"
| "countExits P (SwitchStatement l e cs) = sum_list (map (countExitsCase P) cs)"
| "countExits P (FunctionStatement f) = 0"
| "countExits P (ForLoop l pre e post body) = 0"
| "countExits P (BlockStatement B) = countExitsBlock P B"
| "countExits P s = (if P s then 1 else 0)"
| "countExitsBlock P (Block l ss) = sum_list (map (countExits P) ss)"
| "countExitsCase P (Case l val B) = countExitsBlock P B"

definition isBreak :: "Statement \<Rightarrow> bool" where
  "isBreak s \<longleftrightarrow> (case s of BreakStatement l \<Rightarrow> True | _ \<Rightarrow> False)"

definition isContinue :: "Statement \<Rightarrow> bool" where
  "isContinue s \<longleftrightarrow> (case s of ContinueStatement l \<Rightarrow> True | _ \<Rightarrow> False)"

lemma exits_counted:
  "exits_ok b s \<Longrightarrow> countExits isBreak s = 0 \<Longrightarrow> countExits isContinue s = 0 \<Longrightarrow> exits_ok False s"
  "exits_ok_block b B \<Longrightarrow> countExitsBlock isBreak B = 0 \<Longrightarrow> countExitsBlock isContinue B = 0 \<Longrightarrow> exits_ok_block False B"
  "exits_ok_case b c \<Longrightarrow> countExitsCase isBreak c = 0 \<Longrightarrow> countExitsCase isContinue c = 0 \<Longrightarrow> exits_ok_case False c"
  "exits_ok_function f \<Longrightarrow> exits_ok_function f"
  by (induction b s and b B and b c and f rule: exits_ok_exits_ok_block_exits_ok_case_exits_ok_function.induct)
    (auto simp: isBreak_def isContinue_def)

lemma no_exits_counted:
  assumes "P = isBreak \<or> P = isContinue"
  shows "exits_ok False s \<Longrightarrow> countExits P s = 0"
    "exits_ok_block False B \<Longrightarrow> countExitsBlock P B = 0"
    "exits_ok_case False c \<Longrightarrow> countExitsCase P c = 0"
    using assms
  by (induction P s and P B and P c rule: countExits_countExitsBlock_countExitsCase.induct)
    (auto simp: isBreak_def isContinue_def)

lemma exits_mono:
  "exits_ok b' s \<Longrightarrow> \<not> b' \<or> b \<Longrightarrow> exits_ok b s"
  "exits_ok_block b' B \<Longrightarrow> \<not> b' \<or> b \<Longrightarrow> exits_ok_block b B"
  "exits_ok_case b' c \<Longrightarrow> \<not> b' \<or> b \<Longrightarrow> exits_ok_case b c"
  "exits_ok_function f \<Longrightarrow> exits_ok_function f"
  by (induction b' s and b' B and b' c and f arbitrary: b and b and b rule: exits_ok_exits_ok_block_exits_ok_case_exits_ok_function.induct)
    auto

definition addExits :: "exit_counters \<Rightarrow> Statement list \<Rightarrow> exit_counters" where
  "addExits c ss =
     (fst c + sum_list (map (countExits isBreak) ss), snd c + sum_list (map (countExits isContinue) ss))"

lemma addExits_simps [simp]:
  "addExits c [] = c" "addExits c (ss @ ts) = addExits (addExits c ss) ts"
  "addExits c [BlockStatement B] = addExits c (statements B)"
  "addExits c [IfStatement l e B] = addExits c (statements B)"
  "addExits c [FunctionStatement f] = c" "addExits c [ForLoop l pre e post B] = c"
  "addExits c [BreakStatement l] = (fst c + 1, snd c)" "addExits c [ContinueStatement l] = (fst c, snd c + 1)"
  "addExits c [ExpressionStatement l e] = c" "addExits c [Assignment l xs e] = c"
  "addExits c [VariableDeclaration l ys v] = c"
  by (cases B; simp add: addExits_def isBreak_def isContinue_def)+

lemma addExits_Cons: "addExits c (s # ss) = addExits (addExits c [s]) ss"
  using addExits_simps(2) [of c "[s]" ss] by simp

lemma addExits_switch: "addExits c [SwitchStatement l e cs] = addExits c (map (BlockStatement \<circ> case_body) cs)"
proof -
  have "countExits P (BlockStatement (case_body k)) = countExitsCase P k" for P k by (cases k) simp
  then show ?thesis by (simp add: addExits_def comp_def)
qed

lemma addExits_none: "\<forall>s \<in> set ss. exits_ok False s \<Longrightarrow> addExits c ss = c"
  by (induction ss) (simp_all add: addExits_def no_exits_counted(1))

lemma addExits_zero:
  assumes "addExits (0, 0) ss = (0, 0)" "\<forall>s \<in> set ss. exits_ok b s"
  shows "\<forall>s \<in> set ss. exits_ok False s"
  using assms exits_counted(1) by (auto simp: addExits_def)

section \<open>The loop rule\<close>

lemma exits_loop_parts:
  assumes "exits_ok b (ForLoop l (Block lp []) e post body)"
  shows "exits_ok_block False post" "exits_ok_block True body"
  using assms by auto

lemma loop_stmts_eq:
  assumes ok: "exits_ok b (ForLoop l (Block lp []) e post B1)" and ok2: "exits_ok_block False B2"
    and body: "\<And>n env s. erel d n env env \<Longrightarrow> lrel False s s \<Longrightarrow>
      leaves_after (execBlock d (callFunction d n) n env B1 s) (execBlock d (callFunction d n) n env B2 s)"
  shows "stmts_eq d b [ForLoop l (Block lp []) e post B1] [IfStatement l e B2]"
proof (rule stmt_eq_same_env [OF stmt_eq_refl [OF ok]])
  fix n env st assume e: "erel d n env env" "lrel False st st"
  have "stmts_eq d b [IfStatement l e B2] [IfStatement l e B2]"
    by (rule stmt_eq_refl) (simp add: exits_mono(2) [OF ok2])
  from stmts_eqD(2) [OF this e]
  have refl: "orel b (erel d n) (execStatement d (callFunction d n) n env (IfStatement l e B2) st)
    (execStatement d (callFunction d n) n env (IfStatement l e B2) st)" unfolding exec_single .
  show "orel b (erel d n) (execStatement d (callFunction d n) n env (ForLoop l (Block lp []) e post B1) st)
    (execStatement d (callFunction d n) n env (IfStatement l e B2) st)"
  proof (rule same_result_orel [OF loop_as_if refl])
    show "lrel False s s" if "evaluate d (callFunction d n) env e st = Done v s" for v s
      using evaluate_same [OF e, of e] by (simp add: that)
    show "ys_loopState t = LoopDefault"
      if "lrel False s s" "execBlock d (callFunction d n) n (env\<lparr>e_scopes := []\<rparr>) B2 s = Done x t" for s x t
      using block_loopState [OF ok2 erel_no_scopes [OF e(1)] that] .
  qed (rule body [OF erel_no_scopes [OF e(1)]])
qed (simp_all add: isFunction_def)

lemma isBreak_kind: "controlFlowKind d s = BreakFlow \<longleftrightarrow> isBreak s"
  by (auto simp: controlFlowKind_def isBreak_def split: Statement.splits)

lemma reduceLoop_sound:
  assumes ok: "exits_ok b (ForLoop l (Block lp []) e post body)"
    and c: "c = addExits (0, 0) (statements body)"
    and r: "r = reduceLoop d c l (Block lp []) e post body"
  shows "stmts_eq d b [ForLoop l (Block lp []) e post body] [r] \<and> exits_ok b r \<and> addExits c' [r] = c'"
proof (cases "r = ForLoop l (Block lp []) e post body")
  case True
  with stmt_eq_refl [OF ok] ok show ?thesis by (simp add: addExits_def)
next
  case False
  obtain lb ss where body: "body = Block lb ss" by (cases body)
  have exits: "\<forall>s \<in> set ss. exits_ok True s" using ok by (simp add: body)
  have "ss \<noteq> []" using False by (auto simp: r reduceLoop_def body split: prod.splits)
  then obtain p t where ss: "ss = p @ [t]" by (cases ss rule: rev_cases) auto
  consider (brk) "isBreak t" "addExits (0, 0) p = (0, 0)" "r = IfStatement l e (Block lb p)"
    | (trm) "controlFlowKind d t = TerminateFlow" "addExits (0, 0) ss = (0, 0)" "r = IfStatement l e body"
  proof (cases "isBreak t")
    case True
    then obtain k where t: "t = BreakStatement k" by (auto simp: isBreak_def split: Statement.splits)
    show thesis using False that(1) True
      by (auto simp: r reduceLoop_def c body ss isBreak_kind addExits_def t isBreak_def [of "BreakStatement k"]
        isContinue_def [of "BreakStatement k"] Let_def split: if_splits)
  next
    case no: False
    then show thesis using False that(2)
      by (auto simp: r reduceLoop_def c body ss isBreak_kind addExits_def Let_def split: if_splits)
  qed
  then show ?thesis
  proof cases
    case brk
    obtain k where t: "t = BreakStatement k" using brk(1) by (auto simp: isBreak_def split: Statement.splits)
    have p: "\<forall>s \<in> set p. exits_ok False s" using addExits_zero [OF brk(2), of True] exits by (simp add: ss)
    then have okp: "exits_ok_block False (Block lb p)" by simp
    have "stmts_eq d b [ForLoop l (Block lp []) e post (Block lb (p @ [BreakStatement k]))] [IfStatement l e (Block lb p)]"
      by (rule loop_stmts_eq [OF _ okp break_at_end [OF okp]]) (use ok in \<open>simp_all add: body ss t\<close>)
    with addExits_none [OF p] exits_mono(2) [OF okp] show ?thesis by (simp add: brk(3) body ss t)
  next
    case trm
    have p: "\<forall>s \<in> set ss. exits_ok False s" using addExits_zero [OF trm(2) exits] .
    then have okp: "exits_ok_block False (Block lb ss)" by simp
    have "leaves_after (execBlock d (callFunction d n) n env body s) (execBlock d (callFunction d n) n env body s)"
      if "erel d n env env" "lrel False s s" for n env s
      using never_done_at_end [OF okp that] trm(1)
      by (cases "execBlock d (callFunction d n) n env (Block lb ss) s") (simp_all add: body ss)
    with okp have "stmts_eq d b [ForLoop l (Block lp []) e post body] [IfStatement l e body]"
      by (intro loop_stmts_eq [OF ok]) (simp_all add: body)
    with addExits_none [OF p] exits_mono(2) [OF okp] show ?thesis by (simp add: trm(3) body)
  qed
qed

section \<open>Correctness of the pass\<close>

definition switches_ok :: "Statement \<Rightarrow> bool" where
  "switches_ok s \<longleftrightarrow> switch_ok s \<and> (\<forall>B \<in> sub_blocks s. all_statements switch_ok B)"

lemma switches_ok_block: "all_statements switch_ok B \<longleftrightarrow> (\<forall>s \<in> set (statements B). switches_ok s)"
  by (cases B) (simp add: switches_ok_def)

lemma remaining_exits: "\<forall>c \<in> set cs. exits_ok_case b c \<Longrightarrow> \<forall>c \<in> set (remainingCases cs). exits_ok_case b c"
  using remainingCases_subset [of cs] by blast

lemma exits_case_body: "exits_ok_case b c \<longleftrightarrow> exits_ok_block b (case_body c)"
  by (cases c) simp

lemma reduce_sound_Some:
  assumes d: "svmDialect d" and ok: "exits_ok b s" "switches_ok s" and r: "reduceStatement s = (s', Some r)"
  shows "stmts_eq d b [s] r \<and> (\<forall>t \<in> set r. exits_ok b t \<and> switches_ok t)"
proof (cases s)
  case (IfStatement l e B)
  with r have "statements B = []" "r = [makePopExpressionStatement l e]" by (auto split: if_splits)
  with reduce_empty_if [OF d this(1)] show ?thesis
    by (simp add: IfStatement makePopExpressionStatement_def switches_ok_def switch_ok_def)
next
  case (SwitchStatement l e cs)
  have cs: "cases_ok cs" "\<forall>c \<in> set cs. exits_ok_case b c"
    using ok by (simp_all add: SwitchStatement switches_ok_def switch_ok_def)
  have sub: "set (remainingCases cs) \<subseteq> set cs" by (rule remainingCases_subset)
  from r consider (none) "remainingCases cs = []" "r = reduceNoCaseSwitch e"
    | (one) c where "remainingCases cs = [c]" "r = reduceSingleCaseSwitch l e c"
    by (auto simp: SwitchStatement Let_def split: list.splits)
  then show ?thesis
  proof cases
    case none
    with reduce_switch_none [OF d cs none(1)] show ?thesis
      by (simp add: SwitchStatement reduceNoCaseSwitch_def makePopExpressionStatement_def switches_ok_def switch_ok_def)
  next
    case one
    have c: "exits_ok_block b (case_body c)" "all_statements switch_ok (case_body c)"
      using sub cs(2) ok(2) by (auto simp: one(1) exits_case_body SwitchStatement switches_ok_def)
    with reduce_switch_single [OF d cs one(1)] show ?thesis
      by (simp add: SwitchStatement one(2) reduceSingleCaseSwitch_def makePopExpressionStatement_def Let_def
          switches_ok_def switch_ok_def split: option.splits)
  qed
qed (use r in auto)

lemma reduce_sound_None:
  assumes ok: "exits_ok b s" "switches_ok s" and r: "reduceStatement s = (s', None)"
  shows "stmts_eq d b [s] [s'] \<and> exits_ok b s' \<and> (\<forall>B \<in> sub_blocks s'. all_statements switch_ok B)"
proof (cases s)
  case (SwitchStatement l e cs)
  have cs: "cases_ok cs" "\<forall>c \<in> set cs. exits_ok_case b c"
    using ok by (simp_all add: SwitchStatement switches_ok_def switch_ok_def)
  have s': "s' = SwitchStatement l e (remainingCases cs)" "remainingCases cs \<noteq> []"
    using r by (auto simp: SwitchStatement Let_def split: list.splits)
  have "\<forall>B \<in> case_body ` set (remainingCases cs). all_statements switch_ok B"
    using ok(2) remainingCases_subset [of cs] by (auto simp: SwitchStatement switches_ok_def)
  with reduce_switch_cases [OF cs s'(2)] remaining_exits [OF cs(2)] show ?thesis by (simp add: SwitchStatement s'(1))
qed (use r ok stmt_eq_refl [OF ok(1)] in \<open>auto simp: switches_ok_def split: if_splits\<close>)

lemma cfs_sound:
  "svmDialect d \<Longrightarrow> cfs_simplify d ss c = Inr (ss', c') \<Longrightarrow> \<forall>s \<in> set ss. exits_ok b s \<and> switches_ok s \<Longrightarrow>
    stmts_eq d b ss ss' \<and> (\<forall>s \<in> set ss'. exits_ok b s) \<and> c' = addExits c ss'"
  "svmDialect d \<Longrightarrow> cfs_visit d s c = Inr (s', c') \<Longrightarrow> exits_ok b s \<Longrightarrow> \<forall>B \<in> sub_blocks s. all_statements switch_ok B \<Longrightarrow>
    stmts_eq d b [s] [s'] \<and> exits_ok b s' \<and> c' = addExits c [s']"
  "svmDialect d \<Longrightarrow> cfs_block d B c = Inr (B', c') \<Longrightarrow> exits_ok_block b B \<Longrightarrow> all_statements switch_ok B \<Longrightarrow>
    block_eq d b B B' \<and> exits_ok_block b B' \<and> c' = addExits c (statements B')"
  "svmDialect d \<Longrightarrow> cfs_cases d cs c = Inr (cs', c') \<Longrightarrow> \<forall>k \<in> set cs. exits_ok_case b k \<and> all_statements switch_ok (case_body k) \<Longrightarrow>
    list_all2 (case_eq d b) cs cs' \<and> (\<forall>k \<in> set cs'. exits_ok_case b k) \<and>
    c' = addExits c (map (BlockStatement \<circ> case_body) cs')"
proof (induction d ss c and d s c and d B c and d cs c arbitrary: b ss' c' and b s' c' and b B' c' and b cs' c'
    rule: cfs_simplify_cfs_visit_cfs_block_cfs_cases.induct)
  case (2 d s ss c)
  obtain s1 o1 where red: "reduceStatement s = (s1, o1)" by fastforce
  obtain r c1 rs where parts:
    "(case (s1, o1) of (s', Some r) \<Rightarrow> cfs_simplify d r c
        | (s', None) \<Rightarrow> bind_result (cfs_visit d s' c) (\<lambda>(s'', c). Inr ([s''], c))) = Inr (r, c1)"
    "cfs_simplify d ss c1 = Inr (rs, c')" "ss' = r @ rs"
    using 2(5) by (auto simp: red bind_result_Inr_iff)
  have s: "exits_ok b s" "switches_ok s" using 2(6) by simp_all
  have first: "stmts_eq d b [s] r \<and> (\<forall>t \<in> set r. exits_ok b t) \<and> c1 = addExits c r"
  proof (cases o1)
    case (Some r1)
    note sound = reduce_sound_Some [OF 2(4) s red [unfolded Some]]
    with 2(2) [OF red [symmetric] Some 2(4), of r c1 b] parts(1) Some show ?thesis by (auto intro: stmts_eq_trans)
  next
    case None
    then obtain s2 where s2: "cfs_visit d s1 c = Inr (s2, c1)" "r = [s2]" using parts(1) by (auto simp: bind_result_Inr_iff)
    note sound = reduce_sound_None [OF s red [unfolded None], of d]
    with 2(1) [OF red [symmetric] None 2(4) s2(1), of b] s2(2) show ?thesis by (auto intro: stmts_eq_trans)
  qed
  have "stmts_eq d b ss rs \<and> (\<forall>s \<in> set rs. exits_ok b s) \<and> c' = addExits c1 rs"
    by (rule 2(3) [of "(r, c1)" r c1, OF _ refl 2(4) parts(2)]) (use parts(1) 2(6) in \<open>simp_all add: red\<close>)
  with first show ?case by (auto simp: parts(3) intro: stmts_eq_Cons)
next
  case (6 d l pre e post body c)
  from 6(5) have empty: "statements pre = []" by (auto split: if_splits)
  then obtain lp where pre: "pre = Block lp []" by (cases pre) auto
  obtain post' c2 body' c3 where parts: "cfs_block d post (0, 0) = Inr (post', c2)" "cfs_block d body c2 = Inr (body', c3)"
    "s' = reduceLoop d c3 l pre e post' body'" "c' = c"
    using 6(5) by (auto simp: pre bind_result_Inr_iff)
  have ok: "exits_ok_block False post" "exits_ok_block True body" "all_statements switch_ok post" "all_statements switch_ok body"
    using 6(6,7) by auto
  have visit_pre: "cfs_block d pre (0, 0) = Inr (pre, (0, 0))" by (simp add: pre)
  have post: "block_eq d False post post' \<and> exits_ok_block False post' \<and> c2 = addExits (0, 0) (statements post')"
    by (rule 6(2) [OF _ visit_pre refl 6(4) parts(1)]) (use empty ok in simp_all)
  then have c2: "c2 = (0, 0)" using addExits_none by (simp add: exits_statements)
  have body: "block_eq d True body body' \<and> exits_ok_block True body' \<and> c3 = addExits c2 (statements body')"
    by (rule 6(3) [OF _ visit_pre refl parts(1) refl 6(4) parts(2)]) (use empty ok in simp_all)
  have "stmts_eq d b [ForLoop l pre e post body] [ForLoop l pre e post' body']"
    by (rule stmt_eq_for) (use post body in \<open>simp_all add: expr_eq_refl block_eq_refl pre\<close>)
  moreover have "exits_ok b (ForLoop l pre e post' body')" using post body by (simp add: pre)
  then have "stmts_eq d b [ForLoop l pre e post' body'] [s'] \<and> exits_ok b s' \<and> addExits c [s'] = c"
    using reduceLoop_sound [of b l lp e post' body' c3 s' d c] body by (simp add: pre parts(3) c2)
  ultimately show ?case using stmts_eq_trans by (auto simp: parts(4))
next
  case (5 d l x ps rs B c)
  then obtain B' where "cfs_block d B c = Inr (B', c')" "s' = FunctionStatement (FunctionDefinition l x ps rs B')"
    by (auto simp: bind_result_Inr_iff)
  moreover from 5(1) [OF 5(2) this(1), of False] 5(4,5)
  have "block_eq d False B B' \<and> exits_ok_block False B' \<and> c' = addExits c (statements B')" by simp
  ultimately show ?case
    using addExits_none [of "statements B'" c] exits_statements [of False B']
    by (simp add: same_signature_def stmt_eq_function fun_eqI)
next
  case (15 d l val B cs c)
  then obtain B' c1 cs1 where parts: "cfs_block d B c = Inr (B', c1)" "cfs_cases d cs c1 = Inr (cs1, c')" "cs' = Case l val B' # cs1"
    by (auto simp: bind_result_Inr_iff)
  from 15(1) [OF 15(3) parts(1), of b] 15(2) [OF parts(1) refl 15(3) parts(2), of b] 15(5)
  show ?case by (auto simp: parts(3) case_eq_def option.rel_refl addExits_Cons [of _ "BlockStatement B'"])
next
  case (13 d l ss c)
  then obtain ss' where "cfs_simplify d ss c = Inr (ss', c')" "B' = Block l ss'" by (auto simp: bind_result_Inr_iff)
  with 13(1) [OF 13(2) this(1), of b] 13(4,5) show ?case by (simp add: switches_ok_block block_eq_def del: all_statements.simps)
qed (auto simp: bind_result_Inr_iff stmts_eq_Nil block_eq_def switches_ok_block addExits_switch expr_eq_refl
  intro: stmt_eq_if stmt_eq_switch stmt_eq_block stmt_eq_exits stmt_eq_refl)

text \<open>The assertion that a loop has no initialiser is the only one that can fail.\<close>

definition pres_empty :: "Statement \<Rightarrow> bool" where
  "pres_empty s \<longleftrightarrow> emptyPre s \<and> (\<forall>B \<in> sub_blocks s. all_statements emptyPre B)"

lemma pres_empty_block: "all_statements emptyPre B \<longleftrightarrow> (\<forall>s \<in> set (statements B). pres_empty s)"
  by (cases B) (simp add: pres_empty_def)

lemma reduce_pres:
  assumes "pres_empty s"
  shows "reduceStatement s = (s', Some r) \<Longrightarrow> \<forall>t \<in> set r. pres_empty t"
    "reduceStatement s = (s', None) \<Longrightarrow> pres_empty s'"
proof -
  have cs: "\<forall>c \<in> set (remainingCases cs). all_statements emptyPre (case_body c)" if "s = SwitchStatement l e cs" for l e cs
    using assms remainingCases_subset [of cs] by (auto simp: that pres_empty_def)
  show "reduceStatement s = (s', Some r) \<Longrightarrow> \<forall>t \<in> set r. pres_empty t"
  proof (cases s)
    case (SwitchStatement l e k)
    then show "reduceStatement s = (s', Some r) \<Longrightarrow> \<forall>t \<in> set r. pres_empty t" using cs [OF SwitchStatement]
      by (cases "remainingCases k") (auto simp: Let_def reduceNoCaseSwitch_def reduceSingleCaseSwitch_def
        makePopExpressionStatement_def pres_empty_def emptyPre_def split: list.splits option.splits)
  qed (auto simp: makePopExpressionStatement_def pres_empty_def emptyPre_def split: if_splits)
  show "reduceStatement s = (s', None) \<Longrightarrow> pres_empty s'"
  proof (cases s)
    case (SwitchStatement l e k)
    then show "reduceStatement s = (s', None) \<Longrightarrow> pres_empty s'" using cs [OF SwitchStatement]
      by (auto simp: Let_def pres_empty_def emptyPre_def split: list.splits)
  qed (use assms in \<open>auto split: if_splits\<close>)
qed

lemma cfs_total:
  "\<forall>s \<in> set ss. pres_empty s \<Longrightarrow> \<exists>r. cfs_simplify d ss c = Inr r"
  "pres_empty s \<Longrightarrow> \<exists>r. cfs_visit d s c = Inr r"
  "all_statements emptyPre B \<Longrightarrow> \<exists>r. cfs_block d B c = Inr r"
  "\<forall>k \<in> set cs. all_statements emptyPre (case_body k) \<Longrightarrow> \<exists>r. cfs_cases d cs c = Inr r"
proof (induction d ss c and d s c and d B c and d cs c rule: cfs_simplify_cfs_visit_cfs_block_cfs_cases.induct)
  case (2 d s ss c)
  obtain s1 o1 where red: "reduceStatement s = (s1, o1)" by fastforce
  have s: "pres_empty s" using 2(4) by simp
  have "\<exists>x. (case reduceStatement s of (s', Some r) \<Rightarrow> cfs_simplify d r c
        | (s', None) \<Rightarrow> bind_result (cfs_visit d s' c) (\<lambda>(s'', c). Inr ([s''], c))) = Inr x"
  proof (cases o1)
    case None
    from 2(1) [OF red [symmetric] None] reduce_pres(2) [OF s red [unfolded None]] show ?thesis
      by (auto simp: red None bind_result_Inr_iff)
  next
    case (Some r)
    from 2(2) [OF red [symmetric] Some] reduce_pres(1) [OF s red [unfolded Some]] show ?thesis by (simp add: red Some)
  qed
  then obtain x where x: "(case reduceStatement s of (s', Some r) \<Rightarrow> cfs_simplify d r c
        | (s', None) \<Rightarrow> bind_result (cfs_visit d s' c) (\<lambda>(s'', c). Inr ([s''], c))) = Inr x" ..
  obtain r c1 where r: "x = (r, c1)" by (cases x)
  have "\<exists>y. cfs_simplify d ss c1 = Inr y" by (rule 2(3) [OF x]) (use 2(4) r in simp_all)
  then obtain rs c2 where "cfs_simplify d ss c1 = Inr (rs, c2)" by auto
  with x show ?case by (auto simp: r)
next
  case (6 d l pre e post body c)
  have ok: "statements pre = []" "all_statements emptyPre post" "all_statements emptyPre body"
    using 6(4) by (auto simp: pres_empty_def emptyPre_def)
  then obtain lp where pre: "pre = Block lp []" by (cases pre) auto
  have visit_pre: "cfs_block d pre (0, 0) = Inr (pre, (0, 0))" by (simp add: pre)
  from 6(2) [OF _ visit_pre refl] ok obtain post' c2 where post: "cfs_block d post (0, 0) = Inr (post', c2)" by fastforce
  from 6(3) [OF _ visit_pre refl post refl] ok obtain body' c3 where "cfs_block d body c2 = Inr (body', c3)" by fastforce
  with post show ?case by (simp add: pre)
next
  case (15 d l val B cs c)
  then obtain B' c1 where B: "cfs_block d B c = Inr (B', c1)" by fastforce
  from 15(2) [OF B refl] 15(3) obtain cs' c2 where "cfs_cases d cs c1 = Inr (cs', c2)" by fastforce
  with B show ?case by simp
next
  case (13 d l ss c)
  from 13(2) have "\<forall>s \<in> set ss. pres_empty s" unfolding pres_empty_block by simp
  from 13(1) [OF this] show ?case by fastforce
qed (fastforce simp: pres_empty_def)+

text \<open>
  C7: On an analysed program without loop initialisers, in a dialect of the machine, the control
  flow simplifier returns, and its result has the outcome of the program at any fuel: from the same
  machine state both end in the same state, with the same exception, or both run out of fuel.
\<close>

theorem controlFlowSimplifier_correct:
  assumes "svmDialect d" "all_statements emptyPre B" "all_statements switch_ok B" "exits_ok_block False B"
    "ys_maxSteps st = 0" "ys_loopState st = LoopDefault"
  shows "\<exists>B'. controlFlowSimplifier d B = Inr B' \<and> same_outcome (interpret_yul d n B st) (interpret_yul d n B' st)"
proof -
  obtain B' c where B': "cfs_block d B (0, 0) = Inr (B', c)" using cfs_total(3) [OF assms(2)] by fastforce
  with cfs_sound(3) [OF assms(1) B' assms(4,3)] interpret_equivalent [OF _ assms(5,6)] show ?thesis
    by (auto simp: controlFlowSimplifier_def)
qed

text \<open>A loop that ends with a \<open>break\<close> becomes a condition.\<close>

definition loopOnce :: Block where
  "loopOnce = (let l = emptyLocation;
       one = LiteralExpression \<lparr>li_location = l, li_kind = NumberLiteral, li_value = ''1'', li_type = ''''\<rparr>
     in Block l [ForLoop l (Block l []) one (Block l [])
          (Block l [ExpressionStatement l (FunctionCall l \<lparr>id_location = l, id_name = ''sstore''\<rparr> [one, one]), BreakStatement l])])"

theorem controlFlowSimplifier_correct_witness:
  "\<exists>B'. controlFlowSimplifier (SVMDialect StrictAsm False Petersburg) loopOnce = Inr B' \<and>
     (\<exists>l e B. statements B' = [IfStatement l e B]) \<and>
     same_outcome (interpret_yul (SVMDialect StrictAsm False Petersburg) 1 loopOnce initialYulState)
       (interpret_yul (SVMDialect StrictAsm False Petersburg) 1 B' initialYulState)"
  using controlFlowSimplifier_correct [of "SVMDialect StrictAsm False Petersburg" loopOnce initialYulState 1]
  by (auto simp: loopOnce_def Let_def svmDialect_def emptyPre_def switch_ok_def initialYulState_def controlFlowSimplifier_def
      reduceLoop_def controlFlowKind_def)

end
