(* ===== verification/Yul_Step_Limit.thy ===== *)
theory Yul_Step_Limit
  imports Yul_Interpreter
begin

text \<open>
  The interpreter with a limit of steps always comes to an end: every block counts as a step, every
  round of a loop runs a block and so does every call. The number of steps left is enough fuel.
\<close>

definition stepsLeft :: "YulState \<Rightarrow> nat" where
  "stepsLeft st = unat (ys_maxSteps st) - unat (ys_numSteps st)"

definition limited :: "YulState \<Rightarrow> bool" where
  "limited st \<longleftrightarrow> ys_numSteps st < ys_maxSteps st"

text \<open>A run that ends, with at most \<open>k\<close> steps left.\<close>

fun ends_with :: "nat \<Rightarrow> 'a outcome \<Rightarrow> bool" where
  "ends_with k NoFuel = False"
| "ends_with k (Raised e st) = True"
| "ends_with k (Done x st) = (limited st \<and> stepsLeft st \<le> k)"

text \<open>A step of the interpreter that ends if the state it starts in has fewer steps left than \<open>n\<close>.\<close>

definition ends_before :: "nat \<Rightarrow> (YulState \<Rightarrow> 'a outcome) \<Rightarrow> bool" where
  "ends_before n f \<longleftrightarrow> (\<forall>st. limited st \<longrightarrow> stepsLeft st < n \<longrightarrow> ends_with (stepsLeft st) (f st))"

lemma ends_with_mono: "ends_with k m \<Longrightarrow> k \<le> k' \<Longrightarrow> ends_with k' m"
  by (cases m) auto

lemma ends_withI: "ends_before n f \<Longrightarrow> limited st \<Longrightarrow> stepsLeft st < n \<Longrightarrow> stepsLeft st \<le> k \<Longrightarrow> ends_with k (f st)"
  unfolding ends_before_def using ends_with_mono by blast

lemma ends_with_bind:
  assumes "ends_with k m" "\<And>x st. m = Done x st \<Longrightarrow> limited st \<Longrightarrow> stepsLeft st \<le> k \<Longrightarrow> ends_with k' (f x st)"
  shows "ends_with k' (and_then m f)"
  using assms by (cases m) simp_all

lemma ends_before_bind:
  "ends_before n f \<Longrightarrow> (\<And>x. ends_before n (g x)) \<Longrightarrow> ends_before n (\<lambda>st. and_then (f st) g)"
  by (subst ends_before_def, intro allI impI, rule ends_with_bind) (blast intro: ends_withI le_less_trans)+

lemma limited_updates [simp]:
  "limited (st\<lparr>ys_machine := ms\<rparr>) = limited st" "limited (withLoopState l st) = limited st"
  "stepsLeft (st\<lparr>ys_machine := ms\<rparr>) = stepsLeft st" "stepsLeft (withLoopState l st) = stepsLeft st"
  by (simp_all add: limited_def stepsLeft_def)

lemma ends_before_simps [simp]:
  "ends_before n (Done x)" "ends_before n (Raised e)"
  by (simp_all add: ends_before_def)

lemma countStep_left:
  assumes "countStep st = Done u st'" "limited st"
  shows "limited st' \<and> stepsLeft st' < stepsLeft st"
proof -
  have st': "st' = st\<lparr>ys_numSteps := ys_numSteps st + 1\<rparr>" "ys_numSteps st + 1 < ys_maxSteps st"
    using assms by (auto simp: countStep_def Let_def limited_def word_neq_0_conv [symmetric] not_le split: if_splits)
  have "unat (ys_numSteps st + 1) = unat (ys_numSteps st) + 1"
  proof -
    have "unat (ys_numSteps st) < unat (ys_maxSteps st)" using assms(2) by (simp add: limited_def word_less_nat_alt)
    moreover have "unat (ys_maxSteps st) < 2 ^ 64" by (rule order.strict_trans2 [OF unsigned_less]) simp
    ultimately have "unat (ys_numSteps st) + 1 < 2 ^ 64" by simp
    then show ?thesis by (simp add: unat_word_ariths)
  qed
  with st' assms(2) show ?thesis by (simp add: limited_def stepsLeft_def word_less_nat_alt)
qed

section \<open>Expressions\<close>

lemma ends_before_values:
  "ends_before n (\<lambda>st. fromSvm (f st) st)" "ends_before n (the_value vs)" "ends_before n (evalLiteral l)"
  "ends_before n (evalBuiltin b vs)"
proof -
  have svm: "ends_with (stepsLeft st) (fromSvm r st)" if "limited st" for r st
    using that by (auto simp: fromSvm_def split: prod.splits sum.splits)
  show "ends_before n (\<lambda>st. fromSvm (f st) st)" using svm by (simp add: ends_before_def)
  show "ends_before n (the_value vs)" "ends_before n (evalLiteral l)"
    by (auto simp: ends_before_def the_value_def evalLiteral_def split: option.splits)
  show "ends_before n (evalBuiltin b vs)"
    using svm by (auto simp: ends_before_def evalBuiltin_def Let_def split: option.splits)
qed

definition calls_end :: "nat \<Rightarrow> caller \<Rightarrow> bool" where
  "calls_end n call \<longleftrightarrow> (\<forall>f vals funs. ends_before n (call f vals funs))"

lemma expressions_end':
  "calls_end n call \<Longrightarrow> limited st \<Longrightarrow> stepsLeft st < n \<Longrightarrow> ends_with (stepsLeft st) (evalExpr d call env e st)"
  "calls_end n call \<Longrightarrow> limited st \<Longrightarrow> stepsLeft st < n \<Longrightarrow> ends_with (stepsLeft st) (evalArgs d call env es st)"
proof (induction d call env e st and d call env es st rule: evalExpr_evalArgs.induct)
  case (1 d call env l st)
  then show ?case using ends_before_values(3) by (simp add: ends_before_def)
next
  case (3 d call env l i args st)
  show ?case unfolding evalExpr.simps
    by (rule ends_with_bind [OF 3(1) [OF 3(2-4)]], rule ends_with_bind [OF ends_withI [OF ends_before_values(1)]])
      (use 3 in auto)
next
  case (4 d call env l f args st)
  show ?case unfolding evalExpr.simps
  proof (rule ends_with_bind [OF 4(1) [OF 4(2-4)]])
    fix vals s assume s: "limited s" "stepsLeft s \<le> stepsLeft st"
    then have "stepsLeft s < n" using 4(4) by simp
    note step = ends_with_bind [OF ends_withI [OF ends_before_values(4) s(1) this s(2)]]
    show "ends_with (stepsLeft st)
       (case builtin d (id_name f) of
          None \<Rightarrow> (case e_functions env (id_name f) of None \<Rightarrow> Raised PolAssertion s
            | Some fun \<Rightarrow> if length vals \<noteq> length (fd_parameters fun) then Raised PolAssertion s
                else call fun vals (e_functions env) s)
        | Some b \<Rightarrow> and_then (evalBuiltin b vals s) (\<lambda>v. Done [v]))"
      using 4(2) s \<open>stepsLeft s < n\<close>
      by (auto simp: calls_end_def intro!: step intro: ends_withI split: option.splits)
  qed
next
  case (6 d call env e es st)
  show ?case unfolding evalArgs.simps
  proof (rule ends_with_bind [OF 6(1) [OF 6(3-5)]])
    fix vs s assume s: "evalArgs d call env es st = Done vs s" "limited s" "stepsLeft s \<le> stepsLeft st"
    then have l: "stepsLeft s < n" using 6(5) by simp
    show "ends_with (stepsLeft st)
        (and_then (evalExpr d call env e s) (\<lambda>r st. and_then (the_value r st) (\<lambda>v. Done (v # vs))))"
    proof (rule ends_with_bind [OF 6(2) [OF s(1) 6(3) s(2) l]])
      fix r t assume "limited t" "stepsLeft t \<le> stepsLeft s"
      then show "ends_with (stepsLeft st) (and_then (the_value r t) (\<lambda>v. Done (v # vs)))"
        using s(3) by (auto simp: the_value_def)
    qed
  qed
qed (auto split: option.splits)

lemma expression_ends: "calls_end n call \<Longrightarrow> ends_before n (evalExpr d call env e)"
  by (simp add: ends_before_def expressions_end')

lemma evaluate_ends: "calls_end n call \<Longrightarrow> ends_before n (evaluate d call env e)"
  unfolding evaluate_def [abs_def] by (intro ends_before_bind expression_ends ends_before_values)

section \<open>Statements\<close>

text \<open>A step that starts with at most \<open>n\<close> steps left and uses at least one of them.\<close>

definition takes_step :: "nat \<Rightarrow> (YulState \<Rightarrow> 'a outcome) \<Rightarrow> bool" where
  "takes_step n f \<longleftrightarrow> (\<forall>st. limited st \<longrightarrow> stepsLeft st \<le> n \<longrightarrow> ends_with (stepsLeft st - 1) (f st))"

lemma stepsLeft_pos: "limited st \<Longrightarrow> 0 < stepsLeft st"
  by (simp add: limited_def stepsLeft_def word_less_nat_alt)

lemma takes_stepD: "takes_step n f \<Longrightarrow> limited st \<Longrightarrow> stepsLeft st \<le> n \<Longrightarrow> ends_with (stepsLeft st - 1) (f st)"
  by (simp add: takes_step_def)

lemma takes_step_ends: "takes_step n f \<Longrightarrow> ends_before (Suc n) f"
  unfolding ends_before_def by (intro allI impI, rule ends_with_mono [OF takes_stepD]) (simp_all only: less_Suc_eq_le diff_le_self)

lemma ends_before_mono: "ends_before n f \<Longrightarrow> k \<le> n \<Longrightarrow> ends_before k f"
  by (simp add: ends_before_def)

lemma declare_ends: "ends_before n (declareVariables env xs)" "ends_before n (assignVariables env ys)"
proof -
  have "ends_with (stepsLeft st) (declareVariables env xs st)" if "limited st" for st
    using that by (induction env xs st rule: declareVariables.induct) auto
  moreover have "ends_with (stepsLeft st) (assignVariables env ys st)" if "limited st" for st
    using that by (induction env ys st rule: assignVariables.induct) auto
  ultimately show "ends_before n (declareVariables env xs)" "ends_before n (assignVariables env ys)"
    by (simp_all add: ends_before_def)
qed

lemma closeScope_ends: "ends_before n (closeScope env)"
  by (auto simp: ends_before_def closeScope_def split: list.splits)

lemma loopRound_ends:
  assumes "\<And>env. ends_before n (c env)" "\<And>env. takes_step n (body env)" "\<And>env. takes_step n (post env)"
    and st: "limited st" "stepsLeft st < n"
    and again: "\<And>env s. limited s \<Longrightarrow> Suc (stepsLeft s) < stepsLeft st \<Longrightarrow> ends_with (stepsLeft s) (again env s)"
  shows "ends_with (stepsLeft st) (loopRound c body post again env st)"
  unfolding loopRound_def
proof (rule ends_with_bind [OF ends_withI [OF assms(1) st order.refl]])
  fix v s assume s: "limited s" "stepsLeft s \<le> stepsLeft st"
  let ?s = "withLoopState LoopDefault s"
  show "ends_with (stepsLeft st) (if v = 0 then Done env s
      else and_then (body env ?s) (\<lambda>env st. if ys_loopState st = LoopBreak then Done env st
        else and_then (post env (withLoopState LoopDefault st)) again))"
  proof (cases "v = 0")
    case False
    have "ends_with (stepsLeft ?s - 1) (body env ?s)" using s st by (intro takes_stepD [OF assms(2)]) simp_all
    then have "ends_with (stepsLeft st) (and_then (body env ?s) (\<lambda>env st. if ys_loopState st = LoopBreak then Done env st
        else and_then (post env (withLoopState LoopDefault st)) again))"
    proof (rule ends_with_bind)
      fix e t assume t: "limited t" "stepsLeft t \<le> stepsLeft ?s - 1"
      let ?t = "withLoopState LoopDefault t"
      show "ends_with (stepsLeft st) (if ys_loopState t = LoopBreak then Done e t else and_then (post e ?t) again)"
      proof (cases "ys_loopState t = LoopBreak")
        case False
        have "ends_with (stepsLeft ?t - 1) (post e ?t)" using s t st by (intro takes_stepD [OF assms(3)]) simp_all
        then have "ends_with (stepsLeft st) (and_then (post e ?t) again)"
        proof (rule ends_with_bind)
          fix e' u assume u: "limited u" "stepsLeft u \<le> stepsLeft ?t - 1"
          then have "Suc (stepsLeft u) < stepsLeft st"
            using s t stepsLeft_pos [OF u(1)] stepsLeft_pos [OF t(1)] stepsLeft_pos [OF s(1)] by simp
          then show "ends_with (stepsLeft st) (again e' u)" by (intro ends_with_mono [OF again [OF u(1)]]) simp_all
        qed
        with False show ?thesis by simp
      qed (use s t in simp)
    qed
    with False show ?thesis by simp
  qed (use s in simp)
qed

lemma whileLoop_ends:
  assumes "\<And>env. ends_before n (c env)" "\<And>env. takes_step n (body env)" "\<And>env. takes_step n (post env)"
  shows "limited st \<Longrightarrow> stepsLeft st < n \<Longrightarrow> stepsLeft st \<le> Suc k \<Longrightarrow> ends_with (stepsLeft st) (whileLoop k c body post env st)"
proof (induction k arbitrary: env st)
  case 0
  then show ?case unfolding whileLoop.simps by (intro loopRound_ends [OF assms]) simp_all
next
  case (Suc k)
  show ?case unfolding whileLoop.simps by (rule loopRound_ends [OF assms Suc.prems(1,2)]) (use Suc in simp)
qed

lemma statements_end:
  "calls_end n call \<Longrightarrow> n \<le> Suc (Suc k) \<Longrightarrow> limited st \<Longrightarrow> stepsLeft st < n \<Longrightarrow>
    ends_with (stepsLeft st) (execStatement d call k env s st)"
  "calls_end n call \<Longrightarrow> n \<le> Suc (Suc k) \<Longrightarrow> limited st \<Longrightarrow> stepsLeft st < n \<Longrightarrow>
    ends_with (stepsLeft st) (execStatements d call k env ss st)"
  "calls_end n call \<Longrightarrow> n \<le> Suc (Suc k) \<Longrightarrow> limited st \<Longrightarrow> stepsLeft st < n \<Longrightarrow>
    ends_with (stepsLeft st) (visitStatements d call k env ss st)"
  "calls_end n call \<Longrightarrow> n \<le> Suc (Suc k) \<Longrightarrow> limited st \<Longrightarrow> stepsLeft st \<le> n \<Longrightarrow>
    ends_with (stepsLeft st - 1) (execBlock d call k env B st)"
  "calls_end n call \<Longrightarrow> n \<le> Suc (Suc k) \<Longrightarrow> limited st \<Longrightarrow> stepsLeft st < n \<Longrightarrow>
    ends_with (stepsLeft st) (execCases d call k env v cs st)"
proof (induction d call k env s st and d call k env ss st and d call k env ss st and d call k env B st and d call k env v cs st
    rule: execStatement_execStatements_visitStatements_execBlock_execCases.induct)
  case (7 d call k env l lp pre c post body st)
  show ?case unfolding execStatement.simps
  proof (rule ends_with_bind [OF 7(1) [OF 7(4-7)]])
    fix e s assume visit: "visitStatements d call k (openScope env) pre st = Done e s"
      and s: "limited s" "stepsLeft s \<le> stepsLeft st"
    have body: "takes_step n (execBlock d call k e body)" "takes_step n (execBlock d call k e post)" for e
      using 7(2,3) [OF visit 7(4,5)] by (simp_all add: takes_step_def)
    have "ends_with (stepsLeft s) (whileLoop k (\<lambda>env. evaluate d call env c) (\<lambda>env. execBlock d call k env body)
        (\<lambda>env. execBlock d call k env post) e s)"
      by (rule whileLoop_ends [OF evaluate_ends [OF 7(4)] body s(1)]) (use s(2) 7(5,7) in simp_all)
    then show "ends_with (stepsLeft st) (and_then (whileLoop k (\<lambda>env. evaluate d call env c) (\<lambda>env. execBlock d call k env body)
        (\<lambda>env. execBlock d call k env post) e s) (\<lambda>env st. closeScope env (withLoopState LoopDefault st)))"
      by (rule ends_with_bind) (rule ends_withI [OF closeScope_ends, of _ n], use s 7(7) in simp_all)
  qed
next
  case (12 d call k env s ss st)
  show ?case unfolding execStatements.simps
    by (rule ends_with_bind [OF 12(1) [OF 12(3-6)]]) (use 12 in \<open>auto intro: ends_with_mono\<close>)
next
  case (14 d call k env s ss st)
  show ?case unfolding visitStatements.simps
    by (rule ends_with_bind [OF 14(1) [OF 14(3-6)]]) (use 14 in \<open>auto intro: ends_with_mono\<close>)
next
  case (15 d call k env l ss st)
  show ?case
  proof (cases "countStep st")
    case (Done u s)
    note s = countStep_left [OF Done 15(4)]
    have "ends_with (stepsLeft s) (execStatements d call k (registerFunctions (openScope env) ss) ss s)"
      using 15(1) [OF Done 15(2,3)] s 15(5) by simp
    then have "ends_with (stepsLeft s) (and_then (execStatements d call k (registerFunctions (openScope env) ss) ss s) closeScope)"
      by (rule ends_with_bind) (rule ends_withI [OF closeScope_ends, of _ n], use s 15(5) in simp_all)
    with s show ?thesis by (auto simp: Done intro: ends_with_mono)
  qed (auto simp: countStep_def Let_def split: if_splits)
next
  case (1 d call k env l e st)
  show ?case unfolding execStatement.simps
    by (rule ends_with_bind [OF expressions_end'(1) [OF 1(1,3,4)]]) simp
next
  case (2 d call k env l xs e st)
  show ?case unfolding execStatement.simps
    by (rule ends_with_bind [OF expressions_end'(1) [OF 2(1,3,4)]]) (use 2(4) in \<open>auto intro: ends_withI [OF declare_ends(2), of _ n]\<close>)
next
  case (3 d call k env l xs val st)
  have "ends_with (stepsLeft st) (case val of None \<Rightarrow> Done (replicate (length xs) 0) st | Some e \<Rightarrow> evalExpr d call env e st)"
    using expressions_end'(1) [OF 3(1,3,4)] 3(3) by (auto split: option.splits)
  then show ?case unfolding execStatement.simps
    by (rule ends_with_bind) (use 3(4) in \<open>auto intro: ends_withI [OF declare_ends(1), of _ n]\<close>)
next
  case (5 d call k env l c B st)
  show ?case unfolding execStatement.simps
    by (rule ends_with_bind [OF ends_withI [OF evaluate_ends [OF 5(2)] 5(4,5) order.refl]])
      (use 5 in \<open>auto intro: ends_with_mono\<close>)
next
  case (6 d call k env l e cs st)
  show ?case unfolding execStatement.simps
    by (rule ends_with_bind [OF ends_withI [OF evaluate_ends [OF 6(2)] 6(4,5) order.refl]])
      (use 6 in \<open>auto intro: ends_with_mono\<close>)
next
  case (17 d call k env v l val B cs st)
  show ?case
  proof (cases val)
    case None
    with 17 show ?thesis by (auto intro: ends_with_mono)
  next
    case (Some x)
    have "ends_with (stepsLeft st) (and_then (evalLiteral x st) the_value)"
      by (rule ends_withI [OF ends_before_bind [OF ends_before_values(3,2)] 17(6) 17(7) order.refl])
    then have "ends_with (stepsLeft st) (and_then (and_then (evalLiteral x st) the_value) (\<lambda>w st.
        if w = v then execBlock d call k env B st else execCases d call k env v cs st))"
    proof (rule ends_with_bind)
      fix w s assume run: "and_then (evalLiteral x st) the_value = Done w s" and s: "limited s" "stepsLeft s \<le> stepsLeft st"
      show "ends_with (stepsLeft st) (if w = v then execBlock d call k env B s else execCases d call k env v cs s)"
        using ends_with_mono [OF 17(2) [OF Some run _ 17(4,5) s(1)], of "stepsLeft st"]
          ends_with_mono [OF 17(3) [OF Some run _ 17(4,5) s(1)], of "stepsLeft st"] s(2) 17(7) by simp
    qed
    with Some show ?thesis by simp
  qed
qed (auto intro: ends_with_mono)

section \<open>Calls and programs\<close>

lemma calls_do_end: "calls_end n (callFunction d n)"
proof (induction n)
  case 0
  then show ?case by (simp add: calls_end_def ends_before_def)
next
  case (Suc n)
  have "ends_before (Suc n) (callFunction d (Suc n) f vals funs)" for f vals funs
  proof -
    have "ends_with (stepsLeft st) (returnValues env rs st)" if "limited st" for env rs st
      using that by (induction env rs st rule: returnValues.induct) (auto intro: ends_with_bind split: option.splits)
    then have returns: "ends_before (Suc n) (returnValues env rs)" for env rs by (simp add: ends_before_def)
    have "takes_step n (execBlock d (callFunction d n) n (callEnv f vals funs) (fd_body f))"
      using statements_end(4) [OF Suc] by (simp add: takes_step_def)
    from ends_before_bind [OF takes_step_ends [OF this], of "\<lambda>env. returnValues env (fd_returnVariables f)"] returns
    show ?thesis by (simp add: ends_before_def)
  qed
  then show ?case by (simp only: calls_end_def simp_thms)
qed

text \<open>
  C6: With a limit of steps the interpreter comes to an end on every program, whatever its loops and
  recursions are: within fuel for the steps that are left it returns, below the limit, or raises an
  exception.
\<close>

theorem step_limit_ends:
  assumes "ys_numSteps st < ys_maxSteps st" "unat (ys_maxSteps st) - unat (ys_numSteps st) \<le> n"
  shows "(\<exists>e st'. interpret_yul d n B st = Raised e st') \<or>
    (\<exists>env st'. interpret_yul d n B st = Done env st' \<and> ys_numSteps st' < ys_maxSteps st')"
proof -
  have "ends_with (stepsLeft st - 1) (interpret_yul d n B st)"
    unfolding interpret_yul_def
    by (rule statements_end(4) [OF calls_do_end]) (use assms in \<open>simp_all add: limited_def stepsLeft_def\<close>)
  then show ?thesis by (cases "interpret_yul d n B st") (simp_all add: limited_def)
qed

text \<open>A loop without end, with a limit of three steps.\<close>

definition endlessLoop :: Block where
  "endlessLoop = (let l = emptyLocation
     in Block l [ForLoop l (Block l []) (LiteralExpression \<lparr>li_location = l, li_kind = BooleanLiteral, li_value = ''true'', li_type = []\<rparr>)
          (Block l []) (Block l [])])"

theorem step_limit_ends_witness:
  "(\<exists>e st'. interpret_yul (PlainDialect StrictAsm) 3 endlessLoop (initialYulState\<lparr>ys_maxSteps := 3\<rparr>) = Raised e st') \<or>
   (\<exists>env st'. interpret_yul (PlainDialect StrictAsm) 3 endlessLoop (initialYulState\<lparr>ys_maxSteps := 3\<rparr>) = Done env st' \<and>
     ys_numSteps st' < ys_maxSteps st')"
  by (rule step_limit_ends) (simp_all add: initialYulState_def)

end
