(* ===== verification/Yul_Analysis.thy ===== *)
theory Yul_Analysis
  imports Yul_Syntax
begin

text \<open>
  The analysis of Yul and strict assembly: libyul/AsmScope.cpp, AsmScopeFiller.cpp and
  AsmAnalysis.cpp, as \<open>analyzeStrictAssertCorrect\<close> runs it, without a resolver of external
  identifiers and with an error for the features of loose assembly. The recorded stack heights, which
  only the code generation reads, are left out.
\<close>

section \<open>Scopes\<close>

datatype ScopeIdentifier =
    ScopeVariable YulType
  | ScopeFunction "YulType list" "YulType list"

text \<open>
  A scope with the variables of it that are active. The code keeps the active variables of all scopes in
  one set of pointers to identifiers.
\<close>

record Scope =
  sc_functionScope :: bool
  sc_identifiers :: "(YulString \<times> ScopeIdentifier) list"
  sc_active :: "YulString set"

text \<open>A scope and the scopes around it, the innermost first.\<close>

type_synonym scopes = "Scope list"

definition emptyScope :: "bool \<Rightarrow> Scope" where
  "emptyScope f = \<lparr>sc_functionScope = f, sc_identifiers = [], sc_active = {}\<rparr>"

definition scope_exists :: "YulString \<Rightarrow> scopes \<Rightarrow> bool" where
  "scope_exists x scopes \<longleftrightarrow> (\<exists>s \<in> set scopes. x \<in> fst ` set (sc_identifiers s))"

fun isScopeVariable :: "ScopeIdentifier \<Rightarrow> bool" where
  "isScopeVariable (ScopeVariable t) = True"
| "isScopeVariable _ = False"

text \<open>The identifier found and, as it is a pointer, whether it is an active variable.\<close>

fun scope_lookup :: "bool \<Rightarrow> YulString \<Rightarrow> scopes \<Rightarrow> (ScopeIdentifier \<times> bool) option" where
  "scope_lookup crossed x [] = None"
| "scope_lookup crossed x (s # scopes) =
     (case map_of (sc_identifiers s) x of
        Some i \<Rightarrow> if crossed \<and> isScopeVariable i then None else Some (i, x \<in> sc_active s)
      | None \<Rightarrow> scope_lookup (crossed \<or> sc_functionScope s) x scopes)"

definition numberOfVariables :: "Scope \<Rightarrow> nat" where
  "numberOfVariables s = length (filter (\<lambda>(x, i). isScopeVariable i) (sc_identifiers s))"

fun registerIdentifier :: "YulString \<Rightarrow> ScopeIdentifier \<Rightarrow> scopes \<Rightarrow> bool \<times> scopes" where
  "registerIdentifier x i [] = (False, [])"
| "registerIdentifier x i (s # scopes) =
     (if scope_exists x (s # scopes) then (False, s # scopes)
      else (True, s\<lparr>sc_identifiers := (x, i) # sc_identifiers s\<rparr> # scopes))"

definition registerVariable :: "TypedName \<Rightarrow> scopes \<Rightarrow> bool \<times> scopes" where
  "registerVariable x scopes = registerIdentifier (tn_name x) (ScopeVariable (tn_type x)) scopes"

definition registerFunction :: "FunctionDefinition \<Rightarrow> scopes \<Rightarrow> bool \<times> scopes" where
  "registerFunction f scopes =
     registerIdentifier (fd_name f) (ScopeFunction (map tn_type (fd_parameters f)) (map tn_type (fd_returnVariables f))) scopes"

section \<open>The scope filler\<close>

text \<open>The variables of a declaration up to the first whose name is taken, and all variables of a function.\<close>

fun registerVariables :: "TypedName list \<Rightarrow> scopes \<Rightarrow> bool \<times> scopes" where
  "registerVariables [] scopes = (True, scopes)"
| "registerVariables (x # xs) scopes =
     (case registerVariable x scopes of (ok, scopes) \<Rightarrow> if ok then registerVariables xs scopes else (False, scopes))"

fun registerEach :: "TypedName list \<Rightarrow> scopes \<Rightarrow> bool \<times> scopes" where
  "registerEach [] scopes = (True, scopes)"
| "registerEach (x # xs) scopes =
     (case registerVariable x scopes of (ok, scopes) \<Rightarrow>
        case registerEach xs scopes of (ok', scopes) \<Rightarrow> (ok \<and> ok', scopes))"

fun fill_functions :: "Statement list \<Rightarrow> scopes \<Rightarrow> bool \<times> scopes" where
  "fill_functions [] scopes = (True, scopes)"
| "fill_functions (FunctionStatement f # ss) scopes =
     (case registerFunction f scopes of (ok, scopes) \<Rightarrow>
        case fill_functions ss scopes of (ok', scopes) \<Rightarrow> (ok \<and> ok', scopes))"
| "fill_functions (_ # ss) scopes = fill_functions ss scopes"

text \<open>A statement gives the scopes after it, a block gives its own scope.\<close>

fun
  fill_statement :: "scopes \<Rightarrow> Statement \<Rightarrow> bool \<times> scopes" and
  fill_statements :: "scopes \<Rightarrow> Statement list \<Rightarrow> bool \<times> scopes" and
  fill_block :: "scopes \<Rightarrow> Block \<Rightarrow> bool \<times> Scope" and
  fill_cases :: "scopes \<Rightarrow> Case list \<Rightarrow> bool" where
  "fill_statement scopes (VariableDeclaration l xs e) = registerVariables xs scopes"
| "fill_statement scopes (FunctionStatement (FunctionDefinition l x ps rs B)) =
     (case registerEach (ps @ rs) (emptyScope True # scopes) of (ok, inner) \<Rightarrow>
        (ok \<and> fst (fill_block inner B), scopes))"
| "fill_statement scopes (IfStatement l e B) = (fst (fill_block scopes B), scopes)"
| "fill_statement scopes (SwitchStatement l e cs) = (fill_cases scopes cs, scopes)"
| "fill_statement scopes (ForLoop l pre e post body) =
     (case fill_block scopes pre of (ok, s) \<Rightarrow>
        (ok \<and> fst (fill_block (s # scopes) body) \<and> fst (fill_block (s # scopes) post), scopes))"
| "fill_statement scopes (BlockStatement B) = (fst (fill_block scopes B), scopes)"
| "fill_statement scopes _ = (True, scopes)"
| "fill_statements scopes [] = (True, scopes)"
| "fill_statements scopes (s # ss) =
     (case fill_statement scopes s of (ok, scopes) \<Rightarrow>
        case fill_statements scopes ss of (ok', scopes) \<Rightarrow> (ok \<and> ok', scopes))"
| "fill_block scopes (Block l ss) =
     (case fill_functions ss (emptyScope False # scopes) of (ok, scopes) \<Rightarrow>
        case fill_statements scopes ss of (ok', scopes) \<Rightarrow> (ok \<and> ok', hd scopes))"
| "fill_cases scopes [] = True"
| "fill_cases scopes (Case l val B # cs) = (let ok = fst (fill_block scopes B) in fill_cases scopes cs \<and> ok)"

text \<open>
  The scope that the filler has stored for a block, and for the parameters and return variables of a
  function. The analysis only goes on when every name could be registered, and then they are the ones
  registered without a scope around.
\<close>

definition blockScope :: "Block \<Rightarrow> Scope" where
  "blockScope B = snd (fill_block [] B)"

definition functionScope :: "TypedName list \<Rightarrow> Scope" where
  "functionScope xs = hd (snd (registerEach xs [emptyScope True]))"

section \<open>The analyser\<close>

record AnalyzerState =
  an_height :: int
  an_errors :: bool
  an_scopes :: scopes

text \<open>Failing assertions are exceptions; otherwise there is the success of the step and the new state.\<close>

type_synonym analysis = "(bool \<times> AnalyzerState) result"

definition reportError :: "AnalyzerState \<Rightarrow> AnalyzerState" where
  "reportError st = st\<lparr>an_errors := True\<rparr>"

definition adjustHeight :: "int \<Rightarrow> AnalyzerState \<Rightarrow> AnalyzerState" where
  "adjustHeight k st = st\<lparr>an_height := an_height st + k\<rparr>"

definition builtinTypes :: "YulType list" where
  "builtinTypes = [''bool'', ''u8'', ''s8'', ''u32'', ''s32'', ''u64'', ''s64'', ''u128'', ''s128'', ''u256'', ''s256'']"

fun flavour :: "Dialect \<Rightarrow> AsmFlavour" where
  "flavour (PlainDialect f) = f"
| "flavour (SVMDialect f access version) = f"

fun dialectVersion :: "Dialect \<Rightarrow> SVMVersion" where
  "dialectVersion (PlainDialect f) = Petersburg"
| "dialectVersion (SVMDialect f access version) = version"

definition expectValidType :: "Dialect \<Rightarrow> YulType \<Rightarrow> AnalyzerState \<Rightarrow> AnalyzerState" where
  "expectValidType d t st = (if flavour d = YulAsm \<and> t \<notin> set builtinTypes then reportError st else st)"

text \<open>The instructions the version does not have, and jumps; all of them are reported.\<close>

definition instructionError :: "SVMVersion \<Rightarrow> instruction \<Rightarrow> bool" where
  "instructionError v i \<longleftrightarrow>
     (i = iRETURNDATACOPY \<or> i = iRETURNDATASIZE) \<and> \<not> supportsReturndata v \<or>
     i = iSTATICCALL \<and> \<not> hasStaticCall v \<or>
     (i = iSHL \<or> i = iSHR \<or> i = iSAR) \<and> \<not> hasBitwiseShifting v \<or>
     i = iCREATE2 \<and> \<not> hasCreate2 v \<or>
     i = iEXTCODEHASH \<and> \<not> hasExtCodeHash v \<or>
     i = iJUMP \<or> i = iJUMPI \<or> i = iJUMPDEST"

definition warnOnInstructions :: "Dialect \<Rightarrow> instruction \<Rightarrow> AnalyzerState \<Rightarrow> AnalyzerState result" where
  "warnOnInstructions d i st =
     (let v = dialectVersion d
      in assertThrow (supportsReturndata v = hasStaticCall v) InternalCompilerError
        (assertThrow (hasBitwiseShifting v = hasCreate2 v) InternalCompilerError
        (assertThrow (flavour d \<noteq> YulAsm) InternalCompilerError
        (Inr (if instructionError v i then reportError st else st)))))"

text \<open>The number of a literal; the scanner allows no leading zero, which would make it octal.\<close>

definition bigint_of_string :: "string \<Rightarrow> nat" where
  "bigint_of_string str = (if take 2 str = ''0x'' then digitsValue 16 (drop 2 str) else digitsValue 10 str)"

definition analyzeLiteral :: "Dialect \<Rightarrow> Literal \<Rightarrow> AnalyzerState \<Rightarrow> analysis" where
  "analyzeLiteral d l st =
     (let st = adjustHeight 1 (expectValidType d (li_type l) st)
      in if li_kind l = StringLiteral \<and> 32 < length (li_value l) then Inr (False, reportError st)
         else if li_kind l = NumberLiteral \<and> 2 ^ 256 - 1 < bigint_of_string (li_value l) then Inr (False, reportError st)
         else if li_kind l = BooleanLiteral then
           assertThrow (flavour d = YulAsm) InternalCompilerError
             (assertThrow (li_value l = ''true'' \<or> li_value l = ''false'') InternalCompilerError (Inr (True, st)))
         else Inr (True, st))"

definition analyzeIdentifier :: "Identifier \<Rightarrow> AnalyzerState \<Rightarrow> analysis" where
  "analyzeIdentifier i st =
     assertThrow (id_name i \<noteq> []) InternalCompilerError
       (Inr (case scope_lookup False (id_name i) (an_scopes st) of
               Some (ScopeVariable t, active) \<Rightarrow>
                 (active, adjustHeight 1 (if active then st else reportError st))
             | Some (ScopeFunction ps rs, active) \<Rightarrow> (False, reportError st)
             | None \<Rightarrow> (False, adjustHeight 1 (reportError st))))"

text \<open>One item is expected on the stack.\<close>

definition expectDeposit :: "int \<Rightarrow> int \<Rightarrow> AnalyzerState \<Rightarrow> bool \<times> AnalyzerState" where
  "expectDeposit deposit oldHeight st =
     (if an_height st - oldHeight \<noteq> deposit then (False, reportError st) else (True, st))"

definition expectOne :: "AnalyzerState \<Rightarrow> analysis \<Rightarrow> analysis" where
  "expectOne st r =
     bind_result r (\<lambda>(ok, st'). case expectDeposit 1 (an_height st) st' of (ok', st') \<Rightarrow> Inr (ok \<and> ok', st'))"

definition isLiteral :: "Expression \<Rightarrow> bool" where
  "isLiteral e = (case e of LiteralExpression l \<Rightarrow> True | _ \<Rightarrow> False)"

text \<open>What a called name is: whether it is a function, its parameters and results, and whether it takes literals only.\<close>

definition callee :: "Dialect \<Rightarrow> YulString \<Rightarrow> scopes \<Rightarrow> (nat \<times> nat \<times> bool) option" where
  "callee d x scopes =
     (case builtin d x of
        Some f \<Rightarrow> Some (length (bf_parameters f), length (bf_returns f), bf_literalArguments f)
      | None \<Rightarrow>
          (case scope_lookup False x scopes of
             Some (ScopeFunction ps rs, active) \<Rightarrow> Some (length ps, length rs, False)
           | _ \<Rightarrow> None))"

fun
  analyzeExpr :: "Dialect \<Rightarrow> Expression \<Rightarrow> AnalyzerState \<Rightarrow> analysis" and
  analyzeArgs :: "Dialect \<Rightarrow> bool \<Rightarrow> Expression list \<Rightarrow> AnalyzerState \<Rightarrow> analysis" where
  "analyzeExpr d (LiteralExpression l) st = analyzeLiteral d l st"
| "analyzeExpr d (IdentifierExpression i) st = analyzeIdentifier i st"
| "analyzeExpr d (FunctionalInstruction l i args) st =
     assertThrow (flavour d \<noteq> YulAsm) InternalCompilerError
       (bind_result (analyzeArgs d False args st) (\<lambda>(ok, st).
         assertThrow (info_args (instructionInfo i) = int (length args)) InternalCompilerError
           (bind_result
             (warnOnInstructions d i (adjustHeight (info_ret (instructionInfo i) - info_args (instructionInfo i)) st))
             (\<lambda>st. Inr (ok, st)))))"
| "analyzeExpr d (FunctionCall l f args) st =
     assertThrow (id_name f \<noteq> []) InternalCompilerError
       (case (case callee d (id_name f) (an_scopes st) of
                None \<Rightarrow> (False, 0, False, reportError st)
              | Some (params, rets, literals) \<Rightarrow>
                  if length args \<noteq> params then (False, rets, literals, reportError st) else (True, rets, literals, st)) of
          (ok, rets, literals, st) \<Rightarrow>
            bind_result (analyzeArgs d literals args st) (\<lambda>(ok', st).
              Inr (ok \<and> ok', adjustHeight (int rets - int (length args)) st)))"
| "analyzeArgs d literals [] st = Inr (True, st)"
| "analyzeArgs d literals (e # es) st =
     bind_result (analyzeArgs d literals es st) (\<lambda>(ok, st).
     bind_result (expectOne st (analyzeExpr d e st)) (\<lambda>(ok', st).
       Inr (ok \<and> ok', if ok' \<and> literals \<and> \<not> isLiteral e then reportError st else st)))"

definition expectExpression :: "Dialect \<Rightarrow> Expression \<Rightarrow> AnalyzerState \<Rightarrow> analysis" where
  "expectExpression d e st = expectOne st (analyzeExpr d e st)"

text \<open>An assignment takes one value for each of its variables.\<close>

definition checkAssignment :: "Identifier \<Rightarrow> AnalyzerState \<Rightarrow> analysis" where
  "checkAssignment x st =
     assertThrow (id_name x \<noteq> []) InternalCompilerError
       (Inr (case scope_lookup False (id_name x) (an_scopes st) of
               Some (ScopeVariable t, True) \<Rightarrow> (True, adjustHeight (- 1) st)
             | _ \<Rightarrow> (False, adjustHeight (- 1) (reportError st))))"

fun checkAssignments :: "Identifier list \<Rightarrow> AnalyzerState \<Rightarrow> analysis" where
  "checkAssignments [] st = Inr (True, st)"
| "checkAssignments (x # xs) st =
     bind_result (checkAssignment x st) (\<lambda>(ok, st).
     bind_result (checkAssignments xs st) (\<lambda>(ok', st). Inr (ok \<and> ok', st)))"

text \<open>The declared variables become active in the current scope.\<close>

fun activateVariables :: "Dialect \<Rightarrow> TypedName list \<Rightarrow> AnalyzerState \<Rightarrow> AnalyzerState result" where
  "activateVariables d [] st = Inr st"
| "activateVariables d (x # xs) st =
     (let st = expectValidType d (tn_type x) st
      in case an_scopes st of
           [] \<Rightarrow> Inl UndefinedBehaviour
         | s # scopes \<Rightarrow>
             (case map_of (sc_identifiers s) (tn_name x) of
                Some (ScopeVariable t) \<Rightarrow>
                  activateVariables d xs (st\<lparr>an_scopes := s\<lparr>sc_active := insert (tn_name x) (sc_active s)\<rparr> # scopes\<rparr>)
              | _ \<Rightarrow> Inl OutOfRange))"

text \<open>Whether two cases have different types; an empty type is not compared.\<close>

fun caseTypesMismatch :: "YulType \<Rightarrow> Case list \<Rightarrow> bool" where
  "caseTypesMismatch t [] = False"
| "caseTypesMismatch t (c # cs) =
     (case case_value c of
        None \<Rightarrow> caseTypesMismatch t cs
      | Some v \<Rightarrow> if t = [] then caseTypesMismatch (li_type v) cs
                  else if t \<noteq> li_type v then True else caseTypesMismatch t cs)"

text \<open>The value of a case: a literal that no case before it has.\<close>

definition analyzeCaseValue :: "Dialect \<Rightarrow> Literal \<Rightarrow> u256 set \<Rightarrow> AnalyzerState \<Rightarrow> (bool \<times> u256 set \<times> AnalyzerState) result" where
  "analyzeCaseValue d l seen st =
     bind_result (analyzeLiteral d l st) (\<lambda>(ok, st').
       let st' = adjustHeight (- 1) (snd (expectDeposit 1 (an_height st) st'))
       in assertThrow (ok \<or> an_errors st') YulException
         (if ok then
            (case valueOfLiteral l of
               None \<Rightarrow> Inl YulException
             | Some v \<Rightarrow> if v \<in> seen then Inr (False, seen, reportError st') else Inr (True, insert v seen, st'))
          else Inr (False, seen, st')))"

fun
  analyzeStatement :: "Dialect \<Rightarrow> Statement \<Rightarrow> AnalyzerState \<Rightarrow> analysis" and
  analyzeStatements :: "Dialect \<Rightarrow> Statement list \<Rightarrow> AnalyzerState \<Rightarrow> analysis" and
  analyzeBlock :: "Dialect \<Rightarrow> Block \<Rightarrow> AnalyzerState \<Rightarrow> (bool \<times> Scope \<times> AnalyzerState) result" and
  analyzeCases :: "Dialect \<Rightarrow> Case list \<Rightarrow> u256 set \<Rightarrow> AnalyzerState \<Rightarrow> analysis" where
  "analyzeStatement d (ExpressionStatement l e) st =
     bind_result (analyzeExpr d e st) (\<lambda>(ok, st').
       Inr (if an_height st' \<noteq> an_height st then (False, reportError st') else (ok, st')))"
| "analyzeStatement d (Assignment l xs e) st =
     assertThrow (xs \<noteq> []) InternalCompilerError
       (bind_result (analyzeExpr d e st) (\<lambda>(ok, st').
         if an_height st' - an_height st \<noteq> int (length xs) then Inr (False, reportError st')
         else bind_result (checkAssignments xs st') (\<lambda>(ok', st'). Inr (ok \<and> ok', st'))))"
| "analyzeStatement d (VariableDeclaration l xs (Some e)) st =
     bind_result (analyzeExpr d e st) (\<lambda>(ok, st').
       let k = an_height st' - an_height st
       in if k \<noteq> int (length xs) then Inr (False, adjustHeight (int (length xs) - k) (reportError st'))
          else bind_result (activateVariables d xs st') (\<lambda>st'. Inr (ok, st')))"
| "analyzeStatement d (VariableDeclaration l xs None) st =
     bind_result (activateVariables d xs (adjustHeight (int (length xs)) st)) (\<lambda>st. Inr (True, st))"
| "analyzeStatement d (FunctionStatement (FunctionDefinition l x ps rs B)) st =
     assertThrow (x \<noteq> []) InternalCompilerError
       (bind_result (activateVariables d (ps @ rs) (st\<lparr>an_scopes := functionScope (ps @ rs) # an_scopes st\<rparr>)) (\<lambda>st'.
        bind_result (analyzeBlock d B (st'\<lparr>an_height := int (length ps + length rs)\<rparr>)) (\<lambda>(ok, _, st').
          Inr (ok, st'\<lparr>an_height := an_height st, an_scopes := tl (an_scopes st')\<rparr>))))"
| "analyzeStatement d (IfStatement l e B) st =
     bind_result (expectExpression d e st) (\<lambda>(ok, st').
     bind_result (analyzeBlock d B (st'\<lparr>an_height := an_height st\<rparr>)) (\<lambda>(ok', _, st'). Inr (ok \<and> ok', st')))"
| "analyzeStatement d (SwitchStatement l e cs) st =
     bind_result (expectExpression d e st) (\<lambda>(ok, st').
       let st' = (if flavour d = YulAsm \<and> caseTypesMismatch [] cs then reportError st' else st')
       in bind_result (analyzeCases d cs {} st') (\<lambda>(ok', st'). Inr (ok \<and> ok', st'\<lparr>an_height := an_height st\<rparr>)))"
| "analyzeStatement d (ForLoop l pre e post body) st =
     bind_result (analyzeBlock d pre st) (\<lambda>(ok1, s, st').
     bind_result (expectExpression d e (adjustHeight (int (numberOfVariables s)) (st'\<lparr>an_scopes := s # an_scopes st'\<rparr>)))
       (\<lambda>(ok2, st').
     bind_result (analyzeBlock d body (adjustHeight (- 1) st')) (\<lambda>(ok3, _, st').
     bind_result (analyzeBlock d post st') (\<lambda>(ok4, _, st').
       Inr (ok1 \<and> ok2 \<and> ok3 \<and> ok4, st'\<lparr>an_height := an_height st, an_scopes := tl (an_scopes st')\<rparr>)))))"
| "analyzeStatement d (BreakStatement l) st = Inr (True, st)"
| "analyzeStatement d (ContinueStatement l) st = Inr (True, st)"
| "analyzeStatement d (BlockStatement B) st = bind_result (analyzeBlock d B st) (\<lambda>(ok, _, st). Inr (ok, st))"
| "analyzeStatements d [] st = Inr (True, st)"
| "analyzeStatements d (s # ss) st =
     bind_result (analyzeStatement d s st) (\<lambda>(ok, st).
     bind_result (analyzeStatements d ss st) (\<lambda>(ok', st). Inr (ok \<and> ok', st)))"
| "analyzeBlock d (Block l ss) st =
     bind_result (analyzeStatements d ss (st\<lparr>an_scopes := blockScope (Block l ss) # an_scopes st\<rparr>)) (\<lambda>(ok, st').
       let s = hd (an_scopes st');
           st' = adjustHeight (- int (numberOfVariables (blockScope (Block l ss)))) (st'\<lparr>an_scopes := tl (an_scopes st')\<rparr>)
       in Inr (if an_height st' \<noteq> an_height st then (False, s, reportError st') else (ok, s, st')))"
| "analyzeCases d [] seen st = Inr (True, st)"
| "analyzeCases d (Case l val B # cs) seen st =
     bind_result (case val of None \<Rightarrow> Inr (True, seen, st) | Some v \<Rightarrow> analyzeCaseValue d v seen st) (\<lambda>(ok1, seen, st).
     bind_result (analyzeBlock d B st) (\<lambda>(ok2, _, st).
     bind_result (analyzeCases d cs seen st) (\<lambda>(ok3, st). Inr (ok1 \<and> ok2 \<and> ok3, st))))"

definition analyze :: "Dialect \<Rightarrow> Block \<Rightarrow> bool result" where
  "analyze d B =
     (if \<not> fst (fill_block [emptyScope False] B) then Inr False
      else bind_result (analyzeBlock d B \<lparr>an_height = 0, an_errors = False, an_scopes = [emptyScope False]\<rparr>)
        (\<lambda>(ok, _, st). assertThrow (ok \<or> an_errors st) InternalCompilerError (Inr (ok \<and> \<not> an_errors st))))"

definition analyzeStrictAssertCorrect :: "Dialect \<Rightarrow> Block \<Rightarrow> unit result" where
  "analyzeStrictAssertCorrect d B =
     bind_result (analyze d B) (\<lambda>ok. assertThrow ok InternalCompilerError (Inr ()))"

end
