(* ===== verification/Yul_Typing.thy ===== *)
theory Yul_Typing
  imports Yul_Interpreter Yul_Block_Passes
begin

text \<open>
  Well-typed Yul: what has to hold of a program for the interpreter never to fail one of its
  assertions, and the proof that it does not. The analysis establishes it.
\<close>

section \<open>Well-typed programs\<close>

text \<open>
  The functions of a program: their definitions, and for each of them the names of the functions
  visible in its body.
\<close>

record FunctionTable =
  ft_definition :: "YulString \<rightharpoonup> FunctionDefinition"
  ft_visible :: "YulString \<Rightarrow> YulString set"

text \<open>The number of values of an expression, with the visible functions and variables.\<close>

fun
  valueCount :: "Dialect \<Rightarrow> FunctionTable \<Rightarrow> YulString set \<Rightarrow> YulString set \<Rightarrow> Expression \<Rightarrow> nat option" where
  "valueCount d T F V (LiteralExpression l) = Some 1"
| "valueCount d T F V (IdentifierExpression i) = (if id_name i \<in> V then Some 1 else None)"
| "valueCount d T F V (FunctionalInstruction l i args) =
     (if (\<forall>e \<in> set args. valueCount d T F V e = Some 1) then Some (nat (info_ret (instructionInfo i))) else None)"
| "valueCount d T F V (FunctionCall l f args) =
     (if \<forall>e \<in> set args. valueCount d T F V e = Some 1 then
        (case builtin d (id_name f) of
           Some b \<Rightarrow> if length args = length (bf_parameters b) then Some (length (bf_returns b)) else None
         | None \<Rightarrow>
             (case ft_definition T (id_name f) of
                None \<Rightarrow> None
              | Some g \<Rightarrow> if id_name f \<in> F \<and> length args = length (fd_parameters g)
                  then Some (length (fd_returnVariables g)) else None))
      else None)"

text \<open>Functional instructions have at most one result: the parser refuses the others.\<close>

fun plainExpression :: "Expression \<Rightarrow> bool" where
  "plainExpression (FunctionalInstruction l i args) =
     (info_ret (instructionInfo i) \<le> 1 \<and> (\<forall>e \<in> set args. plainExpression e))"
| "plainExpression (FunctionCall l f args) = (\<forall>e \<in> set args. plainExpression e)"
| "plainExpression _ = True"

fun declaredVariables :: "Statement \<Rightarrow> YulString list" where
  "declaredVariables (VariableDeclaration l xs e) = map tn_name xs"
| "declaredVariables _ = []"

fun definedFunctions :: "Statement list \<Rightarrow> FunctionDefinition list" where
  "definedFunctions [] = []"
| "definedFunctions (FunctionStatement f # ss) = f # definedFunctions ss"
| "definedFunctions (_ # ss) = definedFunctions ss"

abbreviation declaredIn :: "Statement list \<Rightarrow> YulString set" where
  "declaredIn ss \<equiv> \<Union> (set ` declaredVariables ` set ss)"

abbreviation functionNames :: "Statement list \<Rightarrow> YulString set" where
  "functionNames ss \<equiv> fd_name ` set (definedFunctions ss)"

abbreviation functionVariables :: "FunctionDefinition \<Rightarrow> YulString set" where
  "functionVariables f \<equiv> tn_name ` (set (fd_parameters f) \<union> set (fd_returnVariables f))"

text \<open>New variables: different from each other, from those around and from all functions.\<close>

definition newVariables :: "FunctionTable \<Rightarrow> YulString set \<Rightarrow> YulString list \<Rightarrow> bool" where
  "newVariables T V xs \<longleftrightarrow> distinct xs \<and> set xs \<inter> V = {} \<and> set xs \<inter> dom (ft_definition T) = {}"

fun
  wt_statement :: "Dialect \<Rightarrow> FunctionTable \<Rightarrow> YulString set \<Rightarrow> YulString set \<Rightarrow> Statement \<Rightarrow> bool" and
  wt_statements :: "Dialect \<Rightarrow> FunctionTable \<Rightarrow> YulString set \<Rightarrow> YulString set \<Rightarrow> Statement list \<Rightarrow> bool" and
  wt_block :: "Dialect \<Rightarrow> FunctionTable \<Rightarrow> YulString set \<Rightarrow> YulString set \<Rightarrow> Block \<Rightarrow> bool" and
  wt_case :: "Dialect \<Rightarrow> FunctionTable \<Rightarrow> YulString set \<Rightarrow> YulString set \<Rightarrow> Case \<Rightarrow> bool" where
  "wt_statement d T F V (ExpressionStatement l e) = (valueCount d T F V e \<noteq> None \<and> plainExpression e)"
| "wt_statement d T F V (Assignment l xs e) =
     (valueCount d T F V e = Some (length xs) \<and> plainExpression e \<and> xs \<noteq> [] \<and> id_name ` set xs \<subseteq> V)"
| "wt_statement d T F V (VariableDeclaration l xs v) =
     (newVariables T V (map tn_name xs) \<and>
      (case v of None \<Rightarrow> True | Some e \<Rightarrow> valueCount d T F V e = Some (length xs) \<and> plainExpression e \<and> xs \<noteq> []))"
| "wt_statement d T F V (FunctionStatement f) = True"
| "wt_statement d T F V (IfStatement l e B) =
     (valueCount d T F V e = Some 1 \<and> plainExpression e \<and> wt_block d T F V B)"
| "wt_statement d T F V (SwitchStatement l e cs) =
     (valueCount d T F V e = Some 1 \<and> plainExpression e \<and> cs \<noteq> [] \<and> (\<forall>c \<in> set cs. wt_case d T F V c))"
| "wt_statement d T F V (ForLoop l (Block lp pre) e post body) =
     (definedFunctions pre = [] \<and> wt_statements d T F V pre \<and>
      (let V = V \<union> declaredIn pre
       in valueCount d T F V e = Some 1 \<and> plainExpression e \<and> wt_block d T F V body \<and> wt_block d T F V post))"
| "wt_statement d T F V (BreakStatement l) = True"
| "wt_statement d T F V (ContinueStatement l) = True"
| "wt_statement d T F V (BlockStatement B) = wt_block d T F V B"
| "wt_statements d T F V [] = True"
| "wt_statements d T F V (s # ss) =
     (wt_statement d T F V s \<and> wt_statements d T F (V \<union> set (declaredVariables s)) ss)"
| "wt_block d T F V (Block l ss) =
     (F \<inter> functionNames ss = {} \<and>
      (\<forall>f \<in> set (definedFunctions ss). ft_definition T (fd_name f) = Some f \<and> ft_visible T (fd_name f) = F \<union> functionNames ss) \<and>
      wt_statements d T (F \<union> functionNames ss) V ss)"
| "wt_case d T F V (Case l val B) = wt_block d T F V B"

text \<open>The functions visible in the body of a visible function are visible themselves.\<close>

definition closed_under :: "FunctionTable \<Rightarrow> YulString set \<Rightarrow> bool" where
  "closed_under T F \<longleftrightarrow> F \<subseteq> dom (ft_definition T) \<and> (\<forall>x \<in> F. ft_visible T x \<subseteq> F)"

definition wt_table :: "Dialect \<Rightarrow> FunctionTable \<Rightarrow> bool" where
  "wt_table d T \<longleftrightarrow> (\<forall>x f. ft_definition T x = Some f \<longrightarrow>
     fd_name f = x \<and> closed_under T (ft_visible T x) \<and> functionVariables f \<inter> dom (ft_definition T) = {} \<and>
     wt_block d T (ft_visible T x) (functionVariables f) (fd_body f))"

section \<open>Environments\<close>

definition env_ok :: "FunctionTable \<Rightarrow> YulString set \<Rightarrow> YulString set \<Rightarrow> YulString set list \<Rightarrow> Env \<Rightarrow> bool" where
  "env_ok T F V S env \<longleftrightarrow> dom (e_variables env) = V \<and> F \<subseteq> dom (e_functions env) \<and>
     e_functions env \<subseteq>\<^sub>m ft_definition T \<and> e_scopes env = S \<and> closed_under T F \<and> V \<inter> dom (ft_definition T) = {}"

text \<open>An outcome that is no failing assertion and no access out of range, and has the given property when it is a result.\<close>

fun safe :: "('a \<Rightarrow> bool) \<Rightarrow> 'a outcome \<Rightarrow> bool" where
  "safe Q NoFuel = True"
| "safe Q (Raised e st) = (e \<noteq> PolAssertion \<and> e \<noteq> OutOfRangeAccess)"
| "safe Q (Done x st) = Q x"

lemma safe_bind: "safe Q m \<Longrightarrow> (\<And>x st. m = Done x st \<Longrightarrow> Q x \<Longrightarrow> safe R (f x st)) \<Longrightarrow> safe R (and_then m f)"
  by (cases m) simp_all

lemma safe_mono: "safe Q m \<Longrightarrow> (\<And>x. Q x \<Longrightarrow> R x) \<Longrightarrow> safe R m"
  by (cases m) simp_all

lemma safe_fromSvm: "safe (\<lambda>_. True) (fromSvm r st)"
  by (auto simp: fromSvm_def split: prod.splits sum.splits)

text \<open>The number of values: an expression without a value may be given one that nobody reads.\<close>

definition counted :: "nat \<Rightarrow> 'a list \<Rightarrow> bool" where
  "counted k vs \<longleftrightarrow> (k \<noteq> 0 \<longrightarrow> length vs = k)"

definition safe_calls :: "FunctionTable \<Rightarrow> caller \<Rightarrow> bool" where
  "safe_calls T call \<longleftrightarrow> (\<forall>f vals funs st.
     ft_definition T (fd_name f) = Some f \<and> length vals = length (fd_parameters f) \<and>
     ft_visible T (fd_name f) \<subseteq> dom funs \<and> funs \<subseteq>\<^sub>m ft_definition T \<longrightarrow>
     safe (counted (length (fd_returnVariables f))) (call f vals funs st))"

lemma safe_the_value: "counted 1 vs \<Longrightarrow> safe (\<lambda>_. True) (the_value vs st)"
  by (simp add: counted_def the_value_def)

lemma single_result: "\<not> isDupInstruction i \<Longrightarrow> \<not> isSwapInstruction i \<Longrightarrow> info_ret (instructionInfo i) \<le> 1"
proof -
  have "list_all (\<lambda>(i, info). \<not> isDupInstruction i \<longrightarrow> \<not> isSwapInstruction i \<longrightarrow> info_ret info \<le> 1) c_instructionInfo"
    by code_simp
  then have "\<not> isDupInstruction i \<longrightarrow> \<not> isSwapInstruction i \<longrightarrow> info_ret (instructionInfo i) \<le> 1"
    by (rule instructionInfo_all) (simp add: instructionInfo_def InstructionInfo.defs)
  then show "\<not> isDupInstruction i \<Longrightarrow> \<not> isSwapInstruction i \<Longrightarrow> info_ret (instructionInfo i) \<le> 1" by blast
qed

lemma builtin_shape:
  assumes "builtin d x = Some b"
  shows "length (bf_returns b) \<le> 1 \<and> (bf_instruction b = None \<longrightarrow>
    (bf_name b \<in> {''datasize'', ''dataoffset''} \<and> length (bf_parameters b) = 1) \<or>
    (bf_name b = ''datacopy'' \<and> length (bf_parameters b) = 3))"
proof -
  obtain f access version where "createBuiltins version access x = Some b" using assms by (cases d) auto
  then show ?thesis
    by (auto simp: createBuiltins_def createFunction_def builtinInstruction_def nat_le_iff single_result split: option.splits if_splits)
qed

lemma safe_evalBuiltin:
  assumes "builtin d x = Some b" "length vals = length (bf_parameters b)"
  shows "safe (\<lambda>_. True) (evalBuiltin b vals st)"
proof (cases "bf_instruction b")
  case None
  with builtin_shape [OF assms(1)] assms(2) show ?thesis by (auto simp: evalBuiltin_def safe_fromSvm)
qed (simp add: evalBuiltin_def safe_fromSvm)

lemma env_ok_call:
  assumes "env_ok T F V S env" "ft_definition T x = Some g" "x \<in> F"
  shows "e_functions env x = Some g" "ft_visible T x \<subseteq> dom (e_functions env)" "e_functions env \<subseteq>\<^sub>m ft_definition T"
proof -
  have le: "x \<in> dom (e_functions env)" "e_functions env \<subseteq>\<^sub>m ft_definition T" using assms(1,3) unfolding env_ok_def by blast+
  then have "e_functions env x = ft_definition T x" unfolding map_le_def by blast
  then show "e_functions env x = Some g" using assms(2) by simp
  show "ft_visible T x \<subseteq> dom (e_functions env)" using assms(1,3) unfolding env_ok_def closed_under_def by blast
  show "e_functions env \<subseteq>\<^sub>m ft_definition T" using assms(1) by (simp add: env_ok_def)
qed

lemma expressions_safe:
  assumes T: "wt_table d T"
  shows "safe_calls T call \<Longrightarrow> env_ok T F V S env \<Longrightarrow> valueCount d T F V e = Some k \<Longrightarrow> plainExpression e \<Longrightarrow>
      safe (counted k) (evalExpr d call env e st)"
    "safe_calls T call \<Longrightarrow> env_ok T F V S env \<Longrightarrow> \<forall>e \<in> set es. valueCount d T F V e = Some 1 \<and> plainExpression e \<Longrightarrow>
      safe (\<lambda>vs. length vs = length es) (evalArgs d call env es st)"
  using T
proof (induction d call env e st and d call env es st arbitrary: k rule: evalExpr_evalArgs.induct)
  case (1 d call env l st)
  then show ?case by (auto simp: evalLiteral_def counted_def split: option.splits)
next
  case (2 d call env i st)
  then have "id_name i \<in> dom (e_variables env)" "k = 1" by (auto simp: env_ok_def split: if_splits)
  then show ?case by (auto simp: counted_def)
next
  case (3 d call env l i args st)
  have args: "\<forall>e \<in> set args. valueCount d T F V e = Some 1 \<and> plainExpression e" and k: "k \<le> 1"
    using 3(4,5) by (auto split: if_splits)
  show ?case unfolding evalExpr.simps
    by (rule safe_bind [OF 3(1) [OF 3(2,3) args 3(6)]], rule safe_bind [OF safe_fromSvm]) (use k in \<open>auto simp: counted_def\<close>)
next
  case (4 d call env l f args st)
  have args: "\<forall>e \<in> set args. valueCount d T F V e = Some 1 \<and> plainExpression e"
    using 4(4,5) by (auto split: if_splits)
  show ?case unfolding evalExpr.simps
  proof (rule safe_bind [OF 4(1) [OF 4(2,3) args 4(6)]])
    fix vs :: "u256 list" and s assume vs: "length vs = length args"
    show "safe (counted k) (case builtin d (id_name f) of
         Some b \<Rightarrow> and_then (evalBuiltin b vs s) (\<lambda>v. Done [v])
       | None \<Rightarrow> (case e_functions env (id_name f) of None \<Rightarrow> Raised PolAssertion s
           | Some fun \<Rightarrow> if length vs \<noteq> length (fd_parameters fun) then Raised PolAssertion s
               else call fun vs (e_functions env) s))"
    proof (cases "builtin d (id_name f)")
      case (Some b)
      with 4(4) have b: "length args = length (bf_parameters b)" "k = length (bf_returns b)" by (auto split: if_splits)
      have k: "k \<le> 1" using b(2) builtin_shape [OF Some] by simp
      have "safe (counted k) (and_then (evalBuiltin b vs s) (\<lambda>v. Done [v]))"
        by (rule safe_bind [OF safe_evalBuiltin [OF Some]]) (use vs b(1) k in \<open>auto simp: counted_def\<close>)
      with Some show ?thesis by simp
    next
      case None
      with 4(4) obtain g where g: "ft_definition T (id_name f) = Some g" "id_name f \<in> F" "length args = length (fd_parameters g)"
        "k = length (fd_returnVariables g)" by (auto split: if_splits option.splits)
      have "fd_name g = id_name f" using T g(1) 4(6) by (auto simp: wt_table_def)
      with 4(2) env_ok_call [OF 4(3) g(1,2)] vs g None show ?thesis by (simp add: safe_calls_def)
    qed
  qed
next
  case (6 d call env e es st)
  have es: "\<forall>e \<in> set es. valueCount d T F V e = Some 1 \<and> plainExpression e"
    and e: "valueCount d T F V e = Some 1" "plainExpression e" using 6(5) by auto
  show ?case unfolding evalArgs.simps
  proof (rule safe_bind)
    show "safe (\<lambda>vs. length vs = length es) (evalArgs d call env es st)" by (rule 6(1) [OF 6(3,4) es 6(6)])
    fix vs s assume run: "evalArgs d call env es st = Done vs s" and vs: "length vs = length es"
    have "safe (counted 1) (evalExpr d call env e s)" by (rule 6(2) [OF run 6(3,4) e 6(6)])
    then show "safe (\<lambda>vs. length vs = length (e # es))
      (and_then (evalExpr d call env e s) (\<lambda>r st. and_then (the_value r st) (\<lambda>v. Done (v # vs))))"
      by (rule safe_bind) (rule safe_bind [OF safe_the_value], use vs in simp_all)
  qed
qed simp_all

lemma evaluate_safe:
  assumes "wt_table d T" "safe_calls T call" "env_ok T F V S env" "valueCount d T F V e = Some 1" "plainExpression e"
  shows "safe (\<lambda>_. True) (evaluate d call env e st)"
  unfolding evaluate_def by (rule safe_bind [OF expressions_safe(1) [OF assms] safe_the_value])

section \<open>Scopes\<close>

lemma declare_safe:
  "env_ok T F V (N # S) env \<Longrightarrow> newVariables T V (map (tn_name \<circ> fst) xs) \<Longrightarrow>
    safe (env_ok T F (V \<union> (tn_name \<circ> fst) ` set xs) ((N \<union> (tn_name \<circ> fst) ` set xs) # S)) (declareVariables env xs st)"
proof (induction env xs st arbitrary: V N rule: declareVariables.induct)
  case (2 env x v xs st)
  let ?env = "env\<lparr>e_variables := (e_variables env)(tn_name x \<mapsto> v), e_scopes := insertScope (tn_name x) (e_scopes env)\<rparr>"
  have new: "e_variables env (tn_name x) = None" using 2(2,3) by (auto simp: env_ok_def newVariables_def)
  have "env_ok T F (insert (tn_name x) V) (insert (tn_name x) N # S) ?env"
    using 2(2,3) by (auto simp: env_ok_def newVariables_def)
  moreover have "newVariables T (insert (tn_name x) V) (map (tn_name \<circ> fst) xs)"
    using 2(3) by (simp add: newVariables_def comp_def)
  ultimately have "safe (env_ok T F (insert (tn_name x) V \<union> (tn_name \<circ> fst) ` set xs)
      ((insert (tn_name x) N \<union> (tn_name \<circ> fst) ` set xs) # S)) (declareVariables ?env xs st)"
    using new by (intro 2(1)) (simp_all add: comp_def)
  then show ?case using new by simp
qed simp

lemma assign_safe:
  "env_ok T F V S env \<Longrightarrow> id_name ` fst ` set xs \<subseteq> V \<Longrightarrow> safe (env_ok T F V S) (assignVariables env xs st)"
proof (induction env xs st rule: assignVariables.induct)
  case (2 env x v xs st)
  have "id_name x \<in> dom (e_variables env)" using 2(2,3) by (auto simp: env_ok_def)
  moreover have "env_ok T F V S (env\<lparr>e_variables := (e_variables env)(id_name x \<mapsto> v)\<rparr>)"
    using 2(2,3) by (auto simp: env_ok_def)
  ultimately show ?case using 2 by (auto simp: domIff)
qed simp

lemma register_env:
  assumes "env_ok T F V (N # S) env" "\<forall>f \<in> set (definedFunctions ss). ft_definition T (fd_name f) = Some f"
  shows "dom (e_variables (registerFunctions env ss)) = V \<and> F \<union> functionNames ss \<subseteq> dom (e_functions (registerFunctions env ss)) \<and>
    e_functions (registerFunctions env ss) \<subseteq>\<^sub>m ft_definition T \<and> e_scopes (registerFunctions env ss) = (N \<union> functionNames ss) # S"
proof -
  have gen: "dom (e_variables (registerFunctions env ss)) = V \<and> X \<union> functionNames ss \<subseteq> dom (e_functions (registerFunctions env ss)) \<and>
    e_functions (registerFunctions env ss) \<subseteq>\<^sub>m ft_definition T \<and> e_scopes (registerFunctions env ss) = (N \<union> functionNames ss) # S"
    if "dom (e_variables env) = V" "X \<subseteq> dom (e_functions env)" "e_functions env \<subseteq>\<^sub>m ft_definition T" "e_scopes env = N # S" for X
    using that assms(2)
  proof (induction env ss arbitrary: N X rule: registerFunctions.induct)
    case (2 env f ss)
    let ?env = "env\<lparr>e_functions := (e_functions env)(fd_name f \<mapsto> f), e_scopes := insertScope (fd_name f) (e_scopes env)\<rparr>"
    have "dom (e_variables ?env) = V" "insert (fd_name f) X \<subseteq> dom (e_functions ?env)"
      "e_functions ?env \<subseteq>\<^sub>m ft_definition T" "e_scopes ?env = insert (fd_name f) N # S"
      using 2(2-6) by (auto simp: map_le_def)
    moreover have "\<forall>f \<in> set (definedFunctions ss). ft_definition T (fd_name f) = Some f" using 2(6) by simp
    ultimately have "dom (e_variables (registerFunctions ?env ss)) = V \<and>
      insert (fd_name f) X \<union> functionNames ss \<subseteq> dom (e_functions (registerFunctions ?env ss)) \<and>
      e_functions (registerFunctions ?env ss) \<subseteq>\<^sub>m ft_definition T \<and>
      e_scopes (registerFunctions ?env ss) = (insert (fd_name f) N \<union> functionNames ss) # S"
      by (rule 2(1))
    then show ?case by simp
  qed simp_all
  show ?thesis by (rule gen) (use assms(1) in \<open>simp_all add: env_ok_def\<close>)
qed

lemma enter_block:
  assumes env: "env_ok T F V S env" and wt: "wt_block d T F V (Block l ss)"
  shows "env_ok T (F \<union> functionNames ss) V (functionNames ss # S) (registerFunctions (openScope env) ss)"
proof -
  have fs: "\<forall>f \<in> set (definedFunctions ss). ft_definition T (fd_name f) = Some f"
    "\<forall>f \<in> set (definedFunctions ss). ft_visible T (fd_name f) = F \<union> functionNames ss" using wt by auto
  have "env_ok T F V ({} # S) (openScope env)" using env by (simp add: env_ok_def openScope_def)
  from register_env [OF this fs(1)] env show ?thesis
    using fs by (auto simp: env_ok_def closed_under_def)
qed

lemma leave_block:
  assumes inner: "env_ok T (F \<union> fs) V' (((V' - V) \<union> fs) # S) env'" and outer: "env_ok T F V S env" and "V \<subseteq> V'" "F \<inter> fs = {}"
  shows "safe (env_ok T F V S) (closeScope env' st)"
proof -
  have dom: "dom (e_variables env') = V'" "fs \<subseteq> dom (e_functions env')" "e_functions env' \<subseteq>\<^sub>m ft_definition T"
    "V' \<inter> dom (ft_definition T) = {}" "F \<subseteq> dom (e_functions env')" using inner by (simp_all add: env_ok_def)
  have funs: "dom (e_functions env') \<inter> V' = {}" using dom(3,4) map_le_implies_dom_le by blast
  have "\<forall>x \<in> (V' - V) \<union> fs. (e_variables env' x \<noteq> None) \<noteq> (e_functions env' x \<noteq> None)"
    using dom(1,2) funs by (auto simp: domIff)
  moreover have "e_scopes env' = ((V' - V) \<union> fs) # S" using inner by (simp add: env_ok_def)
  moreover have "dom (\<lambda>x. if x \<in> (V' - V) \<union> fs then None else e_variables env' x) = V"
  proof -
    have "dom (\<lambda>x. if x \<in> (V' - V) \<union> fs then None else e_variables env' x) = dom (e_variables env') - ((V' - V) \<union> fs)"
      by (auto split: if_splits)
    also have "\<dots> = V" unfolding dom(1) using dom(2) funs assms(3) by blast
    finally show ?thesis .
  qed
  moreover have "F \<subseteq> dom (\<lambda>x. if x \<in> (V' - V) \<union> fs then None else e_functions env' x)"
  proof -
    have "dom (\<lambda>x. if x \<in> (V' - V) \<union> fs then None else e_functions env' x) = dom (e_functions env') - ((V' - V) \<union> fs)"
      by (auto split: if_splits)
    then show ?thesis using dom(5) assms(4) funs by blast
  qed
  moreover have "(\<lambda>x. if x \<in> (V' - V) \<union> fs then None else e_functions env' x) \<subseteq>\<^sub>m ft_definition T"
    using dom(3) by (auto simp: map_le_def split: if_splits)
  ultimately show ?thesis using outer by (simp add: closeScope_def env_ok_def)
qed

lemma loop_safe:
  assumes c: "\<And>env st. P env \<Longrightarrow> safe (\<lambda>_. True) (c env st)" and body: "\<And>env st. P env \<Longrightarrow> safe P (body env st)"
    and post: "\<And>env st. P env \<Longrightarrow> safe P (post env st)"
  shows "P env \<Longrightarrow> safe P (whileLoop n c body post env st)"
proof -
  have round: "safe P (loopRound c body post again env st)"
    if "P env" "\<And>env st. P env \<Longrightarrow> safe P (again env st)" for again env st
    unfolding loopRound_def
    by (rule safe_bind [OF c [OF that(1)]]) (auto intro!: safe_bind [OF body] safe_bind [OF post] that)
  show "P env \<Longrightarrow> safe P (whileLoop n c body post env st)"
    by (induction n arbitrary: env st) (simp_all add: round)
qed

section \<open>Statements\<close>

text \<open>What is known after some of the statements of a block: the variables declared so far.\<close>

definition partly_run :: "FunctionTable \<Rightarrow> YulString set \<Rightarrow> YulString set \<Rightarrow> YulString set \<Rightarrow> YulString set \<Rightarrow> YulString set list \<Rightarrow> Env \<Rightarrow> bool" where
  "partly_run T F V V' N S env \<longleftrightarrow> (\<exists>W. V \<subseteq> W \<and> W \<subseteq> V' \<and> env_ok T F W ((N \<union> (W - V)) # S) env)"

lemma declared_new: "wt_statement d T F V s \<Longrightarrow> set (declaredVariables s) \<inter> V = {}"
  by (cases s) (auto simp: newVariables_def)

lemma declaredIn_new: "wt_statements d T F V ss \<Longrightarrow> declaredIn ss \<inter> V = {}"
proof (induction ss arbitrary: V)
  case (Cons s ss)
  from declared_new [of d T F V s] Cons show ?case by fastforce
qed simp

lemma env_ok_same: "env_ok T F V S env \<Longrightarrow> V = V' \<Longrightarrow> S = S' \<Longrightarrow> env_ok T F V' S' env"
  by simp

lemma statements_safe:
  assumes T: "wt_table d T"
  shows "safe_calls T call \<Longrightarrow> env_ok T F V (N # S) env \<Longrightarrow> wt_statement d T F V s \<Longrightarrow>
      safe (env_ok T F (V \<union> set (declaredVariables s)) ((N \<union> set (declaredVariables s)) # S)) (execStatement d call n env s st)"
    "safe_calls T call \<Longrightarrow> env_ok T F V (N # S) env \<Longrightarrow> wt_statements d T F V ss \<Longrightarrow>
      safe (partly_run T F V (V \<union> declaredIn ss) N S) (execStatements d call n env ss st)"
    "safe_calls T call \<Longrightarrow> env_ok T F V (N # S) env \<Longrightarrow> wt_statements d T F V ss \<Longrightarrow>
      safe (env_ok T F (V \<union> declaredIn ss) ((N \<union> declaredIn ss) # S)) (visitStatements d call n env ss st)"
    "safe_calls T call \<Longrightarrow> env_ok T F V S env \<Longrightarrow> wt_block d T F V B \<Longrightarrow>
      safe (env_ok T F V S) (execBlock d call n env B st)"
    "safe_calls T call \<Longrightarrow> env_ok T F V S env \<Longrightarrow> \<forall>c \<in> set cs. wt_case d T F V c \<Longrightarrow>
      safe (env_ok T F V S) (execCases d call n env v cs st)"
  using T
proof (induction d call n env s st and d call n env ss st and d call n env ss st and d call n env B st and d call n env v cs st
    arbitrary: F V N S and F V N S and F V N S and F V S and F V S
    rule: execStatement_execStatements_visitStatements_execBlock_execCases.induct)
  case (1 d call n env l e st)
  then obtain k where "valueCount d T F V e = Some k" "plainExpression e" by auto
  from expressions_safe(1) [OF 1(4,1,2) this] have "safe (counted k) (evalExpr d call env e st)" .
  then show ?case unfolding execStatement.simps by (rule safe_bind) (use 1(2) in simp)
next
  case (2 d call n env l xs e st)
  then have e: "valueCount d T F V e = Some (length xs)" "plainExpression e" "xs \<noteq> []" "id_name ` set xs \<subseteq> V" by auto
  show ?case unfolding execStatement.simps
  proof (rule safe_bind [OF expressions_safe(1) [OF 2(4,1,2) e(1,2)]])
    fix vals :: "u256 list" and s assume "counted (length xs) vals"
    then have "length vals = length xs" using e(3) by (simp add: counted_def)
    moreover have "id_name ` fst ` set (zip xs vals) \<subseteq> V" using e(4) by (auto dest!: set_zip_leftD simp: image_subset_iff)
    ultimately show "safe (env_ok T F (V \<union> set (declaredVariables (Assignment l xs e))) ((N \<union> set (declaredVariables (Assignment l xs e))) # S))
       (if length vals = length xs then assignVariables env (zip xs vals) s else Raised PolAssertion s)"
      using assign_safe [OF 2(2)] by simp
  qed
next
  case (3 d call n env l xs val st)
  then have new: "newVariables T V (map tn_name xs)"
    and val: "case val of None \<Rightarrow> True | Some e \<Rightarrow> valueCount d T F V e = Some (length xs) \<and> plainExpression e \<and> xs \<noteq> []" by simp_all
  have "safe (\<lambda>vs. length vs = length xs)
      (case val of None \<Rightarrow> Done (replicate (length xs) 0) st | Some e \<Rightarrow> evalExpr d call env e st)"
  proof (cases val)
    case (Some e)
    with val have e: "valueCount d T F V e = Some (length xs)" "plainExpression e" "xs \<noteq> []" by simp_all
    from safe_mono [OF expressions_safe(1) [OF 3(4,1,2) e(1,2)]] e(3) show ?thesis by (simp add: Some counted_def)
  qed simp
  then show ?case unfolding execStatement.simps
  proof (rule safe_bind)
    fix vals :: "u256 list" and s assume len: "length vals = length xs"
    then have zip: "map (tn_name \<circ> fst) (zip xs vals) = map tn_name xs" unfolding map_map [symmetric] by simp
    then have "(tn_name \<circ> fst) ` set (zip xs vals) = tn_name ` set xs" by (metis list.set_map)
    with declare_safe [OF 3(2), of "zip xs vals" s] new zip len
    show "safe (env_ok T F (V \<union> set (declaredVariables (VariableDeclaration l xs val)))
         ((N \<union> set (declaredVariables (VariableDeclaration l xs val))) # S))
       (if length vals = length xs then declareVariables env (zip xs vals) s else Raised PolAssertion s)" by simp
  qed
next
  case (5 d call n env l c B st)
  show ?case unfolding execStatement.simps
    by (rule safe_bind [OF evaluate_safe [OF 5(5,2,3)]]) (use 5 in auto)
next
  case (6 d call n env l e cs st)
  show ?case unfolding execStatement.simps
    by (rule safe_bind [OF evaluate_safe [OF 6(5,2,3)]]) (use 6 in auto)
next
  case (7 d call n env l lp pre c post body st)
  let ?V = "V \<union> declaredIn pre"
  have wt: "wt_statements d T F V pre" "valueCount d T F ?V c = Some 1" "plainExpression c"
    "wt_block d T F ?V body" "wt_block d T F ?V post" and none: "definedFunctions pre = []"
    using 7(6) by (simp_all add: Let_def)
  have open_env: "env_ok T F V ({} # N # S) (openScope env)" using 7(5) by (simp add: env_ok_def openScope_def)
  show ?case unfolding execStatement.simps
  proof (rule safe_bind [OF 7(1) [OF 7(4) open_env wt(1) 7(7)]])
    fix env' s assume run: "visitStatements d call n (openScope env) pre st = Done env' s"
      and env': "env_ok T F ?V (({} \<union> declaredIn pre) # N # S) env'"
    have "safe (env_ok T F ?V (declaredIn pre # N # S))
      (whileLoop n (\<lambda>env. evaluate d call env c) (\<lambda>env. execBlock d call n env body) (\<lambda>env. execBlock d call n env post) env' s)"
      by (rule loop_safe)
        (use env' evaluate_safe [OF 7(7,4)] wt 7(2,3) [OF run 7(4) _ _ 7(7)] in auto)
    then show "safe (env_ok T F (V \<union> set (declaredVariables (ForLoop l (Block lp pre) c post body)))
        ((N \<union> set (declaredVariables (ForLoop l (Block lp pre) c post body))) # S))
      (and_then (whileLoop n (\<lambda>env. evaluate d call env c) (\<lambda>env. execBlock d call n env body)
        (\<lambda>env. execBlock d call n env post) env' s) (\<lambda>env st. closeScope env (withLoopState LoopDefault st)))"
    proof (rule safe_bind)
      fix env2 s2 assume env2: "env_ok T F ?V (declaredIn pre # N # S) env2"
      have "declaredIn pre \<inter> V = {}" by (rule declaredIn_new [OF wt(1)])
      then have "env_ok T (F \<union> {}) ?V (((?V - V) \<union> {}) # N # S) env2"
        using env2 by (simp add: Un_Diff Diff_triv)
      from leave_block [OF this 7(5)] show "safe (env_ok T F (V \<union> set (declaredVariables (ForLoop l (Block lp pre) c post body)))
        ((N \<union> set (declaredVariables (ForLoop l (Block lp pre) c post body))) # S)) (closeScope env2 (withLoopState LoopDefault s2))"
        by simp
    qed
  qed
next
  case (12 d call n env s ss st)
  have wt: "wt_statement d T F V s" "wt_statements d T F (V \<union> set (declaredVariables s)) ss" using 12(5) by simp_all
  show ?case unfolding execStatements.simps
  proof (rule safe_bind [OF 12(1) [OF 12(3,4) wt(1) 12(6)]])
    fix env' t assume run: "execStatement d call n env s st = Done env' t"
      and env': "env_ok T F (V \<union> set (declaredVariables s)) ((N \<union> set (declaredVariables s)) # S) env'"
    have new: "set (declaredVariables s) \<inter> V = {}" by (rule declared_new [OF wt(1)])
    show "safe (partly_run T F V (V \<union> declaredIn (s # ss)) N S)
      (if ys_loopState t \<noteq> LoopDefault then Done env' t else execStatements d call n env' ss t)"
    proof (cases "ys_loopState t \<noteq> LoopDefault")
      case True
      have "env_ok T F (V \<union> set (declaredVariables s)) ((N \<union> (V \<union> set (declaredVariables s) - V)) # S) env'"
        using env' new by (simp add: Un_Diff Diff_triv)
      then have "partly_run T F V (V \<union> declaredIn (s # ss)) N S env'"
        unfolding partly_run_def by (intro exI [of _ "V \<union> set (declaredVariables s)"]) auto
      with True show ?thesis by simp
    next
      case False
      have "safe (partly_run T F (V \<union> set (declaredVariables s)) (V \<union> set (declaredVariables s) \<union> declaredIn ss)
          (N \<union> set (declaredVariables s)) S) (execStatements d call n env' ss t)"
        using 12(2) [OF run False 12(3) env' wt(2) 12(6)] .
      then have "safe (partly_run T F V (V \<union> declaredIn (s # ss)) N S) (execStatements d call n env' ss t)"
      proof (rule safe_mono)
        fix x assume "partly_run T F (V \<union> set (declaredVariables s)) (V \<union> set (declaredVariables s) \<union> declaredIn ss)
          (N \<union> set (declaredVariables s)) S x"
        then obtain W where W: "V \<union> set (declaredVariables s) \<subseteq> W" "W \<subseteq> V \<union> set (declaredVariables s) \<union> declaredIn ss"
          "env_ok T F W ((N \<union> set (declaredVariables s) \<union> (W - (V \<union> set (declaredVariables s)))) # S) x"
          unfolding partly_run_def by blast
        have "N \<union> set (declaredVariables s) \<union> (W - (V \<union> set (declaredVariables s))) = N \<union> (W - V)"
          using W(1) new by blast
        with W show "partly_run T F V (V \<union> declaredIn (s # ss)) N S x"
          unfolding partly_run_def by (intro exI [of _ W]) auto
      qed
      with False show ?thesis by simp
    qed
  qed
next
  case (14 d call n env s ss st)
  have wt: "wt_statement d T F V s" "wt_statements d T F (V \<union> set (declaredVariables s)) ss" using 14(5) by simp_all
  show ?case unfolding visitStatements.simps
  proof (rule safe_bind [OF 14(1) [OF 14(3,4) wt(1) 14(6)]])
    fix env' t assume run: "execStatement d call n env s st = Done env' t"
      and env': "env_ok T F (V \<union> set (declaredVariables s)) ((N \<union> set (declaredVariables s)) # S) env'"
    from 14(2) [OF run 14(3) env' wt(2) 14(6)]
    show "safe (env_ok T F (V \<union> declaredIn (s # ss)) ((N \<union> declaredIn (s # ss)) # S)) (visitStatements d call n env' ss t)"
      by (simp add: Un_assoc)
  qed
next
  case (15 d call n env l ss st)
  have wt: "wt_statements d T (F \<union> functionNames ss) V ss" "F \<inter> functionNames ss = {}" using 15(4) by simp_all
  have count: "safe (\<lambda>_. True) (countStep st)" by (simp add: countStep_def Let_def)
  show ?case unfolding execBlock.simps
  proof (rule safe_bind [OF count])
    fix u s assume count: "countStep st = Done u s"
    show "safe (env_ok T F V S) (and_then (execStatements d call n (registerFunctions (openScope env) ss) ss s) closeScope)"
    proof (rule safe_bind [OF 15(1) [OF count 15(2) enter_block [OF 15(3,4)] wt(1) 15(5)]])
      fix env' t assume "partly_run T (F \<union> functionNames ss) V (V \<union> declaredIn ss) (functionNames ss) S env'"
      then obtain W where "V \<subseteq> W" "env_ok T (F \<union> functionNames ss) W (((W - V) \<union> functionNames ss) # S) env'"
        unfolding partly_run_def by (auto simp: Un_commute)
      from leave_block [OF this(2) 15(3) this(1) wt(2)] show "safe (env_ok T F V S) (closeScope env' t)" .
    qed
  qed
next
  case (17 d call n env v l val B cs st)
  show ?case
  proof (cases val)
    case None
    with 17 show ?thesis by auto
  next
    case (Some x)
    have "safe (\<lambda>_. True) (and_then (evalLiteral x st) the_value)"
      by (auto simp: evalLiteral_def the_value_def split: option.splits)
    then have "safe (env_ok T F V S) (and_then (and_then (evalLiteral x st) the_value) (\<lambda>w st.
        if w = v then execBlock d call n env B st else execCases d call n env v cs st))"
      by (rule safe_bind) (use 17 Some in auto)
    with Some show ?thesis by simp
  qed
qed (auto simp: partly_run_def)

section \<open>Calls and programs\<close>

lemma safe_returnValues:
  "tn_name ` set rs \<subseteq> dom (e_variables env) \<Longrightarrow> safe (\<lambda>vs. length vs = length rs) (returnValues env rs st)"
proof (induction env rs st rule: returnValues.induct)
  case (2 env r rs st)
  then obtain v where "e_variables env (tn_name r) = Some v" by auto
  moreover have "safe (\<lambda>vs. length vs = length rs) (returnValues env rs st)" using 2 calculation by simp
  ultimately show ?case by (auto intro: safe_bind)
qed simp

lemma dom_callVariables:
  assumes "length vals = length (fd_parameters f)"
  shows "dom (callVariables f vals) = functionVariables f"
proof -
  have fold: "dom (foldl (\<lambda>vars (name, v). vars(name \<mapsto> v)) m xs) = dom m \<union> fst ` set xs"
    for m :: "YulString \<rightharpoonup> u256" and xs
    by (induction xs arbitrary: m) auto
  have "fst ` set (zip (map tn_name (fd_parameters f)) vals) = tn_name ` set (fd_parameters f)"
    using assms by (simp add: set_map [symmetric] del: set_map) 
  then show ?thesis unfolding callVariables_def fold by (auto simp: image_Un image_image)
qed

lemma calls_safe:
  assumes T: "wt_table d T"
  shows "safe_calls T (callFunction d n)"
proof (induction n)
  case 0
  then show ?case by (simp add: safe_calls_def)
next
  case (Suc n)
  have "safe (counted (length (fd_returnVariables f))) (callFunction d (Suc n) f vals funs st)"
    if f: "ft_definition T (fd_name f) = Some f" and len: "length vals = length (fd_parameters f)"
      and funs: "ft_visible T (fd_name f) \<subseteq> dom funs" "funs \<subseteq>\<^sub>m ft_definition T" for f vals funs st
  proof -
    have wt: "closed_under T (ft_visible T (fd_name f))" "functionVariables f \<inter> dom (ft_definition T) = {}"
      "wt_block d T (ft_visible T (fd_name f)) (functionVariables f) (fd_body f)"
      using T f unfolding wt_table_def by blast+
    have "env_ok T (ft_visible T (fd_name f)) (functionVariables f) [] (callEnv f vals funs)"
      using wt(1,2) funs len by (simp add: env_ok_def callEnv_def dom_callVariables)
    from statements_safe(4) [OF T Suc this wt(3)]
    have "safe (counted (length (fd_returnVariables f)))
      (and_then (execBlock d (callFunction d n) n (callEnv f vals funs) (fd_body f) st) (\<lambda>env. returnValues env (fd_returnVariables f)))"
    proof (rule safe_bind)
      fix env s assume "env_ok T (ft_visible T (fd_name f)) (functionVariables f) [] env"
      then have "tn_name ` set (fd_returnVariables f) \<subseteq> dom (e_variables env)" by (auto simp: env_ok_def)
      from safe_mono [OF safe_returnValues [OF this]]
      show "safe (counted (length (fd_returnVariables f))) (returnValues env (fd_returnVariables f) s)"
        by (simp add: counted_def)
    qed
    then show ?thesis by simp
  qed
  then show ?case by (simp only: safe_calls_def) blast
qed

lemma wt_program_safe:
  assumes "wt_table d T" "wt_block d T {} {} B"
  shows "safe (\<lambda>_. True) (interpret_yul d n B st)"
proof -
  have "env_ok T {} {} [] emptyEnv" by (simp add: env_ok_def emptyEnv_def closed_under_def)
  from statements_safe(4) [OF assms(1) calls_safe [OF assms(1)] this assms(2)]
  show ?thesis unfolding interpret_yul_def by (rule safe_mono) simp
qed

end
