(* ===== verification/Yul_Analysis_Sound.thy ===== *)
theory Yul_Analysis_Sound
  imports Yul_Analysis Yul_Typing
begin

text \<open>
  What the analysis accepts is well typed, so that the interpreter fails none of its assertions on it.
  The names of the program have to be distinct, as the disambiguator makes them: the
  interpreter gives a called function all functions of its caller, so that a function of the caller
  and a variable of the same name of the called function clash, which the analysis allows.
\<close>

section \<open>The names and functions of a program\<close>

fun
  variableNames :: "Statement \<Rightarrow> YulString list" and
  variableNamesBlock :: "Block \<Rightarrow> YulString list" and
  variableNamesCase :: "Case \<Rightarrow> YulString list" where
  "variableNames (VariableDeclaration l xs e) = map tn_name xs"
| "variableNames (FunctionStatement (FunctionDefinition l x ps rs B)) = map tn_name (ps @ rs) @ variableNamesBlock B"
| "variableNames (IfStatement l e B) = variableNamesBlock B"
| "variableNames (SwitchStatement l e cs) = concat (map variableNamesCase cs)"
| "variableNames (ForLoop l pre e post body) = variableNamesBlock pre @ variableNamesBlock body @ variableNamesBlock post"
| "variableNames (BlockStatement B) = variableNamesBlock B"
| "variableNames s = []"
| "variableNamesBlock (Block l ss) = concat (map variableNames ss)"
| "variableNamesCase (Case l val B) = variableNamesBlock B"

text \<open>The functions defined in a block and inside of a statement, with the functions visible in them.\<close>

type_synonym function_entry = "YulString \<times> FunctionDefinition \<times> YulString set"

fun
  innerFunctions :: "YulString set \<Rightarrow> Statement \<Rightarrow> function_entry list" and
  blockFunctions :: "YulString set \<Rightarrow> Block \<Rightarrow> function_entry list" and
  caseFunctions :: "YulString set \<Rightarrow> Case \<Rightarrow> function_entry list" where
  "innerFunctions F (FunctionStatement (FunctionDefinition l x ps rs B)) = blockFunctions F B"
| "innerFunctions F (IfStatement l e B) = blockFunctions F B"
| "innerFunctions F (SwitchStatement l e cs) = concat (map (caseFunctions F) cs)"
| "innerFunctions F (ForLoop l pre e post body) = blockFunctions F pre @ blockFunctions F body @ blockFunctions F post"
| "innerFunctions F (BlockStatement B) = blockFunctions F B"
| "innerFunctions F s = []"
| "blockFunctions F (Block l ss) =
     map (\<lambda>f. (fd_name f, f, F \<union> functionNames ss)) (definedFunctions ss) @
     concat (map (innerFunctions (F \<union> functionNames ss)) ss)"
| "caseFunctions F (Case l val B) = blockFunctions F B"

definition programTable :: "Block \<Rightarrow> FunctionTable" where
  "programTable B =
     (let entries = blockFunctions {} B
      in \<lparr>ft_definition = map_of (map (\<lambda>(x, f, F). (x, f)) entries),
          ft_visible = (\<lambda>x. case map_of entries x of None \<Rightarrow> {} | Some (f, F) \<Rightarrow> F)\<rparr>)"

definition describes :: "FunctionTable \<Rightarrow> function_entry list \<Rightarrow> bool" where
  "describes T entries \<longleftrightarrow> (\<forall>(x, f, F) \<in> set entries. ft_definition T x = Some f \<and> ft_visible T x = F)"

definition bodies_ok :: "Dialect \<Rightarrow> FunctionTable \<Rightarrow> function_entry list \<Rightarrow> bool" where
  "bodies_ok d T entries \<longleftrightarrow> (\<forall>(x, f, F) \<in> set entries. fd_name f = x \<and> closed_under T F \<and>
     functionVariables f \<inter> dom (ft_definition T) = {} \<and> wt_block d T F (functionVariables f) (fd_body f))"

text \<open>The function that a statement defines, and those inside of it.\<close>

definition statementFunctions :: "YulString set \<Rightarrow> Statement \<Rightarrow> function_entry list" where
  "statementFunctions F s = (case s of FunctionStatement f \<Rightarrow> [(fd_name f, f, F)] | _ \<Rightarrow> []) @ innerFunctions F s"

text \<open>What the parser ensures of each statement.\<close>

fun parsed :: "Statement \<Rightarrow> bool" where
  "parsed (ExpressionStatement l e) = plainExpression e"
| "parsed (Assignment l xs e) = plainExpression e"
| "parsed (VariableDeclaration l xs v) = (xs \<noteq> [] \<and> (case v of None \<Rightarrow> True | Some e \<Rightarrow> plainExpression e))"
| "parsed (IfStatement l e B) = plainExpression e"
| "parsed (SwitchStatement l e cs) = (plainExpression e \<and> cs \<noteq> [])"
| "parsed (ForLoop l pre e post body) = (plainExpression e \<and> definedFunctions (statements pre) = [])"
| "parsed s = True"

section \<open>The state of the analysis\<close>

lemma analysis_state [simp]:
  "an_errors (reportError st)" "an_scopes (reportError st) = an_scopes st" "an_height (reportError st) = an_height st"
  "an_errors (adjustHeight k st) = an_errors st" "an_scopes (adjustHeight k st) = an_scopes st"
  "an_height (adjustHeight k st) = an_height st + k"
  "an_scopes (expectValidType d t st) = an_scopes st" "an_height (expectValidType d t st) = an_height st"
  "an_errors st \<Longrightarrow> an_errors (expectValidType d t st)"
  by (simp_all add: reportError_def adjustHeight_def expectValidType_def)

text \<open>Steps that keep the scopes and every error.\<close>

definition keeps :: "AnalyzerState \<Rightarrow> (bool \<times> AnalyzerState) \<Rightarrow> bool" where
  "keeps st r \<longleftrightarrow> an_scopes (snd r) = an_scopes st \<and> (an_errors st \<longrightarrow> an_errors (snd r))"

lemma analyzeLiteral_keeps: "analyzeLiteral d l st = Inr r \<Longrightarrow> keeps st r"
  by (auto simp: analyzeLiteral_def keeps_def Let_def split: if_splits)

lemma keeps_trans: "keeps st r \<Longrightarrow> keeps (snd r) r' \<Longrightarrow> keeps st r'"
  by (simp add: keeps_def)

lemma analyzeIdentifier_keeps: "analyzeIdentifier i st = Inr r \<Longrightarrow> keeps st r"
  by (auto simp: analyzeIdentifier_def keeps_def split: option.splits ScopeIdentifier.splits)

lemma expectOne_cases:
  assumes "expectOne st m = Inr r"
  obtains ok st' where "m = Inr (ok, st')" "an_scopes (snd r) = an_scopes st'" "an_errors st' \<longrightarrow> an_errors (snd r)"
    "fst r \<longrightarrow> ok \<and> snd r = st' \<and> an_height st' = an_height st + 1"
proof -
  obtain ok st' where m: "m = Inr (ok, st')"
    using assms by (cases m) (auto simp: expectOne_def)
  show thesis by (rule that [OF m]) (use assms in \<open>auto simp: expectOne_def m expectDeposit_def split: if_splits\<close>)
qed

lemma warnOnInstructions_keeps:
  "warnOnInstructions d i st = Inr st' \<Longrightarrow> an_scopes st' = an_scopes st \<and> an_height st' = an_height st \<and> (an_errors st \<longrightarrow> an_errors st')"
  by (auto simp: warnOnInstructions_def Let_def split: if_splits)

lemma analyzeExpr_keeps:
  "analyzeExpr d e st = Inr r \<Longrightarrow> keeps st r"
  "analyzeArgs d literals es st = Inr r \<Longrightarrow> keeps st r"
proof (induction d e st and d literals es st arbitrary: r and r rule: analyzeExpr_analyzeArgs.induct)
  case (3 d l i args st)
  then obtain ok st1 st2 where "analyzeArgs d False args st = Inr (ok, st1)"
    "warnOnInstructions d i (adjustHeight (info_ret (instructionInfo i) - info_args (instructionInfo i)) st1) = Inr st2" "r = (ok, st2)"
    by (auto simp: bind_result_Inr_iff)
  moreover from this(1) 3 have "keeps st (ok, st1)" by simp
  ultimately show ?case using warnOnInstructions_keeps by (force simp: keeps_def)
next
  case (4 d l f args st)
  obtain ok rets literals st1 where c: "(case callee d (id_name f) (an_scopes st) of None \<Rightarrow> (False, 0, False, reportError st)
    | Some (params, rets, literals) \<Rightarrow> if length args \<noteq> params then (False, rets, literals, reportError st) else (True, rets, literals, st)) =
      (ok, rets, literals, st1)" by (rule prod_cases4)
  then have st1: "keeps st (ok, st1)" by (auto simp: keeps_def split: option.splits if_splits)
  obtain ok' st2 where r: "analyzeArgs d literals args st1 = Inr (ok', st2)"
    "r = (ok \<and> ok', adjustHeight (int rets - int (length args)) st2)"
    using 4(2) by (auto simp: c bind_result_Inr_iff)
  have "keeps st1 (ok', st2)" by (rule 4(1) [OF c [symmetric] refl refl r(1)])
  with st1 show ?case by (simp add: r(2) keeps_def)
next
  case (6 d literals e es st)
  then obtain ok st1 ok' st2 where "analyzeArgs d literals es st = Inr (ok, st1)" "expectOne st1 (analyzeExpr d e st1) = Inr (ok', st2)"
    "r = (ok \<and> ok', if ok' \<and> literals \<and> \<not> isLiteral e then reportError st2 else st2)"
    by (auto simp: bind_result_Inr_iff)
  then show ?case using 6(1) [of "(ok, st1)"] 6(2) [of "(ok, st1)" ok st1]
    by (auto simp: keeps_def elim!: expectOne_cases)
qed (simp_all add: analyzeLiteral_keeps analyzeIdentifier_keeps, auto simp: keeps_def)

lemma checkAssignments_keeps: "checkAssignments xs st = Inr r \<Longrightarrow> keeps st r"
proof (induction xs arbitrary: st r)
  case (Cons x xs)
  then obtain ok st1 ok' st2 where r: "checkAssignment x st = Inr (ok, st1)" "checkAssignments xs st1 = Inr (ok', st2)" "r = (ok \<and> ok', st2)"
    by (auto simp: bind_result_Inr_iff)
  have "keeps st (ok, st1)" using r(1)
    by (auto simp: checkAssignment_def keeps_def split: option.splits prod.splits ScopeIdentifier.splits bool.splits)
  with Cons.IH [OF r(2)] show ?case by (simp add: r(3) keeps_def)
qed (simp add: keeps_def)

text \<open>The scopes around the current one stay as they are.\<close>

definition keeps_outer :: "AnalyzerState \<Rightarrow> AnalyzerState \<Rightarrow> bool" where
  "keeps_outer st st' \<longleftrightarrow> (an_scopes st \<noteq> [] \<longrightarrow> an_scopes st' \<noteq> [] \<and> tl (an_scopes st') = tl (an_scopes st)) \<and>
     (an_errors st \<longrightarrow> an_errors st')"

lemma activateVariables_keeps: "activateVariables d xs st = Inr st' \<Longrightarrow> keeps_outer st st' \<and> an_height st' = an_height st"
proof (induction d xs st arbitrary: st' rule: activateVariables.induct)
  case (2 d x xs st)
  then obtain s scopes t where s: "an_scopes st = s # scopes" "map_of (sc_identifiers s) (tn_name x) = Some (ScopeVariable t)"
    "activateVariables d xs ((expectValidType d (tn_type x) st)
       \<lparr>an_scopes := s\<lparr>sc_active := insert (tn_name x) (sc_active s)\<rparr> # scopes\<rparr>) = Inr st'"
    by (auto simp: Let_def split: list.splits option.splits ScopeIdentifier.splits)
  from 2(1) [OF refl, of s scopes "ScopeVariable t" t, OF _ s(2) refl s(3)] s(1)
  have "keeps_outer ((expectValidType d (tn_type x) st)
     \<lparr>an_scopes := s\<lparr>sc_active := insert (tn_name x) (sc_active s)\<rparr> # scopes\<rparr>) st' \<and> an_height st' = an_height st" by simp
  with s(1) show ?case by (simp add: keeps_outer_def)
qed (simp add: keeps_outer_def)

lemma keeps_outer_refl: "keeps_outer st st"
  by (simp add: keeps_outer_def)

lemma keeps_outer_trans: "keeps_outer st st' \<Longrightarrow> keeps_outer st' st'' \<Longrightarrow> keeps_outer st st''"
  by (auto simp: keeps_outer_def)

lemma keeps_keeps_outer: "keeps st (ok, st') \<Longrightarrow> keeps_outer st st'"
  by (simp add: keeps_def keeps_outer_def)

lemma expectExpression_keeps: "expectExpression d e st = Inr r \<Longrightarrow> keeps st r"
  unfolding expectExpression_def
  by (elim expectOne_cases) (auto dest: analyzeExpr_keeps(1) simp: keeps_def)

lemma analyzeCaseValue_keeps:
  assumes "analyzeCaseValue d l seen st = Inr (ok, seen', st')"
  shows "keeps st (ok, st')"
proof -
  obtain b st1 where st1: "analyzeLiteral d l st = Inr (b, st1)"
    using assms by (cases "analyzeLiteral d l st") (auto simp: analyzeCaseValue_def)
  from analyzeLiteral_keeps [OF this] assms show ?thesis
    by (auto simp: analyzeCaseValue_def st1 Let_def keeps_def expectDeposit_def split: if_splits option.splits)
qed

lemma forLoop_steps:
  assumes "analyzeStatement d (ForLoop l pre e post body) st = Inr r"
  obtains ok1 s st1 ok2 st2 ok3 s3 st3 ok4 s4 st4 where "analyzeBlock d pre st = Inr (ok1, s, st1)"
    "expectExpression d e (adjustHeight (int (numberOfVariables s)) (st1\<lparr>an_scopes := s # an_scopes st1\<rparr>)) = Inr (ok2, st2)"
    "analyzeBlock d body (adjustHeight (- 1) st2) = Inr (ok3, s3, st3)" "analyzeBlock d post st3 = Inr (ok4, s4, st4)"
    "r = (ok1 \<and> ok2 \<and> ok3 \<and> ok4, st4\<lparr>an_height := an_height st, an_scopes := tl (an_scopes st4)\<rparr>)"
  using assms by (auto simp: bind_result_Inr_iff)

lemma cases_steps:
  assumes "analyzeCases d (Case l val B # cs) seen st = Inr r"
  obtains ok1 seen1 st1 ok2 s2 st2 ok3 st3 where
    "(case val of None \<Rightarrow> Inr (True, seen, st) | Some v \<Rightarrow> analyzeCaseValue d v seen st) = Inr (ok1, seen1, st1)"
    "analyzeBlock d B st1 = Inr (ok2, s2, st2)" "analyzeCases d cs seen1 st2 = Inr (ok3, st3)" "r = (ok1 \<and> ok2 \<and> ok3, st3)"
  using assms by (auto simp: bind_result_Inr_iff)

lemma analyze_keeps:
  "analyzeStatement d s st = Inr (ok, st') \<Longrightarrow> keeps_outer st st'"
  "analyzeStatements d ss st = Inr (ok, st') \<Longrightarrow> keeps_outer st st'"
  "analyzeBlock d B st = Inr (ok, sc, st') \<Longrightarrow> keeps st (ok, st')"
  "analyzeCases d cs seen st = Inr (ok, st') \<Longrightarrow> keeps st (ok, st')"
proof (induction d s st and d ss st and d B st and d cs seen st arbitrary: ok st' and ok st' and ok sc st' and ok st'
    rule: analyzeStatement_analyzeStatements_analyzeBlock_analyzeCases.induct)
  case (1 d l e st)
  from 1(1) obtain ok1 st1 where st1: "analyzeExpr d e st = Inr (ok1, st1)" "st' = st1 \<or> st' = reportError st1"
    by (auto simp: bind_result_Inr_iff split: if_splits)
  from analyzeExpr_keeps(1) [OF this(1)] this(2) show ?case by (auto simp: keeps_def keeps_outer_def)
next
  case (2 d l xs e st)
  from 2(1) obtain ok1 st1 where st1: "analyzeExpr d e st = Inr (ok1, st1)"
    "st' = reportError st1 \<or> (\<exists>ok'. checkAssignments xs st1 = Inr (ok', st'))"
    by (auto simp: bind_result_Inr_iff split: if_splits)
  from analyzeExpr_keeps(1) [OF this(1)] this(2) show ?case
    by (auto dest: checkAssignments_keeps simp: keeps_def keeps_outer_def)
next
  case (3 d l xs e st)
  from 3(1) obtain ok1 st1 k where st1: "analyzeExpr d e st = Inr (ok1, st1)"
    "st' = adjustHeight k (reportError st1) \<or> activateVariables d xs st1 = Inr st'"
    by (auto simp: bind_result_Inr_iff Let_def split: if_splits)
  from keeps_keeps_outer [OF analyzeExpr_keeps(1) [OF this(1)]] this(2) show ?case
    by (auto dest: activateVariables_keeps keeps_outer_trans simp: keeps_outer_def)
next
  case (4 d l xs st)
  then show ?case by (auto simp: bind_result_Inr_iff keeps_outer_def dest!: activateVariables_keeps)
next
  case (5 d l x ps rs B st)
  from 5(2) obtain st1 sc st2 where r: "activateVariables d (ps @ rs) (st\<lparr>an_scopes := functionScope (ps @ rs) # an_scopes st\<rparr>) = Inr st1"
    "analyzeBlock d B (st1\<lparr>an_height := int (length ps + length rs)\<rparr>) = Inr (ok, sc, st2)"
    "st' = st2\<lparr>an_height := an_height st, an_scopes := tl (an_scopes st2)\<rparr>"
    by (auto simp: bind_result_Inr_iff)
  from 5(1) [OF r(1,2)] activateVariables_keeps [OF r(1)] show ?case by (simp add: r(3) keeps_def keeps_outer_def)
next
  case (6 d l e B st)
  from 6(2) obtain ok1 st1 ok2 sc where r: "expectExpression d e st = Inr (ok1, st1)"
    "analyzeBlock d B (st1\<lparr>an_height := an_height st\<rparr>) = Inr (ok2, sc, st')"
    by (auto simp: bind_result_Inr_iff)
  from 6(1) [OF r(1) refl r(2)] expectExpression_keeps [OF r(1)] show ?case by (simp add: keeps_def keeps_outer_def)
next
  case (7 d l e cs st)
  from 7(2) obtain ok1 st1 ok2 st2 where r: "expectExpression d e st = Inr (ok1, st1)"
    "analyzeCases d cs {} (if flavour d = YulAsm \<and> caseTypesMismatch [] cs then reportError st1 else st1) = Inr (ok2, st2)"
    "st' = st2\<lparr>an_height := an_height st\<rparr>"
    by (auto simp: bind_result_Inr_iff Let_def)
  from 7(1) [OF r(1) refl refl r(2)] expectExpression_keeps [OF r(1)] show ?case
    by (auto simp: r(3) keeps_def keeps_outer_def split: if_splits)
next
  case (8 d l pre e post body st)
  from 8(4) obtain ok1 s st1 ok2 st2 ok3 s3 st3 ok4 s4 st4 where r: "analyzeBlock d pre st = Inr (ok1, s, st1)"
    "expectExpression d e (adjustHeight (int (numberOfVariables s)) (st1\<lparr>an_scopes := s # an_scopes st1\<rparr>)) = Inr (ok2, st2)"
    "analyzeBlock d body (adjustHeight (- 1) st2) = Inr (ok3, s3, st3)" "analyzeBlock d post st3 = Inr (ok4, s4, st4)"
    "(ok, st') = (ok1 \<and> ok2 \<and> ok3 \<and> ok4, st4\<lparr>an_height := an_height st, an_scopes := tl (an_scopes st4)\<rparr>)"
    by (rule forLoop_steps)
  from 8(1) [OF r(1)] expectExpression_keeps [OF r(2)] 8(2) [OF r(1) refl refl r(2) refl r(3)] 8(3) [OF r(1) refl refl r(2) refl r(3) refl refl r(4)] r(5)
  show ?case by (simp add: keeps_def keeps_outer_def)
next
  case (11 d B st)
  from 11(2) obtain s where "analyzeBlock d B st = Inr (ok, s, st')" by (auto simp: bind_result_Inr_iff)
  from keeps_keeps_outer [OF 11(1) [OF this]] show ?case .
next
  case (13 d s ss st)
  from 13(3) obtain ok1 st1 ok2 where r: "analyzeStatement d s st = Inr (ok1, st1)" "analyzeStatements d ss st1 = Inr (ok2, st')"
    by (auto simp: bind_result_Inr_iff)
  from keeps_outer_trans [OF 13(1) [OF r(1)] 13(2) [OF r(1) refl r(2)]] show ?case .
next
  case (14 d l ss st)
  from 14(2) obtain ok1 st1 where r: "analyzeStatements d ss (st\<lparr>an_scopes := blockScope (Block l ss) # an_scopes st\<rparr>) = Inr (ok1, st1)"
    "an_scopes st' = tl (an_scopes st1)" "an_errors st1 \<longrightarrow> an_errors st'"
    by (auto simp: bind_result_Inr_iff Let_def split: if_splits)
  from 14(1) [OF r(1)] r(2,3) show ?case by (simp add: keeps_def keeps_outer_def)
next
  case (16 d l val B cs seen st)
  from 16(3) obtain ok1 seen1 st1 ok2 s2 st2 ok3 st3 where r:
    "(case val of None \<Rightarrow> Inr (True, seen, st) | Some v \<Rightarrow> analyzeCaseValue d v seen st) = Inr (ok1, seen1, st1)"
    "analyzeBlock d B st1 = Inr (ok2, s2, st2)" "analyzeCases d cs seen1 st2 = Inr (ok3, st3)" "(ok, st') = (ok1 \<and> ok2 \<and> ok3, st3)"
    by (rule cases_steps)
  from r(1) have "keeps st (ok1, st1)" by (auto dest: analyzeCaseValue_keeps simp: keeps_def split: option.splits)
  with 16(1) [OF r(1) refl refl r(2)] 16(2) [OF r(1) refl refl r(2) refl refl r(3)] r(4) show ?case by (simp add: keeps_def)
qed (auto simp: keeps_outer_def keeps_def)

section \<open>What the scopes say\<close>

text \<open>The functions that are found are visible, with their numbers of parameters and results; the active variables are there.\<close>

definition scopes_describe :: "FunctionTable \<Rightarrow> YulString set \<Rightarrow> YulString set \<Rightarrow> scopes \<Rightarrow> bool" where
  "scopes_describe T F V scopes \<longleftrightarrow>
     (\<forall>x ps rs a. scope_lookup False x scopes = Some (ScopeFunction ps rs, a) \<longrightarrow>
        x \<in> F \<and> (\<exists>f. ft_definition T x = Some f \<and> length ps = length (fd_parameters f) \<and> length rs = length (fd_returnVariables f))) \<and>
     (\<forall>x t. scope_lookup False x scopes = Some (ScopeVariable t, True) \<longrightarrow> x \<in> V)"

lemma lookup_crossed: "scope_lookup True x scopes = Some (i, a) \<Longrightarrow> scope_lookup False x scopes = Some (i, a) \<and> \<not> isScopeVariable i"
proof -
  have "scope_lookup True x scopes = Some (i, a) \<Longrightarrow> (scope_lookup b x scopes = Some (i, a)) \<and> \<not> isScopeVariable i" for b
    by (induction scopes arbitrary: b) (auto split: option.splits if_splits)
  then show "scope_lookup True x scopes = Some (i, a) \<Longrightarrow> scope_lookup False x scopes = Some (i, a) \<and> \<not> isScopeVariable i" .
qed

lemma describe_activate:
  "scopes_describe T F V (s # scopes) \<Longrightarrow> scopes_describe T F (insert x V) (s\<lparr>sc_active := insert x (sc_active s)\<rparr> # scopes)"
  unfolding scopes_describe_def by (auto split: option.splits)

lemma describe_mono: "scopes_describe T F V scopes \<Longrightarrow> V \<subseteq> V' \<Longrightarrow> scopes_describe T F V' scopes"
  unfolding scopes_describe_def by blast

lemma activate_describe:
  "activateVariables d xs st = Inr st' \<Longrightarrow> scopes_describe T F V (an_scopes st) \<Longrightarrow>
    scopes_describe T F (V \<union> tn_name ` set xs) (an_scopes st')"
proof (induction d xs st arbitrary: st' V rule: activateVariables.induct)
  case (2 d x xs st)
  then obtain s scopes t where s: "an_scopes st = s # scopes" "map_of (sc_identifiers s) (tn_name x) = Some (ScopeVariable t)"
    "activateVariables d xs ((expectValidType d (tn_type x) st)
       \<lparr>an_scopes := s\<lparr>sc_active := insert (tn_name x) (sc_active s)\<rparr> # scopes\<rparr>) = Inr st'"
    by (auto simp: Let_def split: list.splits option.splits ScopeIdentifier.splits)
  from 2(1) [OF refl, of s scopes "ScopeVariable t" t, OF _ s(2) refl s(3), of "insert (tn_name x) V"] s(1) 2(3)
  show ?case using describe_activate [of T F V s scopes "tn_name x"] by simp
qed simp

text \<open>The identifiers of a block are its own variables and functions; none of the variables is active yet.\<close>

definition declares_only :: "FunctionDefinition set \<Rightarrow> Scope \<Rightarrow> bool" where
  "declares_only fs s \<longleftrightarrow> sc_active s = {} \<and> \<not> sc_functionScope s \<and>
     (\<forall>x ps rs. (x, ScopeFunction ps rs) \<in> set (sc_identifiers s) \<longrightarrow>
        (\<exists>f \<in> fs. fd_name f = x \<and> length ps = length (fd_parameters f) \<and> length rs = length (fd_returnVariables f)))"

lemma registerVariable_head:
  "snd (registerVariable x (s # scopes)) = s # scopes \<or>
   snd (registerVariable x (s # scopes)) = s\<lparr>sc_identifiers := (tn_name x, ScopeVariable (tn_type x)) # sc_identifiers s\<rparr> # scopes"
  by (simp add: registerVariable_def)

lemma registerVariables_declares:
  "declares_only fs s \<Longrightarrow> \<exists>s'. snd (registerVariables xs (s # scopes)) = s' # scopes \<and> declares_only fs s'"
proof (induction xs arbitrary: s)
  case (Cons x xs)
  obtain ok s1 where s1: "registerVariable x (s # scopes) = (ok, s1 # scopes)" "declares_only fs s1"
    using registerVariable_head [of x s scopes] Cons.prems
    by (cases "registerVariable x (s # scopes)") (auto simp: declares_only_def)
  with Cons.IH [OF s1(2)] show ?case by auto
qed simp

lemma fill_functions_declares:
  "declares_only fs s \<Longrightarrow> set (definedFunctions ss) \<subseteq> fs \<Longrightarrow> \<exists>s'. snd (fill_functions ss (s # scopes)) = s' # scopes \<and> declares_only fs s'"
proof (induction ss arbitrary: s rule: definedFunctions.induct)
  case (2 f ss)
  have "\<exists>s1. snd (registerFunction f (s # scopes)) = s1 # scopes \<and> declares_only fs s1"
    using 2(2,3) by (cases "scope_exists (fd_name f) (s # scopes)") (auto simp: registerFunction_def declares_only_def)
  then obtain ok s1 where s1: "registerFunction f (s # scopes) = (ok, s1 # scopes)" "declares_only fs s1"
    by (metis prod.collapse)
  with 2(1) [OF s1(2)] 2(3) show ?case by (auto split: prod.splits)
qed auto

lemma fill_statements_declares:
  "declares_only fs s \<Longrightarrow> \<exists>s'. snd (fill_statements (s # scopes) ss) = s' # scopes \<and> declares_only fs s'"
proof (induction ss arbitrary: s)
  case (Cons t ss)
  have "\<exists>s'. snd (fill_statement (s # scopes) t) = s' # scopes \<and> declares_only fs s'"
    using registerVariables_declares [OF Cons.prems] Cons.prems
  proof (cases t)
    case (FunctionStatement f)
    with Cons.prems show ?thesis by (cases f) (auto split: prod.splits)
  qed (auto split: prod.splits)
  then obtain ok s1 where "fill_statement (s # scopes) t = (ok, s1 # scopes)" "declares_only fs s1" by (metis prod.collapse)
  with Cons.IH [of s1] show ?case by (auto split: prod.splits)
qed simp

lemma blockScope_declares: "declares_only (set (definedFunctions ss)) (blockScope (Block l ss))"
proof -
  have "declares_only (set (definedFunctions ss)) (emptyScope False)" by (simp add: declares_only_def emptyScope_def)
  from fill_functions_declares [OF this subset_refl, of "[]"] obtain ok s1 where
    s1: "fill_functions ss [emptyScope False] = (ok, [s1])" "declares_only (set (definedFunctions ss)) s1" by (metis prod.collapse)
  from fill_statements_declares [OF this(2), of "[]" ss] obtain ok' s2 where
    "fill_statements [s1] ss = (ok', [s2])" "declares_only (set (definedFunctions ss)) s2" by (metis prod.collapse)
  with s1 show ?thesis by (simp add: blockScope_def)
qed

lemma describe_block:
  assumes "scopes_describe T F V scopes" "\<forall>f \<in> set (definedFunctions ss). ft_definition T (fd_name f) = Some f"
  shows "scopes_describe T (F \<union> functionNames ss) V (blockScope (Block l ss) # scopes)"
  using assms blockScope_declares [of ss l] unfolding scopes_describe_def declares_only_def
  by (fastforce split: option.splits dest: map_of_SomeD)


lemma registerEach_variables:
  "\<forall>i \<in> snd ` set (sc_identifiers s). isScopeVariable i \<Longrightarrow> sc_active s = {} \<Longrightarrow> sc_functionScope s \<Longrightarrow>
    \<exists>s'. snd (registerEach xs (s # scopes)) = s' # scopes \<and> (\<forall>i \<in> snd ` set (sc_identifiers s'). isScopeVariable i) \<and>
      sc_active s' = {} \<and> sc_functionScope s'"
proof (induction xs arbitrary: s)
  case (Cons x xs)
  obtain ok s1 where s1: "registerVariable x (s # scopes) = (ok, s1 # scopes)"
    "\<forall>i \<in> snd ` set (sc_identifiers s1). isScopeVariable i" "sc_active s1 = {}" "sc_functionScope s1"
    using registerVariable_head [of x s scopes] Cons.prems
    by (cases "registerVariable x (s # scopes)") auto
  with Cons.IH [OF s1(2-4)] show ?case by (auto split: prod.splits)
qed auto

lemma describe_function:
  assumes "scopes_describe T F V scopes"
  shows "scopes_describe T F {} (functionScope xs # scopes)"
proof -
  have "\<forall>i \<in> snd ` set (sc_identifiers (emptyScope True)). isScopeVariable i" "sc_active (emptyScope True) = {}"
    "sc_functionScope (emptyScope True)" by (simp_all add: emptyScope_def)
  from registerEach_variables [OF this, of xs "[]"] obtain s where
    s: "functionScope xs = s" "\<forall>i \<in> snd ` set (sc_identifiers s). isScopeVariable i" "sc_active s = {}" "sc_functionScope s"
    by (auto simp: functionScope_def)
  have vars: "isScopeVariable i" if "map_of (sc_identifiers s) x = Some i" for x i
    using s(2) map_of_SomeD [OF that] by force
  show ?thesis unfolding scopes_describe_def s(1)
  proof (intro conjI allI impI)
    fix x ps rs a assume "scope_lookup False x (s # scopes) = Some (ScopeFunction ps rs, a)"
    then have "scope_lookup True x scopes = Some (ScopeFunction ps rs, a)"
      using vars [of x "ScopeFunction ps rs"] s(4) by (auto split: option.splits)
    from lookup_crossed [OF this] assms show "x \<in> F" "\<exists>f. ft_definition T x = Some f \<and>
      length ps = length (fd_parameters f) \<and> length rs = length (fd_returnVariables f)"
      unfolding scopes_describe_def by blast+
  next
    fix x t assume "scope_lookup False x (s # scopes) = Some (ScopeVariable t, True)"
    then have "scope_lookup True x scopes = Some (ScopeVariable t, True)"
      using s(3,4) by (auto split: option.splits)
    from lookup_crossed [OF this] show "x \<in> {}" by simp
  qed
qed

section \<open>Expressions\<close>

lemma info_ret_nonneg: "0 \<le> info_ret (instructionInfo i)"
proof -
  have "list_all (\<lambda>(i, info). 0 \<le> info_ret info) c_instructionInfo" by code_simp
  then show ?thesis by (rule instructionInfo_all) (simp add: instructionInfo_def InstructionInfo.defs)
qed

lemma analyzeLiteral_height: "analyzeLiteral d l st = Inr (True, st') \<Longrightarrow> an_height st' = an_height st + 1"
  by (auto simp: analyzeLiteral_def Let_def split: if_splits)

lemma callee_describes:
  assumes "callee d x scopes = Some (n, k, literals)" "scopes_describe T F V scopes" "id_name f = x"
    "length args = n" "\<forall>e \<in> set args. valueCount d T F V e = Some 1"
  shows "valueCount d T F V (FunctionCall l f args) = Some k"
  using assms unfolding callee_def scopes_describe_def
  by (fastforce split: option.splits ScopeIdentifier.splits)

lemma expressions_typed:
  "analyzeExpr d e st = Inr (True, st') \<Longrightarrow> \<not> an_errors st' \<Longrightarrow> scopes_describe T F V (an_scopes st) \<Longrightarrow>
     \<exists>k. valueCount d T F V e = Some k \<and> an_height st' = an_height st + int k"
  "analyzeArgs d literals es st = Inr (True, st') \<Longrightarrow> \<not> an_errors st' \<Longrightarrow> scopes_describe T F V (an_scopes st) \<Longrightarrow>
     (\<forall>e \<in> set es. valueCount d T F V e = Some 1) \<and> an_height st' = an_height st + int (length es)"
proof (induction d e st and d literals es st arbitrary: st' and st' rule: analyzeExpr_analyzeArgs.induct)
  case (1 d l st)
  then show ?case by (auto dest: analyzeLiteral_height)
next
  case (2 d i st)
  then show ?case by (auto simp: analyzeIdentifier_def scopes_describe_def split: option.splits ScopeIdentifier.splits if_splits)
next
  case (3 d l i args st)
  from 3(2) obtain st1 where r: "analyzeArgs d False args st = Inr (True, st1)" "info_args (instructionInfo i) = int (length args)"
    "warnOnInstructions d i (adjustHeight (info_ret (instructionInfo i) - info_args (instructionInfo i)) st1) = Inr st'"
    and d: "flavour d \<noteq> YulAsm"
    by (auto simp: bind_result_Inr_iff split: if_splits)
  from warnOnInstructions_keeps [OF r(3)] 3(3) have "\<not> an_errors st1"
    "an_height st' = an_height st1 + info_ret (instructionInfo i) - info_args (instructionInfo i)" by auto
  with 3(1) [OF r(1) _ 3(4)] r(2) info_ret_nonneg [of i] show ?case by auto
next
  case (4 d l f args st)
  obtain ok k literals st1 where c: "(case callee d (id_name f) (an_scopes st) of None \<Rightarrow> (False, 0, False, reportError st)
    | Some (params, rets, literals) \<Rightarrow> if length args \<noteq> params then (False, rets, literals, reportError st) else (True, rets, literals, st)) =
      (ok, k, literals, st1)" by (rule prod_cases4)
  obtain st2 where r: "analyzeArgs d literals args st1 = Inr (True, st2)" "st' = adjustHeight (int k - int (length args)) st2" and ok
    using 4(2) by (auto simp: c bind_result_Inr_iff)
  from c \<open>ok\<close> have callee: "callee d (id_name f) (an_scopes st) = Some (length args, k, literals)" and st1: "st1 = st"
    by (auto split: option.splits if_splits)
  have "(\<forall>e \<in> set args. valueCount d T F V e = Some 1) \<and> an_height st2 = an_height st1 + int (length args)"
    by (rule 4(1) [OF c [symmetric] refl refl r(1)]) (use 4(3,4) r(2) st1 in auto)
  with callee_describes [OF callee 4(4) refl refl] st1 show ?case by (auto simp: r(2) simp del: valueCount.simps)
next
  case (6 d literals e es st)
  obtain st1 st2 where r: "analyzeArgs d literals es st = Inr (True, st1)" "expectOne st1 (analyzeExpr d e st1) = Inr (True, st2)"
    "an_errors st2 \<longrightarrow> an_errors st'" "an_height st' = an_height st2"
    using 6(3) by (auto simp: bind_result_Inr_iff split: if_splits)
  obtain st3 where e: "analyzeExpr d e st1 = Inr (True, st3)" "st2 = st3" "an_height st3 = an_height st1 + 1"
    using r(2) by (elim expectOne_cases) auto
  have errors: "\<not> an_errors st3" "\<not> an_errors st1" "an_scopes st1 = an_scopes st"
    using 6(4) r(3) analyzeExpr_keeps(1) [OF e(1)] analyzeExpr_keeps(2) [OF r(1)] by (auto simp: keeps_def e(2))
  have "\<exists>k. valueCount d T F V e = Some k \<and> an_height st3 = an_height st1 + int k"
    by (rule 6(2) [OF r(1) refl e(1) errors(1)]) (use 6(5) errors in simp)
  moreover have "(\<forall>e \<in> set es. valueCount d T F V e = Some 1) \<and> an_height st1 = an_height st + int (length es)"
    by (rule 6(1) [OF r(1) errors(2) 6(5)])
  ultimately show ?case using e(2,3) r(4) by auto
qed simp

lemma expectExpression_typed:
  assumes "expectExpression d e st = Inr (True, st')" "\<not> an_errors st'" "scopes_describe T F V (an_scopes st)"
  shows "valueCount d T F V e = Some 1"
proof -
  obtain st1 where "analyzeExpr d e st = Inr (True, st1)" "st' = st1" "an_height st1 = an_height st + 1"
    using assms(1) unfolding expectExpression_def by (elim expectOne_cases) auto
  with expressions_typed(1) [OF this(1) _ assms(3)] assms(2) show ?thesis by auto
qed

lemma checkAssignments_typed:
  "checkAssignments xs st = Inr (True, st') \<Longrightarrow> scopes_describe T F V (an_scopes st) \<Longrightarrow> id_name ` set xs \<subseteq> V"
proof (induction xs arbitrary: st)
  case (Cons x xs)
  then obtain st1 where r: "checkAssignment x st = Inr (True, st1)" "checkAssignments xs st1 = Inr (True, st')"
    by (auto simp: bind_result_Inr_iff)
  have "an_scopes st1 = an_scopes st \<and> id_name x \<in> V" using r(1) Cons.prems(2)
    by (auto simp: checkAssignment_def scopes_describe_def split: option.splits prod.splits ScopeIdentifier.splits bool.splits)
  with Cons.IH [OF r(2)] Cons.prems(2) show ?case by simp
qed simp

section \<open>Statements\<close>

text \<open>The names in a part of the program are new, and its functions are the ones of the table.\<close>

definition new_names :: "FunctionTable \<Rightarrow> YulString set \<Rightarrow> YulString set \<Rightarrow> YulString list \<Rightarrow> function_entry list \<Rightarrow> bool" where
  "new_names T F V vars entries \<longleftrightarrow> newVariables T V vars \<and> closed_under T F \<and> describes T entries \<and>
     distinct (map fst entries) \<and> F \<inter> fst ` set entries = {}"

lemma describes_append [simp]: "describes T (xs @ ys) \<longleftrightarrow> describes T xs \<and> describes T ys"
  by (simp add: describes_def ball_Un)

lemma new_names_append:
  assumes "new_names T F V (vars @ vars') (entries @ entries')"
  shows "new_names T F V vars entries" "V' \<subseteq> V \<union> set vars \<Longrightarrow> new_names T F V' vars' entries'"
  using assms by (auto simp: new_names_def newVariables_def describes_def)

lemma new_names_function:
  assumes "new_names T F V (xs @ vars) entries"
  shows "set xs \<inter> dom (ft_definition T) = {}" "new_names T F (set xs) vars entries"
  using assms by (auto simp: new_names_def newVariables_def)

lemma new_names_block:
  assumes "new_names T F V (variableNamesBlock (Block l ss)) (blockFunctions F (Block l ss))"
  shows "new_names T (F \<union> functionNames ss) V (concat (map variableNames ss))
      (concat (map (innerFunctions (F \<union> functionNames ss)) ss))"
    "F \<inter> functionNames ss = {}"
    "\<forall>f \<in> set (definedFunctions ss). ft_definition T (fd_name f) = Some f \<and> ft_visible T (fd_name f) = F \<union> functionNames ss"
proof -
  show F: "F \<inter> functionNames ss = {}" using assms by (auto simp: new_names_def image_Un image_image)
  show fs: "\<forall>f \<in> set (definedFunctions ss). ft_definition T (fd_name f) = Some f \<and> ft_visible T (fd_name f) = F \<union> functionNames ss"
    using assms by (simp add: new_names_def) (simp add: describes_def)
  have "closed_under T (F \<union> functionNames ss)"
    using assms fs by (auto simp: new_names_def closed_under_def)
  then show "new_names T (F \<union> functionNames ss) V (concat (map variableNames ss))
      (concat (map (innerFunctions (F \<union> functionNames ss)) ss))"
    using assms by (simp add: new_names_def image_Un Int_Un_distrib Int_Un_distrib2 image_image)
qed

lemma declared_names: "set (declaredVariables s) \<subseteq> set (variableNames s)"
  by (cases s) auto

lemma declaredIn_names: "declaredIn ss \<subseteq> set (variableNamesBlock (Block l ss))"
  using declared_names by fastforce

lemma bodies_ok_append [simp]: "bodies_ok d T (xs @ ys) \<longleftrightarrow> bodies_ok d T xs \<and> bodies_ok d T ys"
  by (simp add: bodies_ok_def ball_Un)

lemma bodies_ok_Nil [simp]: "bodies_ok d T []"
  by (simp add: bodies_ok_def)

lemma own_functions: "set (concat (map (statementFunctions F) ss)) =
    set (map (\<lambda>f. (fd_name f, f, F)) (definedFunctions ss)) \<union> set (concat (map (innerFunctions F) ss))"
  by (induction ss rule: definedFunctions.induct) (auto simp: statementFunctions_def)

lemma bodies_ok_block:
  "bodies_ok d T (concat (map (statementFunctions (F \<union> functionNames ss)) ss)) \<Longrightarrow> bodies_ok d T (blockFunctions F (Block l ss))"
  unfolding bodies_ok_def own_functions by auto

abbreviation parsed_statement :: "Statement \<Rightarrow> bool" where
  "parsed_statement s \<equiv> parsed s \<and> (\<forall>B \<in> sub_blocks s. all_statements parsed B)"

lemma statements_typed:
  "analyzeStatement d s st = Inr (True, st') \<Longrightarrow> \<not> an_errors st' \<Longrightarrow> scopes_describe T F V (an_scopes st) \<Longrightarrow>
     new_names T F V (variableNames s) (innerFunctions F s) \<Longrightarrow> parsed_statement s \<Longrightarrow>
     wt_statement d T F V s \<and> bodies_ok d T (statementFunctions F s) \<and>
     scopes_describe T F (V \<union> set (declaredVariables s)) (an_scopes st')"
  "analyzeStatements d ss st = Inr (True, st') \<Longrightarrow> \<not> an_errors st' \<Longrightarrow> scopes_describe T F V (an_scopes st) \<Longrightarrow>
     new_names T F V (concat (map variableNames ss)) (concat (map (innerFunctions F) ss)) \<Longrightarrow> \<forall>s \<in> set ss. parsed_statement s \<Longrightarrow>
     wt_statements d T F V ss \<and> bodies_ok d T (concat (map (statementFunctions F) ss)) \<and>
     scopes_describe T F (V \<union> declaredIn ss) (an_scopes st')"
  "analyzeBlock d B st = Inr (True, sc, st') \<Longrightarrow> \<not> an_errors st' \<Longrightarrow> scopes_describe T F V (an_scopes st) \<Longrightarrow>
     new_names T F V (variableNamesBlock B) (blockFunctions F B) \<Longrightarrow> all_statements parsed B \<Longrightarrow>
     wt_block d T F V B \<and> bodies_ok d T (blockFunctions F B) \<and>
     scopes_describe T (F \<union> functionNames (statements B)) (V \<union> declaredIn (statements B)) (sc # an_scopes st)"
  "analyzeCases d cs seen st = Inr (True, st') \<Longrightarrow> \<not> an_errors st' \<Longrightarrow> scopes_describe T F V (an_scopes st) \<Longrightarrow>
     new_names T F V (concat (map variableNamesCase cs)) (concat (map (caseFunctions F) cs)) \<Longrightarrow>
     \<forall>c \<in> set cs. all_statements parsed (case_body c) \<Longrightarrow>
     (\<forall>c \<in> set cs. wt_case d T F V c) \<and> bodies_ok d T (concat (map (caseFunctions F) cs))"
proof (induction d s st and d ss st and d B st and d cs seen st arbitrary: st' F V and st' F V and sc st' F V and st' F V
    rule: analyzeStatement_analyzeStatements_analyzeBlock_analyzeCases.induct)
  case (1 d l e st)
  then have st1: "analyzeExpr d e st = Inr (True, st')" by (auto simp: bind_result_Inr_iff split: if_splits)
  from expressions_typed(1) [OF this 1(2,3)] analyzeExpr_keeps(1) [OF st1] 1(3,5) show ?case
    by (auto simp: statementFunctions_def keeps_def)
next
  case (2 d l xs e st)
  then obtain st1 where r: "analyzeExpr d e st = Inr (True, st1)" "xs \<noteq> []" "an_height st1 - an_height st = int (length xs)"
    "checkAssignments xs st1 = Inr (True, st')" by (auto simp: bind_result_Inr_iff split: if_splits)
  have k: "\<not> an_errors st1" "an_scopes st1 = an_scopes st" "an_scopes st' = an_scopes st"
    using analyzeExpr_keeps(1) [OF r(1)] checkAssignments_keeps [OF r(4)] 2(2) by (auto simp: keeps_def)
  from expressions_typed(1) [OF r(1) k(1) 2(3)] checkAssignments_typed [OF r(4), of T F V] r(2,3) k 2(3,5) show ?case
    by (auto simp: statementFunctions_def)
next
  case (3 d l xs e st)
  then obtain st1 where r: "analyzeExpr d e st = Inr (True, st1)" "an_height st1 - an_height st = int (length xs)"
    "activateVariables d xs st1 = Inr st'" by (auto simp: bind_result_Inr_iff Let_def split: if_splits)
  have k: "\<not> an_errors st1" "an_scopes st1 = an_scopes st"
    using analyzeExpr_keeps(1) [OF r(1)] activateVariables_keeps [OF r(3)] 3(2) by (auto simp: keeps_def keeps_outer_def)
  from expressions_typed(1) [OF r(1) k(1) 3(3)] activate_describe [OF r(3), of T F V] r(2) k 3(3,4,5) show ?case
    by (auto simp: statementFunctions_def new_names_def)
next
  case (4 d l xs st)
  then have r: "activateVariables d xs (adjustHeight (int (length xs)) st) = Inr st'" by (auto simp: bind_result_Inr_iff)
  from activate_describe [OF r, of T F V] 4(3,4) show ?case by (auto simp: statementFunctions_def new_names_def)
next
  case (5 d l x ps rs B st)
  let ?f = "FunctionDefinition l x ps rs B"
  from 5(2) obtain st1 sc st2 where r: "activateVariables d (ps @ rs) (st\<lparr>an_scopes := functionScope (ps @ rs) # an_scopes st\<rparr>) = Inr st1"
    "analyzeBlock d B (st1\<lparr>an_height := int (length ps + length rs)\<rparr>) = Inr (True, sc, st2)"
    "st' = st2\<lparr>an_height := an_height st, an_scopes := tl (an_scopes st2)\<rparr>"
    by (auto simp: bind_result_Inr_iff)
  have names: "new_names T F V (map tn_name (ps @ rs) @ variableNamesBlock B) (blockFunctions F B)" using 5(5) by simp
  have s1: "scopes_describe T F (functionVariables ?f) (an_scopes st1)"
    using activate_describe [OF r(1), of T F "{}"] describe_function [OF 5(4)] by (simp add: image_Un)
  have "wt_block d T F (functionVariables ?f) B \<and> bodies_ok d T (blockFunctions F B)"
    using 5(1) [OF r(1,2), of F "functionVariables ?f"] s1 5(3,6) r(3) new_names_function(2) [OF names]
    by (simp add: image_Un)
  moreover have "an_scopes st' = an_scopes st"
    using analyze_keeps(3) [OF r(2)] activateVariables_keeps [OF r(1)] by (auto simp: r(3) keeps_def keeps_outer_def)
  moreover have "functionVariables ?f \<inter> dom (ft_definition T) = {}" "closed_under T F"
    using new_names_function(1) [OF names] 5(5) by (simp_all add: image_Un new_names_def)
  ultimately show ?case using 5(4) by (simp add: statementFunctions_def bodies_ok_def)
next
  case (6 d l e B st)
  from 6(2) obtain st1 sc where r: "expectExpression d e st = Inr (True, st1)"
    "analyzeBlock d B (st1\<lparr>an_height := an_height st\<rparr>) = Inr (True, sc, st')"
    by (auto simp: bind_result_Inr_iff)
  have k: "\<not> an_errors st1" "an_scopes st1 = an_scopes st" "an_scopes st' = an_scopes st"
    using expectExpression_keeps [OF r(1)] analyze_keeps(3) [OF r(2)] 6(3) by (auto simp: keeps_def)
  have "wt_block d T F V B \<and> bodies_ok d T (blockFunctions F B)"
    using 6(1) [OF r(1) refl r(2) 6(3), of F V] k 6(4,5,6) by simp
  with expectExpression_typed [OF r(1) k(1) 6(4)] k 6(4,6) show ?case by (simp add: statementFunctions_def)
next
  case (7 d l e cs st)
  from 7(2) obtain st1 st2 where r: "expectExpression d e st = Inr (True, st1)"
    "analyzeCases d cs {} (if flavour d = YulAsm \<and> caseTypesMismatch [] cs then reportError st1 else st1) = Inr (True, st2)"
    "st' = st2\<lparr>an_height := an_height st\<rparr>"
    by (auto simp: bind_result_Inr_iff Let_def)
  have k: "\<not> an_errors st1" "an_scopes st1 = an_scopes st" "an_scopes st' = an_scopes st" "\<not> an_errors st2"
    using expectExpression_keeps [OF r(1)] analyze_keeps(4) [OF r(2)] 7(3) by (auto simp: keeps_def r(3) split: if_splits)
  have "(\<forall>c \<in> set cs. wt_case d T F V c) \<and> bodies_ok d T (concat (map (caseFunctions F) cs))"
    using 7(1) [OF r(1) refl refl r(2) k(4), of F V] k(2) 7(4,5,6) by auto
  with expectExpression_typed [OF r(1) k(1) 7(4)] k 7(4,6) show ?case by (simp add: statementFunctions_def)
next
  case (8 d l pre e post body st)
  obtain lp ss where pre: "pre = Block lp ss" by (cases pre)
  from 8(4) obtain ok1 s st1 ok2 st2 ok3 s3 st3 ok4 s4 st4 where r: "analyzeBlock d pre st = Inr (ok1, s, st1)"
    "expectExpression d e (adjustHeight (int (numberOfVariables s)) (st1\<lparr>an_scopes := s # an_scopes st1\<rparr>)) = Inr (ok2, st2)"
    "analyzeBlock d body (adjustHeight (- 1) st2) = Inr (ok3, s3, st3)" "analyzeBlock d post st3 = Inr (ok4, s4, st4)"
    "(True, st') = (ok1 \<and> ok2 \<and> ok3 \<and> ok4, st4\<lparr>an_height := an_height st, an_scopes := tl (an_scopes st4)\<rparr>)"
    by (rule forLoop_steps)
  from r(5) have ok: "ok1" "ok2" "ok3" "ok4" and st': "st' = st4\<lparr>an_height := an_height st, an_scopes := tl (an_scopes st4)\<rparr>" by auto
  have k: "an_scopes st1 = an_scopes st" "an_scopes st2 = s # an_scopes st" "an_scopes st3 = s # an_scopes st" "an_scopes st4 = s # an_scopes st"
    "\<not> an_errors st1" "\<not> an_errors st2" "\<not> an_errors st3" "\<not> an_errors st4"
    using analyze_keeps(3) [OF r(1)] expectExpression_keeps [OF r(2)] analyze_keeps(3) [OF r(3)] analyze_keeps(3) [OF r(4)] 8(5)
    by (auto simp: keeps_def st')
  have names: "new_names T F V (variableNamesBlock pre @ variableNamesBlock body @ variableNamesBlock post)
      (blockFunctions F pre @ blockFunctions F body @ blockFunctions F post)" using 8(7) by simp
  have parsed: "definedFunctions ss = []" "plainExpression e" "all_statements parsed pre" "all_statements parsed body" "all_statements parsed post"
    using 8(8) pre by auto
  let ?V = "V \<union> declaredIn ss"
  have b1: "wt_block d T F V pre \<and> bodies_ok d T (blockFunctions F pre) \<and> scopes_describe T F ?V (s # an_scopes st)"
    using 8(1) [OF _ k(5) 8(6) new_names_append(1) [OF names] parsed(3)] r(1) ok parsed(1) pre by simp
  have sub: "?V \<subseteq> V \<union> set (variableNamesBlock pre)" using declaredIn_names [of ss lp] pre by blast
  note names' = new_names_append(2) [OF names sub]
  have names2: "new_names T F ?V (variableNamesBlock body) (blockFunctions F body)" by (rule new_names_append(1) [OF names'])
  have names3: "new_names T F ?V (variableNamesBlock post) (blockFunctions F post)" by (rule new_names_append(2) [OF names']) blast
  have b2: "wt_block d T F ?V body \<and> bodies_ok d T (blockFunctions F body)"
    using 8(2) [OF r(1) refl refl r(2) refl _ k(7) _ names2 parsed(4)] r(3) ok b1 k(2) by simp
  have b3: "wt_block d T F ?V post \<and> bodies_ok d T (blockFunctions F post)"
    using 8(3) [OF r(1) refl refl r(2) refl r(3) refl refl _ k(8) _ names3 parsed(5)] r(4) ok b1 k(3) by simp
  have b0: "valueCount d T F ?V e = Some 1"
    by (rule expectExpression_typed) (use r(2) ok k(1,6) b1 in auto)
  show ?case using b0 b1 b2 b3 parsed 8(6) k(4) by (simp add: pre statementFunctions_def st')
next
  case (11 d B st)
  then obtain sc where r: "analyzeBlock d B st = Inr (True, sc, st')" by (auto simp: bind_result_Inr_iff)
  from 11(1) [OF r 11(3,4)] analyze_keeps(3) [OF r] 11(4,5,6) show ?case by (simp add: statementFunctions_def keeps_def)
next
  case (13 d s ss st)
  from 13(3) obtain st1 where r: "analyzeStatement d s st = Inr (True, st1)" "analyzeStatements d ss st1 = Inr (True, st')"
    by (auto simp: bind_result_Inr_iff)
  have k: "\<not> an_errors st1" using analyze_keeps(2) [OF r(2)] 13(4) by (auto simp: keeps_outer_def)
  have names: "new_names T F V (variableNames s @ concat (map variableNames ss)) (innerFunctions F s @ concat (map (innerFunctions F) ss))"
    using 13(6) by simp
  have a: "wt_statement d T F V s \<and> bodies_ok d T (statementFunctions F s) \<and>
     scopes_describe T F (V \<union> set (declaredVariables s)) (an_scopes st1)"
    using 13(1) [OF r(1) k 13(5) new_names_append(1) [OF names]] 13(7) by simp
  then have "wt_statements d T F (V \<union> set (declaredVariables s)) ss \<and> bodies_ok d T (concat (map (statementFunctions F) ss)) \<and>
     scopes_describe T F (V \<union> set (declaredVariables s) \<union> declaredIn ss) (an_scopes st')"
    using 13(2) [OF r(1) refl r(2) 13(4) _ new_names_append(2) [OF names]] declared_names [of s] 13(7) by auto
  with a show ?case by (simp add: Un_assoc)
next
  case (14 d l ss st)
  from 14(2) obtain st1 where r: "analyzeStatements d ss (st\<lparr>an_scopes := blockScope (Block l ss) # an_scopes st\<rparr>) = Inr (True, st1)"
    "sc = hd (an_scopes st1)" "an_scopes st' = tl (an_scopes st1)" "an_errors st1 \<longrightarrow> an_errors st'"
    by (auto simp: bind_result_Inr_iff Let_def split: if_splits)
  have s1: "an_scopes st1 = sc # an_scopes st"
    using analyze_keeps(2) [OF r(1)] r(2) by (cases "an_scopes st1") (auto simp: keeps_outer_def)
  note names = new_names_block [OF 14(5)]
  have "scopes_describe T (F \<union> functionNames ss) V (blockScope (Block l ss) # an_scopes st)"
    using describe_block [OF 14(4)] names(3) by simp
  then have "wt_statements d T (F \<union> functionNames ss) V ss \<and> bodies_ok d T (concat (map (statementFunctions (F \<union> functionNames ss)) ss)) \<and>
     scopes_describe T (F \<union> functionNames ss) (V \<union> declaredIn ss) (an_scopes st1)"
    using 14(1) [OF r(1) _ _ names(1)] 14(3,6) r(4) by auto
  with names(2,3) s1 bodies_ok_block show ?case by simp
next
  case (16 d l val B cs seen st)
  from 16(3) obtain ok1 seen1 st1 ok2 s2 st2 ok3 st3 where r:
    "(case val of None \<Rightarrow> Inr (True, seen, st) | Some v \<Rightarrow> analyzeCaseValue d v seen st) = Inr (ok1, seen1, st1)"
    "analyzeBlock d B st1 = Inr (ok2, s2, st2)" "analyzeCases d cs seen1 st2 = Inr (ok3, st3)" "(True, st') = (ok1 \<and> ok2 \<and> ok3, st3)"
    by (rule cases_steps)
  from r(4) have ok: ok1 ok2 ok3 and st': "st' = st3" by auto
  have "keeps st (ok1, st1)" using r(1) by (auto dest: analyzeCaseValue_keeps simp: keeps_def split: option.splits)
  with analyze_keeps(3) [OF r(2)] analyze_keeps(4) [OF r(3)] 16(4) have
    k: "an_scopes st1 = an_scopes st" "an_scopes st2 = an_scopes st" "\<not> an_errors st2"
    by (auto simp: keeps_def st')
  have names: "new_names T F V (variableNamesBlock B @ concat (map variableNamesCase cs))
      (blockFunctions F B @ concat (map (caseFunctions F) cs))" using 16(6) by simp
  have "wt_block d T F V B \<and> bodies_ok d T (blockFunctions F B)"
    using 16(1) [OF r(1) refl refl _ k(3) _ new_names_append(1) [OF names]] r(2) ok k(1) 16(5,7) by simp
  moreover have "(\<forall>c \<in> set cs. wt_case d T F V c) \<and> bodies_ok d T (concat (map (caseFunctions F) cs))"
    using 16(2) [OF r(1) refl refl r(2) refl refl _ _ _ new_names_append(2) [OF names]] r(3) ok k(2) 16(4,5,7) st' by simp
  ultimately show ?case by simp
qed (auto simp: statementFunctions_def bind_result_Inr_iff)

section \<open>Programs\<close>

lemma table_domain: "dom (ft_definition (programTable B)) = fst ` set (blockFunctions {} B)"
  by (auto simp: programTable_def Let_def dom_map_of_conv_image_fst image_image case_prod_beta)

lemma table_describes:
  assumes "distinct (map fst (blockFunctions {} B))"
  shows "describes (programTable B) (blockFunctions {} B)"
proof -
  have "ft_definition (programTable B) x = Some f \<and> ft_visible (programTable B) x = F"
    if mem: "(x, f, F) \<in> set (blockFunctions {} B)" for x f F
  proof -
    have "map_of (blockFunctions {} B) x = Some (f, F)" by (rule map_of_is_SomeI [OF assms mem])
    then have visible: "ft_visible (programTable B) x = F" by (simp add: programTable_def Let_def)
    have names: "map fst (map (\<lambda>(x, f, F). (x, f)) (blockFunctions {} B)) = map fst (blockFunctions {} B)"
      by (simp add: comp_def case_prod_beta)
    have "map_of (map (\<lambda>(x, f, F). (x, f)) (blockFunctions {} B)) x = Some f"
      by (rule map_of_is_SomeI, unfold names, rule assms) (use mem in force)
    then show ?thesis using visible by (simp add: programTable_def Let_def)
  qed
  then show ?thesis by (auto simp: describes_def)
qed

lemma table_typed:
  assumes "distinct (map fst (blockFunctions {} B))" "bodies_ok d (programTable B) (blockFunctions {} B)"
  shows "wt_table d (programTable B)"
  unfolding wt_table_def
proof (intro allI impI)
  fix x f assume f: "ft_definition (programTable B) x = Some f"
  then have "(x, f) \<in> set (map (\<lambda>(x, f, F). (x, f)) (blockFunctions {} B))"
    by (auto simp: programTable_def Let_def dest: map_of_SomeD)
  then obtain F where F: "(x, f, F) \<in> set (blockFunctions {} B)" by auto
  with table_describes [OF assms(1)] have "ft_visible (programTable B) x = F" by (auto simp: describes_def)
  with bspec [OF assms(2) [unfolded bodies_ok_def] F] show "fd_name f = x \<and> closed_under (programTable B) (ft_visible (programTable B) x) \<and>
      functionVariables f \<inter> dom (ft_definition (programTable B)) = {} \<and>
      wt_block d (programTable B) (ft_visible (programTable B) x) (functionVariables f) (fd_body f)"
    by simp
qed

lemma analysis_typed:
  assumes "analyze d B = Inr True" "all_statements parsed B" "distinct (variableNamesBlock B @ map fst (blockFunctions {} B))"
  shows "wt_table d (programTable B) \<and> wt_block d (programTable B) {} {} B"
proof -
  let ?st = "\<lparr>an_height = 0, an_errors = False, an_scopes = [emptyScope False]\<rparr>"
  obtain sc st where run: "analyzeBlock d B ?st = Inr (True, sc, st)" "\<not> an_errors st"
    using assms(1) by (auto simp: analyze_def bind_result_Inr_iff split: if_splits)
  have "scopes_describe (programTable B) {} {} (an_scopes ?st)" by (simp add: scopes_describe_def emptyScope_def)
  moreover have "new_names (programTable B) {} {} (variableNamesBlock B) (blockFunctions {} B)"
    using assms(3) table_describes [of B]
    by (simp add: new_names_def newVariables_def closed_under_def table_domain)
  ultimately have "wt_block d (programTable B) {} {} B \<and> bodies_ok d (programTable B) (blockFunctions {} B)"
    using statements_typed(3) [OF run] assms(2) by blast
  then show ?thesis using table_typed [of B d] assms(3) by simp
qed

text \<open>
  C5: A program that the analysis accepts, as the parser makes them and with distinct names as the
  disambiguator makes them, never fails an assertion of the interpreter and never accesses a value
  out of range: every identifier it reads is declared, every function it calls exists and gets as
  many arguments as it has parameters, and every expression has the number of values it needs.
\<close>

theorem analyzed_program_safe:
  assumes "analyzeStrictAssertCorrect d B = Inr ()" "all_statements parsed B"
    "distinct (variableNamesBlock B @ map fst (blockFunctions {} B))"
  shows "interpret_yul d n B st \<noteq> Raised PolAssertion st' \<and> interpret_yul d n B st \<noteq> Raised OutOfRangeAccess st'"
proof -
  have "analyze d B = Inr True"
    using assms(1) by (auto simp: analyzeStrictAssertCorrect_def bind_result_Inr_iff split: if_splits)
  from analysis_typed [OF this assms(2,3)] have "safe (\<lambda>_. True) (interpret_yul d n B st)"
    using wt_program_safe by blast
  then show ?thesis by auto
qed

text \<open>A function of two results that is called in a declaration and in an assignment.\<close>

definition sampleName :: "YulString \<Rightarrow> TypedName" where
  "sampleName x = \<lparr>tn_location = emptyLocation, tn_name = x, tn_type = []\<rparr>"

definition sampleUse :: "YulString \<Rightarrow> Identifier" where
  "sampleUse x = \<lparr>id_location = emptyLocation, id_name = x\<rparr>"

definition sampleNumber :: "string \<Rightarrow> Expression" where
  "sampleNumber x = LiteralExpression \<lparr>li_location = emptyLocation, li_kind = NumberLiteral, li_value = x, li_type = []\<rparr>"

definition sampleProgram :: Block where
  "sampleProgram = Block emptyLocation
     [FunctionStatement (FunctionDefinition emptyLocation ''f'' [sampleName ''x''] [sampleName ''y'', sampleName ''z'']
        (Block emptyLocation
          [Assignment emptyLocation [sampleUse ''y'']
             (FunctionalInstruction emptyLocation iADD [IdentifierExpression (sampleUse ''x''), sampleNumber ''1'']),
           Assignment emptyLocation [sampleUse ''z''] (IdentifierExpression (sampleUse ''y''))])),
      VariableDeclaration emptyLocation [sampleName ''a'', sampleName ''b'']
        (Some (FunctionCall emptyLocation (sampleUse ''f'') [sampleNumber ''2''])),
      IfStatement emptyLocation (IdentifierExpression (sampleUse ''a''))
        (Block emptyLocation
          [Assignment emptyLocation [sampleUse ''a'', sampleUse ''b'']
             (FunctionCall emptyLocation (sampleUse ''f'') [IdentifierExpression (sampleUse ''b'')])])]"

lemma sample_analyzed: "analyzeStrictAssertCorrect (PlainDialect StrictAsm) sampleProgram = Inr ()"
proof -
  have add: "info_args (instructionInfo iADD) = 2" "info_ret (instructionInfo iADD) = 1"
    "\<not> instructionError Petersburg iADD" by code_simp+
  have versions: "supportsReturndata Petersburg" "hasStaticCall Petersburg" "hasBitwiseShifting Petersburg" "hasCreate2 Petersburg"
    by code_simp+
  have digits: "bigint_of_string ''1'' = 1" "bigint_of_string ''2'' = 2" by code_simp+
  show ?thesis
    by (simp add: analyzeStrictAssertCorrect_def analyze_def sampleProgram_def sampleName_def sampleUse_def sampleNumber_def
        add versions digits warnOnInstructions_def emptyScope_def registerVariable_def registerFunction_def scope_exists_def
        blockScope_def functionScope_def callee_def expectOne_def expectDeposit_def analyzeLiteral_def
        analyzeIdentifier_def checkAssignment_def adjustHeight_def expectValidType_def expectExpression_def numberOfVariables_def
        isLiteral_def Let_def)
qed

lemma sample_parsed: "all_statements parsed sampleProgram"
proof -
  have "info_ret (instructionInfo iADD) \<le> 1" by code_simp
  then show ?thesis by (simp add: sampleProgram_def sampleNumber_def sub_blocks.simps)
qed

lemma sample_distinct: "distinct (variableNamesBlock sampleProgram @ map fst (blockFunctions {} sampleProgram))"
  by (simp add: sampleProgram_def sampleName_def)

theorem analyzed_program_safe_witness:
  "\<forall>st'. interpret_yul (PlainDialect StrictAsm) 5 sampleProgram initialYulState \<noteq> Raised PolAssertion st' \<and>
     interpret_yul (PlainDialect StrictAsm) 5 sampleProgram initialYulState \<noteq> Raised OutOfRangeAccess st'"
  using analyzed_program_safe [OF sample_analyzed sample_parsed sample_distinct] by blast

end
