(* ===== verification/String_Utils.thy ===== *)
theory String_Utils
  imports Prelude
begin

text \<open>
  libdevcore/StringUtils.cpp and StringUtils.h: the edit distance that finds the names to suggest in
  an error message, and the joined lists of these messages. The distance is proved to be the least
  cost of a script that edits no part of the strings twice (the optimal string alignment). The header
  calls it the Damerau-Levenshtein distance, of sequences of edits, which can be smaller.
\<close>

section \<open>The edit distance\<close>

text \<open>
  The table has three rows of \<open>n2 + 1\<close> entries, the row of \<open>i1\<close> being the one at \<open>i1 mod 3\<close>. Sizes
  are natural numbers: they are bounded by the sizes of strings in memory.
\<close>

definition cellValue :: "string \<Rightarrow> string \<Rightarrow> nat list \<Rightarrow> nat \<Rightarrow> nat \<Rightarrow> nat" where
  "cellValue s1 s2 dp i1 i2 =
     (if min i1 i2 = 0 then max i1 i2
      else
        let left = dp ! ((i1 - 1) mod 3 + i2 * 3);
            up = dp ! (i1 mod 3 + (i2 - 1) * 3);
            upleft = dp ! ((i1 - 1) mod 3 + (i2 - 1) * 3);
            x = min (left + 1) (up + 1);
            x = (if s1 ! (i1 - 1) = s2 ! (i2 - 1) then min x upleft else min x (upleft + 1))
        in if 1 < i1 \<and> 1 < i2 \<and> s1 ! (i1 - 1) = s2 ! (i2 - 2) \<and> s1 ! (i1 - 2) = s2 ! (i2 - 1)
           then min x (dp ! ((i1 - 2) mod 3 + (i2 - 2) * 3) + 1) else x)"

definition distanceCell :: "string \<Rightarrow> string \<Rightarrow> nat \<Rightarrow> nat list \<Rightarrow> nat \<Rightarrow> nat list" where
  "distanceCell s1 s2 i1 dp i2 = dp[i1 mod 3 + i2 * 3 := cellValue s1 s2 dp i1 i2]"

definition distanceRow :: "string \<Rightarrow> string \<Rightarrow> nat list \<Rightarrow> nat \<Rightarrow> nat list" where
  "distanceRow s1 s2 dp i1 = foldl (distanceCell s1 s2 i1) dp [0..<length s2 + 1]"

definition stringDistance :: "string \<Rightarrow> string \<Rightarrow> nat" where
  "stringDistance s1 s2 =
     foldl (distanceRow s1 s2) (replicate (3 * (length s2 + 1)) 0) [0..<length s1 + 1]
       ! (length s1 mod 3 + length s2 * 3)"

definition stringWithinDistance :: "string \<Rightarrow> string \<Rightarrow> nat \<Rightarrow> nat \<Rightarrow> bool" where
  "stringWithinDistance s1 s2 maxDistance lenThreshold =
     (if s1 = s2 then True
      else if 0 < lenThreshold \<and> lenThreshold < length s1 * length s2 then False
      else let distance = stringDistance s1 s2
           in distance \<le> maxDistance \<and> distance < length s1 \<and> distance < length s2)"

section \<open>Joined lists\<close>

text \<open>The loop of \<open>joinHumanReadable\<close> behind the element at the iterator, which is the first one or not.\<close>

fun joinFrom :: "string \<Rightarrow> string \<Rightarrow> bool \<Rightarrow> string list \<Rightarrow> string \<Rightarrow> string" where
  "joinFrom sep lastSep first [] res = res"
| "joinFrom sep lastSep first (element # rest) res =
     (let res = (if first then res
                 else if rest = [] \<and> lastSep \<noteq> [] then res @ lastSep
                 else res @ sep)
      in joinFrom sep lastSep False rest (res @ element))"

definition joinHumanReadable :: "string list \<Rightarrow> string \<Rightarrow> string \<Rightarrow> string" where
  "joinHumanReadable xs sep lastSep = joinFrom sep lastSep True xs []"

definition joinHumanReadablePrefixed :: "string list \<Rightarrow> string \<Rightarrow> string \<Rightarrow> string" where
  "joinHumanReadablePrefixed xs sep lastSep = (if xs = [] then [] else sep @ joinHumanReadable xs sep lastSep)"

definition quotedAlternativesList :: "string list \<Rightarrow> string" where
  "quotedAlternativesList suggestions =
     joinHumanReadable (map (\<lambda>s. ''\"'' @ s @ ''\"'') suggestions) '', '' '' or ''"

section \<open>Edit scripts\<close>

text \<open>
  A script goes through both strings once: each step keeps a character, inserts, deletes or replaces
  one, or swaps two neighbours. All steps but the first cost one.
\<close>

inductive edit :: "nat \<Rightarrow> 'a list \<Rightarrow> 'a list \<Rightarrow> bool" where
  keep: "edit 0 [c] [c]"
| delete: "edit 1 [c] []"
| insert: "edit 1 [] [c]"
| replace: "edit 1 [c] [d]"
| swap: "edit 1 [c, d] [d, c]"

inductive edits :: "nat \<Rightarrow> 'a list \<Rightarrow> 'a list \<Rightarrow> bool" where
  none: "edits 0 [] []"
| step: "edits n xs ys \<Longrightarrow> edit k u v \<Longrightarrow> edits (n + k) (xs @ u) (ys @ v)"

lemma edit_sym: "edit k u v \<Longrightarrow> edit k v u"
  by (induction rule: edit.induct) (rule edit.intros)+

lemma edit_zero: "edit k u v \<Longrightarrow> k = 0 \<Longrightarrow> u = v"
  by (induction rule: edit.induct) simp_all

lemma edits_sym: "edits n xs ys \<Longrightarrow> edits n ys xs"
  by (induction rule: edits.induct) (auto intro: edits.intros edit_sym)

text \<open>The distance of prefixes, by recursion on their lengths.\<close>

fun prefixDistance :: "'a list \<Rightarrow> 'a list \<Rightarrow> nat \<Rightarrow> nat \<Rightarrow> nat" where
  "prefixDistance s1 s2 0 j = j"
| "prefixDistance s1 s2 (Suc i) 0 = Suc i"
| "prefixDistance s1 s2 (Suc i) (Suc j) =
     min (min (min (prefixDistance s1 s2 i (Suc j) + 1) (prefixDistance s1 s2 (Suc i) j + 1))
            (prefixDistance s1 s2 i j + (if s1 ! i = s2 ! j then 0 else 1)))
       (if 0 < i \<and> 0 < j \<and> s1 ! i = s2 ! (j - 1) \<and> s1 ! (i - 1) = s2 ! j
        then prefixDistance s1 s2 (i - 1) (j - 1) + 1
        else prefixDistance s1 s2 i j + 1)"

lemma prefixDistance_right [simp]: "prefixDistance s1 s2 i 0 = i"
  by (cases i) simp_all

lemma prefix_edits:
  "i \<le> length s1 \<Longrightarrow> j \<le> length s2 \<Longrightarrow> edits (prefixDistance s1 s2 i j) (take i s1) (take j s2)"
proof (induction s1 s2 i j rule: prefixDistance.induct)
  case (1 s1 s2 j)
  then show ?case
  proof (induction j)
    case (Suc j)
    from edits.step [OF Suc.IH edit.insert] Suc.prems show ?case by (simp add: take_Suc_conv_app_nth)
  qed (simp add: edits.none)
next
  case (2 s1 s2 i)
  have "n \<le> length s1 \<Longrightarrow> edits n (take n s1) []" for n
  proof (induction n)
    case (Suc n)
    from edits.step [OF Suc.IH edit.delete] Suc.prems show ?case by (simp add: take_Suc_conv_app_nth)
  qed (simp add: edits.none)
  from this [OF 2(1)] show ?case by simp
next
  case (3 s1 s2 i j)
  let ?d = "prefixDistance s1 s2"
  have i: "take (Suc i) s1 = take i s1 @ [s1 ! i]" and j: "take (Suc j) s2 = take j s2 @ [s2 ! j]"
    using 3(6,7) by (simp_all add: take_Suc_conv_app_nth)
  have d: "edits (?d i (Suc j) + 1) (take (Suc i) s1) (take (Suc j) s2)"
    using edits.step [OF 3(1) edit.delete [of "s1 ! i"]] 3(6,7) by (simp add: i)
  have n: "edits (?d (Suc i) j + 1) (take (Suc i) s1) (take (Suc j) s2)"
    using edits.step [OF 3(2) edit.insert [of "s2 ! j"]] 3(6,7) by (simp add: j)
  have r: "edits (?d i j + 1) (take (Suc i) s1) (take (Suc j) s2)"
    using edits.step [OF 3(3) edit.replace [of "s1 ! i" "s2 ! j"]] 3(6,7) by (simp add: i j)
  have k: "edits (?d i j) (take (Suc i) s1) (take (Suc j) s2)" if "s1 ! i = s2 ! j"
    using edits.step [OF 3(3) edit.keep [of "s1 ! i"]] 3(6,7) that by (simp add: i j)
  have s: "edits (?d (i - 1) (j - 1) + 1) (take (Suc i) s1) (take (Suc j) s2)"
    if c: "0 < i \<and> 0 < j \<and> s1 ! i = s2 ! (j - 1) \<and> s1 ! (i - 1) = s2 ! j"
  proof -
    obtain a b where ab: "i = Suc a" "j = Suc b" using c by (cases i; cases j) auto
    from edits.step [OF 3(4) edit.swap [of "s1 ! a" "s1 ! i"]] 3(6,7) c show ?thesis
      by (simp add: ab take_Suc_conv_app_nth)
  qed
  show ?case using d n r k s by (simp add: min_def)
qed

lemma prefixDistance_steps:
  "prefixDistance s1 s2 (Suc i) j \<le> prefixDistance s1 s2 i j + 1"
  "prefixDistance s1 s2 i (Suc j) \<le> prefixDistance s1 s2 i j + 1"
  "prefixDistance s1 s2 (Suc i) (Suc j) \<le> prefixDistance s1 s2 i j + 1"
  "s1 ! i = s2 ! j \<Longrightarrow> prefixDistance s1 s2 (Suc i) (Suc j) \<le> prefixDistance s1 s2 i j"
  "s1 ! Suc i = s2 ! j \<Longrightarrow> s1 ! i = s2 ! Suc j \<Longrightarrow>
    prefixDistance s1 s2 (Suc (Suc i)) (Suc (Suc j)) \<le> prefixDistance s1 s2 i j + 1"
proof -
  show "prefixDistance s1 s2 (Suc i) j \<le> prefixDistance s1 s2 i j + 1"
    by (cases j) (simp_all only: prefixDistance.simps min_le_iff_disj, simp_all)
  show "prefixDistance s1 s2 i (Suc j) \<le> prefixDistance s1 s2 i j + 1"
    by (cases i) (simp_all only: prefixDistance.simps min_le_iff_disj, simp_all)
  show "prefixDistance s1 s2 (Suc i) (Suc j) \<le> prefixDistance s1 s2 i j + 1"
    unfolding prefixDistance.simps(3) [of s1 s2 i j] min_le_iff_disj by simp
  show "prefixDistance s1 s2 (Suc i) (Suc j) \<le> prefixDistance s1 s2 i j" if "s1 ! i = s2 ! j"
    unfolding prefixDistance.simps(3) [of s1 s2 i j] min_le_iff_disj using that by simp
  show "prefixDistance s1 s2 (Suc (Suc i)) (Suc (Suc j)) \<le> prefixDistance s1 s2 i j + 1"
    if "s1 ! Suc i = s2 ! j" "s1 ! i = s2 ! Suc j"
    unfolding prefixDistance.simps(3) [of s1 s2 "Suc i" "Suc j"] min_le_iff_disj using that by (simp del: prefixDistance.simps)
qed

lemma prefix_least:
  "edits n xs ys \<Longrightarrow> prefixDistance (xs @ r1) (ys @ r2) (length xs) (length ys) \<le> n"
proof (induction arbitrary: r1 r2 rule: edits.induct)
  case (step n xs ys k u v)
  let ?s1 = "xs @ u @ r1" and ?s2 = "ys @ v @ r2"
  have nth: "?s1 ! (length xs + l) = u ! l" if "l < length u" for l
    using that by (simp add: nth_append)
  have nth': "?s2 ! (length ys + l) = v ! l" if "l < length v" for l
    using that by (simp add: nth_append)
  have IH: "prefixDistance ?s1 ?s2 (length xs) (length ys) \<le> n" by (rule step.IH)
  from step.hyps(2) show ?case
  proof cases
    case (keep c)
    with prefixDistance_steps(4) [of ?s1 "length xs" ?s2 "length ys"] nth [of 0] nth' [of 0] IH show ?thesis
      by (simp del: prefixDistance.simps)
  next
    case (delete c)
    with prefixDistance_steps(1) [of ?s1 ?s2 "length xs" "length ys"] IH show ?thesis by (simp del: prefixDistance.simps)
  next
    case (insert c)
    with prefixDistance_steps(2) [of ?s1 ?s2 "length xs" "length ys"] IH show ?thesis by (simp del: prefixDistance.simps)
  next
    case (replace c d)
    with prefixDistance_steps(3) [of ?s1 ?s2 "length xs" "length ys"] IH show ?thesis by (simp del: prefixDistance.simps)
  next
    case (swap c d)
    with prefixDistance_steps(5) [of ?s1 "length xs" ?s2 "length ys"] nth [of 0] nth [of 1] nth' [of 0] nth' [of 1] IH
    show ?thesis by (simp del: prefixDistance.simps)
  qed
qed simp

theorem prefixDistance_least:
  "edits (prefixDistance s1 s2 (length s1) (length s2)) s1 s2"
  "edits n s1 s2 \<Longrightarrow> prefixDistance s1 s2 (length s1) (length s2) \<le> n"
  using prefix_edits [of "length s1" s1 "length s2" s2] prefix_least [of n s1 s2 "[]" "[]"] by simp_all

section \<open>The table\<close>

lemma cell_index: "i mod 3 + j * 3 = i' mod 3 + j' * 3 \<longleftrightarrow> i mod 3 = i' mod 3 \<and> j = (j' :: nat)"
proof
  assume eq: "i mod 3 + j * 3 = i' mod 3 + j' * 3"
  then have "(i mod 3 + j * 3) mod 3 = (i' mod 3 + j' * 3) mod 3" by (rule arg_cong)
  then have "i mod 3 = i' mod 3" by simp
  with eq show "i mod 3 = i' mod 3 \<and> j = j'" by simp
qed simp

text \<open>The rows up to \<open>i1\<close>, with the first \<open>k\<close> entries of the current row.\<close>

definition table_ok :: "string \<Rightarrow> string \<Rightarrow> nat \<Rightarrow> nat \<Rightarrow> nat list \<Rightarrow> bool" where
  "table_ok s1 s2 i k dp \<longleftrightarrow> length dp = 3 * (length s2 + 1) \<and>
     (\<forall>j < k. dp ! (i mod 3 + j * 3) = prefixDistance s1 s2 i j) \<and>
     (\<forall>j \<le> length s2. (0 < i \<longrightarrow> dp ! ((i - 1) mod 3 + j * 3) = prefixDistance s1 s2 (i - 1) j) \<and>
        (1 < i \<longrightarrow> dp ! ((i - 2) mod 3 + j * 3) = prefixDistance s1 s2 (i - 2) j))"

lemma cellValue_distance:
  assumes "table_ok s1 s2 i k dp" "k \<le> length s2"
  shows "cellValue s1 s2 dp i k = prefixDistance s1 s2 i k"
proof (cases "i = 0 \<or> k = 0")
  case True
  then show ?thesis by (auto simp: cellValue_def)
next
  case False
  then obtain a b where ab: "i = Suc a" "k = Suc b" by (cases i; cases k) auto
  have left: "dp ! (a mod 3 + Suc b * 3) = prefixDistance s1 s2 a (Suc b)"
    and up: "dp ! (Suc a mod 3 + b * 3) = prefixDistance s1 s2 (Suc a) b"
    and upleft: "dp ! (a mod 3 + b * 3) = prefixDistance s1 s2 a b"
    using assms unfolding table_ok_def ab by auto
  have swap: "dp ! ((a - 1) mod 3 + (b - 1) * 3) = prefixDistance s1 s2 (a - 1) (b - 1)" if "0 < a"
    using assms that unfolding table_ok_def ab by auto
  let ?x = "min (min (prefixDistance s1 s2 a (Suc b) + 1) (prefixDistance s1 s2 (Suc a) b + 1))
    (prefixDistance s1 s2 a b + (if s1 ! a = s2 ! b then 0 else 1))"
  have "?x \<le> prefixDistance s1 s2 a b + 1" by (simp add: min_le_iff_disj)
  then have rec: "prefixDistance s1 s2 (Suc a) (Suc b) =
      (if 0 < a \<and> 0 < b \<and> s1 ! a = s2 ! (b - 1) \<and> s1 ! (a - 1) = s2 ! b
       then min ?x (prefixDistance s1 s2 (a - 1) (b - 1) + 1) else ?x)"
    unfolding prefixDistance.simps(3) by (simp only: min_absorb1 split: if_split) blast
  show ?thesis unfolding ab rec
    using left up upleft swap by (simp add: cellValue_def Let_def del: prefixDistance.simps)
qed

lemma distanceCell_ok:
  assumes "table_ok s1 s2 i k dp" "k \<le> length s2"
  shows "table_ok s1 s2 i (Suc k) (distanceCell s1 s2 i dp k)"
proof -
  have "i mod 3 + k * 3 < 3 + length s2 * 3"
    by (rule add_less_le_mono) (use assms(2) in simp_all)
  then have bound: "i mod 3 + k * 3 < length dp" using assms(1) by (simp add: table_ok_def mult.commute)
  have other: "distanceCell s1 s2 i dp k ! (i' mod 3 + j * 3) = dp ! (i' mod 3 + j * 3)"
    if "i' mod 3 \<noteq> i mod 3 \<or> j \<noteq> k" for i' j
    unfolding distanceCell_def using that cell_index by (metis nth_list_update_neq)
  have current: "distanceCell s1 s2 i dp k ! (i mod 3 + k * 3) = prefixDistance s1 s2 i k"
    unfolding distanceCell_def using bound cellValue_distance [OF assms] by (simp only: nth_list_update_eq)
  have one: "(i - 1) mod 3 \<noteq> i mod 3" if "0 < i" using that by (cases i) (simp_all add: mod_Suc)
  have two: "(i - 2) mod 3 \<noteq> i mod 3" if i: "1 < i"
  proof -
    obtain a where "i = Suc (Suc a)" using less_imp_Suc_add [OF i] by auto
    then show ?thesis by (simp add: mod_Suc)
  qed
  show ?thesis unfolding table_ok_def
  proof (intro conjI allI impI)
    show "length (distanceCell s1 s2 i dp k) = 3 * (length s2 + 1)" using assms(1) by (simp add: table_ok_def distanceCell_def)
  next
    fix j assume "j < Suc k"
    then show "distanceCell s1 s2 i dp k ! (i mod 3 + j * 3) = prefixDistance s1 s2 i j"
      using assms(1) current other [of i j] unfolding table_ok_def by (metis less_Suc_eq)
  next
    fix j assume "j \<le> length s2" "0 < i"
    then show "distanceCell s1 s2 i dp k ! ((i - 1) mod 3 + j * 3) = prefixDistance s1 s2 (i - 1) j"
      using assms(1) other [of "i - 1" j] one unfolding table_ok_def by metis
  next
    fix j assume "j \<le> length s2" "1 < i"
    then show "distanceCell s1 s2 i dp k ! ((i - 2) mod 3 + j * 3) = prefixDistance s1 s2 (i - 2) j"
      using assms(1) other [of "i - 2" j] two unfolding table_ok_def by metis
  qed
qed

lemma distanceRow_ok:
  assumes "table_ok s1 s2 i 0 dp"
  shows "table_ok s1 s2 i (length s2 + 1) (distanceRow s1 s2 dp i)"
proof -
  have "k \<le> length s2 + 1 \<Longrightarrow> table_ok s1 s2 i k (foldl (distanceCell s1 s2 i) dp [0..<k])" for k
    by (induction k) (use assms distanceCell_ok in auto)
  then show ?thesis unfolding distanceRow_def by blast
qed

lemma next_row: "table_ok s1 s2 i (length s2 + 1) dp \<Longrightarrow> table_ok s1 s2 (Suc i) 0 dp"
  by (auto simp: table_ok_def less_Suc_eq_le)

lemma stringDistance_prefix: "stringDistance s1 s2 = prefixDistance s1 s2 (length s1) (length s2)"
proof -
  let ?dp = "\<lambda>n. foldl (distanceRow s1 s2) (replicate (3 * (length s2 + 1)) 0) [0..<n + 1]"
  have "table_ok s1 s2 n (length s2 + 1) (?dp n)" for n
  proof (induction n)
    case 0
    have "table_ok s1 s2 0 0 (replicate (3 * (length s2 + 1)) 0)" by (simp add: table_ok_def)
    from distanceRow_ok [OF this] show ?case by simp
  next
    case (Suc n)
    from distanceRow_ok [OF next_row [OF Suc]] show ?case by simp
  qed
  from this [of "length s1"] show ?thesis unfolding stringDistance_def table_ok_def by simp
qed

text \<open>Edits one after the other, each at any place of the string the ones before it have left.\<close>

inductive edit_step :: "'a list \<Rightarrow> 'a list \<Rightarrow> bool" where
  "edit 1 u v \<Longrightarrow> edit_step (xs @ u @ ys) (xs @ v @ ys)"

lemma edit_step_append: "edit_step a b \<Longrightarrow> edit_step (a @ ys) (b @ ys)"
  by (induction rule: edit_step.induct) (metis append.assoc edit_step.intros)

lemma edit_steps_append: "(edit_step ^^ n) a b \<Longrightarrow> (edit_step ^^ n) (a @ ys) (b @ ys)"
  by (induction n arbitrary: b) (auto intro: edit_step_append)

lemma edits_steps: "edits n xs ys \<Longrightarrow> (edit_step ^^ n) xs ys"
proof (induction rule: edits.induct)
  case (step n xs ys k u v)
  have IH: "(edit_step ^^ n) (xs @ u) (ys @ u)" by (rule edit_steps_append) (rule step.IH)
  have "k = 0 \<or> k = 1" using step.hyps(2) by cases simp_all
  then show ?case
  proof
    assume "k = 0"
    with edit_zero [OF step.hyps(2)] IH show ?thesis by simp
  next
    assume k: "k = 1"
    with edit_step.intros [of u v ys "[]"] step.hyps(2) have "edit_step (ys @ u) (ys @ v)" by simp
    with IH k show ?thesis by auto
  qed
qed simp

text \<open>
  C22: The distance that the table computes is the least number of insertions, deletions, replacements and
  swaps of neighbours in a script that turns the first string into the second and goes through both strings
  once, so that it edits no part twice. It is therefore symmetric and 0 for equal strings only, and so many
  edits, one after the other, suffice to turn the first string into the second.
\<close>

theorem stringDistance_least:
  "stringDistance s1 s2 = (LEAST n. edits n s1 s2) \<and> stringDistance s1 s2 = stringDistance s2 s1 \<and>
   (stringDistance s1 s2 = 0 \<longleftrightarrow> s1 = s2) \<and> (edit_step ^^ stringDistance s1 s2) s1 s2"
proof (intro conjI)
  have least: "stringDistance s1 s2 = (LEAST n. edits n s1 s2)" for s1 s2
    unfolding stringDistance_prefix
    by (rule sym, rule Least_equality) (fact prefixDistance_least)+
  show "stringDistance s1 s2 = (LEAST n. edits n s1 s2)" by (rule least)
  show "stringDistance s1 s2 = stringDistance s2 s1" unfolding least using edits_sym by metis
  have zero: "edits n xs ys \<Longrightarrow> n = 0 \<Longrightarrow> xs = ys" for n and xs ys :: string
    by (induction rule: edits.induct) (simp_all add: edit_zero)
  have same: "edits 0 xs xs" for xs :: string
    by (induction xs rule: rev_induct) (use edits.none edits.step [OF _ edit.keep] in force)+
  show "(edit_step ^^ stringDistance s1 s2) s1 s2"
    unfolding stringDistance_prefix by (rule edits_steps) (rule prefixDistance_least(1))
  show "stringDistance s1 s2 = 0 \<longleftrightarrow> s1 = s2"
  proof
    assume "stringDistance s1 s2 = 0"
    then show "s1 = s2" using zero [OF prefixDistance_least(1) [of s1 s2]] unfolding stringDistance_prefix by blast
  next
    assume "s1 = s2"
    then have "stringDistance s1 s2 \<le> 0"
      unfolding stringDistance_prefix using prefixDistance_least(2) [OF same [of s1]] by (simp only:)
    then show "stringDistance s1 s2 = 0" by (rule le_zero_eq [THEN iffD1])
  qed
qed

text \<open>
  Fewer edits may suffice when one of them is behind another in the same place, as the distance of Damerau and
  Levenshtein allows: here a swap and an insertion between the swapped characters.
\<close>

lemma fewer_edits: "stringDistance ''CA'' ''ABC'' = 3" "(edit_step ^^ 2) ''CA'' ''ABC''"
proof -
  show "stringDistance ''CA'' ''ABC'' = 3" by code_simp
  have "edit_step ([] @ ''CA'' @ []) ([] @ ''AC'' @ [])" by (rule edit_step.intros) (rule edit.swap)
  moreover have "edit_step (''A'' @ [] @ ''C'') (''A'' @ ''B'' @ ''C'')" by (rule edit_step.intros) (rule edit.insert)
  ultimately have "edit_step ''CA'' ''AC''" "edit_step ''AC'' ''ABC''" by simp_all
  then have "(edit_step ^^ Suc (Suc 0)) ''CA'' ''ABC''" by (intro relpowp_Suc_I [OF relpowp_Suc_I [OF relpowp_0_I]])
  then show "(edit_step ^^ 2) ''CA'' ''ABC''" by (simp only: numeral_2_eq_2)
qed

end
