(* ===== verification/Utf8.thy ===== *)
theory Utf8
  imports Prelude
begin

text \<open>
  libdevcore/UTF8.cpp: the validation of UTF-8. The strings it accepts are proved to be exactly the
  encodings of sequences of Unicode scalar values.
\<close>

section \<open>The validation\<close>

definition isWellFormed :: "byte \<Rightarrow> byte \<Rightarrow> bool" where
  "isWellFormed byte1 byte2 =
     (if byte1 = 0xc0 \<or> byte1 = 0xc1 then False
      else if 0xc2 \<le> byte1 \<and> byte1 \<le> 0xdf then True
      else if byte1 = 0xe0 then \<not> byte2 < 0xa0
      else if 0xe1 \<le> byte1 \<and> byte1 \<le> 0xec then True
      else if byte1 = 0xed then \<not> 0x9f < byte2
      else if byte1 = 0xee \<or> byte1 = 0xef then True
      else if byte1 = 0xf0 then \<not> byte2 < 0x90
      else if 0xf1 \<le> byte1 \<and> byte1 \<le> 0xf3 then True
      else if byte1 = 0xf4 then \<not> 0x8f < byte2
      else False)"

definition utf8_count :: "byte \<Rightarrow> nat" where
  "utf8_count b =
     (if 0xc0 \<le> b \<and> b \<le> 0xdf then 1
      else if 0xe0 \<le> b \<and> b \<le> 0xef then 2
      else if 0xf0 \<le> b \<and> b \<le> 0xf7 then 3
      else 0)"

text \<open>The loop over the continuation bytes, from its counter on; its break ends this loop only.\<close>

fun utf8_continuation :: "bytes \<Rightarrow> nat \<Rightarrow> nat \<Rightarrow> nat \<Rightarrow> bool \<times> nat" where
  "utf8_continuation input j 0 i = (True, i)"
| "utf8_continuation input j (Suc left) i =
     (let i = i + 1
      in if input ! i AND 0xc0 \<noteq> 0x80 then (False, i)
         else if j = 0 \<and> \<not> isWellFormed (input ! (i - 1)) (input ! i) then (False, i)
         else utf8_continuation input (j + 1) left i)"

lemma continuation_forward: "utf8_continuation input j left i = (ok, i') \<Longrightarrow> i \<le> i'"
  by (induction input j left i rule: utf8_continuation.induct) (auto simp: Let_def split: if_splits)

function utf8_scan :: "bytes \<Rightarrow> bool \<Rightarrow> nat \<Rightarrow> bool \<times> nat" where
  "utf8_scan input valid i =
     (if length input \<le> i then (valid, i)
      else if input ! i < 0x80 then utf8_scan input valid (i + 1)
      else
        let count = utf8_count (input ! i)
        in if count = 0 then (False, i)
           else if length input \<le> i + count then (False, i)
           else case utf8_continuation input 0 count i of (ok, i') \<Rightarrow> utf8_scan input (valid \<and> ok) (i' + 1))"
  by pat_completeness auto
termination
  by (relation "measure (\<lambda>(input, valid, i). length input - i)") (auto dest!: continuation_forward [OF sym])

declare utf8_scan.simps [simp del]

text \<open>Whether the input is valid, and otherwise the position reported.\<close>

definition validateUTF8 :: "bytes \<Rightarrow> nat option" where
  "validateUTF8 input = (case utf8_scan input True 0 of (valid, i) \<Rightarrow> if valid then None else Some i)"

section \<open>The encoding of Unicode\<close>

text \<open>Table 3-6 of the standard, for the scalar values: the code points without the surrogates.\<close>

definition scalar_value :: "nat \<Rightarrow> bool" where
  "scalar_value c \<longleftrightarrow> c < 0xd800 \<or> 0xe000 \<le> c \<and> c < 0x110000"

definition encode_scalar :: "nat \<Rightarrow> nat list" where
  "encode_scalar c =
     (if c < 0x80 then [c]
      else if c < 0x800 then [0xc0 + c div 64, 0x80 + c mod 64]
      else if c < 0x10000 then [0xe0 + c div 4096, 0x80 + c div 64 mod 64, 0x80 + c mod 64]
      else [0xf0 + c div 262144, 0x80 + c div 4096 mod 64, 0x80 + c div 64 mod 64, 0x80 + c mod 64])"

text \<open>The sequences of one character, with their bytes as numbers.\<close>

definition continuation :: "nat \<Rightarrow> bool" where
  "continuation b \<longleftrightarrow> 0x80 \<le> b \<and> b \<le> 0xbf"

fun sequence_ok :: "nat list \<Rightarrow> bool" where
  "sequence_ok [a] = (a < 0x80)"
| "sequence_ok [a, b] = (0xc2 \<le> a \<and> a \<le> 0xdf \<and> continuation b)"
| "sequence_ok [a, b, c] = (0xe0 \<le> a \<and> a \<le> 0xef \<and> continuation b \<and> continuation c \<and>
     (a = 0xe0 \<longrightarrow> 0xa0 \<le> b) \<and> (a = 0xed \<longrightarrow> b \<le> 0x9f))"
| "sequence_ok [a, b, c, d] = (0xf0 \<le> a \<and> a \<le> 0xf4 \<and> continuation b \<and> continuation c \<and> continuation d \<and>
     (a = 0xf0 \<longrightarrow> 0x90 \<le> b) \<and> (a = 0xf4 \<longrightarrow> b \<le> 0x8f))"
| "sequence_ok _ = False"

text \<open>A number by its digits to the base 64.\<close>

lemma digits2: "b < 64 \<Longrightarrow> c = a * 64 + b \<Longrightarrow> c div 64 = a \<and> c mod 64 = (b::nat)"
  by simp

lemma digits3:
  assumes "y < 64" "z < 64" "c = (x * 64 + y) * 64 + (z::nat)"
  shows "c div 4096 = x" "c div 64 mod 64 = y" "c mod 64 = z"
proof -
  have c: "c div 64 = x * 64 + y" "c mod 64 = z" using digits2 [OF assms(2,3)] by simp_all
  then show "c mod 64 = z" "c div 64 mod 64 = y" using assms(1) by simp_all
  have "c div 4096 = c div 64 div 64" by (simp add: div_mult2_eq [symmetric])
  with c assms(1) show "c div 4096 = x" by simp
qed

lemma digits4:
  assumes "x < 64" "y < 64" "z < 64" "c = ((w * 64 + x) * 64 + y) * 64 + (z::nat)"
  shows "c div 262144 = w" "c div 4096 mod 64 = x" "c div 64 mod 64 = y" "c mod 64 = z"
proof -
  note d = digits3 [OF assms(2-4)]
  show "c div 4096 mod 64 = x" "c div 64 mod 64 = y" "c mod 64 = z" using d assms(1) by simp_all
  have "c div 262144 = c div 4096 div 64" by (simp add: div_mult2_eq [symmetric])
  with d assms(1) show "c div 262144 = w" by simp
qed

lemma has_digits: "\<exists>a b. b < 64 \<and> c = a * 64 + (b::nat)"
  by (intro exI [of _ "c div 64"] exI [of _ "c mod 64"]) simp

lemma encode_ok:
  assumes "scalar_value c"
  shows "sequence_ok (encode_scalar c)"
proof -
  consider "c < 0x80" | "0x80 \<le> c" "c < 0x800" | "0x800 \<le> c" "c < 0x10000" | "0x10000 \<le> c" by linarith
  then show ?thesis
  proof cases
    case 2
    obtain x y where v: "y < 64" "c = x * 64 + y" using has_digits by blast
    with 2 digits2 [OF v] show ?thesis by (simp add: encode_scalar_def continuation_def)
  next
    case 3
    obtain a z where z: "z < 64" "c = a * 64 + z" using has_digits by blast
    obtain x y where y: "y < 64" "a = x * 64 + y" using has_digits by blast
    have c: "c = (x * 64 + y) * 64 + z" using z y by simp
    have c': "c = x * 4096 + y * 64 + z" unfolding c by simp
    have "x < 16" using 3(2) c' by linarith
    moreover have "32 \<le> y" if "x = 0" using 3(1) c' z(1) that by linarith
    moreover have "y < 32" if "x = 13"
      using assms c' y(1) z(1) that unfolding scalar_value_def by (elim disjE; linarith)
    ultimately show ?thesis using 3 y(1) z(1) digits3 [OF y(1) z(1) c] by (auto simp: encode_scalar_def continuation_def)
  next
    case 4
    obtain a z where z: "z < 64" "c = a * 64 + z" using has_digits by blast
    obtain b y where y: "y < 64" "a = b * 64 + y" using has_digits by blast
    obtain w x where x: "x < 64" "b = w * 64 + x" using has_digits by blast
    have c: "c = ((w * 64 + x) * 64 + y) * 64 + z" using z y x by simp
    have le: "c < 0x110000" using 4 assms unfolding scalar_value_def by linarith
    have c': "c = w * 262144 + x * 4096 + y * 64 + z" unfolding c by simp
    have "w < 5" using le c' by linarith
    moreover have "16 \<le> x" if "w = 0" using 4 c' y(1) z(1) that by linarith
    moreover have "x < 16" if "w = 4" using le c' that by linarith
    ultimately show ?thesis using 4 x(1) y(1) z(1) digits4 [OF x(1) y(1) z(1) c] by (auto simp: encode_scalar_def continuation_def)
  qed (simp add: encode_scalar_def)
qed

lemma sequence_encodes: "sequence_ok bs \<Longrightarrow> \<exists>c. scalar_value c \<and> bs = encode_scalar c"
proof (induction bs rule: sequence_ok.induct)
  case (1 a)
  then show ?case by (intro exI [of _ a]) (simp add: scalar_value_def encode_scalar_def)
next
  case (2 a b)
  obtain x y where "a = 0xc0 + x" "b = 0x80 + y" "y < 64" "2 \<le> x" "x < 32"
    using 2 by (intro that [of "a - 0xc0" "b - 0x80"]) (auto simp: continuation_def)
  then show ?case by (intro exI [of _ "x * 64 + y"]) (simp add: scalar_value_def encode_scalar_def)
next
  case (3 a b c)
  obtain x y z where v: "a = 0xe0 + x" "b = 0x80 + y" "c = 0x80 + z" "y < 64" "z < 64" "x < 16" "x = 0 \<Longrightarrow> 32 \<le> y" "x = 13 \<Longrightarrow> y < 32"
    using 3 by (intro that [of "a - 0xe0" "b - 0x80" "c - 0x80"]) (auto simp: continuation_def)
  let ?c = "(x * 64 + y) * 64 + z"
  have c': "?c = x * 4096 + y * 64 + z" by simp
  have "x \<noteq> 0 \<or> 32 \<le> y" "x \<noteq> 13 \<or> y < 32" using v(7,8) by blast+
  then have "2048 \<le> ?c" unfolding c' by (elim disjE) linarith+
  moreover have "?c < 65536" using v(4-6) unfolding c' by linarith
  moreover have "?c < 0xd800 \<or> 0xe000 \<le> ?c"
  proof -
    consider "x < 13" | "x = 13" | "13 < x" by linarith
    then show ?thesis unfolding c' by cases (use v(4,5) \<open>x \<noteq> 13 \<or> y < 32\<close> in linarith)+
  qed
  ultimately show ?case using digits3 [OF v(4,5) refl, of x]
    by (intro exI [of _ ?c]) (simp add: v(1-3) scalar_value_def encode_scalar_def)
next
  case (4 a b c d)
  obtain w x y z where v: "a = 0xf0 + w" "b = 0x80 + x" "c = 0x80 + y" "d = 0x80 + z" "x < 64" "y < 64" "z < 64" "w < 5"
    "w = 0 \<Longrightarrow> 16 \<le> x" "w = 4 \<Longrightarrow> x < 16"
    using 4 by (intro that [of "a - 0xf0" "b - 0x80" "c - 0x80" "d - 0x80"]) (auto simp: continuation_def)
  let ?c = "((w * 64 + x) * 64 + y) * 64 + z"
  have c': "?c = w * 262144 + x * 4096 + y * 64 + z" by simp
  have "w \<noteq> 0 \<or> 16 \<le> x" using v(9) by blast
  then have "65536 \<le> ?c" unfolding c' by (elim disjE) linarith+
  moreover have "?c < 0x110000"
  proof (cases "w = 4")
    case True
    with v(6,7,10) show ?thesis unfolding c' by simp
  next
    case False
    with v(5-8) show ?thesis unfolding c' by linarith
  qed
  ultimately show ?case using digits4 [OF v(5-7) refl, of w]
    by (intro exI [of _ ?c]) (simp add: v(1-4) scalar_value_def encode_scalar_def)
qed simp_all


section \<open>The accepted strings\<close>

definition sequences :: "nat list \<Rightarrow> bool" where
  "sequences bs \<longleftrightarrow> (\<exists>qs. bs = concat qs \<and> (\<forall>q \<in> set qs. sequence_ok q))"

definition following :: "nat \<Rightarrow> nat" where
  "following b = (if 0xc0 \<le> b \<and> b \<le> 0xdf then 1 else if 0xe0 \<le> b \<and> b \<le> 0xef then 2 else if 0xf0 \<le> b \<and> b \<le> 0xf7 then 3 else 0)"

lemma sequence_shape: "sequence_ok q \<Longrightarrow> \<exists>b r. q = b # r \<and> length r = following b \<and> (b < 0x80 \<or> following b \<noteq> 0)"
  by (induction q rule: sequence_ok.induct) (auto simp: following_def)

lemma sequences_Nil [simp]: "sequences []"
  unfolding sequences_def by (intro exI [of _ "[]"]) simp

lemma sequences_Cons:
  "sequences (b # bs) \<longleftrightarrow> sequence_ok (b # take (following b) bs) \<and> sequences (drop (following b) bs)"
proof
  assume "sequences (b # bs)"
  then obtain qs where qs: "b # bs = concat qs" "\<forall>q \<in> set qs. sequence_ok q" unfolding sequences_def by blast
  then obtain q qs' where q: "qs = q # qs'" by (cases qs) auto
  from sequence_shape [of q] qs(2) q obtain r where r: "q = b # r" "length r = following b" "bs = r @ concat qs'"
    using qs(1) by auto
  have "sequences (concat qs')" using qs(2) q unfolding sequences_def by auto
  with r qs(2) q show "sequence_ok (b # take (following b) bs) \<and> sequences (drop (following b) bs)" by simp
next
  assume a: "sequence_ok (b # take (following b) bs) \<and> sequences (drop (following b) bs)"
  then obtain qs where qs: "drop (following b) bs = concat qs" "\<forall>q \<in> set qs. sequence_ok q" unfolding sequences_def by blast
  have "b # bs = concat ((b # take (following b) bs) # qs)" by (simp add: qs(1) [symmetric])
  with a qs(2) show "sequences (b # bs)" unfolding sequences_def by (metis set_ConsD)
qed

lemma byte_all: "list_all (\<lambda>n. P (of_nat n)) [0..<256] \<Longrightarrow> P (b :: byte)"
proof -
  assume all: "list_all (\<lambda>n. P (of_nat n)) [0..<256]"
  have "unat b \<in> set [0..<256]" by simp
  with all have "P (of_nat (unat b))" unfolding list_all_iff by blast
  then show "P b" by simp
qed

lemma continuation_mask: "(b :: byte) AND 0xc0 = 0x80 \<longleftrightarrow> continuation (unat b)"
  by (rule byte_all) (simp add: continuation_def upt_conv_Cons)

lemma utf8_count_nat: "utf8_count b = following (unat b)"
  by (simp add: utf8_count_def following_def word_le_nat_alt)

lemma isWellFormed_nat:
  "isWellFormed a b \<longleftrightarrow>
    (let a = unat a; b = unat b
     in 0xc2 \<le> a \<and> a \<le> 0xf4 \<and> (a = 0xe0 \<longrightarrow> 0xa0 \<le> b) \<and> (a = 0xed \<longrightarrow> b \<le> 0x9f) \<and> (a = 0xf0 \<longrightarrow> 0x90 \<le> b) \<and> (a = 0xf4 \<longrightarrow> b \<le> 0x8f))"
  unfolding isWellFormed_def Let_def word_le_nat_alt word_less_nat_alt word_unat_eq_iff by auto

lemma take_next: "j < length input \<Longrightarrow> take (Suc m) (map unat (drop j input)) = unat (input ! j) # take m (map unat (drop (Suc j) input))"
  by (simp add: Cons_nth_drop_Suc [symmetric])

lemma continuation_ok:
  assumes "following (unat (input ! i)) = n" "n \<noteq> 0" "i + n < length input"
  shows "fst (utf8_continuation input 0 n i) \<longleftrightarrow> sequence_ok (unat (input ! i) # take n (map unat (drop (Suc i) input)))"
    "fst (utf8_continuation input 0 n i) \<Longrightarrow> snd (utf8_continuation input 0 n i) = i + n"
proof -
  consider "n = Suc 0" "0xc0 \<le> unat (input ! i)" "unat (input ! i) \<le> 0xdf"
    | "n = Suc (Suc 0)" "0xe0 \<le> unat (input ! i)" "unat (input ! i) \<le> 0xef"
    | "n = Suc (Suc (Suc 0))" "0xf0 \<le> unat (input ! i)" "unat (input ! i) \<le> 0xf7"
    using assms(1,2) by (auto simp: following_def numeral_2_eq_2 numeral_3_eq_3 split: if_splits)
  then have "fst (utf8_continuation input 0 n i) \<longleftrightarrow> sequence_ok (unat (input ! i) # take n (map unat (drop (Suc i) input)))"
  proof cases
    case 1
    then show ?thesis using assms(3) by (auto simp: take_next Let_def continuation_mask isWellFormed_nat)
  next
    case 2
    then show ?thesis using assms(3) by (auto simp: take_next Let_def continuation_mask isWellFormed_nat)
  next
    case 3
    then show ?thesis using assms(3) by (auto simp: take_next Let_def continuation_mask isWellFormed_nat)
  qed
  moreover have "fst (utf8_continuation input j n i) \<Longrightarrow> snd (utf8_continuation input j n i) = i + n" for j i
    by (induction input j n i rule: utf8_continuation.induct) (auto simp: Let_def split: if_splits)
  ultimately show "fst (utf8_continuation input 0 n i) \<longleftrightarrow> sequence_ok (unat (input ! i) # take n (map unat (drop (Suc i) input)))"
    "fst (utf8_continuation input 0 n i) \<Longrightarrow> snd (utf8_continuation input 0 n i) = i + n" by blast+
qed

lemma scan_invalid: "\<not> fst (utf8_scan input False i)"
  by (induction input "False" i rule: utf8_scan.induct) (subst utf8_scan.simps, auto simp: Let_def split: prod.splits)

lemma scan_ok: "i \<le> length input \<Longrightarrow> fst (utf8_scan input True i) \<longleftrightarrow> sequences (map unat (drop i input))"
proof (induction input True i rule: utf8_scan.induct)
  case (1 input i)
  show ?case
  proof (cases "i < length input")
    case False
    then show ?thesis by (subst utf8_scan.simps) simp
  next
    case True
    let ?b = "unat (input ! i)"
    have seq: "sequences (map unat (drop i input)) \<longleftrightarrow> sequence_ok (?b # take (following ?b) (map unat (drop (Suc i) input))) \<and>
        sequences (map unat (drop (Suc i + following ?b) input))"
      using True by (simp add: Cons_nth_drop_Suc [symmetric] sequences_Cons drop_map add.commute)
    show ?thesis
    proof (cases "input ! i < 0x80")
      case small: True
      then have "?b < 0x80" by (simp add: word_less_nat_alt)
      with 1(1) True small seq show ?thesis by (subst utf8_scan.simps) (simp add: following_def)
    next
      case big: False
      then have "\<not> ?b < 0x80" by (simp add: word_less_nat_alt)
      show ?thesis
      proof (cases "following ?b = 0 \<or> length input \<le> i + following ?b")
        case none: True
        have "\<not> sequences (map unat (drop i input))"
        proof
          assume "sequences (map unat (drop i input))"
          with seq sequence_shape have "length (take (following ?b) (map unat (drop (Suc i) input))) = following ?b"
            "?b < 0x80 \<or> following ?b \<noteq> 0" by blast+
          with none True \<open>\<not> ?b < 0x80\<close> show False by auto
        qed
        with none True big show ?thesis by (subst utf8_scan.simps) (auto simp: utf8_count_nat Let_def)
      next
        case some: False
        obtain ok i' where r: "utf8_continuation input 0 (following ?b) i = (ok, i')" by fastforce
        have step: "utf8_scan input True i = utf8_scan input ok (i' + 1)"
          using some True big r by (subst utf8_scan.simps) (simp add: utf8_count_nat Let_def)
        note c = continuation_ok [of input i "following ?b"]
        show ?thesis
        proof (cases ok)
          case ok: True
          then have "i' = i + following ?b" "sequence_ok (?b # take (following ?b) (map unat (drop (Suc i) input)))"
            using c r some by auto
          with 1(2) True big some r ok seq step show ?thesis
            by (simp add: utf8_count_nat)
        next
          case False
          with c(1) r some seq scan_invalid [of input "i' + 1"] step show ?thesis by auto
        qed
      qed
    qed
  qed
qed

text \<open>
  C14: A string is accepted exactly when it is the encoding of a sequence of Unicode scalar values: no
  overlong forms, no surrogates, no code points above 0x10ffff and no truncated sequences.
\<close>

theorem validateUTF8_correct:
  "validateUTF8 input = None \<longleftrightarrow>
    (\<exists>cs. (\<forall>c \<in> set cs. scalar_value c) \<and> map unat input = concat (map encode_scalar cs))"
proof -
  have "validateUTF8 input = None \<longleftrightarrow> sequences (map unat input)"
    using scan_ok [of 0 input] by (auto simp: validateUTF8_def split: prod.splits)
  also have "\<dots> \<longleftrightarrow> (\<exists>cs. (\<forall>c \<in> set cs. scalar_value c) \<and> map unat input = concat (map encode_scalar cs))"
  proof
    assume "sequences (map unat input)"
    then obtain qs where qs: "map unat input = concat qs" "\<forall>q \<in> set qs. sequence_ok q" unfolding sequences_def by blast
    have "\<exists>cs. (\<forall>c \<in> set cs. scalar_value c) \<and> qs = map encode_scalar cs"
      using qs(2)
    proof (induction qs)
      case (Cons q qs)
      then obtain cs c where "\<forall>c \<in> set cs. scalar_value c" "qs = map encode_scalar cs" "scalar_value c" "q = encode_scalar c"
        using sequence_encodes by (metis list.set_intros)
      then show ?case by (intro exI [of _ "c # cs"]) simp
    qed simp
    with qs(1) show "\<exists>cs. (\<forall>c \<in> set cs. scalar_value c) \<and> map unat input = concat (map encode_scalar cs)" by metis
  next
    assume "\<exists>cs. (\<forall>c \<in> set cs. scalar_value c) \<and> map unat input = concat (map encode_scalar cs)"
    then obtain cs where cs: "\<forall>c \<in> set cs. scalar_value c" "map unat input = concat (map encode_scalar cs)" by blast
    then have "\<forall>q \<in> set (map encode_scalar cs). sequence_ok q" by (auto intro: encode_ok)
    with cs(2) show "sequences (map unat input)" unfolding sequences_def by blast
  qed
  finally show ?thesis .
qed

text \<open>The encoding of the scalar value 0x20ac, in three bytes.\<close>

theorem validateUTF8_correct_witness:
  "validateUTF8 [0xe2, 0x82, 0xac] = None \<and> [0xe2, 0x82, 0xac] = encode_scalar 0x20ac"
proof -
  have enc: "[0xe2, 0x82, 0xac] = encode_scalar 0x20ac" by (simp add: encode_scalar_def)
  then have "map unat [0xe2, 0x82, 0xac :: byte] = concat (map encode_scalar [0x20ac])" by simp
  moreover have "\<forall>c \<in> set [0x20ac]. scalar_value c" by (simp add: scalar_value_def)
  ultimately have "validateUTF8 [0xe2, 0x82, 0xac] = None" using validateUTF8_correct [of "[0xe2, 0x82, 0xac]"] by blast
  with enc show ?thesis by blast
qed

text \<open>
  The scan goes on behind a bad continuation byte, so the position reported for a bad string is not
  the first bad one: here it is the end of the string, and the bad byte is the second.
\<close>

lemma reported_position: "validateUTF8 [0xc3, 0x28, 0x41] = Some 3"
proof -
  let ?input = "[0xc3, 0x28, 0x41] :: bytes"
  have bad: "utf8_continuation ?input 0 1 0 = (False, 1)" and count: "utf8_count 0xc3 = 1" by code_simp+
  have "utf8_scan ?input False 3 = (False, 3)" by (subst utf8_scan.simps) simp
  then have "utf8_scan ?input False 2 = (False, 3)" by (subst utf8_scan.simps) simp
  then have "utf8_scan ?input False (Suc (Suc 0)) = (False, 3)" unfolding numeral_2_eq_2 .
  then have "utf8_scan ?input True 0 = (False, 3)" using bad by (subst utf8_scan.simps) (simp add: count Let_def)
  then show ?thesis by (simp add: validateUTF8_def)
qed

end
