(* ===== verification/Sem_Ver.thy ===== *)
theory Sem_Ver
  imports Prelude "HOL-Library.Product_Lexorder" "HOL-Library.List_Lexorder"
begin

text \<open>
  liblangutil/SemVerHandler.cpp: versions, the parser of version expressions and their matching.
  What a component matches is stated for all prefixes, numbers of levels and wildcards; a caret before 0 and before 0.0.c
  matches other versions than in npm. A \<open>SemVerError\<close> is \<open>None\<close>. Of the tokens there are those the parser looks at, the others are \<open>OtherToken\<close>.
\<close>

section \<open>Versions\<close>

type_synonym unsigned32 = "32 word"

record SemVerVersion =
  sv_numbers :: "unsigned32 list"
  sv_prerelease :: string
  sv_build :: string

definition isDecimalDigit :: "char \<Rightarrow> bool" where
  "isDecimalDigit c \<longleftrightarrow> of_char CHR ''0'' \<le> (of_char c :: nat) \<and> (of_char c :: nat) \<le> of_char CHR ''9''"

definition digitOf :: "char \<Rightarrow> unsigned32" where
  "digitOf c = of_nat (of_char c - of_char CHR ''0'')"

text \<open>The digits at the start of a string, as an unsigned number that may wrap around, and the rest.\<close>

fun readNumber :: "unsigned32 \<Rightarrow> string \<Rightarrow> unsigned32 \<times> string" where
  "readNumber v [] = (v, [])"
| "readNumber v (c # cs) = (if isDecimalDigit c then readNumber (v * 10 + digitOf c) cs else (v, c # cs))"

fun readNumbers :: "nat \<Rightarrow> string \<Rightarrow> (unsigned32 list \<times> string) option" where
  "readNumbers 0 str = Some ([], str)"
| "readNumbers (Suc left) str =
     (case readNumber 0 str of (v, rest) \<Rightarrow>
        if left = 0 then Some ([v], rest)
        else
          (case rest of
             [] \<Rightarrow> None
           | c # cs \<Rightarrow>
               if c \<noteq> CHR ''.'' then None
               else (case readNumbers left cs of None \<Rightarrow> None | Some (vs, end) \<Rightarrow> Some (v # vs, end))))"

definition SemVerVersion_parse :: "string \<Rightarrow> SemVerVersion option" where
  "SemVerVersion_parse str =
     (case readNumbers 3 str of
        None \<Rightarrow> None
      | Some (numbers, rest) \<Rightarrow>
          let (prerelease, rest) =
                (case rest of
                   c # cs \<Rightarrow> if c = CHR ''-'' then (takeWhile (\<lambda>c. c \<noteq> CHR ''+'') cs, dropWhile (\<lambda>c. c \<noteq> CHR ''+'') cs) else ([], rest)
                 | [] \<Rightarrow> ([], rest));
              (build, rest) =
                (case rest of c # cs \<Rightarrow> if c = CHR ''+'' then (cs, []) else ([], rest) | [] \<Rightarrow> ([], rest))
          in if rest \<noteq> [] then None
             else Some \<lparr>sv_numbers = numbers, sv_prerelease = prerelease, sv_build = build\<rparr>)"

section \<open>Matching\<close>

datatype Token =
    TAssign | TLessThan | TLessThanOrEqual | TGreaterThan | TGreaterThanOrEqual
  | TBitXor | TBitNot | TSub | TOr | TIllegal | OtherToken

text \<open>The component has three numbers; those from the number of present levels on are zero.\<close>

record MatchComponent =
  mc_prefix :: Token
  mc_version :: SemVerVersion
  mc_levelsPresent :: nat

definition wildcard :: unsigned32 where
  "wildcard = - 1"

text \<open>The comparison loop: the difference, as an \<open>int\<close>, and whether something was compared.\<close>

fun compareLevels :: "unsigned32 list \<Rightarrow> unsigned32 list \<Rightarrow> int \<Rightarrow> bool \<Rightarrow> int \<times> bool" where
  "compareLevels (v # vs) (c # cs) cmp did =
     (if cmp \<noteq> 0 then (cmp, did)
      else if c \<noteq> wildcard then compareLevels vs cs (sint (v - c)) True
      else compareLevels vs cs cmp did)"
| "compareLevels vs cs cmp did = (cmp, did)"

definition matches_plain :: "Token \<Rightarrow> nat \<Rightarrow> SemVerVersion \<Rightarrow> SemVerVersion \<Rightarrow> bool result" where
  "matches_plain prefix levels version v =
     (case compareLevels (sv_numbers v) (take levels (sv_numbers version)) 0 False of (cmp, didCompare) \<Rightarrow>
        let cmp = (if cmp = 0 \<and> sv_prerelease v \<noteq> [] \<and> didCompare then - 1 else cmp)
        in case prefix of
             TAssign \<Rightarrow> Inr (cmp = 0)
           | TLessThan \<Rightarrow> Inr (cmp < 0)
           | TLessThanOrEqual \<Rightarrow> Inr (cmp \<le> 0)
           | TGreaterThan \<Rightarrow> Inr (cmp > 0)
           | TGreaterThanOrEqual \<Rightarrow> Inr (cmp \<ge> 0)
           | _ \<Rightarrow> Inl InternalCompilerError)"

definition component_matches :: "MatchComponent \<Rightarrow> SemVerVersion \<Rightarrow> bool result" where
  "component_matches c v =
     (let plain = (\<lambda>prefix levels. matches_plain prefix levels (mc_version c) v)
      in if mc_prefix c = TBitNot then
           bind_result (plain TGreaterThanOrEqual (mc_levelsPresent c)) (\<lambda>ok.
             if \<not> ok then Inr False
             else plain TLessThanOrEqual (if 2 \<le> mc_levelsPresent c then 2 else 1))
         else if mc_prefix c = TBitXor then
           bind_result (plain TGreaterThanOrEqual (mc_levelsPresent c)) (\<lambda>ok.
             if \<not> ok then Inr False
             else plain TLessThanOrEqual (if sv_numbers (mc_version c) ! 0 = 0 then 2 else 1))
         else plain (mc_prefix c) (mc_levelsPresent c))"

fun conjunction_matches :: "MatchComponent list \<Rightarrow> SemVerVersion \<Rightarrow> bool result" where
  "conjunction_matches [] v = Inr True"
| "conjunction_matches (c # cs) v =
     bind_result (component_matches c v) (\<lambda>ok. if \<not> ok then Inr False else conjunction_matches cs v)"

fun some_range_matches :: "MatchComponent list list \<Rightarrow> SemVerVersion \<Rightarrow> bool result" where
  "some_range_matches [] v = Inr False"
| "some_range_matches (r # rs) v =
     bind_result (conjunction_matches r v) (\<lambda>ok. if ok then Inr True else some_range_matches rs v)"

definition expression_matches :: "MatchComponent list list \<Rightarrow> SemVerVersion \<Rightarrow> bool result" where
  "expression_matches ranges v = (if ranges = [] then Inr False else some_range_matches ranges v)"

section \<open>The parser\<close>

record SemVerParser =
  sp_tokens :: "Token list"
  sp_literals :: "string list"
  sp_pos :: nat
  sp_posInside :: nat

text \<open>No character is the code's \<open>char(-1)\<close>, which none of the comparisons accepts.\<close>

definition currentChar :: "SemVerParser \<Rightarrow> char option" where
  "currentChar p =
     (if length (sp_literals p) \<le> sp_pos p then None
      else if length (sp_literals p ! sp_pos p) \<le> sp_posInside p then None
      else Some (sp_literals p ! sp_pos p ! sp_posInside p))"

definition currentToken :: "SemVerParser \<Rightarrow> Token" where
  "currentToken p = (if sp_pos p < length (sp_tokens p) then sp_tokens p ! sp_pos p else TIllegal)"

definition nextToken :: "SemVerParser \<Rightarrow> SemVerParser" where
  "nextToken p = p\<lparr>sp_pos := sp_pos p + 1, sp_posInside := 0\<rparr>"

definition nextChar :: "SemVerParser \<Rightarrow> SemVerParser" where
  "nextChar p =
     (if sp_pos p < length (sp_literals p) then
        if length (sp_literals p ! sp_pos p) \<le> sp_posInside p + 1 then nextToken p
        else p\<lparr>sp_posInside := sp_posInside p + 1\<rparr>
      else p)"

text \<open>What is left to read.\<close>

definition unread :: "SemVerParser \<Rightarrow> nat \<times> nat" where
  "unread p = (length (sp_literals p) - sp_pos p,
     if sp_pos p < length (sp_literals p) then length (sp_literals p ! sp_pos p) - sp_posInside p else 0)"

lemma wf_unread: "wf {(p, q). unread p < unread q}"
proof -
  have "{(p, q). unread p < unread q} = inv_image {(x, y). x < y} unread" by (auto simp: inv_image_def)
  then show ?thesis using wf_inv_image [OF wf] by metis
qed

lemma nextToken_unread: "unread (nextToken p) \<le> unread p"
  by (auto simp: unread_def nextToken_def)

lemma nextChar_unread: "currentChar p \<noteq> None \<Longrightarrow> unread (nextChar p) < unread p"
  by (auto simp: currentChar_def nextChar_def nextToken_def unread_def split: if_splits)

function readVersionPart :: "nat \<Rightarrow> unsigned32 \<Rightarrow> SemVerParser \<Rightarrow> (unsigned32 \<times> SemVerParser) option" where
  "readVersionPart startPos v p =
     (case currentChar p of
        None \<Rightarrow> Some (v, p)
      | Some c \<Rightarrow>
          if sp_pos p = startPos \<and> isDecimalDigit c then
            if v * 10 < v \<or> v * 10 + digitOf c < v * 10 then None
            else readVersionPart startPos (v * 10 + digitOf c) (nextChar p)
          else Some (v, p))"
  by pat_completeness auto
termination
  by (relation "inv_image {(p, q). unread p < unread q} (\<lambda>(startPos, v, p). p)")
    (simp add: wf_unread wf_inv_image, simp add: nextChar_unread)

declare readVersionPart.simps [simp del]

definition parseVersionPart :: "SemVerParser \<Rightarrow> (unsigned32 \<times> SemVerParser) option" where
  "parseVersionPart p =
     (case currentChar p of
        None \<Rightarrow> None
      | Some c \<Rightarrow>
          if c = CHR ''x'' \<or> c = CHR ''X'' \<or> c = CHR ''*'' then Some (wildcard, nextChar p)
          else if c = CHR ''0'' then Some (0, nextChar p)
          else if isDecimalDigit c then readVersionPart (sp_pos p) (digitOf c) (nextChar p)
          else None)"

text \<open>The parts of a version, at most as many as are left.\<close>

fun parseVersionParts :: "nat \<Rightarrow> SemVerParser \<Rightarrow> (unsigned32 list \<times> SemVerParser) option" where
  "parseVersionParts 0 p = Some ([], p)"
| "parseVersionParts (Suc left) p =
     (case parseVersionPart p of
        None \<Rightarrow> None
      | Some (v, p) \<Rightarrow>
          if currentChar p = Some CHR ''.'' then
            (case parseVersionParts left (nextChar p) of None \<Rightarrow> None | Some (vs, p) \<Rightarrow> Some (v # vs, p))
          else Some ([v], p))"

definition isPrefixToken :: "Token \<Rightarrow> bool" where
  "isPrefixToken t \<longleftrightarrow> t \<in> {TBitXor, TBitNot, TLessThan, TLessThanOrEqual, TGreaterThan, TGreaterThanOrEqual, TAssign}"

definition parseMatchComponent :: "SemVerParser \<Rightarrow> (MatchComponent \<times> SemVerParser) option" where
  "parseMatchComponent p =
     (let token = currentToken p;
          prefix = (if isPrefixToken token then token else TAssign);
          p = (if isPrefixToken token then nextToken p else p)
      in case parseVersionParts 3 p of
           None \<Rightarrow> None
         | Some (vs, p) \<Rightarrow>
             Some (\<lparr>mc_prefix = prefix,
                    mc_version = \<lparr>sv_numbers = vs @ replicate (3 - length vs) 0, sv_prerelease = [], sv_build = []\<rparr>,
                    mc_levelsPresent = length vs\<rparr>, p))"

lemma readVersionPart_unread: "readVersionPart startPos v p = Some (w, p') \<Longrightarrow> unread p' \<le> unread p"
proof (induction startPos v p rule: readVersionPart.induct)
  case (1 startPos v p)
  show ?case
  proof (cases "currentChar p")
    case None
    with 1(2) show ?thesis by (simp add: readVersionPart.simps)
  next
    case (Some c)
    show ?thesis
    proof (cases "p' = p")
      case False
      with Some 1(2) have c: "sp_pos p = startPos \<and> isDecimalDigit c" "\<not> (v * 10 < v \<or> v * 10 + digitOf c < v * 10)"
        "readVersionPart startPos (v * 10 + digitOf c) (nextChar p) = Some (w, p')"
        by (simp_all add: readVersionPart.simps [of startPos v p] split: if_splits)
      from 1(1) [OF Some c] nextChar_unread [of p] Some show ?thesis by auto
    qed simp
  qed
qed

lemma parseVersionPart_unread: "parseVersionPart p = Some (v, p') \<Longrightarrow> unread p' < unread p"
proof -
  assume r: "parseVersionPart p = Some (v, p')"
  then obtain c where c: "currentChar p = Some c" by (auto simp: parseVersionPart_def split: option.splits)
  then have next_p: "unread (nextChar p) < unread p" by (simp add: nextChar_unread)
  show ?thesis
  proof (cases "p' = nextChar p")
    case False
    with r c have "readVersionPart (sp_pos p) (digitOf c) (nextChar p) = Some (v, p')"
      by (simp add: parseVersionPart_def split: if_splits)
    with next_p show ?thesis by (auto dest: readVersionPart_unread)
  qed (use next_p in simp)
qed

lemma parseVersionParts_unread: "parseVersionParts n p = Some (vs, p') \<Longrightarrow> n \<noteq> 0 \<Longrightarrow> unread p' < unread p"
proof (induction n arbitrary: p vs)
  case (Suc n)
  from Suc.prems obtain v q where q: "parseVersionPart p = Some (v, q)" by (auto split: option.splits)
  note step = parseVersionPart_unread [OF q]
  show ?case
  proof (cases "currentChar q = Some CHR ''.''")
    case True
    with Suc.prems q obtain ws where "parseVersionParts n (nextChar q) = Some (ws, p')" by (auto split: option.splits)
    then have "unread p' \<le> unread (nextChar q)" using Suc.IH by (cases n) (auto intro: less_imp_le)
    with True nextChar_unread [of q] step show ?thesis by auto
  qed (use Suc.prems q step in auto)
qed simp

lemma parseMatchComponent_unread: "parseMatchComponent p = Some (c, p') \<Longrightarrow> unread p' < unread p"
proof -
  assume r: "parseMatchComponent p = Some (c, p')"
  define q where "q = (if isPrefixToken (currentToken p) then nextToken p else p)"
  from r obtain vs where "parseVersionParts 3 q = Some (vs, p')"
    by (auto simp: parseMatchComponent_def Let_def q_def split: option.splits)
  from parseVersionParts_unread [OF this] have "unread p' < unread q" by simp
  also have "\<dots> \<le> unread p" using nextToken_unread by (simp add: q_def)
  finally show ?thesis .
qed

function parseComponents :: "SemVerParser \<Rightarrow> (MatchComponent list \<times> SemVerParser) option" where
  "parseComponents p =
     (if currentToken p \<noteq> TOr \<and> currentToken p \<noteq> TIllegal then
        (case parseMatchComponent p of
           None \<Rightarrow> None
         | Some (c, p) \<Rightarrow> (case parseComponents p of None \<Rightarrow> None | Some (cs, p) \<Rightarrow> Some (c # cs, p)))
      else Some ([], p))"
  by pat_completeness auto
termination
  by (relation "{(p, q). unread p < unread q}") (auto simp: wf_unread intro: parseMatchComponent_unread)

declare parseComponents.simps [simp del]

definition parseMatchExpression :: "SemVerParser \<Rightarrow> (MatchComponent list \<times> SemVerParser) option" where
  "parseMatchExpression p =
     (case parseMatchComponent p of
        None \<Rightarrow> None
      | Some (c, p) \<Rightarrow>
          if currentToken p = TSub then
            (case parseMatchComponent (nextToken p) of
               None \<Rightarrow> None
             | Some (c', p) \<Rightarrow> Some ([c\<lparr>mc_prefix := TGreaterThanOrEqual\<rparr>, c'\<lparr>mc_prefix := TLessThanOrEqual\<rparr>], p))
          else
            (case parseComponents p of None \<Rightarrow> None | Some (cs, p) \<Rightarrow> Some (c # cs, p)))"

lemma parseComponents_unread: "parseComponents p = Some (cs, p') \<Longrightarrow> unread p' \<le> unread p"
proof (induction p arbitrary: cs rule: parseComponents.induct)
  case (1 p)
  show ?case
  proof (cases "currentToken p \<noteq> TOr \<and> currentToken p \<noteq> TIllegal")
    case True
    with 1(2) obtain c q ds where q: "parseMatchComponent p = Some (c, q)" "parseComponents q = Some (ds, p')"
      by (subst (asm) parseComponents.simps) (auto split: option.splits)
    from 1(1) [OF True q(1) refl q(2)] parseMatchComponent_unread [OF q(1)] show ?thesis by auto
  next
    case False
    with 1(2) show ?thesis by (subst (asm) parseComponents.simps) auto
  qed
qed

lemma parseMatchExpression_unread: "parseMatchExpression p = Some (cs, p') \<Longrightarrow> unread p' < unread p"
proof -
  assume r: "parseMatchExpression p = Some (cs, p')"
  then obtain c q where q: "parseMatchComponent p = Some (c, q)"
    by (auto simp: parseMatchExpression_def split: option.splits)
  note step = parseMatchComponent_unread [OF q]
  show ?thesis
  proof (cases "currentToken q = TSub")
    case True
    with r q obtain c' where c': "parseMatchComponent (nextToken q) = Some (c', p')"
      by (auto simp: parseMatchExpression_def split: option.splits)
    from parseMatchComponent_unread [OF this] nextToken_unread [of q] step show ?thesis by auto
  next
    case False
    with r q obtain ds where "parseComponents q = Some (ds, p')"
      by (auto simp: parseMatchExpression_def split: option.splits)
    from parseComponents_unread [OF this] step show ?thesis by auto
  qed
qed

text \<open>The ranges separated by \<open>||\<close>; after an error there are none.\<close>

function parseRanges :: "SemVerParser \<Rightarrow> MatchComponent list list option" where
  "parseRanges p =
     (case parseMatchExpression p of
        None \<Rightarrow> None
      | Some (cs, p) \<Rightarrow>
          if length (sp_tokens p) \<le> sp_pos p then Some [cs]
          else if currentToken p \<noteq> TOr then None
          else (case parseRanges (nextToken p) of None \<Rightarrow> None | Some rs \<Rightarrow> Some (cs # rs)))"
  by pat_completeness auto
termination
proof (relation "{(p, q). unread p < unread q}")
  fix p x cs q
  assume "parseMatchExpression p = Some x" "(cs, q) = x"
  then have "parseMatchExpression p = Some (cs, q)" by simp
  from parseMatchExpression_unread [OF this] nextToken_unread [of q]
  show "(nextToken q, p) \<in> {(p, q). unread p < unread q}" by auto
qed (rule wf_unread)

declare parseRanges.simps [simp del]

definition parseExpression :: "Token list \<Rightarrow> string list \<Rightarrow> MatchComponent list list" where
  "parseExpression tokens literals =
     (case parseRanges \<lparr>sp_tokens = tokens, sp_literals = literals, sp_pos = 0, sp_posInside = 0\<rparr> of
        None \<Rightarrow> []
      | Some ranges \<Rightarrow> ranges)"

section \<open>Ranges of versions\<close>

definition smallVersion :: "SemVerVersion \<Rightarrow> bool" where
  "smallVersion v \<longleftrightarrow> length (sv_numbers v) = 3 \<and> (\<forall>n \<in> set (sv_numbers v). uint n < 2 ^ 31)"

text \<open>The version of a component may have wildcards.\<close>

definition smallPattern :: "SemVerVersion \<Rightarrow> bool" where
  "smallPattern c \<longleftrightarrow> length (sv_numbers c) = 3 \<and> (\<forall>n \<in> set (sv_numbers c). n = wildcard \<or> uint n < 2 ^ 31)"

text \<open>The pairs of numbers of a version and a component that are compared, those without a wildcard.\<close>

definition compared :: "nat \<Rightarrow> SemVerVersion \<Rightarrow> SemVerVersion \<Rightarrow> (int \<times> int) list" where
  "compared levels c v =
     map (\<lambda>(x, a). (uint x, uint a))
       (filter (\<lambda>(x, a). a \<noteq> wildcard) (zip (sv_numbers v) (take levels (sv_numbers c))))"

text \<open>
  In their lexicographic order, the numbers of a version are below those of the component, or the same, and then
  a prerelease is before the release.
\<close>

definition below :: "nat \<Rightarrow> SemVerVersion \<Rightarrow> SemVerVersion \<Rightarrow> bool" where
  "below levels c v \<longleftrightarrow> map fst (compared levels c v) < map snd (compared levels c v)"

definition same :: "nat \<Rightarrow> SemVerVersion \<Rightarrow> SemVerVersion \<Rightarrow> bool" where
  "same levels c v \<longleftrightarrow> map fst (compared levels c v) = map snd (compared levels c v)"

definition before :: "nat \<Rightarrow> SemVerVersion \<Rightarrow> SemVerVersion \<Rightarrow> bool" where
  "before levels c v \<longleftrightarrow> below levels c v \<or> same levels c v \<and> sv_prerelease v \<noteq> [] \<and> compared levels c v \<noteq> []"

lemma small_difference:
  fixes v c :: unsigned32
  assumes "uint v < 2 ^ 31" "uint c < 2 ^ 31"
  shows "sint (v - c) = uint v - uint c"
proof -
  have "v - c = word_of_int (uint v - uint c)" by simp
  moreover have "- 2147483648 \<le> uint v - uint c" "uint v - uint c < 2147483648"
    using assms uint_ge_0 [of v] uint_ge_0 [of c] by (simp_all, linarith+)
  ultimately show ?thesis by (simp only: signed_of_int) (simp add: signed_take_bit_int_eq_self)
qed

lemma small_not_wildcard: "uint (c :: unsigned32) < 2 ^ 31 \<Longrightarrow> c \<noteq> wildcard"
  by (auto simp: wildcard_def unsigned_minus_1_eq_mask mask_eq_exp_minus_1)

text \<open>The difference of the first two numbers that are not the same.\<close>

definition orderOf :: "(int \<times> int) list \<Rightarrow> int" where
  "orderOf ps = foldr (\<lambda>(x, a) r. if x \<noteq> a then x - a else r) ps 0"

lemma orderOf_simps [simp]: "orderOf [] = 0" "orderOf ((x, a) # ps) = (if x \<noteq> a then x - a else orderOf ps)"
  by (simp_all add: orderOf_def)

lemma orderOf_lex:
  "orderOf ps < 0 \<longleftrightarrow> map fst ps < map snd ps" "orderOf ps = 0 \<longleftrightarrow> map fst ps = map snd ps"
proof -
  have "(orderOf ps < 0 \<longleftrightarrow> map fst ps < map snd ps) \<and> (orderOf ps = 0 \<longleftrightarrow> map fst ps = map snd ps)"
  proof (induction ps)
    case (Cons p ps)
    obtain x a where "p = (x, a)" by (cases p)
    with Cons show ?case by (cases "x = a") (simp_all del: map_eq_conv)
  qed simp
  then show "orderOf ps < 0 \<longleftrightarrow> map fst ps < map snd ps" "orderOf ps = 0 \<longleftrightarrow> map fst ps = map snd ps" by blast+
qed

lemma compareLevels_stop: "cmp \<noteq> 0 \<Longrightarrow> compareLevels vs cs cmp did = (cmp, did)"
  by (cases vs; cases cs) simp_all

lemma compareLevels_small:
  "\<forall>v \<in> set vs. uint v < 2 ^ 31 \<Longrightarrow> \<forall>c \<in> set cs. c = wildcard \<or> uint c < 2 ^ 31 \<Longrightarrow>
    compareLevels vs cs 0 did =
      (let ps = map (\<lambda>(x, a). (uint x, uint a)) (filter (\<lambda>(x, a). a \<noteq> wildcard) (zip vs cs))
       in (orderOf ps, did \<or> ps \<noteq> []))"
proof (induction vs cs arbitrary: did rule: list_induct2')
  case (4 v vs c cs)
  then show ?case
    using small_difference [of v c] compareLevels_stop [of "uint v - uint c" vs cs True]
    by (cases "c = wildcard"; cases "uint v = uint c") (auto simp: Let_def)
qed simp_all

lemma matches_small:
  assumes "smallVersion v" "smallPattern c"
  shows "matches_plain TGreaterThanOrEqual levels c v = Inr (\<not> before levels c v)"
    "matches_plain TLessThan levels c v = Inr (before levels c v)"
    "matches_plain TLessThanOrEqual levels c v = Inr (below levels c v \<or> same levels c v)"
    "matches_plain TGreaterThan levels c v = Inr (\<not> below levels c v \<and> \<not> same levels c v)"
    "matches_plain TAssign levels c v = Inr (same levels c v \<and> \<not> before levels c v)"
proof -
  have "\<forall>x \<in> set (sv_numbers v). uint x < 2 ^ 31" "\<forall>a \<in> set (take levels (sv_numbers c)). a = wildcard \<or> uint a < 2 ^ 31"
    using assms by (auto simp: smallVersion_def smallPattern_def dest: in_set_takeD)
  from compareLevels_small [OF this] have cmp: "compareLevels (sv_numbers v) (take levels (sv_numbers c)) 0 False =
      (orderOf (compared levels c v), compared levels c v \<noteq> [])" by (simp add: compared_def)
  have order: "below levels c v \<longleftrightarrow> orderOf (compared levels c v) < 0" "same levels c v \<longleftrightarrow> orderOf (compared levels c v) = 0"
    by (simp_all add: below_def same_def orderOf_lex)
  note facts = matches_plain_def cmp before_def order Let_def
  show "matches_plain TGreaterThanOrEqual levels c v = Inr (\<not> before levels c v)" by (auto simp: facts)
  show "matches_plain TLessThan levels c v = Inr (before levels c v)" by (auto simp: facts)
  show "matches_plain TLessThanOrEqual levels c v = Inr (below levels c v \<or> same levels c v)" by (auto simp: facts)
  show "matches_plain TGreaterThan levels c v = Inr (\<not> below levels c v \<and> \<not> same levels c v)" by (auto simp: facts)
  show "matches_plain TAssign levels c v = Inr (same levels c v \<and> \<not> before levels c v)" by (auto simp: facts)
qed

text \<open>A version that is not before a component is not below a shorter one.\<close>

lemma below_shorter: "k \<le> levels \<Longrightarrow> below k c v \<Longrightarrow> below levels c v"
proof -
  assume k: "k \<le> levels" and b: "below k c v"
  have "map fst ps < map snd ps \<Longrightarrow> map fst (ps @ qs) < map snd (ps @ qs)" for ps qs :: "(int \<times> int) list"
    by (induction ps) auto
  moreover have "\<exists>qs. compared levels c v = compared k c v @ qs"
  proof -
    obtain m where m: "levels = k + m" using k le_Suc_ex by blast
    have zt: "zip xs (take n ys) = take n (zip xs ys)" for xs ys :: "unsigned32 list" and n
      by (induction xs ys arbitrary: n rule: list_induct2') (simp_all add: take_Cons')
    show ?thesis unfolding compared_def zt unfolding m take_add filter_append map_append by blast
  qed
  ultimately show "below levels c v" using b unfolding below_def by metis
qed

text \<open>
  C23: What a component matches, for every prefix, one to three numbers and wildcards: only the numbers that are
  given are compared, in their lexicographic order, where a prerelease is before its release. A comparison
  matches the versions in its relation to the component. A tilde matches those not before the component that have
  the same first two numbers, or the same first one if only that is given. A caret matches those not before the
  component that have the same first number, or, if this is 0, the same first two numbers, where one that is not
  given is 0. (npm reads a caret before 0 and before 0.0 otherwise.) This holds for numbers below 2^31,
  whose differences do not wrap around.
\<close>

theorem component_ranges:
  assumes "smallVersion v" "smallPattern c" "levels \<in> {1, 2, 3}" "\<forall>i < 3. levels \<le> i \<longrightarrow> sv_numbers c ! i = 0"
  shows "component_matches \<lparr>mc_prefix = TGreaterThanOrEqual, mc_version = c, mc_levelsPresent = levels\<rparr> v =
      Inr (\<not> before levels c v) \<and>
    component_matches \<lparr>mc_prefix = TLessThan, mc_version = c, mc_levelsPresent = levels\<rparr> v = Inr (before levels c v) \<and>
    component_matches \<lparr>mc_prefix = TLessThanOrEqual, mc_version = c, mc_levelsPresent = levels\<rparr> v =
      Inr (below levels c v \<or> same levels c v) \<and>
    component_matches \<lparr>mc_prefix = TGreaterThan, mc_version = c, mc_levelsPresent = levels\<rparr> v =
      Inr (\<not> below levels c v \<and> \<not> same levels c v) \<and>
    component_matches \<lparr>mc_prefix = TAssign, mc_version = c, mc_levelsPresent = levels\<rparr> v =
      Inr (same levels c v \<and> \<not> before levels c v) \<and>
    component_matches \<lparr>mc_prefix = TBitNot, mc_version = c, mc_levelsPresent = levels\<rparr> v =
      Inr (\<not> before levels c v \<and> same (min 2 levels) c v) \<and>
    component_matches \<lparr>mc_prefix = TBitXor, mc_version = c, mc_levelsPresent = levels\<rparr> v =
      Inr (\<not> before levels c v \<and> same (if sv_numbers c ! 0 = 0 then 2 else 1) c v)"
proof (intro conjI)
  note plain = matches_small [OF assms(1,2)]
  have upper: "\<not> before levels c v \<Longrightarrow> k \<le> levels \<Longrightarrow> \<not> below k c v" for k
    using below_shorter [of k levels c v] by (auto simp: before_def)
  have first: "\<not> below k c v" if "sv_numbers c ! 0 = 0" "levels = 1" "k = 2" for k
  proof -
    obtain x y z where "sv_numbers v = [x, y, z]"
      using assms(1) by (auto simp: smallVersion_def numeral_3_eq_3 length_Suc_conv)
    moreover obtain a b d where "sv_numbers c = [a, b, d]"
      using assms(2) by (auto simp: smallPattern_def numeral_3_eq_3 length_Suc_conv)
    moreover have "sv_numbers c ! 1 = 0" using assms(4) that by simp
    ultimately show ?thesis using that
      by (auto simp: below_def compared_def wildcard_def numeral_2_eq_2)
  qed
  have levels: "(if 2 \<le> levels then 2 else 1) = min 2 levels" using assms(3) by auto
  show "component_matches \<lparr>mc_prefix = TBitNot, mc_version = c, mc_levelsPresent = levels\<rparr> v =
      Inr (\<not> before levels c v \<and> same (min 2 levels) c v)"
    using upper [of "min 2 levels"] by (auto simp: component_matches_def plain levels)
  show "component_matches \<lparr>mc_prefix = TBitXor, mc_version = c, mc_levelsPresent = levels\<rparr> v =
      Inr (\<not> before levels c v \<and> same (if sv_numbers c ! 0 = 0 then 2 else 1) c v)"
    using upper [of 1] upper [of 2] first assms(3) by (auto simp: component_matches_def plain)
qed (simp_all add: component_matches_def matches_small [OF assms(1,2)])

text \<open>A caret before 0.5 and a wildcard, and a version with the second number 5.\<close>

theorem component_ranges_witness:
  "component_matches \<lparr>mc_prefix = TBitXor, mc_version = \<lparr>sv_numbers = [0, 5, wildcard], sv_prerelease = [], sv_build = []\<rparr>, mc_levelsPresent = 3\<rparr>
     \<lparr>sv_numbers = [0, 5, 9], sv_prerelease = [], sv_build = []\<rparr> = Inr True"
proof -
  let ?v = "\<lparr>sv_numbers = [0, 5, 9], sv_prerelease = [], sv_build = []\<rparr>"
  let ?c = "\<lparr>sv_numbers = [0, 5, wildcard], sv_prerelease = [], sv_build = []\<rparr>"
  have "smallVersion ?v" "smallPattern ?c" "\<forall>i < 3. 3 \<le> i \<longrightarrow> sv_numbers ?c ! i = 0"
    by (simp_all add: smallVersion_def smallPattern_def)
  from component_ranges [OF this(1,2) _ this(3)] show ?thesis
    by (simp add: before_def below_def same_def compared_def wildcard_def numeral_2_eq_2)
qed

text \<open>A caret before 0 and before 0.0, where npm has all of 0.x and only 0.0.3.\<close>

lemma caret_zero:
  "component_matches \<lparr>mc_prefix = TBitXor, mc_version = \<lparr>sv_numbers = [0, 0, 0], sv_prerelease = [], sv_build = []\<rparr>, mc_levelsPresent = 1\<rparr>
     \<lparr>sv_numbers = [0, 1, 0], sv_prerelease = [], sv_build = []\<rparr> = Inr False"
  "component_matches \<lparr>mc_prefix = TBitXor, mc_version = \<lparr>sv_numbers = [0, 0, 3], sv_prerelease = [], sv_build = []\<rparr>, mc_levelsPresent = 3\<rparr>
     \<lparr>sv_numbers = [0, 0, 4], sv_prerelease = [], sv_build = []\<rparr> = Inr True"
  by code_simp+

text \<open>
  The check for an overflow misses products that wrap around to more than the factor: this number is read as
  another one.
\<close>

lemma overflow_missed: "parseExpression [OtherToken] [''5000000000.0.0''] =
    [[\<lparr>mc_prefix = TAssign, mc_version = \<lparr>sv_numbers = [705032704, 0, 0], sv_prerelease = [], sv_build = []\<rparr>, mc_levelsPresent = 3\<rparr>]]"
  by code_simp

end
