(* ===== verification/Value_Types.thy ===== *)
theory Value_Types
  imports Common_Data Complex_Main "HOL-Library.Signed_Division"
begin

text \<open>
  libpolynomial/ast/Types.cpp, the value types of the contract language: the numbers, addresses,
  booleans, byte sequences and enumerations, with their conversions, the types of operators and the
  evaluation of constant expressions. The types of string literals, contracts and functions are left out. A
  null pointer or an error message as the type of a result is \<open>None\<close>.
\<close>

section \<open>The types\<close>

text \<open>
  An address that may be payable, an integer by its bits and sign, a constant with the number of bytes of
  the fixed bytes type it is compatible with, a fixed point number by bits, decimal digits and
  sign, and an enumeration by its name and number of members.
\<close>

datatype ValueType =
    AddressType bool
  | IntegerType nat bool
  | RationalNumberType rat "nat option"
  | BoolType
  | FixedPointType nat nat bool
  | FixedBytesType nat
  | EnumType string nat

text \<open>The assertions of the constructors.\<close>

fun type_ok :: "ValueType \<Rightarrow> bool" where
  "type_ok (IntegerType bits sg) = (0 < bits \<and> bits \<le> 256 \<and> bits mod 8 = 0)"
| "type_ok (FixedPointType bits digits sg) = (8 \<le> bits \<and> bits \<le> 256 \<and> bits mod 8 = 0 \<and> digits \<le> 80)"
| "type_ok (FixedBytesType n) = (0 < n \<and> n \<le> 32)"
| "type_ok _ = True"

definition int_minValue :: "nat \<Rightarrow> bool \<Rightarrow> int" where
  "int_minValue bits sg = (if sg then - (2 ^ (bits - 1)) else 0)"

definition int_maxValue :: "nat \<Rightarrow> bool \<Rightarrow> int" where
  "int_maxValue bits sg = (if sg then 2 ^ (bits - 1) - 1 else 2 ^ bits - 1)"

definition fixed_maxIntegerValue :: "nat \<Rightarrow> nat \<Rightarrow> bool \<Rightarrow> int" where
  "fixed_maxIntegerValue bits digits sg = (2 ^ (bits - (if sg then 1 else 0)) - 1) sdiv 10 ^ digits"

definition fixed_minIntegerValue :: "nat \<Rightarrow> nat \<Rightarrow> bool \<Rightarrow> int" where
  "fixed_minIntegerValue bits digits sg = (if sg then (- (2 ^ (bits - 1))) sdiv 10 ^ digits else 0)"

definition fitsIntegerType :: "int \<Rightarrow> nat \<Rightarrow> bool \<Rightarrow> bool" where
  "fitsIntegerType v bits sg =
     (if v < 0 \<and> \<not> sg then False
      else if v < int_minValue bits sg \<or> int_maxValue bits sg < v then False
      else True)"

definition numerator :: "rat \<Rightarrow> int" where
  "numerator v = fst (quotient_of v)"

definition denominator :: "rat \<Rightarrow> int" where
  "denominator v = snd (quotient_of v)"

definition isFractional :: "rat \<Rightarrow> bool" where
  "isFractional v \<longleftrightarrow> denominator v \<noteq> 1"

section \<open>The types of constants\<close>

definition integerType :: "rat \<Rightarrow> ValueType option" where
  "integerType v =
     (let value = numerator v;
          negative = value < 0;
          value = (if negative then ((0 - value) - 1) * 2 else value)
      in if 2 ^ 256 - 1 < value then None
         else Some (IntegerType (max (bytesRequired (nat value)) 1 * 8) negative))"

text \<open>The loop that multiplies by ten, with the number of further decimal digits allowed.\<close>

fun scaleDigits :: "nat \<Rightarrow> rat \<Rightarrow> nat \<Rightarrow> rat \<Rightarrow> rat \<times> nat" where
  "scaleDigits 0 maxValue digits value = (value, digits)"
| "scaleDigits (Suc left) maxValue digits value =
     (if value * 10 \<le> maxValue \<and> denominator value \<noteq> 1 then scaleDigits left maxValue (digits + 1) (value * 10)
      else (value, digits))"

definition fixedPointType :: "rat \<Rightarrow> ValueType option" where
  "fixedPointType v =
     (let negative = v < 0;
          maxValue = (if negative then 2 ^ 255 else 2 ^ 256 - 1);
          (value, fractionalDigits) = scaleDigits 80 maxValue 0 \<bar>v\<bar>
      in if maxValue < value then None
         else
           let w = numerator value sdiv denominator value;
               w = (if negative \<and> w \<noteq> 0 then (w - 1) * 2 else w)
           in if 2 ^ 256 - 1 < w then None
              else Some (FixedPointType (max (bytesRequired (nat w)) 1 * 8) fractionalDigits negative))"

fun mobileType :: "ValueType \<Rightarrow> ValueType option" where
  "mobileType (RationalNumberType v c) = (if \<not> isFractional v then integerType v else fixedPointType v)"
| "mobileType t = Some t"

section \<open>Conversions\<close>

text \<open>A payable address converts to one that need not be, as the order of the state mutabilities says.\<close>

fun address_implicit :: "bool \<Rightarrow> ValueType \<Rightarrow> bool" where
  "address_implicit payable (AddressType payable') = (payable' \<longrightarrow> payable)"
| "address_implicit payable _ = False"

fun integer_implicit :: "nat \<Rightarrow> bool \<Rightarrow> ValueType \<Rightarrow> bool" where
  "integer_implicit bits sg (IntegerType bits' sg') =
     (if bits' < bits then False
      else if sg then sg'
      else \<not> sg' \<or> bits < bits')"
| "integer_implicit bits sg (FixedPointType bits' digits' sg') =
     (int_maxValue bits sg \<le> fixed_maxIntegerValue bits' digits' sg' \<and>
      fixed_minIntegerValue bits' digits' sg' \<le> int_minValue bits sg)"
| "integer_implicit bits sg _ = False"

fun fixed_implicit :: "nat \<Rightarrow> nat \<Rightarrow> bool \<Rightarrow> ValueType \<Rightarrow> bool" where
  "fixed_implicit bits digits sg (FixedPointType bits' digits' sg') =
     (if digits' < digits then False
      else if bits' < bits then False
      else fixed_maxIntegerValue bits digits sg \<le> fixed_maxIntegerValue bits' digits' sg' \<and>
           fixed_minIntegerValue bits' digits' sg' \<le> fixed_minIntegerValue bits digits sg)"
| "fixed_implicit bits digits sg _ = False"

fun rational_implicit :: "rat \<Rightarrow> nat option \<Rightarrow> ValueType \<Rightarrow> bool" where
  "rational_implicit v c (IntegerType bits sg) =
     (if isFractional v then False else fitsIntegerType (numerator v) bits sg)"
| "rational_implicit v c (FixedPointType bits digits sg) =
     (if v < 0 \<and> \<not> sg then False
      else if \<not> isFractional v then
        of_int (fixed_minIntegerValue bits digits sg) \<le> v \<and> v \<le> of_int (fixed_maxIntegerValue bits digits sg)
      else
        let value = v * 10 ^ digits
        in if denominator value \<noteq> 1 then False else fitsIntegerType (numerator value) bits sg)"
| "rational_implicit v c (FixedBytesType n) = (v = 0 \<or> c = Some n)"
| "rational_implicit v c _ = False"

fun bytes_implicit :: "nat \<Rightarrow> ValueType \<Rightarrow> bool" where
  "bytes_implicit n (FixedBytesType n') = (n \<le> n')"
| "bytes_implicit n _ = False"

text \<open>The other types convert to themselves only.\<close>

fun isImplicitlyConvertibleTo :: "ValueType \<Rightarrow> ValueType \<Rightarrow> bool" where
  "isImplicitlyConvertibleTo (AddressType payable) t = address_implicit payable t"
| "isImplicitlyConvertibleTo (IntegerType bits sg) t = integer_implicit bits sg t"
| "isImplicitlyConvertibleTo (FixedPointType bits digits sg) t = fixed_implicit bits digits sg t"
| "isImplicitlyConvertibleTo (RationalNumberType v c) t = rational_implicit v c t"
| "isImplicitlyConvertibleTo (FixedBytesType n) t = bytes_implicit n t"
| "isImplicitlyConvertibleTo BoolType t = (t = BoolType)"
| "isImplicitlyConvertibleTo (EnumType name members) t = (t = EnumType name members)"

fun isRational :: "ValueType \<Rightarrow> bool" where
  "isRational (RationalNumberType v c) = True"
| "isRational _ = False"

text \<open>The explicit conversions, those of constants by their mobile types.\<close>

definition address_explicit :: "bool \<Rightarrow> ValueType \<Rightarrow> bool" where
  "address_explicit payable t \<longleftrightarrow>
     address_implicit payable t \<or> (case t of IntegerType _ _ \<Rightarrow> True | FixedBytesType n \<Rightarrow> 160 = n * 8 | _ \<Rightarrow> False)"

definition integer_explicit :: "nat \<Rightarrow> ValueType \<Rightarrow> bool" where
  "integer_explicit bits t =
     (case t of
        IntegerType _ _ \<Rightarrow> True
      | AddressType _ \<Rightarrow> True
      | EnumType _ _ \<Rightarrow> True
      | FixedBytesType n \<Rightarrow> bits = n * 8
      | FixedPointType _ _ _ \<Rightarrow> True
      | _ \<Rightarrow> False)"

definition fixed_explicit :: "ValueType \<Rightarrow> bool" where
  "fixed_explicit t = (case t of FixedPointType _ _ _ \<Rightarrow> True | IntegerType _ _ \<Rightarrow> True | _ \<Rightarrow> False)"

definition bytes_explicit :: "nat \<Rightarrow> ValueType \<Rightarrow> bool" where
  "bytes_explicit n t =
     (case t of
        IntegerType bits _ \<Rightarrow> n * 8 = bits
      | AddressType _ \<Rightarrow> n = 20
      | FixedPointType _ _ _ \<Rightarrow> True
      | FixedBytesType _ \<Rightarrow> True
      | _ \<Rightarrow> False)"

definition enum_explicit :: "string \<Rightarrow> nat \<Rightarrow> ValueType \<Rightarrow> bool" where
  "enum_explicit name members t \<longleftrightarrow> t = EnumType name members \<or> (case t of IntegerType _ _ \<Rightarrow> True | _ \<Rightarrow> False)"

fun explicitConversion :: "ValueType \<Rightarrow> ValueType \<Rightarrow> bool" where
  "explicitConversion (AddressType payable) t = address_explicit payable t"
| "explicitConversion (IntegerType bits sg) t = integer_explicit bits t"
| "explicitConversion (FixedPointType bits digits sg) t = fixed_explicit t"
| "explicitConversion (FixedBytesType n) t = bytes_explicit n t"
| "explicitConversion (EnumType name members) t = enum_explicit name members t"
| "explicitConversion t t' = isImplicitlyConvertibleTo t t'"

definition isExplicitlyConvertibleTo :: "ValueType \<Rightarrow> ValueType \<Rightarrow> bool" where
  "isExplicitlyConvertibleTo t t' =
     (if isRational t then
        isImplicitlyConvertibleTo t t' \<or>
        (case t' of
           FixedBytesType _ \<Rightarrow> False
         | _ \<Rightarrow> (case mobileType t of None \<Rightarrow> False | Some m \<Rightarrow> explicitConversion m t'))
      else explicitConversion t t')"

definition commonType :: "ValueType \<Rightarrow> ValueType \<Rightarrow> ValueType option" where
  "commonType a b =
     (if (case mobileType a of None \<Rightarrow> False | Some m \<Rightarrow> isImplicitlyConvertibleTo b m) then mobileType a
      else if (case mobileType b of None \<Rightarrow> False | Some m \<Rightarrow> isImplicitlyConvertibleTo a m) then mobileType b
      else None)"

section \<open>The values of a type\<close>

text \<open>The numbers a type can hold.\<close>

fun numbers :: "ValueType \<Rightarrow> rat set" where
  "numbers (IntegerType bits sg) = of_int ` {int_minValue bits sg .. int_maxValue bits sg}"
| "numbers (FixedPointType bits digits sg) = (\<lambda>n. of_int n / 10 ^ digits) ` {int_minValue bits sg .. int_maxValue bits sg}"
| "numbers (RationalNumberType v c) = {v}"
| "numbers _ = {}"

fun numeric :: "ValueType \<Rightarrow> bool" where
  "numeric (IntegerType bits sg) = True"
| "numeric (FixedPointType bits digits sg) = True"
| "numeric _ = False"

lemma fraction: "v = of_int (numerator v) / of_int (denominator v)" "0 < denominator v"
  using quotient_of_div [of v] quotient_of_denom_pos [of v] by (cases "quotient_of v"; simp add: numerator_def denominator_def)+

lemma integral: "\<not> isFractional v \<longleftrightarrow> v = of_int (numerator v)"
proof
  assume "\<not> isFractional v"
  with fraction(1) [of v] show "v = of_int (numerator v)" by (simp add: isFractional_def)
next
  assume "v = of_int (numerator v)"
  then obtain n where "v = of_int n" by blast
  then show "\<not> isFractional v" by (simp add: isFractional_def denominator_def)
qed

lemma numerator_int [simp]: "numerator (of_int n) = n"
  by (simp add: numerator_def)

lemma integral_int [simp]: "\<not> isFractional (of_int n)"
  by (simp add: isFractional_def denominator_def)

lemma sdiv_pos: "0 \<le> a \<Longrightarrow> 0 < b \<Longrightarrow> a sdiv b = a div (b::int)"
  by (cases "a = 0") (simp_all add: signed_divide_int_def)

lemma sdiv_neg: "0 \<le> a \<Longrightarrow> 0 < b \<Longrightarrow> (- a) sdiv b = - (a div (b::int))"
  by (simp add: sdiv_pos)

lemma fixed_max: "fixed_maxIntegerValue bits digits sg = int_maxValue bits sg div 10 ^ digits"
  unfolding fixed_maxIntegerValue_def int_maxValue_def by (simp add: sdiv_pos)

lemma fixed_min: "fixed_minIntegerValue bits digits sg = - ((- int_minValue bits sg) div 10 ^ digits)"
  unfolding fixed_minIntegerValue_def int_minValue_def by (simp add: sdiv_neg del: minus_sdiv_eq)

text \<open>An integer between the bounds for integers is a value of the fixed point type.\<close>

lemma integer_in_fixed:
  assumes "fixed_minIntegerValue bits digits sg \<le> n" "n \<le> fixed_maxIntegerValue bits digits sg"
  shows "of_int n \<in> numbers (FixedPointType bits digits sg)"
proof -
  let ?p = "10 ^ digits :: int"
  have "n * ?p \<le> int_maxValue bits sg div ?p * ?p" using assms(2) by (simp add: fixed_max mult_right_mono)
  also have "\<dots> \<le> int_maxValue bits sg" by (metis minus_mod_eq_div_mult le_add_same_cancel1 diff_le_eq pos_mod_sign zero_less_power zero_less_numeral)
  finally have upper: "n * ?p \<le> int_maxValue bits sg" .
  have "(- n) * ?p \<le> (- int_minValue bits sg) div ?p * ?p" using assms(1) by (intro mult_right_mono) (simp_all add: fixed_min)
  also have "\<dots> \<le> - int_minValue bits sg" by (metis minus_mod_eq_div_mult le_add_same_cancel1 diff_le_eq pos_mod_sign zero_less_power zero_less_numeral)
  finally have lower: "int_minValue bits sg \<le> n * ?p" by simp
  have "(of_int n :: rat) = of_int (n * ?p) / 10 ^ digits" by simp
  with upper lower show ?thesis unfolding numbers.simps by (intro image_eqI [of _ _ "n * ?p"]) simp_all
qed

lemma integer_conversion:
  assumes "bits \<noteq> 0" "isImplicitlyConvertibleTo (IntegerType bits sg) (IntegerType bits' sg')"
  shows "int_minValue bits' sg' \<le> int_minValue bits sg \<and> int_maxValue bits sg \<le> int_maxValue bits' sg'"
proof -
  from assms(2) have le: "bits \<le> bits'" by (auto split: if_splits)
  have pow: "(2::int) ^ m \<le> 2 ^ n" if "m \<le> n" for m n using that by simp
  note p = pow [OF le] pow [OF diff_le_mono [OF le], of 1]
  show ?thesis
  proof (cases "sg \<or> \<not> sg'")
    case True
    with assms(2) have "sg' = sg" by (auto split: if_splits)
    with p show ?thesis unfolding int_minValue_def int_maxValue_def
      by (cases sg; intro conjI; simp only: if_True if_False; linarith)
  next
    case False
    with assms(2) have "bits \<le> bits' - 1" by (auto split: if_splits)
    note up = pow [OF this]
    have "0 \<le> (2::int) ^ (bits' - 1)" by simp
    moreover have "sg = False" "sg' = True" using False by simp_all
    ultimately show ?thesis using up unfolding int_minValue_def int_maxValue_def
      by (intro conjI; simp only: if_True if_False; linarith)
  qed
qed

lemma fits_range: "fitsIntegerType v bits sg \<longleftrightarrow> int_minValue bits sg \<le> v \<and> v \<le> int_maxValue bits sg"
  by (auto simp: fitsIntegerType_def int_minValue_def)

lemma conversion_keeps:
  assumes "isImplicitlyConvertibleTo t t'" "type_ok t" "numeric t'" "\<exists>v c bits sg. t = RationalNumberType v c \<or> t = IntegerType bits sg"
  shows "numbers t \<subseteq> numbers t'"
proof -
  consider (int) bits sg where "t = IntegerType bits sg" | (rat) v c where "t = RationalNumberType v c" using assms(4) by blast
  then show ?thesis
  proof cases
    case int
    show ?thesis
    proof (cases t')
      case (IntegerType bits' sg')
      have "int_minValue bits' sg' \<le> int_minValue bits sg \<and> int_maxValue bits sg \<le> int_maxValue bits' sg'"
        by (rule integer_conversion) (use assms(1,2) int IntegerType in auto)
      then show ?thesis unfolding int IntegerType numbers.simps by (intro image_mono) auto
    next
      case (FixedPointType bits' digits' sg')
      with assms(1) int have "fixed_minIntegerValue bits' digits' sg' \<le> n" "n \<le> fixed_maxIntegerValue bits' digits' sg'"
        if "int_minValue bits sg \<le> n" "n \<le> int_maxValue bits sg" for n using that by auto
      with integer_in_fixed show ?thesis unfolding int FixedPointType numbers.simps(1) by fastforce
    qed (use assms(3) in auto)
  next
    case rat
    show ?thesis
    proof (cases t')
      case (IntegerType bits' sg')
      with assms(1) rat show ?thesis by (auto simp: fits_range integral split: if_splits)
    next
      case (FixedPointType bits' digits' sg')
      show ?thesis
      proof (cases "isFractional v")
        case True
        let ?w = "v * 10 ^ digits'"
        from True assms(1) rat FixedPointType have "\<not> isFractional ?w" "fitsIntegerType (numerator ?w) bits' sg'"
          by (auto simp: Let_def isFractional_def split: if_splits)
        then have "?w = of_int (numerator ?w)" "int_minValue bits' sg' \<le> numerator ?w" "numerator ?w \<le> int_maxValue bits' sg'"
          by (simp_all add: integral fits_range)
        moreover from this(1) have "v = of_int (numerator ?w) / 10 ^ digits'" by (simp add: field_simps)
        ultimately show ?thesis unfolding rat FixedPointType numbers.simps by (auto intro: image_eqI [of _ _ "numerator ?w"])
      next
        case False
        then have v: "v = of_int (numerator v)" by (simp add: integral)
        from False assms(1) rat FixedPointType have
          "of_int (fixed_minIntegerValue bits' digits' sg') \<le> v" "v \<le> of_int (fixed_maxIntegerValue bits' digits' sg')"
          by (auto split: if_splits)
        then have "fixed_minIntegerValue bits' digits' sg' \<le> numerator v" "numerator v \<le> fixed_maxIntegerValue bits' digits' sg'"
          using v by (metis of_int_le_iff)+
        from integer_in_fixed [OF this] v show ?thesis unfolding rat FixedPointType by simp
      qed
    qed (use assms(3) in auto)
  qed
qed

text \<open>
  C25: An implicit conversion of an integer or of a constant keeps the value: the type converted to can hold every
  number of the type, or the constant.
\<close>

theorem conversions_keep_values:
  assumes "isImplicitlyConvertibleTo t t'" "type_ok t" "numeric t'" "\<exists>v c bits sg. t = RationalNumberType v c \<or> t = IntegerType bits sg"
  shows "numbers t \<subseteq> numbers t'"
  using assms by (rule conversion_keeps)

theorem conversions_keep_values_witness:
  "numbers (IntegerType 8 True) \<subseteq> numbers (IntegerType 16 True)"
  by (rule conversions_keep_values) auto

text \<open>
  C26: The implicit conversion of fixed point types compares the bounds of their integers only, and so loses values:
  a negative number converts to a type without a sign.
\<close>

theorem fixed_conversion_loses:
  "isImplicitlyConvertibleTo (FixedPointType 8 3 True) (FixedPointType 8 3 False) \<and>
   type_ok (FixedPointType 8 3 True) \<and> type_ok (FixedPointType 8 3 False) \<and>
   - 1 / 8 \<in> numbers (FixedPointType 8 3 True) - numbers (FixedPointType 8 3 False)"
proof (intro conjI)
  show "isImplicitlyConvertibleTo (FixedPointType 8 3 True) (FixedPointType 8 3 False)"
    by (simp add: fixed_max fixed_min int_minValue_def int_maxValue_def)
  have "- 1 / 8 = of_int (- 125) / (10 :: rat) ^ 3" by simp
  then have "- 1 / 8 \<in> numbers (FixedPointType 8 3 True)"
    unfolding numbers.simps int_minValue_def int_maxValue_def by (intro image_eqI [of _ _ "- 125"]) simp_all
  moreover have "- 1 / 8 \<notin> numbers (FixedPointType 8 3 False)"
    by (auto simp: int_minValue_def int_maxValue_def field_simps)
  ultimately show "- 1 / 8 \<in> numbers (FixedPointType 8 3 True) - numbers (FixedPointType 8 3 False)" by blast
qed simp_all

section \<open>The type of an integer constant\<close>

lemma type_bits: "type_ok (IntegerType bits sg) \<Longrightarrow> \<exists>k. bits = 8 * k \<and> 0 < k \<and> k \<le> 32"
  by (auto elim!: dvdE)

lemma pow_bytes: "(2::int) ^ (8 * k) = int (256 ^ k)"
  by (simp add: power_mult)

lemma pow_sign: "0 < k \<Longrightarrow> (2::int) ^ (8 * k) = 2 * 2 ^ (8 * k - 1)"
  by (subst power_eq_if) simp

text \<open>The number of bytes that the code computes for a value, for its sign bit as well.\<close>

definition neededBytes :: "int \<Rightarrow> nat" where
  "neededBytes n = max (bytesRequired (nat (if n < 0 then ((0 - n) - 1) * 2 else n))) 1"

lemma needed_iff:
  assumes "0 < k"
  shows "neededBytes n \<le> k \<longleftrightarrow> (if n < 0 then int_minValue (8 * k) True \<le> n else n \<le> int_maxValue (8 * k) False)"
proof (cases "n < 0")
  case True
  have "neededBytes n \<le> k \<longleftrightarrow> nat (((0 - n) - 1) * 2) < 256 ^ k"
    using True assms by (simp add: neededBytes_def bytesRequired_le_iff)
  also have "\<dots> \<longleftrightarrow> ((0 - n) - 1) * 2 < 2 ^ (8 * k)"
    unfolding pow_bytes using True by (subst nat_less_iff) simp_all
  also have "\<dots> \<longleftrightarrow> (0 - n) - 1 < 2 ^ (8 * k - 1)" unfolding pow_sign [OF assms] mult.commute [of _ 2] by (rule mult_less_cancel_left_pos) simp
  also have "\<dots> \<longleftrightarrow> int_minValue (8 * k) True \<le> n" unfolding int_minValue_def by (simp only: if_True) (rule iffI; linarith)
  finally show ?thesis using True by simp
next
  case False
  have "neededBytes n \<le> k \<longleftrightarrow> nat n < 256 ^ k"
    using False assms by (simp add: neededBytes_def bytesRequired_le_iff)
  also have "\<dots> \<longleftrightarrow> n < 2 ^ (8 * k)"
    unfolding pow_bytes using False by (subst nat_less_iff) simp_all
  also have "\<dots> \<longleftrightarrow> n \<le> int_maxValue (8 * k) False" unfolding int_maxValue_def by (simp only: if_False) (rule iffI; linarith)
  finally show ?thesis using False by simp
qed

lemma integerType_needed:
  "integerType (of_int n) = (if neededBytes n \<le> 32 then Some (IntegerType (neededBytes n * 8) (n < 0)) else None)"
proof -
  let ?w = "if n < 0 then ((0 - n) - 1) * 2 else n"
  have "neededBytes n \<le> 32 \<longleftrightarrow> nat ?w < 256 ^ 32" unfolding neededBytes_def by (simp only: bytesRequired_le_iff max.bounded_iff) simp
  also have "\<dots> \<longleftrightarrow> \<not> 2 ^ 256 - 1 < ?w"
  proof -
    have "(2::int) ^ 256 = int (256 ^ 32)" by simp
    then show ?thesis by (subst nat_less_iff) (auto simp del: of_nat_power)
  qed
  finally show ?thesis unfolding integerType_def numerator_int Let_def neededBytes_def by auto
qed

lemma holds_needed:
  assumes "type_ok (IntegerType bits sg)" "of_int n \<in> numbers (IntegerType bits sg)"
  shows "\<exists>k. bits = 8 * k \<and> 0 < k \<and> k \<le> 32 \<and> neededBytes n \<le> k"
proof -
  obtain k where k: "bits = 8 * k" "0 < k" "k \<le> 32" using type_bits [OF assms(1)] by blast
  from assms(2) have n: "int_minValue bits sg \<le> n" "n \<le> int_maxValue bits sg" by auto
  have "0 < (2::int) ^ (8 * k - 1)" by simp
  with pow_sign [OF k(2)] have "int_maxValue bits sg \<le> int_maxValue bits False"
    unfolding int_maxValue_def k(1) by (cases sg; simp only: if_True if_False; linarith)
  moreover have "int_minValue bits True \<le> int_minValue bits sg" by (simp add: int_minValue_def)
  ultimately have "neededBytes n \<le> k" using needed_iff [OF k(2), of n] n k(1) by auto
  with k show ?thesis by blast
qed

lemma integerType_characterised:
  "(\<forall>t. integerType (of_int n) = Some t \<longrightarrow>
      type_ok t \<and> of_int n \<in> numbers t \<and>
      (\<exists>bits. t = IntegerType bits (n < 0) \<and>
        (\<forall>bits' sg. type_ok (IntegerType bits' sg) \<and> of_int n \<in> numbers (IntegerType bits' sg) \<longrightarrow> bits \<le> bits'))) \<and>
   (integerType (of_int n) = None \<longleftrightarrow>
      (\<forall>bits sg. type_ok (IntegerType bits sg) \<longrightarrow> of_int n \<notin> numbers (IntegerType bits sg)))"
proof (cases "neededBytes n \<le> 32")
  case True
  let ?k = "neededBytes n"
  have pos: "0 < ?k" by (simp add: neededBytes_def)
  have ok: "type_ok (IntegerType (?k * 8) (n < 0))" using True pos by simp
  have "int_minValue (?k * 8) (n < 0) \<le> n \<and> n \<le> int_maxValue (?k * 8) (n < 0)"
    using needed_iff [OF pos, of n] by (auto simp: mult.commute int_minValue_def int_maxValue_def intro: order_trans)
  then have holds: "of_int n \<in> numbers (IntegerType (?k * 8) (n < 0))" by simp
  have least: "?k * 8 \<le> bits'" if "type_ok (IntegerType bits' sg)" "of_int n \<in> numbers (IntegerType bits' sg)" for bits' sg
    using holds_needed [OF that] by auto
  have t: "integerType (of_int n) = Some (IntegerType (?k * 8) (n < 0))" using True by (simp add: integerType_needed)
  from ok holds least show ?thesis unfolding t by blast
next
  case False
  have "of_int n \<notin> numbers (IntegerType bits sg)" if "type_ok (IntegerType bits sg)" for bits sg
    using holds_needed [OF that, of n] False by auto
  with False show ?thesis by (simp add: integerType_needed)
qed

text \<open>
  C24: The type of an integer constant is an integer type that holds it and has the least number of bits of all those
  that do; there is none exactly when no integer type holds the constant.
\<close>

theorem integerType_least:
  "(\<forall>t. integerType (of_int n) = Some t \<longrightarrow>
      type_ok t \<and> of_int n \<in> numbers t \<and>
      (\<exists>bits. t = IntegerType bits (n < 0) \<and>
        (\<forall>bits' sg. type_ok (IntegerType bits' sg) \<and> of_int n \<in> numbers (IntegerType bits' sg) \<longrightarrow> bits \<le> bits'))) \<and>
   (integerType (of_int n) = None \<longleftrightarrow>
      (\<forall>bits sg. type_ok (IntegerType bits sg) \<longrightarrow> of_int n \<notin> numbers (IntegerType bits sg)))"
  by (rule integerType_characterised)

theorem integerType_least_witness:
  "(\<exists>bits. integerType (of_int (- 129)) = Some (IntegerType bits True) \<and> 16 \<le> bits) \<and>
   of_int (- 129) \<notin> numbers (IntegerType 8 True)"
proof -
  have "neededBytes (- 129) = 2" by (simp add: neededBytes_def bytesRequired.simps)
  then have ok: "integerType (of_int (- 129)) = Some (IntegerType 16 True)" unfolding integerType_needed by simp
  have "\<not> (type_ok (IntegerType 8 True) \<and> of_int (- 129) \<in> numbers (IntegerType 8 True))"
  proof
    assume holds: "type_ok (IntegerType 8 True) \<and> of_int (- 129) \<in> numbers (IntegerType 8 True)"
    from conjunct1 [OF integerType_least [of "- 129"]] ok
    obtain bits where bits: "IntegerType 16 True = IntegerType bits (- 129 < (0::int))"
      "\<forall>bits' sg. type_ok (IntegerType bits' sg) \<and> of_int (- 129) \<in> numbers (IntegerType bits' sg) \<longrightarrow> bits \<le> bits'"
      by blast
    from bits(2) holds have "bits \<le> 8" by blast
    with bits(1) show False by simp
  qed
  moreover have "type_ok (IntegerType 8 True)" by simp
  ultimately show ?thesis using ok by blast
qed

section \<open>The common type\<close>

text \<open>Integers and integral constants.\<close>

fun integral_type :: "ValueType \<Rightarrow> bool" where
  "integral_type (IntegerType bits sg) = True"
| "integral_type (RationalNumberType v c) = (\<not> isFractional v)"
| "integral_type _ = False"

lemma mobile_holds:
  assumes "mobileType a = Some t" "type_ok a" "integral_type a"
  shows "numbers a \<subseteq> numbers t \<and> type_ok t \<and> (\<exists>bits sg. t = IntegerType bits sg)"
proof (cases a)
  case (RationalNumberType v c)
  with assms(3) have "v = of_int (numerator v)" by (simp add: integral)
  then obtain n where v: "v = of_int n" by blast
  with assms(1) RationalNumberType have "integerType (of_int n) = Some t" by simp
  with integerType_characterised [of n] show ?thesis unfolding RationalNumberType v by auto
qed (use assms in auto)

lemma common_holds:
  assumes "mobileType a = Some t" "isImplicitlyConvertibleTo b t" "type_ok a" "type_ok b" "integral_type a" "integral_type b"
  shows "numbers a \<union> numbers b \<subseteq> numbers t \<and> type_ok t"
proof -
  note m = mobile_holds [OF assms(1,3,5)]
  have "numbers b \<subseteq> numbers t"
  proof (rule conversion_keeps [OF assms(2,4)])
    show "numeric t" using m by auto
    show "\<exists>v c bits sg. b = RationalNumberType v c \<or> b = IntegerType bits sg" using assms(6) by (cases b) auto
  qed
  with m show ?thesis by blast
qed

text \<open>
  C13: The common type of two integer types or integral constants, in which an operator on them is computed,
  holds all values of both.
\<close>

theorem commonType_holds:
  assumes "commonType a b = Some t" "type_ok a" "type_ok b" "integral_type a" "integral_type b"
  shows "numbers a \<union> numbers b \<subseteq> numbers t \<and> type_ok t"
proof -
  from assms(1) have "mobileType a = Some t \<and> isImplicitlyConvertibleTo b t \<or>
      mobileType b = Some t \<and> isImplicitlyConvertibleTo a t"
    by (auto simp: commonType_def split: if_splits option.splits)
  then show ?thesis using common_holds [of a t b] common_holds [of b t a] assms(2-5) by blast
qed

theorem commonType_holds_witness:
  "numbers (IntegerType 16 True) \<union> numbers (IntegerType 8 False) \<subseteq> numbers (IntegerType 16 True)"
proof -
  have "commonType (IntegerType 16 True) (IntegerType 8 False) = Some (IntegerType 16 True)"
    by (simp add: commonType_def)
  from commonType_holds [OF this] show ?thesis by simp
qed

end
