(* ===== verification/Constant_Expressions.thy ===== *)
theory Constant_Expressions
  imports Value_Types
begin

text \<open>
  The types of unary and binary operators of libpolynomial/ast/Types.cpp, among them the evaluation of
  constant expressions: exact on rational numbers, as long as they fit into 4096 bits, but for the
  negative powers of zero, which the code takes to be zero.
\<close>

section \<open>Operators\<close>

text \<open>The tokens of operators, in the order of liblangutil/Token.h.\<close>

datatype Operator =
    TokOr | TokAnd
  | TokBitOr | TokBitXor | TokBitAnd | TokSHL | TokSAR | TokSHR | TokAdd | TokSub | TokMul | TokDiv | TokMod | TokExp
  | TokEqual | TokNotEqual | TokLessThan | TokGreaterThan | TokLessThanOrEqual | TokGreaterThanOrEqual
  | TokNot | TokBitNot | TokInc | TokDec | TokDelete | TokAfter

definition isCompareOp :: "Operator \<Rightarrow> bool" where
  "isCompareOp op \<longleftrightarrow> op \<in> {TokEqual, TokNotEqual, TokLessThan, TokGreaterThan, TokLessThanOrEqual, TokGreaterThanOrEqual}"

definition isBitOp :: "Operator \<Rightarrow> bool" where
  "isBitOp op \<longleftrightarrow> op \<in> {TokBitOr, TokBitXor, TokBitAnd, TokBitNot}"

definition isBooleanOp :: "Operator \<Rightarrow> bool" where
  "isBooleanOp op \<longleftrightarrow> op \<in> {TokOr, TokAnd, TokNot}"

definition isShiftOp :: "Operator \<Rightarrow> bool" where
  "isShiftOp op \<longleftrightarrow> op \<in> {TokSHL, TokSAR, TokSHR}"

section \<open>The precision of constants\<close>

fun mostSignificantBit :: "nat \<Rightarrow> nat" where
  "mostSignificantBit n = (if n < 2 then 0 else Suc (mostSignificantBit (n div 2)))"

declare mostSignificantBit.simps [simp del]

definition fitsPrecisionExp :: "nat \<Rightarrow> nat \<Rightarrow> bool" where
  "fitsPrecisionExp b e =
     (if b = 0 then True
      else
        let msb = mostSignificantBit b
        in if msb = 0 then True
           else if 4096 < msb then False
           else e * (msb + 1) \<le> 4096)"

text \<open>With base two, the product of the exponent with the logarithm of the base is exact.\<close>

definition fitsPrecisionBase2 :: "nat \<Rightarrow> nat \<Rightarrow> bool" where
  "fitsPrecisionBase2 mantissa e =
     (if mantissa = 0 then True
      else
        let msb = mostSignificantBit mantissa
        in if 4096 < msb then False else msb + e + 1 \<le> 4096)"

section \<open>Constant expressions\<close>

text \<open>A fraction whose denominator may be negative.\<close>

definition makeRational :: "int \<Rightarrow> int \<Rightarrow> rat" where
  "makeRational n d = (if d < 0 then Fract (- n) (- d) else Fract n d)"

definition optimizedPow :: "int \<Rightarrow> nat \<Rightarrow> int" where
  "optimizedPow b e = (if b = 1 then 1 else if b = - 1 then 1 - 2 * int (e mod 2) else b ^ e)"

definition uint32_max :: int where
  "uint32_max = 2 ^ 32 - 1"

definition constantExp :: "rat \<Rightarrow> rat \<Rightarrow> rat option" where
  "constantExp v w =
     (if isFractional w then None
      else
        let e = numerator w
        in if e = 0 then Some 1
           else if numerator v = 0 \<or> v = 1 then Some v
           else if v = - 1 then Some (of_int (1 - 2 * (\<bar>e\<bar> AND 1)))
           else if uint32_max < \<bar>e\<bar> then None
           else
             let absExp = nat \<bar>e\<bar>
             in if \<not> fitsPrecisionExp (nat \<bar>numerator v\<bar>) absExp \<or> \<not> fitsPrecisionExp (nat \<bar>denominator v\<bar>) absExp then None
                else
                  let n = optimizedPow (numerator v) absExp;
                      d = optimizedPow (denominator v) absExp
                  in Some (if 0 \<le> e then makeRational n d else makeRational d n))"

definition constantShl :: "rat \<Rightarrow> rat \<Rightarrow> rat option" where
  "constantShl v w =
     (if isFractional v \<or> isFractional w then None
      else if w < 0 then None
      else if of_int uint32_max < w then None
      else if numerator v = 0 then Some 0
      else
        let e = nat (numerator w)
        in if \<not> fitsPrecisionBase2 (nat \<bar>numerator v\<bar>) e then None
           else Some (of_int (numerator v * 2 ^ e)))"

definition constantSar :: "rat \<Rightarrow> rat \<Rightarrow> rat option" where
  "constantSar v w =
     (if isFractional v \<or> isFractional w then None
      else if w < 0 then None
      else if of_int uint32_max < w then None
      else if numerator v = 0 then Some 0
      else
        let e = nat (numerator w)
        in if mostSignificantBit (nat \<bar>numerator v\<bar>) < e then Some (if numerator v < 0 then - 1 else 0)
           else if numerator v < 0 then Some (of_int ((numerator v + 1) sdiv 2 ^ e - 1))
           else Some (of_int (numerator v sdiv 2 ^ e)))"

definition constantMod :: "rat \<Rightarrow> rat \<Rightarrow> rat option" where
  "constantMod v w =
     (if w = 0 then None
      else if isFractional v \<or> isFractional w then
        let tempValue = v / w
        in Some (v - of_int (numerator tempValue sdiv denominator tempValue) * w)
      else Some (of_int (numerator v smod numerator w)))"

definition constantBits :: "(int \<Rightarrow> int \<Rightarrow> int) \<Rightarrow> rat \<Rightarrow> rat \<Rightarrow> rat option" where
  "constantBits f v w =
     (if isFractional v \<or> isFractional w then None else Some (of_int (f (numerator v) (numerator w))))"

fun constantOperation :: "Operator \<Rightarrow> rat \<Rightarrow> rat \<Rightarrow> rat option" where
  "constantOperation TokBitOr v w = constantBits (OR) v w"
| "constantOperation TokBitXor v w = constantBits (XOR) v w"
| "constantOperation TokBitAnd v w = constantBits (AND) v w"
| "constantOperation TokAdd v w = Some (v + w)"
| "constantOperation TokSub v w = Some (v - w)"
| "constantOperation TokMul v w = Some (v * w)"
| "constantOperation TokDiv v w = (if w = 0 then None else Some (v / w))"
| "constantOperation TokMod v w = constantMod v w"
| "constantOperation TokExp v w = constantExp v w"
| "constantOperation TokSHL v w = constantShl v w"
| "constantOperation TokSAR v w = constantSar v w"
| "constantOperation _ v w = None"

definition withinPrecision :: "rat \<Rightarrow> bool" where
  "withinPrecision v \<longleftrightarrow>
     \<not> (numerator v \<noteq> 0 \<and>
        4096 < max (mostSignificantBit (nat \<bar>numerator v\<bar>)) (mostSignificantBit (nat \<bar>denominator v\<bar>)))"

definition constantResult :: "Operator \<Rightarrow> rat \<Rightarrow> rat \<Rightarrow> rat option" where
  "constantResult op v w =
     (case constantOperation op v w of None \<Rightarrow> None | Some r \<Rightarrow> if withinPrecision r then Some r else None)"

section \<open>The types of operators\<close>

datatype UnaryResult = EmptyTuple | SameType | ConstantType rat

definition rational_unary :: "rat \<Rightarrow> Operator \<Rightarrow> UnaryResult option" where
  "rational_unary v op =
     (case op of
        TokBitNot \<Rightarrow> if isFractional v then None else Some (ConstantType (of_int (NOT (numerator v))))
      | TokAdd \<Rightarrow> Some (ConstantType v)
      | TokSub \<Rightarrow> Some (ConstantType (- v))
      | TokAfter \<Rightarrow> Some SameType
      | _ \<Rightarrow> None)"

definition integer_unary :: "Operator \<Rightarrow> UnaryResult option" where
  "integer_unary op =
     (if op = TokDelete then Some EmptyTuple
      else if op = TokSub \<or> op = TokInc \<or> op = TokDec \<or> op = TokBitNot then Some SameType
      else None)"

definition fixed_unary :: "Operator \<Rightarrow> UnaryResult option" where
  "fixed_unary op =
     (if op = TokDelete then Some EmptyTuple
      else if op = TokAdd \<or> op = TokSub \<or> op = TokInc \<or> op = TokDec then Some SameType
      else None)"

definition bytes_unary :: "Operator \<Rightarrow> UnaryResult option" where
  "bytes_unary op = (if op = TokDelete then Some EmptyTuple else if op = TokBitNot then Some SameType else None)"

definition bool_unary :: "Operator \<Rightarrow> UnaryResult option" where
  "bool_unary op = (if op = TokDelete then Some EmptyTuple else if op = TokNot then Some SameType else None)"

definition delete_unary :: "Operator \<Rightarrow> UnaryResult option" where
  "delete_unary op = (if op = TokDelete then Some EmptyTuple else None)"

fun unaryOperatorResult :: "ValueType \<Rightarrow> Operator \<Rightarrow> UnaryResult option" where
  "unaryOperatorResult (RationalNumberType v c) op = rational_unary v op"
| "unaryOperatorResult (IntegerType bits sg) op = integer_unary op"
| "unaryOperatorResult (FixedPointType bits digits sg) op = fixed_unary op"
| "unaryOperatorResult (FixedBytesType n) op = bytes_unary op"
| "unaryOperatorResult BoolType op = bool_unary op"
| "unaryOperatorResult (AddressType payable) op = delete_unary op"
| "unaryOperatorResult (EnumType name members) op = delete_unary op"

definition isValidShiftAndAmountType :: "Operator \<Rightarrow> ValueType \<Rightarrow> bool" where
  "isValidShiftAndAmountType op t =
     (if op = TokSHR then False
      else
        case t of
          IntegerType _ _ \<Rightarrow> True
        | RationalNumberType v c \<Rightarrow>
            \<not> isFractional v \<and> (case integerType v of Some (IntegerType bits sg) \<Rightarrow> \<not> sg | _ \<Rightarrow> False)
        | _ \<Rightarrow> False)"

definition integerBinary :: "ValueType \<Rightarrow> Operator \<Rightarrow> ValueType \<Rightarrow> ValueType option" where
  "integerBinary t op other =
     (if (case other of RationalNumberType _ _ \<Rightarrow> False | FixedPointType _ _ _ \<Rightarrow> False | IntegerType _ _ \<Rightarrow> False | _ \<Rightarrow> True) then None
      else if isShiftOp op then (if isValidShiftAndAmountType op other then Some t else None)
      else
        case commonType t other of
          None \<Rightarrow> None
        | Some common \<Rightarrow>
            if isCompareOp op then Some common
            else if isBooleanOp op then None
            else
              (case common of
                 IntegerType bits sg \<Rightarrow> if op = TokExp \<and> sg then None else Some common
               | FixedPointType _ _ _ \<Rightarrow> if op = TokExp then None else Some common
               | _ \<Rightarrow> Some common))"

definition fixedBinary :: "ValueType \<Rightarrow> Operator \<Rightarrow> ValueType \<Rightarrow> ValueType option" where
  "fixedBinary t op other =
     (case commonType t other of
        None \<Rightarrow> None
      | Some common \<Rightarrow>
          if isCompareOp op then Some common
          else if isBitOp op \<or> isBooleanOp op \<or> op = TokExp then None
          else Some common)"

text \<open>The result for two numbers that are no constants.\<close>

fun numberBinary :: "ValueType \<Rightarrow> Operator \<Rightarrow> ValueType \<Rightarrow> ValueType option" where
  "numberBinary (IntegerType bits sg) op other = integerBinary (IntegerType bits sg) op other"
| "numberBinary (FixedPointType bits digits sg) op other = fixedBinary (FixedPointType bits digits sg) op other"
| "numberBinary _ op other = None"

definition rationalBinary :: "rat \<Rightarrow> nat option \<Rightarrow> Operator \<Rightarrow> ValueType \<Rightarrow> ValueType option" where
  "rationalBinary v c op other =
     (let this = RationalNumberType v c
      in case other of
           RationalNumberType w c' \<Rightarrow>
             if isCompareOp op then
               (case (mobileType this, mobileType other) of
                  (Some m, Some m') \<Rightarrow> numberBinary m op m'
                | _ \<Rightarrow> None)
             else (case constantResult op v w of None \<Rightarrow> None | Some r \<Rightarrow> Some (RationalNumberType r None))
         | IntegerType _ _ \<Rightarrow> (case commonType this other of None \<Rightarrow> None | Some t \<Rightarrow> numberBinary t op other)
         | FixedPointType _ _ _ \<Rightarrow> (case commonType this other of None \<Rightarrow> None | Some t \<Rightarrow> numberBinary t op other)
         | _ \<Rightarrow> None)"

definition addressBinary :: "bool \<Rightarrow> Operator \<Rightarrow> ValueType \<Rightarrow> ValueType option" where
  "addressBinary payable op other = (if \<not> isCompareOp op then None else commonType (AddressType payable) other)"

definition bytesBinary :: "nat \<Rightarrow> Operator \<Rightarrow> ValueType \<Rightarrow> ValueType option" where
  "bytesBinary n op other =
     (if isShiftOp op then (if isValidShiftAndAmountType op other then Some (FixedBytesType n) else None)
      else
        case commonType (FixedBytesType n) other of
          Some (FixedBytesType n') \<Rightarrow> if isCompareOp op \<or> isBitOp op then Some (FixedBytesType n') else None
        | _ \<Rightarrow> None)"

definition boolBinary :: "Operator \<Rightarrow> ValueType \<Rightarrow> ValueType option" where
  "boolBinary op other =
     (if other \<noteq> BoolType then None
      else if op = TokEqual \<or> op = TokNotEqual \<or> op = TokAnd \<or> op = TokOr then Some other else None)"

fun binaryOperatorResult :: "ValueType \<Rightarrow> Operator \<Rightarrow> ValueType \<Rightarrow> ValueType option" where
  "binaryOperatorResult (IntegerType bits sg) op other = integerBinary (IntegerType bits sg) op other"
| "binaryOperatorResult (FixedPointType bits digits sg) op other = fixedBinary (FixedPointType bits digits sg) op other"
| "binaryOperatorResult (RationalNumberType v c) op other = rationalBinary v c op other"
| "binaryOperatorResult (AddressType payable) op other = addressBinary payable op other"
| "binaryOperatorResult (FixedBytesType n) op other = bytesBinary n op other"
| "binaryOperatorResult BoolType op other = boolBinary op other"
| "binaryOperatorResult (EnumType name members) op other =
     (if isCompareOp op then commonType (EnumType name members) other else None)"

section \<open>Constants are evaluated exactly\<close>

text \<open>What the operators mean on numbers. Quotients by zero, and negative powers of zero, have no meaning.\<close>

definition truncated :: "rat \<Rightarrow> int" where
  "truncated v = (if 0 \<le> v then \<lfloor>v\<rfloor> else \<lceil>v\<rceil>)"

definition operator_meaning :: "Operator \<Rightarrow> rat \<Rightarrow> rat \<Rightarrow> rat \<Rightarrow> bool" where
  "operator_meaning op v w r \<longleftrightarrow>
     (case op of
        TokAdd \<Rightarrow> r = v + w
      | TokSub \<Rightarrow> r = v - w
      | TokMul \<Rightarrow> r = v * w
      | TokDiv \<Rightarrow> w \<noteq> 0 \<and> r * w = v
      | TokMod \<Rightarrow> w \<noteq> 0 \<and> r = v - of_int (truncated (v / w)) * w
      | TokExp \<Rightarrow> (\<exists>e. w = of_int e \<and> (v \<noteq> 0 \<or> 0 \<le> e) \<and> r = v powi e)
      | TokSHL \<Rightarrow> (\<exists>e::nat. w = of_nat e \<and> r = v * 2 ^ e)
      | TokSAR \<Rightarrow> (\<exists>e::nat. w = of_nat e \<and> r = of_int \<lfloor>v / 2 ^ e\<rfloor>)
      | TokBitAnd \<Rightarrow> (\<exists>m n. v = of_int m \<and> w = of_int n \<and> r = of_int (m AND n))
      | TokBitOr \<Rightarrow> (\<exists>m n. v = of_int m \<and> w = of_int n \<and> r = of_int (m OR n))
      | TokBitXor \<Rightarrow> (\<exists>m n. v = of_int m \<and> w = of_int n \<and> r = of_int (m XOR n))
      | _ \<Rightarrow> False)"

lemma msb_bounds: "0 < n \<Longrightarrow> 2 ^ mostSignificantBit n \<le> n \<and> n < 2 ^ Suc (mostSignificantBit n)"
proof (induction n rule: mostSignificantBit.induct)
  case (1 n)
  show ?case
  proof (cases "n < 2")
    case True
    with 1(2) show ?thesis by (subst (1 2) mostSignificantBit.simps) simp
  next
    case False
    then have "2 ^ mostSignificantBit (n div 2) \<le> n div 2 \<and> n div 2 < 2 ^ Suc (mostSignificantBit (n div 2))"
      using 1(1) by simp
    then have "2 ^ Suc (mostSignificantBit (n div 2)) \<le> n \<and> n < 2 ^ Suc (Suc (mostSignificantBit (n div 2)))"
      by auto
    with False show ?thesis by (subst (1 2) mostSignificantBit.simps) simp
  qed
qed

lemma truncated_quotient: "n \<noteq> 0 \<Longrightarrow> truncated (of_int m / of_int n) = m sdiv n"
proof -
  assume n: "n \<noteq> 0"
  have pos: "truncated (of_int a / of_int b) = a sdiv b" if "0 < b" for a b :: int
  proof (cases "0 \<le> a")
    case True
    with that show ?thesis by (simp add: truncated_def sdiv_pos floor_divide_of_int_eq)
  next
    case False
    then have neg: "\<not> 0 \<le> of_int a / (of_int b :: rat)" using that by (simp add: divide_less_0_iff not_le)
    have "\<lceil>of_int a / (of_int b :: rat)\<rceil> = - \<lfloor>of_int (- a) / (of_int b :: rat)\<rfloor>" by (simp add: ceiling_def)
    also have "\<dots> = - ((- a) div b)" by (simp only: floor_divide_of_int_eq)
    also have "\<dots> = a sdiv b" using sdiv_neg [of "- a" b] False that by simp
    finally show ?thesis using neg by (simp only: truncated_def if_False)
  qed
  show ?thesis
  proof (cases "0 < n")
    case False
    with n have "0 < - n" by simp
    from pos [OF this, of "- m"] show ?thesis by simp
  qed (rule pos)
qed

lemma shift_negative: "n < 0 \<Longrightarrow> (n + 1) sdiv 2 ^ e - 1 = n div (2 ^ e :: int)"
proof -
  assume n: "n < 0"
  let ?p = "2 ^ e :: int" and ?m = "- n - 1"
  have "n + 1 = - ?m" by simp
  then have "(n + 1) sdiv ?p = - (?m div ?p)" using sdiv_neg [of ?m ?p] n by (simp only:) simp
  moreover have m: "0 \<le> ?m mod ?p" by simp
  have "n div ?p = - (?m div ?p) - 1"
  proof (rule int_div_pos_eq)
    show "n = ?p * (- (?m div ?p) - 1) + (?p - 1 - ?m mod ?p)"
      using div_mult_mod_eq [of ?m ?p] by (simp add: algebra_simps)
    show "0 \<le> ?p - 1 - ?m mod ?p" using pos_mod_bound [of ?p ?m] by simp
    show "?p - 1 - ?m mod ?p < ?p" using m by linarith
  qed
  ultimately show ?thesis by simp
qed

lemma makeRational_quotient: "makeRational n d = of_int n / of_int d"
  by (simp add: makeRational_def Fract_of_int_quotient)

lemma optimizedPow_power: "optimizedPow b e = b ^ e"
  by (auto simp: optimizedPow_def uminus_power_if odd_iff_mod_2_eq_one even_iff_mod_2_eq_zero)

lemma numerator_zero: "numerator v = 0 \<longleftrightarrow> v = 0"
  using fraction [of v] by (auto simp: numerator_def)

lemma shl_meaning: "constantShl v w = Some r \<Longrightarrow> operator_meaning TokSHL v w r"
proof -
  assume r: "constantShl v w = Some r"
  then have int: "\<not> isFractional v" "\<not> isFractional w" "0 \<le> w" by (auto simp: constantShl_def split: if_splits)
  then obtain m n where mn: "v = of_int m" "w = of_int n" by (auto simp: integral)
  with int(3) have n: "w = of_nat (nat n)" by simp
  from r mn int show ?thesis unfolding operator_meaning_def
    by (auto simp: constantShl_def Let_def n split: if_splits intro!: exI [of _ "nat n"])
qed

lemma sar_meaning: "constantSar v w = Some r \<Longrightarrow> operator_meaning TokSAR v w r"
proof -
  assume r: "constantSar v w = Some r"
  then have int: "\<not> isFractional v" "\<not> isFractional w" "0 \<le> w" by (auto simp: constantSar_def split: if_splits)
  then obtain m n where mn: "v = of_int m" "w = of_int n" by (auto simp: integral)
  let ?e = "nat n"
  have w: "w = of_nat ?e" using int(3) mn by simp
  have floor: "\<lfloor>v / 2 ^ ?e\<rfloor> = m div 2 ^ ?e"
    using floor_divide_of_int_eq [of m "2 ^ ?e", where 'a = rat] by (simp add: mn)
  have large: "m div 2 ^ ?e = (if m < 0 then - 1 else 0)" if "m \<noteq> 0" "mostSignificantBit (nat \<bar>m\<bar>) < ?e"
  proof -
    have "nat \<bar>m\<bar> < 2 ^ Suc (mostSignificantBit (nat \<bar>m\<bar>))" using msb_bounds [of "nat \<bar>m\<bar>"] that(1) by simp
    also have "\<dots> \<le> 2 ^ ?e" using that(2) by (intro power_increasing) simp_all
    finally have "nat \<bar>m\<bar> < 2 ^ ?e" .
    then have "\<bar>m\<bar> < 2 ^ ?e" by (subst (asm) nat_less_iff) simp_all
    then show ?thesis using that(1) by (auto intro!: int_div_pos_eq [where r = "m + 2 ^ ?e"] div_pos_pos_trivial)
  qed
  have "r = of_int (m div 2 ^ ?e)"
    using r int(3) large shift_negative [of m ?e] sdiv_pos [of m "2 ^ ?e"]
    by (auto simp: constantSar_def Let_def mn split: if_splits)
  with w floor show ?thesis unfolding operator_meaning_def by (auto intro!: exI [of _ ?e])
qed

lemma mod_meaning: "constantMod v w = Some r \<Longrightarrow> operator_meaning TokMod v w r"
proof -
  assume r: "constantMod v w = Some r"
  show ?thesis
  proof (cases "isFractional v \<or> isFractional w")
    case True
    have "truncated (v / w) = numerator (v / w) sdiv denominator (v / w)"
      using truncated_quotient [of "denominator (v / w)" "numerator (v / w)"] fraction [of "v / w"] by simp
    with r True show ?thesis unfolding operator_meaning_def by (auto simp: constantMod_def Let_def split: if_splits)
  next
    case False
    then obtain m n where mn: "v = of_int m" "w = of_int n" by (auto simp: integral)
    have n: "n \<noteq> 0" using r mn by (auto simp: constantMod_def)
    have "r = of_int (m smod n)" using r False mn by (auto simp: constantMod_def split: if_splits)
    also have "m smod n = m - m sdiv n * n" by (simp add: minus_sdiv_mult_eq_smod)
    finally show ?thesis unfolding operator_meaning_def using truncated_quotient [OF n, of m] mn n by simp
  qed
qed

lemma exp_meaning:
  assumes r: "constantExp v w = Some r"
  shows "operator_meaning TokExp v w r \<or> v = 0 \<and> w < 0 \<and> r = 0"
proof -
  from r obtain e where w: "w = of_int e" by (auto simp: constantExp_def integral split: if_splits)
  have "r = v powi e"
  proof (cases "e = 0 \<or> v = 0 \<or> v = 1 \<or> v = - 1")
    case True
    moreover have "\<bar>e\<bar> mod 2 = e mod 2" by presburger
    then have "(- 1 :: rat) powi e = of_int (1 - 2 * (\<bar>e\<bar> AND 1))"
      by (cases "even e") (auto simp: power_int_minus_left and_one_eq even_iff_mod_2_eq_zero odd_iff_mod_2_eq_one)
    ultimately show ?thesis using r by (auto simp: constantExp_def w Let_def numerator_zero split: if_splits)
  next
    case False
    let ?k = "nat \<bar>e\<bar>"
    have v: "v ^ ?k = of_int (numerator v ^ ?k) / of_int (denominator v ^ ?k)"
      by (subst fraction(1)) (simp add: power_divide)
    have "r = (if 0 \<le> e then v ^ ?k else 1 / v ^ ?k)"
      using r False v by (auto simp: constantExp_def w Let_def numerator_zero makeRational_quotient optimizedPow_power split: if_splits)
    then show ?thesis by (auto simp: power_int_def power_inverse field_simps)
  qed
  moreover have "r = 0" if "v = 0" "e < 0" using calculation that by simp
  ultimately show ?thesis using w unfolding operator_meaning_def by (cases "v = 0 \<and> e < 0") auto
qed

lemma bits_meaning: "constantBits f v w = Some r \<Longrightarrow> \<exists>m n. v = of_int m \<and> w = of_int n \<and> r = of_int (f m n)"
  by (auto simp: constantBits_def integral split: if_splits)

lemma bits_bound: "0 < n \<Longrightarrow> mostSignificantBit n \<le> 4096 \<Longrightarrow> int n < 2 ^ 4097"
proof -
  assume n: "0 < n" "mostSignificantBit n \<le> 4096"
  have "n < 2 ^ Suc (mostSignificantBit n)" using msb_bounds [OF n(1)] by blast
  also have "\<dots> \<le> 2 ^ 4097" by (rule power_increasing) (use n(2) in simp_all)
  finally have "n < 2 ^ 4097" .
  then have "int n < int (2 ^ 4097)" by (simp only: of_nat_less_iff)
  then show "int n < 2 ^ 4097" by (simp only: of_nat_power of_nat_numeral)
qed

lemma within_bound:
  assumes "withinPrecision v"
  shows "\<bar>numerator v\<bar> < 2 ^ 4097" "denominator v < 2 ^ 4097"
proof -
  have "\<bar>numerator v\<bar> < 2 ^ 4097 \<and> denominator v < 2 ^ 4097"
  proof (cases "numerator v = 0")
    case True
    then have "v = 0" by (simp only: numerator_zero)
    then have "denominator v = 1" by (simp add: denominator_def)
    moreover have "(1::int) < 2 ^ 4097" by (rule one_less_power) simp_all
    ultimately show ?thesis using True by (simp only: abs_zero) (simp only: zero_less_power zero_less_numeral)
  next
    case False
    then have n: "0 < nat \<bar>numerator v\<bar>" by simp
    have d: "0 < nat \<bar>denominator v\<bar>" using fraction(2) [of v] by simp
    have msb: "mostSignificantBit (nat \<bar>numerator v\<bar>) \<le> 4096" "mostSignificantBit (nat \<bar>denominator v\<bar>) \<le> 4096"
      using assms False by (simp_all add: withinPrecision_def)
    from bits_bound [OF n msb(1)] bits_bound [OF d msb(2)] fraction(2) [of v] show ?thesis
      by (simp only: nat_0_le abs_ge_zero abs_of_pos)
  qed
  then show "\<bar>numerator v\<bar> < 2 ^ 4097" "denominator v < 2 ^ 4097" by blast+
qed

lemma operation_meaning: "constantOperation op v w = Some r \<Longrightarrow> operator_meaning op v w r \<or> op = TokExp \<and> v = 0 \<and> w < 0 \<and> r = 0"
proof (cases op)
  case TokBitOr
  then show "constantOperation op v w = Some r \<Longrightarrow> operator_meaning op v w r \<or> op = TokExp \<and> v = 0 \<and> w < 0 \<and> r = 0"
    using bits_meaning [of "(OR)" v w r] by (simp add: operator_meaning_def)
next
  case TokBitXor
  then show "constantOperation op v w = Some r \<Longrightarrow> operator_meaning op v w r \<or> op = TokExp \<and> v = 0 \<and> w < 0 \<and> r = 0"
    using bits_meaning [of "(XOR)" v w r] by (simp add: operator_meaning_def)
next
  case TokBitAnd
  then show "constantOperation op v w = Some r \<Longrightarrow> operator_meaning op v w r \<or> op = TokExp \<and> v = 0 \<and> w < 0 \<and> r = 0"
    using bits_meaning [of "(AND)" v w r] by (simp add: operator_meaning_def)
next
  case TokDiv
  then show "constantOperation op v w = Some r \<Longrightarrow> operator_meaning op v w r \<or> op = TokExp \<and> v = 0 \<and> w < 0 \<and> r = 0"
    by (auto simp: operator_meaning_def split: if_splits)
qed (simp_all add: shl_meaning sar_meaning mod_meaning exp_meaning, simp_all add: operator_meaning_def)

text \<open>
  C11: A constant expression that has a value has the exact value of its operator on rational numbers: a remainder
  that truncates the quotient, a power also for negative exponents, a shift to the right that rounds down. There is
  one exception: a negative power of zero, which has no meaning, is zero. The numerator and the denominator have at
  most 4097 bits.
\<close>

theorem constants_exact:
  assumes "constantResult op v w = Some r"
  shows "(operator_meaning op v w r \<or> op = TokExp \<and> v = 0 \<and> w < 0 \<and> r = 0) \<and> \<bar>numerator r\<bar> < 2 ^ 4097 \<and> denominator r < 2 ^ 4097"
proof -
  have op: "constantOperation op v w = Some r" "withinPrecision r"
    using assms by (auto simp: constantResult_def split: option.splits if_splits)
  show ?thesis using operation_meaning [OF op(1)] within_bound [OF op(2)] by blast
qed

text \<open>A shift of minus five to the right by one is minus three.\<close>

theorem constants_exact_witness:
  "operator_meaning TokSAR (- 5) 1 (- 3)"
proof -
  have "constantResult TokSAR (- 5) 1 = Some (- 3)" by code_simp
  from constants_exact [OF this] show ?thesis by blast
qed

text \<open>A negative power of zero is zero, while the quotient of one and zero has no value.\<close>

lemma zero_power: "constantResult TokExp 0 (- 1) = Some 0" "constantResult TokDiv 1 0 = None"
  by code_simp+

end
