(* ===== verification/Storage_Layout.thy ===== *)
theory Storage_Layout
  imports Value_Types
begin

text \<open>
  The layout of contract storage: the sizes of types in storage (libpolynomial/ast/Types.h and Types.cpp),
  the positions that \<open>StorageOffsets::computeOffsets\<close> gives to the members of structs and to the
  state variables of contracts, and the proof that no two of them overlap. A struct is given
  with its members; structs that contain themselves, by a mapping or an array of dynamic size, are left out.
\<close>

section \<open>Types in storage\<close>

datatype ArrayKind = OrdinaryArray | BytesArray | StringArray

datatype FunctionKind = InternalFunction | ExternalFunction | OtherFunction

text \<open>\<open>NotStored\<close> stands for the types of constants, tuples, modifiers, modules and the like.\<close>

datatype StorageType =
    ValueStorage ValueType
  | ContractType string
  | FunctionType FunctionKind
  | ArrayType ArrayKind "nat option" StorageType
  | StructType string "(string \<times> StorageType) list"
  | MappingType StorageType StorageType
  | NotStored

fun enum_storageBytes :: "nat \<Rightarrow> nat" where
  "enum_storageBytes elements = (if elements \<le> 1 then 1 else bytesRequired (elements - 1))"

fun value_storageBytes :: "ValueType \<Rightarrow> nat" where
  "value_storageBytes (AddressType payable) = 160 div 8"
| "value_storageBytes (IntegerType bits sg) = bits div 8"
| "value_storageBytes (RationalNumberType v c) = 32"
| "value_storageBytes BoolType = 1"
| "value_storageBytes (FixedPointType bits digits sg) = bits div 8"
| "value_storageBytes (FixedBytesType n) = n"
| "value_storageBytes (EnumType name members) = enum_storageBytes members"

fun storageBytes :: "StorageType \<Rightarrow> nat" where
  "storageBytes (ValueStorage t) = value_storageBytes t"
| "storageBytes (ContractType name) = 20"
| "storageBytes (FunctionType kind) = (case kind of ExternalFunction \<Rightarrow> 20 + 4 | _ \<Rightarrow> 8)"
| "storageBytes _ = 32"

fun canBeStored :: "StorageType \<Rightarrow> bool" where
  "canBeStored (ValueStorage t) = (\<not> isRational t)"
| "canBeStored (FunctionType kind) = (kind = InternalFunction \<or> kind = ExternalFunction)"
| "canBeStored NotStored = False"
| "canBeStored _ = True"

section \<open>Offsets\<close>

text \<open>Of each type, whether it can be stored, its bytes, and its slots, whose computation may throw.\<close>

type_synonym stored = "bool \<times> nat \<times> nat result"

text \<open>
  The loop from a slot and a byte on, with the offset of each type that can be stored, and the slot and byte
  behind the last.
\<close>

fun offsetsFrom :: "nat \<Rightarrow> nat \<Rightarrow> stored list \<Rightarrow> ((nat \<times> nat) option list \<times> nat \<times> nat) result" where
  "offsetsFrom slotOffset byteOffset [] = Inr ([], slotOffset, byteOffset)"
| "offsetsFrom slotOffset byteOffset ((canStore, bytes, slots) # types) =
     (if \<not> canStore then
        bind_result (offsetsFrom slotOffset byteOffset types) (\<lambda>(offsets, end). Inr (None # offsets, end))
      else
        let (slotOffset, byteOffset) = (if 32 < byteOffset + bytes then (slotOffset + 1, 0) else (slotOffset, byteOffset))
        in if 2 ^ 256 \<le> slotOffset then Inl TypeError
           else bind_result slots (\<lambda>size. assertThrow (1 \<le> size) InternalCompilerError
             (let (slotOffset', byteOffset') =
                    (if size = 1 \<and> byteOffset + bytes \<le> 32 then (slotOffset, byteOffset + bytes) else (slotOffset + size, 0))
              in bind_result (offsetsFrom slotOffset' byteOffset' types) (\<lambda>(offsets, end).
                   Inr (Some (slotOffset, byteOffset) # offsets, end)))))"

definition computeOffsets :: "stored list \<Rightarrow> ((nat \<times> nat) option list \<times> nat) result" where
  "computeOffsets types =
     bind_result (offsetsFrom 0 0 types) (\<lambda>(offsets, slotOffset, byteOffset).
       let slotOffset = (if 0 < byteOffset then slotOffset + 1 else slotOffset)
       in if 2 ^ 256 \<le> slotOffset then Inl TypeError else Inr (offsets, slotOffset))"

text \<open>The slots of a type; the sizes of structs come from the offsets of their members.\<close>

fun storageSize :: "StorageType \<Rightarrow> nat result" where
  "storageSize (ArrayType kind len base) =
     (case len of
        None \<Rightarrow> Inr 1
      | Some n \<Rightarrow>
          bind_result
            (let baseBytes = storageBytes base
             in if baseBytes = 0 then Inr 1
                else if baseBytes < 32 then
                  let itemsPerSlot = 32 div baseBytes
                  in Inr ((n + (itemsPerSlot - 1)) div itemsPerSlot)
                else bind_result (storageSize base) (\<lambda>size. Inr (n * size)))
            (\<lambda>size. if 2 ^ 256 \<le> size then Inl TypeError else Inr (max 1 size)))"
| "storageSize (StructType name members) =
     bind_result (computeOffsets (map (\<lambda>(name, t). (canBeStored t, storageBytes t, storageSize t)) members))
       (\<lambda>(offsets, size). Inr (max 1 size))"
| "storageSize (FunctionType kind) =
     (if kind = InternalFunction \<or> kind = ExternalFunction then Inr 1 else Inl InternalCompilerError)"
| "storageSize NotStored = Inl InternalCompilerError"
| "storageSize _ = Inr 1"

definition typeInfo :: "StorageType \<Rightarrow> stored" where
  "typeInfo t = (canBeStored t, storageBytes t, storageSize t)"

text \<open>The offset of the first member of a name; null if the name or its place in storage does not exist.\<close>

definition memberStorageOffset :: "(string \<times> StorageType) list \<Rightarrow> string \<Rightarrow> (nat \<times> nat) option result" where
  "memberStorageOffset members name =
     bind_result (computeOffsets (map (typeInfo \<circ> snd) members)) (\<lambda>(offsets, size).
       Inr (case map_of (zip (map fst members) offsets) name of None \<Rightarrow> None | Some offset \<Rightarrow> offset))"

text \<open>
  The variables of a contract: those of its linearised base contracts, the most basic one first, without
  the constants.
\<close>

record StateVariable =
  var_name :: string
  var_constant :: bool
  var_type :: StorageType

definition stateVariables :: "StateVariable list list \<Rightarrow> (StateVariable \<times> nat \<times> nat) list result" where
  "stateVariables linearizedBaseContracts =
     (let variables = filter (\<lambda>v. \<not> var_constant v) (concat (rev linearizedBaseContracts))
      in bind_result (computeOffsets (map (typeInfo \<circ> var_type) variables)) (\<lambda>(offsets, size).
           Inr (concat (map (\<lambda>(v, offset). case offset of None \<Rightarrow> [] | Some (slot, byte) \<Rightarrow> [(v, slot, byte)])
             (zip variables offsets)))))"

section \<open>Places in storage\<close>

text \<open>The first byte of a place and the one behind its last, counting the bytes of all slots.\<close>

definition placeStart :: "nat \<times> nat \<Rightarrow> nat" where
  "placeStart offset = fst offset * 32 + snd offset"

definition placeEnd :: "nat \<times> nat \<Rightarrow> nat \<Rightarrow> nat \<Rightarrow> nat" where
  "placeEnd offset bytes k = (if k = 1 then placeStart offset + bytes else placeStart offset + k * 32)"

text \<open>A small type has one slot; all others fill their slots.\<close>

fun info_ok :: "stored \<Rightarrow> bool" where
  "info_ok (canStore, bytes, slots) =
     (canStore \<longrightarrow> 0 < bytes \<and> bytes \<le> 32 \<and> (\<forall>k. slots = Inr k \<longrightarrow> k \<noteq> 1 \<longrightarrow> bytes = 32))"

text \<open>The places follow each other from a position on, each of them in one slot or from the start of a slot on.\<close>

fun placesFrom :: "nat \<Rightarrow> stored list \<Rightarrow> (nat \<times> nat) option list \<Rightarrow> nat \<Rightarrow> bool" where
  "placesFrom p [] [] bound = (p \<le> bound)"
| "placesFrom p ((canStore, bytes, slots) # types) (None # offsets) bound = (\<not> canStore \<and> placesFrom p types offsets bound)"
| "placesFrom p ((canStore, bytes, slots) # types) (Some offset # offsets) bound =
     (canStore \<and> (\<exists>k. slots = Inr k \<and> 1 \<le> k \<and> p \<le> placeStart offset \<and> fst offset < 2 ^ 256 \<and>
        (if k = 1 then snd offset + bytes \<le> 32 else snd offset = 0) \<and>
        placesFrom (placeEnd offset bytes k) types offsets bound))"
| "placesFrom p _ _ bound = False"

lemma placesFrom_mono: "placesFrom p types offsets bound \<Longrightarrow> p' \<le> p \<Longrightarrow> placesFrom p' types offsets bound"
  by (induction p types offsets bound arbitrary: p' rule: placesFrom.induct) auto

lemma offsetsFrom_places:
  "offsetsFrom slot byte types = Inr (offsets, slot', byte') \<Longrightarrow> list_all info_ok types \<Longrightarrow> byte \<le> 32 \<Longrightarrow>
    placesFrom (slot * 32 + byte) types offsets (slot' * 32 + byte') \<and> byte' \<le> 32"
proof (induction slot byte types arbitrary: offsets slot' byte' rule: offsetsFrom.induct)
  case (2 slot byte canStore bytes slots types)
  show ?case
  proof (cases canStore)
    case False
    with 2(3) obtain os where "offsetsFrom slot byte types = Inr (os, slot', byte')" "offsets = None # os"
      by (auto simp: bind_result_Inr_iff)
    with 2(1) [OF False] 2(4,5) False show ?thesis by simp
  next
    case True
    define place where "place = (if 32 < byte + bytes then (slot + 1, 0) else (slot, byte))"
    obtain s b where sb: "place = (s, b)" by (cases place)
    from 2(3) True obtain k os where k: "\<not> 2 ^ 256 \<le> s" "slots = Inr k" "1 \<le> k"
      and os: "offsetsFrom (fst (if k = 1 \<and> b + bytes \<le> 32 then (s, b + bytes) else (s + k, 0)))
        (snd (if k = 1 \<and> b + bytes \<le> 32 then (s, b + bytes) else (s + k, 0))) types = Inr (os, slot', byte')"
      and offsets: "offsets = Some (s, b) # os"
      unfolding offsetsFrom.simps place_def [symmetric] sb
      by (auto simp: bind_result_Inr_iff Let_def split: if_splits)
    define next_place where "next_place = (if k = 1 \<and> b + bytes \<le> 32 then (s, b + bytes) else (s + k, 0))"
    obtain s' b' where next_sb: "next_place = (s', b')" by (cases next_place)
    have info: "0 < bytes" "bytes \<le> 32" "k \<noteq> 1 \<longrightarrow> bytes = 32" using 2(4) True k(2) by auto
    have start: "slot * 32 + byte \<le> placeStart (s, b)" "b + bytes \<le> 32" "k \<noteq> 1 \<longrightarrow> b = 0"
      using sb info 2(5) by (auto simp: place_def placeStart_def split: if_splits)
    have end_place: "s' * 32 + b' = placeEnd (s, b) bytes k" "b' \<le> 32"
      using next_sb start(2,3) k(3) by (auto simp: next_place_def placeEnd_def placeStart_def split: if_splits)
    have "placesFrom (s' * 32 + b') types os (slot' * 32 + byte') \<and> byte' \<le> 32"
    proof (rule 2(2) [OF _ place_def sb [symmetric] k(1,2) next_place_def next_sb [symmetric]])
      show "offsetsFrom s' b' types = Inr (os, slot', byte')"
        using os unfolding next_place_def [symmetric] next_sb by simp
    qed (use True 2(4) end_place(2) in simp_all)
    with True k start info show ?thesis by (auto simp: offsets end_place(1))
  qed
qed simp

text \<open>The place of a variable at its offset.\<close>

definition slotsOf :: "StorageType \<Rightarrow> nat" where
  "slotsOf t = (case storageSize t of Inl e \<Rightarrow> 0 | Inr k \<Rightarrow> k)"

fun variableStart :: "StateVariable \<times> nat \<times> nat \<Rightarrow> nat" where
  "variableStart (v, offset) = placeStart offset"

fun variableEnd :: "StateVariable \<times> nat \<times> nat \<Rightarrow> nat" where
  "variableEnd (v, offset) = placeEnd offset (storageBytes (var_type v)) (slotsOf (var_type v))"

text \<open>A variable of one slot is inside of that slot, a larger one starts with a slot.\<close>

fun inSlot :: "StateVariable \<times> nat \<times> nat \<Rightarrow> bool" where
  "inSlot (v, slot, byte) \<longleftrightarrow> slot < 2 ^ 256 \<and> 1 \<le> slotsOf (var_type v) \<and>
     (if slotsOf (var_type v) = 1 then byte + storageBytes (var_type v) \<le> 32 else byte = 0)"

definition placedVariables :: "StateVariable list \<Rightarrow> (nat \<times> nat) option list \<Rightarrow> (StateVariable \<times> nat \<times> nat) list" where
  "placedVariables variables offsets =
     concat (map (\<lambda>(v, offset). case offset of None \<Rightarrow> [] | Some (slot, byte) \<Rightarrow> [(v, slot, byte)]) (zip variables offsets))"

lemma placed_simps [simp]:
  "placedVariables [] offsets = []"
  "placedVariables (v # vs) (None # offsets) = placedVariables vs offsets"
  "placedVariables (v # vs) (Some offset # offsets) = (v, offset) # placedVariables vs offsets"
  by (cases offset) (simp_all add: placedVariables_def)

lemma end_behind_start: "placeStart offset \<le> placeEnd offset bytes k"
  by (simp add: placeEnd_def)

lemma places_of_variables:
  "placesFrom p (map (typeInfo \<circ> var_type) vs) offsets bound \<Longrightarrow>
    sorted_wrt (\<lambda>x y. variableEnd x \<le> variableStart y) (placedVariables vs offsets) \<and>
    (\<forall>x \<in> set (placedVariables vs offsets). p \<le> variableStart x \<and> variableEnd x \<le> bound \<and> inSlot x) \<and>
    map fst (placedVariables vs offsets) = filter (canBeStored \<circ> var_type) vs \<and> p \<le> bound"
proof (induction vs arbitrary: p offsets)
  case Nil
  then show ?case by (cases offsets) simp_all
next
  case (Cons v vs)
  have infos: "map (typeInfo \<circ> var_type) (v # vs) =
      (canBeStored (var_type v), storageBytes (var_type v), storageSize (var_type v)) # map (typeInfo \<circ> var_type) vs"
    by (simp add: typeInfo_def)
  note prems = Cons.prems [unfolded infos]
  show ?case
  proof (cases offsets)
    case Nil
    with prems show ?thesis by simp
  next
    case (Cons offset os)
    show ?thesis
    proof (cases offset)
      case None
      with prems \<open>offsets = offset # os\<close> have "\<not> canBeStored (var_type v)"
        "placesFrom p (map (typeInfo \<circ> var_type) vs) os bound" by simp_all
      with Cons.IH [OF this(2)] show ?thesis unfolding \<open>offsets = offset # os\<close> None by simp
    next
      case (Some place)
      with prems \<open>offsets = offset # os\<close> obtain k where k: "canBeStored (var_type v)" "storageSize (var_type v) = Inr k"
        "1 \<le> k" "p \<le> placeStart place" "fst place < 2 ^ 256"
        "if k = 1 then snd place + storageBytes (var_type v) \<le> 32 else snd place = 0"
        "placesFrom (placeEnd place (storageBytes (var_type v)) k) (map (typeInfo \<circ> var_type) vs) os bound"
        by auto
      have slots: "slotsOf (var_type v) = k" by (simp add: slotsOf_def k(2))
      have head: "inSlot (v, place)" using k(3,5,6) by (cases place) (simp add: slots split: if_splits)
      have "p \<le> placeEnd place (storageBytes (var_type v)) k" using k(4) end_behind_start order_trans by blast
      with Cons.IH [OF k(7)] k(1,4) head show ?thesis
        unfolding \<open>offsets = offset # os\<close> Some by (auto simp: slots del: inSlot.simps intro: order_trans)
    qed
  qed
qed

text \<open>The enumerations of a program have fewer members than there are numbers.\<close>

fun sized :: "StorageType \<Rightarrow> bool" where
  "sized (ValueStorage (EnumType name members)) = (members \<le> 2 ^ 256)"
| "sized (ValueStorage t) = type_ok t"
| "sized _ = True"

lemma type_info_ok: "sized t \<Longrightarrow> info_ok (typeInfo t)"
proof (cases t)
  case (ValueStorage v)
  assume "sized t"
  have enum: "0 < bytesRequired (members - Suc 0) \<and> bytesRequired (members - Suc 0) \<le> 32"
    if "members \<le> 2 ^ 256" "\<not> members \<le> Suc 0" for members
  proof -
    have "bytesRequired (members - Suc 0) \<noteq> 0" using that(2) by simp
    moreover have "bytesRequired (members - Suc 0) \<le> 32" unfolding bytesRequired_le_iff using that by simp
    ultimately show ?thesis by blast
  qed
  from \<open>sized t\<close> ValueStorage show ?thesis
    by (cases v) (auto simp: typeInfo_def enum div_le_mono elim!: dvdE)
qed (auto simp: typeInfo_def split: FunctionKind.splits)

text \<open>
  C12: The state variables of a contract have places in storage that do not overlap, in the order of their declaration from the most
  basic contract on; each of them is inside of a slot or starts with one, all of them are within the
  \<open>2 ^ 256\<close> slots, and every variable that is not constant and can be stored has a place.
\<close>

theorem contract_layout:
  assumes "stateVariables bases = Inr vars" "\<forall>v \<in> set (concat bases). sized (var_type v)"
  shows "sorted_wrt (\<lambda>x y. variableEnd x \<le> variableStart y) vars \<and>
    (\<forall>x \<in> set vars. inSlot x \<and> variableEnd x \<le> 2 ^ 256 * 32) \<and>
    map fst vars = filter (\<lambda>v. \<not> var_constant v \<and> canBeStored (var_type v)) (concat (rev bases))"
proof -
  let ?vs = "filter (\<lambda>v. \<not> var_constant v) (concat (rev bases))"
  from assms(1) obtain offsets total where o: "computeOffsets (map (typeInfo \<circ> var_type) ?vs) = Inr (offsets, total)"
    "vars = placedVariables ?vs offsets"
    by (auto simp: stateVariables_def Let_def bind_result_Inr_iff placedVariables_def)
  then obtain slot byte where f: "offsetsFrom 0 0 (map (typeInfo \<circ> var_type) ?vs) = Inr (offsets, slot, byte)"
    "(if 0 < byte then slot + 1 else slot) < 2 ^ 256"
    by (auto simp: computeOffsets_def Let_def bind_result_Inr_iff not_le split: if_splits)
  have "list_all info_ok (map (typeInfo \<circ> var_type) ?vs)"
    using assms(2) type_info_ok by (auto simp: list_all_iff)
  from offsetsFrom_places [OF f(1) this] have places: "placesFrom 0 (map (typeInfo \<circ> var_type) ?vs) offsets (slot * 32 + byte)"
    "byte \<le> 32" by simp_all
  have "slot * 32 + byte \<le> (if 0 < byte then slot + 1 else slot) * 32" using places(2) by simp
  also have "\<dots> \<le> 2 ^ 256 * 32" using f(2) by (intro mult_right_mono) simp_all
  finally have le: "slot * 32 + byte \<le> 2 ^ 256 * 32" .
  from places_of_variables [OF places(1)] le show ?thesis
    unfolding o(2) by (auto simp: comp_def filter_filter conj_commute del: inSlot.simps intro: order_trans)
qed

text \<open>A contract with two small variables in one slot, an array and a constant, over a base with one variable.\<close>

definition sampleVariable :: "string \<Rightarrow> bool \<Rightarrow> StorageType \<Rightarrow> StateVariable" where
  "sampleVariable name const t = \<lparr>var_name = name, var_constant = const, var_type = t\<rparr>"

definition sampleContract :: "StateVariable list list" where
  "sampleContract =
     [[sampleVariable ''a'' False (ValueStorage (IntegerType 128 False)), sampleVariable ''b'' False (ValueStorage BoolType),
       sampleVariable ''c'' True (ValueStorage BoolType),
       sampleVariable ''d'' False (ArrayType OrdinaryArray (Some 3) (ValueStorage (IntegerType 128 True)))],
      [sampleVariable ''o'' False (ValueStorage (AddressType True))]]"

theorem contract_layout_witness:
  "\<exists>vars. stateVariables sampleContract = Inr vars \<and> map snd vars = [(0, 0), (1, 0), (1, 16), (2, 0)] \<and>
     sorted_wrt (\<lambda>x y. variableEnd x \<le> variableStart y) vars"
proof -
  let ?v = sampleVariable
  have run: "stateVariables sampleContract = Inr
    [(?v ''o'' False (ValueStorage (AddressType True)), 0, 0), (?v ''a'' False (ValueStorage (IntegerType 128 False)), 1, 0),
     (?v ''b'' False (ValueStorage BoolType), 1, 16),
     (?v ''d'' False (ArrayType OrdinaryArray (Some 3) (ValueStorage (IntegerType 128 True))), 2, 0)]"
    by (simp add: stateVariables_def sampleContract_def sampleVariable_def computeOffsets_def typeInfo_def Let_def)
  have "\<forall>v \<in> set (concat sampleContract). sized (var_type v)" by (simp add: sampleContract_def sampleVariable_def)
  from contract_layout [OF run this] run show ?thesis by auto
qed

end
