(* ===== verification/Tokens.thy ===== *)
theory Tokens
  imports Common_Data
begin

text \<open>
  liblangutil/Token.h and Token.cpp: the tokens of the scanner and the recognition of keywords, with the
  sizes in the names of elementary types. The one enumeration of the code is divided into the groups its comments name.
\<close>

datatype Punctuator =
    TnLParen | TnRParen | TnLBrack | TnRBrack | TnLBrace | TnRBrace | TnColon | TnSemicolon | TnPeriod
    | TnConditional | TnArrow

datatype AssignmentOperator =
    TnAssign | TnAssignBitOr | TnAssignBitXor | TnAssignBitAnd | TnAssignShl | TnAssignSar | TnAssignShr
    | TnAssignAdd | TnAssignSub | TnAssignMul | TnAssignDiv | TnAssignMod

datatype BinaryOperator =
    TnComma | TnOr | TnAnd | TnBitOr | TnBitXor | TnBitAnd | TnSHL | TnSAR | TnSHR | TnAdd | TnSub | TnMul
    | TnDiv | TnMod | TnExp

datatype CompareOperator =
    TnEqual | TnNotEqual | TnLessThan | TnGreaterThan | TnLessThanOrEqual | TnGreaterThanOrEqual

datatype UnaryOperator =
    TnNot | TnBitNot | TnInc | TnDec | TnDelete

datatype GeneralKeyword =
    KwAnonymous | KwAs | KwAssembly | KwBreak | KwConstant | KwConstructor | KwContinue | KwContract | KwDo
    | KwElse | KwEnum | KwEmit | KwEvent | KwExternal | KwFor | KwFunction | KwHex | KwIf | KwIndexed
    | KwInterface | KwInternal | KwImport | KwIs | KwLibrary | KwMapping | KwMemory | KwModifier | KwNew
    | KwPayable | KwPublic | KwPragma | KwPrivate | KwPure | KwReturn | KwReturns | KwStorage | KwCallData
    | KwStruct | KwThrow | KwType | KwUsing | KwVar | KwView | KwWhile

datatype Subdenomination =
    SubWei | SubSzabo | SubFinney | SubSophy | SubSecond | SubMinute | SubHour | SubDay | SubWeek | SubYear

datatype TypeKeyword =
    KwInt | KwUInt | KwBytes | KwByte | KwString | KwAddress | KwBool | KwFixed | KwUFixed

datatype ReservedKeyword =
    KwAbstract | KwAfter | KwAlias | KwApply | KwAuto | KwCase | KwCatch | KwCopyOf | KwDefault | KwDefine
    | KwFinal | KwImmutable | KwImplements | KwIn | KwInline | KwLet | KwMacro | KwMatch | KwMutable
    | KwNullLiteral | KwOf | KwOverride | KwPartial | KwPromise | KwReference | KwRelocatable | KwSealed
    | KwSizeof | KwStatic | KwSupports | KwSwitch | KwTry | KwTypedef | KwTypeOf | KwUnchecked

datatype LangToken =
    TnEOS | TnAssemblyAssign | TnIntM | TnUIntM | TnBytesM | TnFixedMxN | TnUFixedMxN | TnTypesEnd
    | TnTrueLiteral | TnFalseLiteral | TnNumber | TnStringLiteral | TnCommentLiteral | TnIdentifier | TnIllegal
    | TnWhitespace | TnPunctuator Punctuator | TnAssignment AssignmentOperator | TnBinary BinaryOperator
    | TnCompare CompareOperator | TnUnary UnaryOperator | TnKeyword GeneralKeyword
    | TnSubdenomination Subdenomination | TnType TypeKeyword | TnReserved ReservedKeyword

definition keywordTokens :: "(string \<times> LangToken) list" where
  "keywordTokens =
    [(''delete'', TnUnary TnDelete), (''anonymous'', TnKeyword KwAnonymous), (''as'', TnKeyword KwAs),
     (''assembly'', TnKeyword KwAssembly), (''break'', TnKeyword KwBreak), (''constant'', TnKeyword KwConstant),
     (''constructor'', TnKeyword KwConstructor), (''continue'', TnKeyword KwContinue),
     (''contract'', TnKeyword KwContract), (''do'', TnKeyword KwDo), (''else'', TnKeyword KwElse),
     (''enum'', TnKeyword KwEnum), (''emit'', TnKeyword KwEmit), (''event'', TnKeyword KwEvent),
     (''external'', TnKeyword KwExternal), (''for'', TnKeyword KwFor), (''function'', TnKeyword KwFunction),
     (''hex'', TnKeyword KwHex), (''if'', TnKeyword KwIf), (''indexed'', TnKeyword KwIndexed),
     (''interface'', TnKeyword KwInterface), (''internal'', TnKeyword KwInternal),
     (''import'', TnKeyword KwImport), (''is'', TnKeyword KwIs), (''library'', TnKeyword KwLibrary),
     (''mapping'', TnKeyword KwMapping), (''memory'', TnKeyword KwMemory), (''modifier'', TnKeyword KwModifier),
     (''new'', TnKeyword KwNew), (''payable'', TnKeyword KwPayable), (''public'', TnKeyword KwPublic),
     (''pragma'', TnKeyword KwPragma), (''private'', TnKeyword KwPrivate), (''pure'', TnKeyword KwPure),
     (''return'', TnKeyword KwReturn), (''returns'', TnKeyword KwReturns), (''storage'', TnKeyword KwStorage),
     (''calldata'', TnKeyword KwCallData), (''struct'', TnKeyword KwStruct), (''throw'', TnKeyword KwThrow),
     (''type'', TnKeyword KwType), (''using'', TnKeyword KwUsing), (''var'', TnKeyword KwVar),
     (''view'', TnKeyword KwView), (''while'', TnKeyword KwWhile), (''wei'', TnSubdenomination SubWei),
     (''szabo'', TnSubdenomination SubSzabo), (''finney'', TnSubdenomination SubFinney),
     (''sophy'', TnSubdenomination SubSophy), (''seconds'', TnSubdenomination SubSecond),
     (''minutes'', TnSubdenomination SubMinute), (''hours'', TnSubdenomination SubHour),
     (''days'', TnSubdenomination SubDay), (''weeks'', TnSubdenomination SubWeek),
     (''years'', TnSubdenomination SubYear), (''int'', TnType KwInt), (''uint'', TnType KwUInt),
     (''bytes'', TnType KwBytes), (''byte'', TnType KwByte), (''string'', TnType KwString),
     (''address'', TnType KwAddress), (''bool'', TnType KwBool), (''fixed'', TnType KwFixed),
     (''ufixed'', TnType KwUFixed), (''true'', TnTrueLiteral), (''false'', TnFalseLiteral),
     (''abstract'', TnReserved KwAbstract), (''after'', TnReserved KwAfter), (''alias'', TnReserved KwAlias),
     (''apply'', TnReserved KwApply), (''auto'', TnReserved KwAuto), (''case'', TnReserved KwCase),
     (''catch'', TnReserved KwCatch), (''copyof'', TnReserved KwCopyOf), (''default'', TnReserved KwDefault),
     (''define'', TnReserved KwDefine), (''final'', TnReserved KwFinal), (''immutable'', TnReserved KwImmutable),
     (''implements'', TnReserved KwImplements), (''in'', TnReserved KwIn), (''inline'', TnReserved KwInline),
     (''let'', TnReserved KwLet), (''macro'', TnReserved KwMacro), (''match'', TnReserved KwMatch),
     (''mutable'', TnReserved KwMutable), (''null'', TnReserved KwNullLiteral), (''of'', TnReserved KwOf),
     (''override'', TnReserved KwOverride), (''partial'', TnReserved KwPartial),
     (''promise'', TnReserved KwPromise), (''reference'', TnReserved KwReference),
     (''relocatable'', TnReserved KwRelocatable), (''sealed'', TnReserved KwSealed),
     (''sizeof'', TnReserved KwSizeof), (''static'', TnReserved KwStatic), (''supports'', TnReserved KwSupports),
     (''switch'', TnReserved KwSwitch), (''try'', TnReserved KwTry), (''typedef'', TnReserved KwTypedef),
     (''typeof'', TnReserved KwTypeOf), (''unchecked'', TnReserved KwUnchecked)]"

definition keywordByName :: "string \<Rightarrow> LangToken" where
  "keywordByName name = (case map_of keywordTokens name of None \<Rightarrow> TnIdentifier | Some t \<Rightarrow> t)"

text \<open>The characters of liblangutil/Common.h.\<close>

definition inCharRange :: "char \<Rightarrow> char \<Rightarrow> char \<Rightarrow> bool" where
  "inCharRange a z c \<longleftrightarrow> (of_char a :: nat) \<le> of_char c \<and> (of_char c :: nat) \<le> of_char z"

definition isDigit :: "char \<Rightarrow> bool" where
  "isDigit c = inCharRange CHR ''0'' CHR ''9'' c"

definition isHexChar :: "char \<Rightarrow> bool" where
  "isHexChar c \<longleftrightarrow> isDigit c \<or> inCharRange CHR ''a'' CHR ''f'' c \<or> inCharRange CHR ''A'' CHR ''F'' c"

definition isLineTerminator :: "char \<Rightarrow> bool" where
  "isLineTerminator c \<longleftrightarrow> c = CHR 0x0a"

definition isWhiteSpace :: "char \<Rightarrow> bool" where
  "isWhiteSpace c \<longleftrightarrow> c = CHR '' '' \<or> c = CHR 0x0a \<or> c = CHR 0x09 \<or> c = CHR 0x0d"

definition isIdentifierStart :: "char \<Rightarrow> bool" where
  "isIdentifierStart c \<longleftrightarrow>
     c = CHR ''_'' \<or> c = CHR ''$'' \<or> inCharRange CHR ''a'' CHR ''z'' c \<or> inCharRange CHR ''A'' CHR ''Z'' c"

definition isIdentifierPart :: "char \<Rightarrow> bool" where
  "isIdentifierPart c \<longleftrightarrow> isIdentifierStart c \<or> isDigit c"

definition hexCharValue :: "char \<Rightarrow> int" where
  "hexCharValue c =
     (if inCharRange CHR ''0'' CHR ''9'' c then of_char c - 48
      else if inCharRange CHR ''a'' CHR ''f'' c then of_char c - 97 + 10
      else if inCharRange CHR ''A'' CHR ''F'' c then of_char c - 65 + 10
      else - 1)"

text \<open>
  The number of a string of digits as an \<open>int\<close>, which has 32 bits; minus one for the empty string and for
  numbers that are too large.
\<close>

definition parseSize :: "string \<Rightarrow> int" where
  "parseSize digits =
     (if digits = [] then - 1
      else
        let n = foldl (\<lambda>v c. v * 10 + (of_char c - 48)) 0 digits
        in if n \<le> 2 ^ 31 - 1 then n else - 1)"

text \<open>
  The keywords that end in sizes; both iterators are the strings behind them. Of a string without a
  digit the whole is looked up.
\<close>

definition fromIdentifierOrKeyword :: "string \<Rightarrow> LangToken \<times> nat \<times> nat" where
  "fromIdentifierOrKeyword literal =
     (let fromM = dropWhile (\<lambda>c. \<not> isDigit c) literal
      in if fromM = [] then (keywordByName literal, 0, 0)
         else
           let baseType = takeWhile (\<lambda>c. \<not> isDigit c) literal;
               fromX = dropWhile isDigit fromM;
               m = parseSize (takeWhile isDigit fromM);
               keyword = keywordByName baseType
           in if keyword = TnType KwBytes \<and> 0 < m \<and> m \<le> 32 \<and> fromX = [] then (TnBytesM, nat m, 0)
              else if keyword = TnType KwUInt \<and> 0 < m \<and> m \<le> 256 \<and> m mod 8 = 0 \<and> fromX = [] then (TnUIntM, nat m, 0)
              else if keyword = TnType KwInt \<and> 0 < m \<and> m \<le> 256 \<and> m mod 8 = 0 \<and> fromX = [] then (TnIntM, nat m, 0)
              else if (keyword = TnType KwUFixed \<or> keyword = TnType KwFixed) \<and>
                  (case fromX of [] \<Rightarrow> False | x # ds \<Rightarrow> x = CHR ''x'' \<and> list_all isDigit ds \<and>
                     8 \<le> m \<and> m \<le> 256 \<and> m mod 8 = 0 \<and> 0 \<le> parseSize ds \<and> parseSize ds \<le> 80)
              then (if keyword = TnType KwUFixed then TnUFixedMxN else TnFixedMxN, nat m, nat (parseSize (tl fromX)))
              else (TnIdentifier, 0, 0))"

section \<open>Elementary types\<close>

definition isElementaryTypeName :: "LangToken \<Rightarrow> bool" where
  "isElementaryTypeName t \<longleftrightarrow>
     (case t of TnType k \<Rightarrow> True | _ \<Rightarrow> t \<in> {TnIntM, TnUIntM, TnBytesM, TnFixedMxN, TnUFixedMxN})"

text \<open>The assertions on a type and its sizes, which are made of the current token of the scanner.\<close>

definition assertDetails :: "LangToken \<Rightarrow> nat \<Rightarrow> nat \<Rightarrow> (LangToken \<times> nat \<times> nat) result" where
  "assertDetails baseType first second =
     assertThrow (isElementaryTypeName baseType) InternalCompilerError
       (if baseType = TnBytesM then
          assertThrow (second = 0) InternalCompilerError
            (assertThrow (first \<le> 32) InternalCompilerError (Inr (baseType, first, second)))
        else if baseType = TnUIntM \<or> baseType = TnIntM then
          assertThrow (second = 0) InternalCompilerError
            (assertThrow (first \<le> 256 \<and> first mod 8 = 0) InternalCompilerError (Inr (baseType, first, second)))
        else if baseType = TnUFixedMxN \<or> baseType = TnFixedMxN then
          assertThrow (8 \<le> first \<and> first \<le> 256 \<and> first mod 8 = 0 \<and> second \<le> 80) InternalCompilerError
            (Inr (baseType, first, second))
        else Inr (baseType, first, second))"

section \<open>Every keyword is recognised\<close>

lemma keywords_distinct: "distinct (map fst keywordTokens)"
  by code_simp

lemma keywords_no_digits: "list_all (\<lambda>(s, t). list_all (\<lambda>c. \<not> isDigit c) s) keywordTokens"
  by code_simp

lemma keyword_read_back: "(name, t) \<in> set keywordTokens \<Longrightarrow> fromIdentifierOrKeyword name = (t, 0, 0)"
proof -
  assume t: "(name, t) \<in> set keywordTokens"
  then have "dropWhile (\<lambda>c. \<not> isDigit c) name = []"
    using keywords_no_digits by (auto simp: list_all_iff)
  moreover have "keywordByName name = t"
    using map_of_is_SomeI [OF keywords_distinct t] by (simp add: keywordByName_def)
  ultimately show ?thesis by (simp add: fromIdentifierOrKeyword_def Let_def)
qed

text \<open>The sizes that are recognised pass the assertions.\<close>

lemma keywordByName_not_sized: "keywordByName name \<notin> {TnIntM, TnUIntM, TnBytesM, TnFixedMxN, TnUFixedMxN}"
proof -
  have "list_all (\<lambda>(s, t). t \<notin> {TnIntM, TnUIntM, TnBytesM, TnFixedMxN, TnUFixedMxN}) keywordTokens" by code_simp
  then show ?thesis by (auto simp: keywordByName_def list_all_iff dest!: map_of_SomeD split: option.splits)
qed

lemma nat_mod_8: "m mod 8 = (0::int) \<Longrightarrow> nat m mod 8 = 0"
  using nat_mod_distrib [of m 8] by (cases "0 \<le> m") simp_all

lemma details_pass:
  "0 < m \<Longrightarrow> m \<le> 32 \<Longrightarrow> assertDetails TnBytesM (nat m) 0 = Inr (TnBytesM, nat m, 0)"
  "t \<in> {TnUIntM, TnIntM} \<Longrightarrow> m \<le> 256 \<Longrightarrow> m mod 8 = 0 \<Longrightarrow> assertDetails t (nat m) 0 = Inr (t, nat m, 0)"
  "t \<in> {TnUFixedMxN, TnFixedMxN} \<Longrightarrow> 8 \<le> m \<Longrightarrow> m \<le> 256 \<Longrightarrow> m mod 8 = 0 \<Longrightarrow> n \<le> 80 \<Longrightarrow>
     assertDetails t (nat m) (nat n) = Inr (t, nat m, nat n)"
  by (auto simp: assertDetails_def assertThrow_def isElementaryTypeName_def nat_mod_8)

lemma recognised_types_asserted:
  assumes "fromIdentifierOrKeyword literal = (t, m, n)" "isElementaryTypeName t"
  shows "assertDetails t m n = Inr (t, m, n)"
proof (cases "dropWhile (\<lambda>c. \<not> isDigit c) literal = []")
  case True
  with assms(1) have "t = keywordByName literal" by (simp add: fromIdentifierOrKeyword_def)
  with keywordByName_not_sized [of literal] assms(2) show ?thesis by (auto simp: assertDetails_def assertThrow_def)
next
  case False
  define fromX where "fromX = dropWhile isDigit (dropWhile (\<lambda>c. \<not> isDigit c) literal)"
  define sz where "sz = parseSize (takeWhile isDigit (dropWhile (\<lambda>c. \<not> isDigit c) literal))"
  define keyword where "keyword = keywordByName (takeWhile (\<lambda>c. \<not> isDigit c) literal)"
  define fixed where "fixed = (case fromX of [] \<Rightarrow> False | x # ds \<Rightarrow> x = CHR ''x'' \<and> list_all isDigit ds \<and>
    8 \<le> sz \<and> sz \<le> 256 \<and> sz mod 8 = 0 \<and> 0 \<le> parseSize ds \<and> parseSize ds \<le> 80)"
  have bounds: "fixed \<Longrightarrow> 8 \<le> sz \<and> sz \<le> 256 \<and> sz mod 8 = 0 \<and> parseSize (tl fromX) \<le> 80"
    by (auto simp: fixed_def split: list.splits)
  have other: "\<not> isElementaryTypeName TnIdentifier" by (simp add: isElementaryTypeName_def)
  from assms(1) False show ?thesis
    unfolding fromIdentifierOrKeyword_def Let_def fromX_def [symmetric] sz_def [symmetric] keyword_def [symmetric]
      fixed_def [symmetric]
    using bounds other assms(2) details_pass(2) [of _ sz] details_pass(1) [of sz]
      details_pass(3) [of _ sz "parseSize (tl fromX)"]
    by (auto split: if_split_asm)
qed

end
