(* ===== verification/Spec2Isabelle.thy ===== *)
theory Spec2Isabelle
  imports Common_Data Source_Location Instructions Assembly_Items Semantic_Information Keccak
    Svm_Interpreter Svm_Semantics Rule_List Rule_Soundness Item_Machine Rewriting Peephole Peephole_Correct
    Std_Map Svm_Version Gas_Costs Assembly_Data Constant_Optimiser Constant_Correct Jumpdest_Remover
    Linker_Object Assembler Assembler_Layout Assembler_Links Bytecode_Machine Assembler_Properties Block_Deduplicator Yul_Control_Flow Yul_Step_Limit Yul_Analysis Yul_Typing Yul_Analysis_Sound
    String_Utils Utf8 Sem_Ver Value_Types Constant_Expressions Storage_Layout Tokens
begin

text \<open>
  Verification of the polynomial compiler: the assembler and its optimiser, Yul with its analysis,
  interpreter and optimiser passes, the types and constants of the contract language, and the
  libraries they rest on.

  \<^bold>\<open>The program.\<close> The compiler (src/libpolynomial) reads contracts, determines types and emits assembly items,
  or Yul text for parts of them. Yul (src/libyul) is parsed, analysed, optimised and translated to assembly items too.
  An assembly (src/libsvmasm) is a list of items with data and sub-assemblies; passes rewrite the list, and the assembler
  makes bytecode of it in which the addresses of libraries are filled in by the linker. src/libdevcore and src/liblangutil
  are the libraries below: encodings, hashes, texts, locations and versions. src/test/tools/yulInterpreter is
  the repository's own interpreter of Yul and of single instructions; it is the semantics against which the rest is proved.

  \<^bold>\<open>Conventions.\<close> \<open>Prelude\<close> has the machine integers as words, the exceptions of the code as the datatype \<open>error\<close>
  and results as sums (\<open>result\<close>); a failed assertion, an \<open>at()\<close> out of range and a thrown exception are branches of
  the model. Records and datatypes have the fields and constructors of the code's classes. \<open>Std_Map\<close> is \<open>std::map\<close>, a
  list of entries ordered by their keys; where the order is never looked at, maps are functions. Loops are
  recursive functions, with termination proofs where the recursion is not structural.

  \<^bold>\<open>Libraries.\<close> \<open>Common_Data\<close> (libdevcore/CommonData, Common.h): hexadecimal and big-endian encodings, the replacing loops;
  \<open>Keccak\<close> (Keccak256.cpp); \<open>String_Utils\<close> (StringUtils): the string distance is the least cost of an edit
  script that edits no part twice (the optimal string alignment; less than that is possible with scripts that do);
  \<open>Utf8\<close> (UTF8.cpp): exactly the encodings of scalar values are accepted; \<open>Source_Location\<close>, \<open>Svm_Version\<close> and \<open>Sem_Ver\<close>
  (liblangutil): locations, target versions, version pragmas and the ranges they match, with any prefix, number of levels and wildcards; \<open>Tokens\<close> (Token): the keywords
  and the sizes of elementary types.

  \<^bold>\<open>Instructions and their semantics.\<close> \<open>Instructions\<close> (libsvmasm/Instruction): opcodes, the tables, decoding of bytecode, which is
  lossless; \<open>Svm_Interpreter\<close> (SVMInstructionInterpreter.cpp): \<open>svm_eval\<close>, every instruction on the state of the machine;
  \<open>Semantic_Information\<close>: what the optimiser assumes of instructions; \<open>Svm_Semantics\<close> proves these assumptions of \<open>svm_eval\<close>,
  and that an instruction changes the bytes it writes, the slot it stores to, the size of memory and the trace, and nothing else.
  \<open>Gas_Costs\<close> (GasMeter): the costs that need no knowledge of the state.

  \<^bold>\<open>Assembly.\<close> \<open>Assembly_Items\<close> and \<open>Assembly_Data\<close> (AssemblyItem, Assembly): the data and the operations that build an assembly.
  \<open>Item_Machine\<close> is the execution of a list of items on a stack, a step function with fuel for the number of steps: what a run
  does within some fuel it does with more, and the theorems say that for every fuel of the one run some fuel makes
  the other reach the same outcome. \<open>Rewriting\<close> is the simulation argument for passes, a locale. \<open>Peephole\<close> with \<open>Peephole_Correct\<close>
  (PeepholeOptimiser.cpp), \<open>Jumpdest_Remover\<close>, \<open>Block_Deduplicator\<close>, \<open>Constant_Optimiser\<close> with \<open>Constant_Correct\<close>
  are the passes; they return, and keep the outcomes of executions. Which tags the jump destination remover keeps is specified by
  the items that push them; the deduplication replaces tags by earlier ones in a bisimulation, and no execution is stated for it.
  \<open>Rule_List\<close> with \<open>Rule_Soundness\<close> (RuleList.h): patterns are evaluated by the interpreter, and every simplification rule
  keeps the value, but for one that is shadowed and for the four about \<open>CREATE\<close> and \<open>CREATE2\<close>, which drop the operands.
  \<open>Assembler\<close>, \<open>Assembler_Layout\<close>, \<open>Assembler_Links\<close>, \<open>Bytecode_Machine\<close>, \<open>Assembler_Properties\<close> (Assembly::assemble) and
  \<open>Linker_Object\<close>: the layout of the bytecode to its last byte, its execution, which is that of the items, and its links. Positions of
  data and size operands have 32 bits; the layout is that of code shorter than 2^32 bytes, the execution that of code whose sizes fit
  the widths reserved, which they need not (\<open>offset_cut_off\<close>).

  \<^bold>\<open>Yul.\<close> \<open>Yul_Syntax\<close> (AsmData.h, Dialect, Utilities); \<open>Yul_Interpreter\<close> (Interpreter.cpp), with fuel for the depth of calls
  and the rounds of loops; \<open>Yul_Step_Limit\<close>: with a limit of steps a fuel of the steps left is enough; \<open>Yul_Analysis\<close>
  (AsmScope, AsmScopeFiller, AsmAnalysis), \<open>Yul_Typing\<close> and \<open>Yul_Analysis_Sound\<close>: the interpreter fails no assertion on analysed
  programs. \<open>Yul_Scopes\<close> and \<open>Yul_Equivalence\<close> are the equivalence of programs for any fuel, closed under all constructs; with it
  \<open>Yul_Block_Passes\<close> (VarDeclInitializer, DeadCodeEliminator) and \<open>Yul_Control_Flow\<close> (ControlFlowSimplifier) prove that
  the passes return and keep the outcome. Their contract is the locale \<open>block_pass\<close>.

  \<^bold>\<open>The contract language.\<close> \<open>Value_Types\<close> (libpolynomial/ast/Types): the value types, their conversions and common types, which hold the
  values converted; \<open>Constant_Expressions\<close>: constants are computed exactly on rational numbers, but for negative powers of zero; \<open>Storage_Layout\<close>: the variables
  of a contract do not overlap in storage.

  \<^bold>\<open>Not modelled.\<close> The parser, the name resolution, the type checker and the code generators of the contract language, the
  interfaces (JSON, command line), the SMT encodings (they call external solvers), the LLL compiler and the printing
  of diagnostics. Of the assembly optimiser the elimination of common subexpressions with its knowledge of the state, and
  the gas estimates that need it; of Yul the code generation and the passes not named above. Loose assembly,
  with jumps and labels, is left out of the syntax tree.
\<close>

end
